(* ===== verification/Prelude.thy ===== *)
theory Prelude
  imports Main "HOL-Library.Word"
begin

text \<open>
  Shared vocabulary of the development: the byte and flag types, the named collections of
  rewrite rules, and generic lemmas on lists and words that several components use.
\<close>

named_theorems flag_simps \<open>membership of a single bit in a flag word\<close>
named_theorems ctype_simps \<open>definitions of the character classes of ctype.h\<close>
named_theorems buf_simps \<open>rules of the I/O buffer operations\<close>

type_synonym u8 = "8 word"
type_synonym u32 = "32 word"
type_synonym u64 = "64 word"

section \<open>Characters as bytes\<close>

abbreviation code :: "char \<Rightarrow> nat" where
  "code c \<equiv> of_char c"

abbreviation NUL :: char where
  "NUL \<equiv> CHR 0x00"

abbreviation LF :: char where
  "LF \<equiv> CHR 0x0A"

abbreviation CR :: char where
  "CR \<equiv> CHR 0x0D"

abbreviation TAB :: char where
  "TAB \<equiv> CHR 0x09"

abbreviation DQ :: char where
  "DQ \<equiv> CHR 0x22"

abbreviation crlf :: string where
  "crlf \<equiv> [CR, LF]"

section \<open>Flag words\<close>

text \<open>
  The code keeps sets of single-bit flags in an \<open>unsigned int\<close>. \<open>has w b\<close> is the test
  \<open>w & b\<close>, \<open>setf\<close> is \<open>w |= b\<close> and \<open>clrf\<close> is \<open>w &= ~b\<close>.
\<close>

definition has :: "u32 \<Rightarrow> u32 \<Rightarrow> bool" where
  "has w b \<longleftrightarrow> and w b \<noteq> 0"

definition setf :: "u32 \<Rightarrow> u32 \<Rightarrow> u32" where
  "setf w b = or w b"

definition clrf :: "u32 \<Rightarrow> u32 \<Rightarrow> u32" where
  "clrf w b = and w (not b)"

lemma and_or_eq_0: "and w (or a b) = 0 \<longleftrightarrow> and w a = 0 \<and> and w b = (0 :: u32)"
  by (auto simp: bit_eq_iff bit_simps)

lemma has_or [flag_simps]: "has w (or a b) \<longleftrightarrow> has w a \<or> has w b"
  by (auto simp: has_def and_or_eq_0)

lemma has_setf [flag_simps]: "has (setf w a) b \<longleftrightarrow> has w b \<or> has a b"
  using and_or_eq_0 [of b w a] by (auto simp: has_def setf_def and.commute)

lemma has_clrf_disjoint: "and a b = 0 \<Longrightarrow> has (clrf w a) b \<longleftrightarrow> has w b"
proof -
  assume ab: "and a b = 0"
  have "and (and w (not a)) b = and w b"
  proof (rule bit_word_eqI)
    fix n
    assume n: "n < LENGTH(32)"
    have "\<not> (bit a n \<and> bit b n)"
      using ab by (metis bit_0_eq bit_and_iff bot_apply bot_bool_def)
    then show "bit (and (and w (not a)) b) n = bit (and w b) n"
      using n by (auto simp: bit_simps)
  qed
  then show ?thesis by (simp add: has_def clrf_def)
qed

lemma has_clrf_sub: "and (not a) b = 0 \<Longrightarrow> \<not> has (clrf w a) b"
  by (simp add: has_def clrf_def and.assoc)

lemma has_0 [simp]: "\<not> has 0 b" by (simp add: has_def)

section \<open>Lists\<close>

lemma nth_append_plus [simp]: "(xs @ ys) ! (length xs + i) = ys ! i"
  by (simp add: nth_append)

lemma take_eq_prefix: "take (length p) s = p \<Longrightarrow> \<exists>r. s = p @ r"
  by (metis append_take_drop_id)

lemma find_cong_set: "(\<And>x. x \<in> set xs \<Longrightarrow> P x = Q x) \<Longrightarrow> find P xs = find Q xs"
  by (induction xs) auto

lemma find_append: "find P (xs @ ys) = (case find P xs of None \<Rightarrow> find P ys | Some x \<Rightarrow> Some x)"
  by (induction xs) auto

lemma find_SomeD: "find P xs = Some x \<Longrightarrow> P x \<and> x \<in> set xs"
  by (induction xs) (auto split: if_splits)

lemma nth_upd: "j < length xs \<Longrightarrow> xs[i := x] ! j = (if i = j then x else xs ! j)"
  by (cases "i = j") auto

lemma take_app_Cons: "take (length k + Suc n) (k @ x # ys) = k @ x # take n ys"
  by simp

lemma takeWhile_neq_id: "c \<notin> set xs \<Longrightarrow> takeWhile (\<lambda>x. x \<noteq> c) xs = xs"
  by (induction xs) auto

lemma dropWhile_neq_Nil: "c \<notin> set xs \<Longrightarrow> dropWhile (\<lambda>x. x \<noteq> c) xs = []"
  by (induction xs) auto

lemma takeWhile_neq_app: "c \<notin> set xs \<Longrightarrow> takeWhile (\<lambda>x. x \<noteq> c) (xs @ c # ys) = xs"
  by (induction xs) auto

lemma dropWhile_neq_app: "c \<notin> set xs \<Longrightarrow> dropWhile (\<lambda>x. x \<noteq> c) (xs @ c # ys) = c # ys"
  by (induction xs) auto

text \<open>
  \<open>splice xs i ys\<close> overwrites \<open>length ys\<close> elements of \<open>xs\<close> from index \<open>i\<close>: what
  \<open>memcpy(xs + i, ys, length ys)\<close> leaves in the array \<open>xs\<close>.
\<close>

definition overwrite :: "'a list \<Rightarrow> nat \<Rightarrow> 'a list \<Rightarrow> 'a list" where
  "overwrite xs i ys = take i xs @ ys @ drop (i + length ys) xs"

lemma length_overwrite [simp]:
  "i + length ys \<le> length xs \<Longrightarrow> length (overwrite xs i ys) = length xs"
  by (simp add: overwrite_def)

lemma take_overwrite: "i \<le> length xs \<Longrightarrow> take i (overwrite xs i ys) = take i xs"
  by (simp add: overwrite_def)

lemma take_overwrite_all:
  "i \<le> length xs \<Longrightarrow> take (i + length ys) (overwrite xs i ys) = take i xs @ ys"
  by (simp add: overwrite_def)

lemma overwrite_Nil [simp]: "overwrite xs i [] = xs"
  by (simp add: overwrite_def)

lemma nth_overwrite:
  assumes "i + length ys \<le> length xs" "j < length xs"
  shows "overwrite xs i ys ! j =
    (if j < i then xs ! j else if j < i + length ys then ys ! (j - i) else xs ! j)"
  using assms by (auto simp: overwrite_def nth_append)

end
