(* ===== verification/CString.thy ===== *)
theory CString
  imports Prelude
begin

text \<open>
  The part of the C standard library the sources use on characters and NUL-terminated
  strings, in the "C" locale: \<open>ctype.h\<close>, the searching functions of \<open>string.h\<close>,
  decimal conversion (\<open>strtoul\<close>, \<open>atoi\<close>), decimal and hexadecimal printing for
  \<open>printf\<close>, and a small interpreter for the \<open>scanf\<close> formats that occur.
  A C string is the list of its bytes before the terminating NUL; a read at or after the end
  of the list gives the NUL.
\<close>

section \<open>Character classes\<close>

definition isdigit :: "char \<Rightarrow> bool" where
  "isdigit c \<longleftrightarrow> 48 \<le> code c \<and> code c \<le> 57"

definition isupper :: "char \<Rightarrow> bool" where
  "isupper c \<longleftrightarrow> 65 \<le> code c \<and> code c \<le> 90"

definition islower :: "char \<Rightarrow> bool" where
  "islower c \<longleftrightarrow> 97 \<le> code c \<and> code c \<le> 122"

definition isxdigit :: "char \<Rightarrow> bool" where
  "isxdigit c \<longleftrightarrow> isdigit c \<or> (65 \<le> code c \<and> code c \<le> 70) \<or> (97 \<le> code c \<and> code c \<le> 102)"

definition isspace :: "char \<Rightarrow> bool" where
  "isspace c \<longleftrightarrow> (9 \<le> code c \<and> code c \<le> 13) \<or> code c = 32"

definition isprint :: "char \<Rightarrow> bool" where
  "isprint c \<longleftrightarrow> 32 \<le> code c \<and> code c \<le> 126"

definition tolower :: "char \<Rightarrow> char" where
  "tolower c = (if isupper c then char_of (code c + 32) else c)"

definition toupper :: "char \<Rightarrow> char" where
  "toupper c = (if islower c then char_of (code c - 32) else c)"

lemmas [ctype_simps] = isdigit_def isupper_def islower_def isxdigit_def isspace_def
  isprint_def tolower_def toupper_def

lemma code_char_of [simp]: "n < 256 \<Longrightarrow> code (char_of n) = n"
  by simp

lemma tolower_idem [simp]: "tolower (tolower c) = tolower c"
  by (auto simp: tolower_def isupper_def)

lemma tolower_NUL [simp]: "tolower NUL = NUL"
  by (simp add: tolower_def isupper_def)

lemma tolower_eq_NUL [simp]: "tolower c = NUL \<longleftrightarrow> c = NUL"
proof
  assume t: "tolower c = NUL"
  show "c = NUL"
  proof (cases "isupper c")
    case True
    then have "code (tolower c) = code c + 32"
      by (simp add: tolower_def isupper_def)
    then show ?thesis using t by simp
  qed (use t in \<open>simp add: tolower_def\<close>)
qed simp

section \<open>Reading a C string\<close>

definition chat :: "string \<Rightarrow> nat \<Rightarrow> char" where
  "chat s i = (if i < length s then s ! i else NUL)"

abbreviation chd :: "string \<Rightarrow> char" where
  "chd s \<equiv> chat s 0"

lemma chat_Nil [simp]: "chat [] i = NUL"
  by (simp add: chat_def)

lemma chat_Cons_0 [simp]: "chat (c # s) 0 = c"
  by (simp add: chat_def)

lemma chat_Cons_Suc [simp]: "chat (c # s) (Suc i) = chat s i"
  by (simp add: chat_def)

text \<open>The C string that starts at the beginning of a buffer.\<close>

definition cstr :: "char list \<Rightarrow> string" where
  "cstr m = takeWhile (\<lambda>c. c \<noteq> NUL) m"

lemma NUL_notin_cstr [simp]: "NUL \<notin> set (cstr m)"
  by (auto simp: cstr_def dest: set_takeWhileD)

lemma cstr_id [simp]: "NUL \<notin> set s \<Longrightarrow> cstr s = s"
  by (simp add: cstr_def takeWhile_neq_id)

lemma cstr_append_NUL [simp]: "NUL \<notin> set s \<Longrightarrow> cstr (s @ NUL # r) = s"
  by (simp add: cstr_def takeWhile_neq_app)

section \<open>Searching\<close>

text \<open>\<open>strchr\<close> returns the rest of the string from the first occurrence.\<close>

definition strchr :: "string \<Rightarrow> char \<Rightarrow> string option" where
  "strchr s c = (case dropWhile (\<lambda>x. x \<noteq> c) s of [] \<Rightarrow> None | r \<Rightarrow> Some r)"

definition strcspn :: "string \<Rightarrow> char set \<Rightarrow> nat" where
  "strcspn s D = length (takeWhile (\<lambda>c. c \<notin> D) s)"

definition strspn :: "string \<Rightarrow> char set \<Rightarrow> nat" where
  "strspn s D = length (takeWhile (\<lambda>c. c \<in> D) s)"

fun prefixb :: "'a list \<Rightarrow> 'a list \<Rightarrow> bool" where
  "prefixb [] s = True"
| "prefixb (x # xs) [] = False"
| "prefixb (x # xs) (y # ys) = (x = y \<and> prefixb xs ys)"

lemma prefixb_iff: "prefixb p s \<longleftrightarrow> (\<exists>r. s = p @ r)"
  by (induction p s rule: prefixb.induct) auto

lemma prefixb_take: "prefixb p s \<longleftrightarrow> take (length p) s = p"
  by (metis append_eq_conv_conj append_take_drop_id prefixb_iff)

text \<open>\<open>strstr\<close> used as a test.\<close>

fun strstr :: "string \<Rightarrow> string \<Rightarrow> bool" where
  "strstr [] p = (p = [])"
| "strstr (c # s) p = (prefixb p (c # s) \<or> strstr s p)"

lemma strstr_iff: "strstr s p \<longleftrightarrow> (\<exists>a b. s = a @ p @ b)"
proof (induction s)
  case (Cons c s)
  show ?case (is "_ \<longleftrightarrow> ?R")
  proof
    assume "strstr (c # s) p"
    then have "prefixb p (c # s) \<or> strstr s p" by simp
    then show ?R
    proof
      assume "prefixb p (c # s)"
      then obtain r where "c # s = [] @ p @ r" by (auto simp: prefixb_iff)
      then show ?R by blast
    next
      assume "strstr s p"
      then obtain a b where "s = a @ p @ b" using Cons.IH by blast
      then have "c # s = (c # a) @ p @ b" by simp
      then show ?R by blast
    qed
  next
    assume ?R
    then obtain a b where ab: "c # s = a @ p @ b" by blast
    show "strstr (c # s) p"
    proof (cases a)
      case Nil
      then have "prefixb p (c # s)" using ab by (simp add: prefixb_iff)
      then show ?thesis by simp
    next
      case (Cons x a')
      then have "s = a' @ p @ b" using ab by simp
      then show ?thesis using Cons.IH by auto
    qed
  qed
qed simp

section \<open>Decimal numbers\<close>

definition digit_val :: "char \<Rightarrow> nat" where
  "digit_val c = code c - 48"

definition digit_char :: "nat \<Rightarrow> char" where
  "digit_char d = char_of (48 + d)"

lemma digit_val_char [simp]: "d < 10 \<Longrightarrow> digit_val (digit_char d) = d"
  by (simp add: digit_val_def digit_char_def)

lemma isdigit_digit_char [simp]: "d < 10 \<Longrightarrow> isdigit (digit_char d)"
  by (simp add: isdigit_def digit_char_def)

fun dec :: "nat \<Rightarrow> string" where
  "dec n = (if n < 10 then [digit_char n] else dec (n div 10) @ [digit_char (n mod 10)])"

declare dec.simps [simp del]

definition dec_int :: "int \<Rightarrow> string" where
  "dec_int i = (if i < 0 then CHR ''-'' # dec (nat (- i)) else dec (nat i))"

definition digits_val :: "string \<Rightarrow> nat" where
  "digits_val ds = foldl (\<lambda>n c. n * 10 + digit_val c) 0 ds"

lemma digits_val_snoc [simp]: "digits_val (ds @ [c]) = digits_val ds * 10 + digit_val c"
  by (simp add: digits_val_def)

lemma dec_nonempty [simp]: "dec n \<noteq> []"
  by (subst dec.simps) simp

lemma dec_digits: "list_all isdigit (dec n)"
proof (induction n rule: dec.induct)
  case (1 n)
  show ?case
  proof (cases "n < 10")
    case True
    then show ?thesis by (subst dec.simps) simp
  next
    case False
    then have "list_all isdigit (dec (n div 10))" using 1 by simp
    then show ?thesis using False by (subst dec.simps) simp
  qed
qed

lemma digits_val_dec [simp]: "digits_val (dec n) = n"
proof (induction n rule: dec.induct)
  case (1 n)
  show ?case
  proof (cases "n < 10")
    case True
    then show ?thesis by (subst dec.simps) (simp add: digits_val_def)
  next
    case False
    then have "digits_val (dec (n div 10)) = n div 10" using 1 by simp
    then show ?thesis using False by (subst dec.simps) simp
  qed
qed

fun hexs :: "nat \<Rightarrow> string" where
  "hexs n = (if n < 16 then [''0123456789abcdef'' ! n]
     else hexs (n div 16) @ [''0123456789abcdef'' ! (n mod 16)])"

declare hexs.simps [simp del]

text \<open>\<open>strtoul(s, &end, 10)\<close>: the value and the number of characters consumed (0 when no
  digit was found, so that \<open>end == s\<close>). A value above \<open>ULONG_MAX\<close> is clamped, a minus sign
  negates in the unsigned type.\<close>

definition strtoul :: "string \<Rightarrow> u64 \<times> nat" where
  "strtoul s =
    (let sp = length (takeWhile isspace s);
         s1 = drop sp s;
         sg = (case s1 of c # _ \<Rightarrow> if c = CHR ''-'' \<or> c = CHR ''+'' then 1 else 0 | [] \<Rightarrow> 0);
         ds = takeWhile isdigit (drop sg s1)
     in if ds = [] then (0, 0)
        else let v = digits_val ds;
                 w = (if v < 2 ^ 64 then of_nat v else - 1)
             in (if chd s1 = CHR ''-'' \<and> v < 2 ^ 64 then - w else w, sp + sg + length ds))"

text \<open>\<open>atoi\<close>; a value outside the range of \<open>int\<close> is undefined behaviour in C and is left
  unbounded here.\<close>

definition atoi :: "string \<Rightarrow> int" where
  "atoi s =
    (let s1 = dropWhile isspace s
     in case s1 of
          [] \<Rightarrow> 0
        | c # r \<Rightarrow> if c = CHR ''-'' then - int (digits_val (takeWhile isdigit r))
                  else if c = CHR ''+'' then int (digits_val (takeWhile isdigit r))
                  else int (digits_val (takeWhile isdigit s1)))"

lemma takeWhile_digits_app:
  "list_all isdigit ds \<Longrightarrow> \<not> isdigit (chd r) \<Longrightarrow> takeWhile isdigit (ds @ r) = ds"
  by (induction ds) (auto simp: chat_def split: if_splits elim: list.set_cases, cases r, auto)

lemma isdigit_not_space: "isdigit c \<Longrightarrow> \<not> isspace c"
  by (auto simp: isdigit_def isspace_def)

lemma isdigit_not_sign: "isdigit c \<Longrightarrow> c \<noteq> CHR ''-'' \<and> c \<noteq> CHR ''+''"
  by (auto simp: isdigit_def)

lemma NUL_not_digit [simp]: "\<not> isdigit NUL"
  by (simp add: isdigit_def)

lemma strtoul_dec:
  assumes "n < 2 ^ 64" "\<not> isdigit (chd r)"
  shows "strtoul (dec n @ r) = (of_nat n, length (dec n))"
proof -
  obtain d ds where d: "dec n = d # ds" by (cases "dec n") auto
  have dig: "list_all isdigit (d # ds)" using dec_digits [of n] d by simp
  then have dd: "isdigit d" by simp
  have tw: "takeWhile isdigit ((d # ds) @ r) = d # ds"
    using takeWhile_digits_app [OF dig assms(2)] .
  have v: "digits_val (d # ds) = n" using digits_val_dec [of n] d by simp
  show ?thesis
    using tw v assms(1) isdigit_not_space [OF dd] isdigit_not_sign [OF dd] dd
    by (simp add: strtoul_def d Let_def)
qed

section \<open>scanf\<close>

text \<open>The directives that occur in the sources: \<open>%d\<close>, \<open>%lu\<close>, \<open>%ns\<close>, \<open>%*ns\<close>, \<open>%[^...]\<close>,
  white space and literal characters.\<close>

datatype scan_dir =
    SInt            \<comment> \<open>\<open>%d\<close>\<close>
  | SULong          \<comment> \<open>\<open>%lu\<close>\<close>
  | SStr nat        \<comment> \<open>\<open>%ns\<close>\<close>
  | SSkip nat       \<comment> \<open>\<open>%*ns\<close>\<close>
  | SNot "char list" \<comment> \<open>\<open>%[^...]\<close>\<close>
  | SSpace
  | SLit char

datatype scan_val = VInt int | VULong u64 | VStr string

definition scan_num :: "string \<Rightarrow> (bool \<times> nat \<times> string) option" where
  "scan_num s =
    (let s1 = dropWhile isspace s;
         neg = (chd s1 = CHR ''-'');
         s2 = (if neg \<or> chd s1 = CHR ''+'' then tl s1 else s1);
         ds = takeWhile isdigit s2
     in if ds = [] then None else Some (neg, digits_val ds, dropWhile isdigit s2))"

definition scan_word :: "nat \<Rightarrow> string \<Rightarrow> (string \<times> string) option" where
  "scan_word n s =
    (let s1 = dropWhile isspace s;
         w = take n (takeWhile (\<lambda>c. \<not> isspace c) s1)
     in if w = [] then None else Some (w, drop (length w) s1))"

fun sscanf :: "scan_dir list \<Rightarrow> string \<Rightarrow> scan_val list" where
  "sscanf [] s = []"
| "sscanf (SInt # f) s = (case scan_num s of None \<Rightarrow> []
     | Some (neg, n, r) \<Rightarrow> VInt (if neg then - int n else int n) # sscanf f r)"
| "sscanf (SULong # f) s = (case scan_num s of None \<Rightarrow> []
     | Some (neg, n, r) \<Rightarrow> VULong (let w = (if n < 2 ^ 64 then of_nat n else - 1)
                                    in if neg \<and> n < 2 ^ 64 then - w else w) # sscanf f r)"
| "sscanf (SStr n # f) s = (case scan_word n s of None \<Rightarrow> []
     | Some (w, r) \<Rightarrow> VStr w # sscanf f r)"
| "sscanf (SSkip n # f) s = (case scan_word n s of None \<Rightarrow> []
     | Some (w, r) \<Rightarrow> sscanf f r)"
| "sscanf (SNot D # f) s =
     (let w = takeWhile (\<lambda>c. c \<notin> set D) s
      in if w = [] then [] else VStr w # sscanf f (drop (length w) s))"
| "sscanf (SSpace # f) s = sscanf f (dropWhile isspace s)"
| "sscanf (SLit c # f) s = (case s of x # r \<Rightarrow> if x = c then sscanf f r else [] | [] \<Rightarrow> [])"

lemma scan_num_dec:
  assumes "\<not> isdigit (chd r)"
  shows "scan_num (dec n @ r) = Some (False, n, r)"
proof -
  obtain d ds where d: "dec n = d # ds" by (cases "dec n") auto
  have dig: "list_all isdigit (d # ds)" using dec_digits [of n] d by simp
  then have dd: "isdigit d" by simp
  have tw: "takeWhile isdigit ((d # ds) @ r) = d # ds"
    using takeWhile_digits_app [OF dig assms] .
  have "dropWhile isdigit ((d # ds) @ r) = r"
    using tw by (metis same_append_eq takeWhile_dropWhile_id)
  then show ?thesis
    using tw isdigit_not_space [OF dd] isdigit_not_sign [OF dd] dd digits_val_dec [of n] d
    by (simp add: scan_num_def Let_def)
qed

end
