(* ===== verification/Str.thy ===== *)
theory Str
  imports CString
begin

text \<open>
  \<open>string.c\<close> of shttpd and the list macro of \<open>defs.h\<close>: bounded copy, case-insensitive
  comparison, bounded printing, the words of a configuration list, and the file-extension
  test. A string argument is the list of its bytes up to the NUL.
\<close>

section \<open>Operations\<close>

text \<open>The bytes \<open>my_strlcpy\<close> stores at \<open>dst\<close>, the final NUL included.\<close>

fun my_strlcpy :: "string \<Rightarrow> nat \<Rightarrow> char list" where
  "my_strlcpy [] n = [NUL]"
| "my_strlcpy (c # src) n = (if c \<noteq> NUL \<and> 1 < n then c # my_strlcpy src (n - 1) else [NUL])"

text \<open>\<open>e = s1 + len - 1\<close>: the loop moves while more than one of the \<open>len\<close> bytes is left, so
  that the byte where it stops is always compared.\<close>

fun my_strncasecmp :: "string \<Rightarrow> string \<Rightarrow> nat \<Rightarrow> int" where
  "my_strncasecmp s1 s2 len =
     (if 1 < len \<and> chd s1 \<noteq> NUL \<and> chd s2 \<noteq> NUL \<and> tolower (chd s1) = tolower (chd s2)
      then my_strncasecmp (tl s1) (tl s2) (len - 1)
      else int (code (tolower (chd s1))) - int (code (tolower (chd s2))))"

declare my_strncasecmp.simps [simp del]

definition my_strndup :: "string \<Rightarrow> nat \<Rightarrow> string" where
  "my_strndup ptr len = cstr (my_strlcpy ptr (len + 1))"

definition my_strdup :: "string \<Rightarrow> string" where
  "my_strdup str = my_strndup str (length str)"

text \<open>\<open>my_snprintf buflen out\<close>: \<open>out\<close> is the full formatted text. The result is the return
  value and the bytes stored at \<open>buf\<close>.\<close>

definition my_snprintf :: "nat \<Rightarrow> string \<Rightarrow> nat \<times> char list" where
  "my_snprintf buflen out =
     (if buflen = 0 then (0, [])
      else let n = (if length out \<ge> buflen then buflen - 1 else length out)
           in (n, take n out @ [NUL]))"

definition DELIM_CHARS :: "char set" where
  "DELIM_CHARS = {CHR '' '', CHR '',''}"

text \<open>The iterations of \<open>FOR_EACH_WORD_IN_LIST(s, len)\<close>: the pointer \<open>s\<close> (as the rest of the
  string) and \<open>len\<close> at each entry of the body.\<close>

function words_in :: "string \<Rightarrow> (string \<times> nat) list" where
  "words_in s =
     (let len = strcspn s DELIM_CHARS
      in if len = 0 then []
         else (s, len) # words_in (drop (len + strspn (drop len s) DELIM_CHARS) s))"
  by pat_completeness auto
termination
proof (relation "measure length")
  fix s :: string and x :: nat
  assume x: "x = strcspn s DELIM_CHARS" and "x \<noteq> 0"
  then have "0 < length s" by (cases s) (auto simp: strcspn_def)
  with \<open>x \<noteq> 0\<close> show "(drop (x + strspn (drop x s) DELIM_CHARS) s, s) \<in> measure length"
    by simp
qed simp

declare words_in.simps [simp del]

text \<open>A configuration field that was never set is the null pointer.\<close>

definition FOR_EACH_WORD :: "string option \<Rightarrow> (string \<times> nat) list" where
  "FOR_EACH_WORD s = (case s of None \<Rightarrow> [] | Some t \<Rightarrow> words_in t)"

definition match_extension :: "string \<Rightarrow> string option \<Rightarrow> bool" where
  "match_extension path ext_list =
     (\<exists>(s, len) \<in> set (FOR_EACH_WORD ext_list).
        len < length path \<and> my_strncasecmp (drop (length path - len) path) s len = 0)"

section \<open>Bounded copy and print\<close>

lemma my_strlcpy_take: "NUL \<notin> set src \<Longrightarrow> my_strlcpy src n = take (n - 1) src @ [NUL]"
proof (induction src n rule: my_strlcpy.induct)
  case (2 c src n)
  show ?case
  proof (cases "1 < n")
    case True
    then obtain m where "n - 1 = Suc m" by (cases "n - 1") auto
    then show ?thesis using 2 True by (auto split: if_splits)
  qed (use 2 in auto)
qed simp

lemma my_strlcpy_length: "length (my_strlcpy src n) \<le> max 1 n"
proof (induction src n rule: my_strlcpy.induct)
  case (2 c src n)
  show ?case
  proof (cases "c \<noteq> NUL \<and> 1 < n")
    case True
    then have "length (my_strlcpy src (n - 1)) \<le> max 1 (n - 1)" using 2 by simp
    also have "max 1 (n - 1) = n - 1" using True by linarith
    finally show ?thesis using True by (simp, linarith)
  qed auto
qed simp

lemma my_strndup_eq: "NUL \<notin> set ptr \<Longrightarrow> my_strndup ptr len = take len ptr"
  by (metis NUL_notin_cstr add_diff_cancel_right' cstr_append_NUL my_strlcpy_take my_strndup_def
      in_set_takeD)

lemma my_strdup_id: "NUL \<notin> set s \<Longrightarrow> my_strdup s = s"
  by (simp add: my_strdup_def my_strndup_eq)

lemma my_snprintf_len: "0 < buflen \<Longrightarrow> length (snd (my_snprintf buflen out)) \<le> buflen"
  by (auto simp: my_snprintf_def Let_def min_def)

lemma my_snprintf_fits:
  "length out < buflen \<Longrightarrow> my_snprintf buflen out = (length out, out @ [NUL])"
  by (auto simp: my_snprintf_def Let_def)

section \<open>Case-insensitive comparison\<close>

lemma code_tolower_inj: "code (tolower a) = code (tolower b) \<longleftrightarrow> tolower a = tolower b"
  by simp

lemma chat0_Cons: "s \<noteq> [] \<Longrightarrow> s = chd s # tl s"
  by (cases s) auto

lemma chd_NUL: "NUL \<notin> set s \<Longrightarrow> chd s = NUL \<longleftrightarrow> s = []"
  by (cases s) auto

lemma my_strncasecmp_Nil1: "my_strncasecmp [] b n = - int (code (tolower (chd b)))"
  by (subst my_strncasecmp.simps) simp

lemma my_strncasecmp_Nil2: "my_strncasecmp a [] n = int (code (tolower (chd a)))"
  by (subst my_strncasecmp.simps) simp

lemma my_strncasecmp_Cons:
  "NUL \<noteq> x \<Longrightarrow> NUL \<noteq> y \<Longrightarrow> my_strncasecmp (x # xs) (y # ys) n =
    (if 1 < n \<and> tolower x = tolower y then my_strncasecmp xs ys (n - 1)
     else int (code (tolower x)) - int (code (tolower y)))"
  by (subst my_strncasecmp.simps) auto

lemma code_eq_0 [simp]: "code c = 0 \<longleftrightarrow> c = NUL"
proof
  assume "code c = 0"
  then have "code c = code NUL" by simp
  then show "c = NUL" by (simp only: of_char_eq_iff)
qed simp

lemma my_strncasecmp_eq0:
  assumes "NUL \<notin> set a" "NUL \<notin> set b" "0 < n"
  shows "my_strncasecmp a b n = 0 \<longleftrightarrow> map tolower (take n a) = map tolower (take n b)"
  using assms
proof (induction a arbitrary: b n)
  case Nil
  then show ?case by (auto simp: my_strncasecmp_Nil1 chd_NUL)
next
  case (Cons x xs)
  show ?case
  proof (cases b)
    case Nil
    then show ?thesis using Cons.prems by (auto simp: my_strncasecmp_Nil2)
  next
    case b: (Cons y ys)
    obtain m where n: "n = Suc m" using Cons.prems by (cases n) auto
    show ?thesis
    proof (cases "0 < m \<and> tolower x = tolower y")
      case True
      then show ?thesis
        using Cons.IH [of ys m] Cons.prems b n by (simp add: my_strncasecmp_Cons)
    next
      case False
      then show ?thesis using Cons.prems b n by (auto simp: my_strncasecmp_Cons)
    qed
  qed
qed

text \<open>Comparison with the whole of a string \<open>a\<close>; the other side is any memory.\<close>

lemma my_strncasecmp_prefix:
  "NUL \<notin> set a \<Longrightarrow> a \<noteq> [] \<Longrightarrow>
   my_strncasecmp a m (length a) = 0 \<longleftrightarrow> map tolower a = map tolower (take (length a) m)"
proof (induction a arbitrary: m)
  case (Cons x a)
  show ?case
  proof (cases m)
    case Nil
    then show ?thesis using Cons.prems by (auto simp: my_strncasecmp_Nil2)
  next
    case m: (Cons y m')
    show ?thesis
    proof (cases "a = []")
      case True
      then show ?thesis using m Cons.prems
        by (subst my_strncasecmp.simps) auto
    next
      case False
      have y: "y = NUL \<Longrightarrow> tolower x \<noteq> tolower y" using Cons.prems by auto
      show ?thesis using m Cons y False
        by (subst my_strncasecmp.simps) (auto split: if_splits)
    qed
  qed
qed simp

lemma my_strncasecmp_sym: "my_strncasecmp b a n = - my_strncasecmp a b n"
proof (induction a b n rule: my_strncasecmp.induct)
  case (1 a b n)
  show ?case
  proof (cases "1 < n \<and> chd a \<noteq> NUL \<and> chd b \<noteq> NUL \<and> tolower (chd a) = tolower (chd b)")
    case True
    then show ?thesis using 1
      by (subst my_strncasecmp.simps, subst (2) my_strncasecmp.simps) simp
  next
    case False
    then show ?thesis
      by (subst my_strncasecmp.simps, subst (2) my_strncasecmp.simps) auto
  qed
qed

lemma my_strncasecmp_prefix2:
  "NUL \<notin> set a \<Longrightarrow> a \<noteq> [] \<Longrightarrow>
   my_strncasecmp m a (length a) = 0 \<longleftrightarrow> map tolower a = map tolower (take (length a) m)"
  using my_strncasecmp_prefix [of a m] my_strncasecmp_sym [of m a] by simp

text \<open>With \<open>len = 0\<close> the first bytes are compared all the same.\<close>

lemma my_strncasecmp_0:
  "my_strncasecmp a b 0 = int (code (tolower (chd a))) - int (code (tolower (chd b)))"
  by (subst my_strncasecmp.simps) simp

section \<open>Configuration lists\<close>

lemma strcspn_word:
  "set w \<inter> DELIM_CHARS = {} \<Longrightarrow> d \<in> DELIM_CHARS \<Longrightarrow> strcspn (w @ d # r) DELIM_CHARS = length w"
  by (induction w) (auto simp: strcspn_def)

lemma strcspn_all: "set w \<inter> D = {} \<Longrightarrow> strcspn w D = length w"
  by (induction w) (auto simp: strcspn_def)

lemma strspn_one: "d \<in> D \<Longrightarrow> chd r \<notin> D \<or> r = [] \<Longrightarrow> strspn (d # r) D = 1"
  by (cases r) (auto simp: strspn_def)

fun join :: "char \<Rightarrow> string list \<Rightarrow> string" where
  "join d [] = []"
| "join d [w] = w"
| "join d (w # v # ws) = w @ d # join d (v # ws)"

definition is_word :: "string \<Rightarrow> bool" where
  "is_word w \<longleftrightarrow> w \<noteq> [] \<and> set w \<inter> DELIM_CHARS = {}"

definition word_of :: "string \<times> nat \<Rightarrow> string" where
  "word_of p = take (snd p) (fst p)"

lemma join_hd: "is_word w \<Longrightarrow> chd (join d (w # ws)) \<notin> DELIM_CHARS"
  by (cases ws; cases w) (auto simp: is_word_def)

lemma words_in_join:
  assumes "d \<in> DELIM_CHARS" "list_all is_word ws"
  shows "map word_of (words_in (join d ws)) = ws"
  using assms
proof (induction d ws rule: join.induct)
  case (1 d)
  then show ?case by (subst words_in.simps) (simp add: strcspn_def)
next
  case (2 d w)
  then have "strcspn w DELIM_CHARS = length w" by (simp add: strcspn_all is_word_def)
  moreover have "words_in [] = []" by (subst words_in.simps) (simp add: strcspn_def)
  ultimately show ?case
    using 2 by (subst words_in.simps) (simp add: is_word_def word_of_def Let_def)
next
  case (3 d w v ws)
  let ?r = "join d (v # ws)"
  have w: "set w \<inter> DELIM_CHARS = {}" "w \<noteq> []" using 3 by (auto simp: is_word_def)
  have c: "strcspn (w @ d # ?r) DELIM_CHARS = length w" using 3 w by (simp add: strcspn_word)
  have "strspn (d # ?r) DELIM_CHARS = 1" using 3 by (simp add: strspn_one join_hd)
  then have "words_in (w @ d # ?r) = (w @ d # ?r, length w) # words_in ?r"
    using c w by (subst words_in.simps) (simp add: Let_def)
  then show ?case using 3 by (simp add: word_of_def)
qed

lemma words_in_leading_delim: "chd s \<in> DELIM_CHARS \<Longrightarrow> words_in s = []"
  by (subst words_in.simps, cases s) (auto simp: strcspn_def Let_def)

lemma words_in_nonempty: "(p, l) \<in> set (words_in s) \<Longrightarrow> 0 < l \<and> l \<le> length p"
proof (induction s rule: words_in.induct)
  case (1 s)
  have "strcspn s DELIM_CHARS \<le> length s"
    by (simp add: strcspn_def length_takeWhile_le)
  then show ?case
    using 1 by (subst (asm) (2) words_in.simps) (auto simp: Let_def split: if_splits)
qed

section \<open>Properties\<close>

lemma match_extension_words:
  assumes "NUL \<notin> set path" "\<forall>(p, l) \<in> set (words_in s). NUL \<notin> set p"
  shows "match_extension path (Some s) \<longleftrightarrow>
    (\<exists>w \<in> set (map word_of (words_in s)). \<exists>b e. path = b @ e \<and> b \<noteq> [] \<and> map tolower e = map tolower w)"
proof -
  have "l < length path \<and> my_strncasecmp (drop (length path - l) path) p l = 0 \<longleftrightarrow>
      (\<exists>b e. path = b @ e \<and> b \<noteq> [] \<and> map tolower e = map tolower (take l p))" (is "?L \<longleftrightarrow> ?R")
    if w: "(p, l) \<in> set (words_in s)" for p l
  proof -
    have n: "NUL \<notin> set p" "NUL \<notin> set path" "0 < l" "l \<le> length p"
      using assms w words_in_nonempty [OF w] by auto
    have "?L \<longleftrightarrow> l < length path \<and> map tolower (drop (length path - l) path) = map tolower (take l p)"
      using my_strncasecmp_eq0 [of "drop (length path - l) path" p l] n by (auto dest: in_set_dropD)
    also have "\<dots> \<longleftrightarrow> ?R"
    proof
      assume h: "l < length path \<and> map tolower (drop (length path - l) path) = map tolower (take l p)"
      then show ?R
        by (intro exI [of _ "take (length path - l) path"] exI [of _ "drop (length path - l) path"]) auto
    next
      assume ?R
      then obtain b e where be: "path = b @ e" "b \<noteq> []" "map tolower e = map tolower (take l p)" by blast
      have "length (map tolower e) = length (map tolower (take l p))" by (simp only: be(3))
      then have "length e = l" using n by simp
      then show "l < length path \<and> map tolower (drop (length path - l) path) = map tolower (take l p)"
        using be by (auto simp: length_greater_0_conv [symmetric] simp del: length_greater_0_conv)
    qed
    finally show ?thesis .
  qed
  then have "(\<exists>(p, l) \<in> set (words_in s). l < length path \<and> my_strncasecmp (drop (length path - l) path) p l = 0) \<longleftrightarrow>
      (\<exists>(p, l) \<in> set (words_in s). \<exists>b e. path = b @ e \<and> b \<noteq> [] \<and> map tolower e = map tolower (take l p))"
    by (intro bex_cong) auto
  then show ?thesis
    by (simp add: match_extension_def FOR_EACH_WORD_def word_of_def case_prod_unfold)
qed

lemma words_in_no_NUL: "NUL \<notin> set s \<Longrightarrow> (p, l) \<in> set (words_in s) \<Longrightarrow> NUL \<notin> set p"
proof (induction s rule: words_in.induct)
  case (1 s)
  then show ?case
    by (subst (asm) (2) words_in.simps) (auto simp: Let_def split: if_splits dest: in_set_dropD)
qed

lemma set_join: "NUL \<notin> set (join d ws) \<longleftrightarrow> list_all (\<lambda>w. NUL \<notin> set w) ws \<and> (NUL = d \<longrightarrow> length ws \<le> 1)"
  by (induction d ws rule: join.induct) auto

text \<open>C36: a path has an extension of a configured list, given as words joined by spaces or commas, if it
  ends with one of the words, case ignored, and is longer than it. No dot is asked for.\<close>

theorem match_extension_list:
  assumes "d \<in> DELIM_CHARS" "list_all is_word ws" "list_all (\<lambda>w. NUL \<notin> set w) ws" "NUL \<notin> set path"
  shows "match_extension path (Some (join d ws)) \<longleftrightarrow>
    (\<exists>w \<in> set ws. \<exists>b e. path = b @ e \<and> b \<noteq> [] \<and> map tolower e = map tolower w)"
proof -
  have "NUL \<notin> set (join d ws)" using assms by (auto simp: set_join DELIM_CHARS_def)
  then have "\<forall>(p, l) \<in> set (words_in (join d ws)). NUL \<notin> set p" using words_in_no_NUL by blast
  from match_extension_words [OF assms(4) this] show ?thesis
    by (simp only: words_in_join [OF assms(1,2)])
qed

theorem match_extension_list_witness:
  "match_extension ''/x.CGI'' (Some (join CHR '','' [''.pl'', ''.cgi''])) \<longleftrightarrow>
    (\<exists>w \<in> set [''.pl'', ''.cgi'']. \<exists>b e. ''/x.CGI'' = b @ e \<and> b \<noteq> [] \<and> map tolower e = map tolower w)"
  by (rule match_extension_list) (simp_all add: DELIM_CHARS_def is_word_def)

end
