(* ===== verification/IoBuf.thy ===== *)
theory IoBuf
  imports CString
begin

text \<open>
  \<open>io.h\<close> of shttpd: the buffer between a channel that is read and a channel that is written.
  Every function of the header is a definition; an assertion that fails is \<open>None\<close>. The locale
  \<open>byte_queue\<close> states the contract the data exchange relies on, and the buffer is its instance.
\<close>

section \<open>The buffer\<close>

text \<open>\<open>buf\<close> is never null here: its bytes are the list. Sizes and marks are values of the 64-bit
  \<open>size_t\<close>, written as numbers with the wrap-around of an addition explicit; the counter of all
  bytes read is compared with content lengths and is a word.\<close>

record io =
  io_buf :: "char list"
  io_size :: nat
  io_head :: nat
  io_tail :: nat
  io_total :: u64

definition io_clear :: "io \<Rightarrow> io option" where
  "io_clear i = (if 0 < io_size i then Some (i\<lparr>io_total := 0, io_tail := 0, io_head := 0\<rparr>) else None)"

text \<open>Pointers into the buffer are offsets.\<close>

definition io_space :: "io \<Rightarrow> nat option" where
  "io_space i = (if 0 < io_size i \<and> io_head i \<le> io_size i then Some (io_head i) else None)"

definition io_data :: "io \<Rightarrow> nat option" where
  "io_data i = (if 0 < io_size i \<and> io_tail i \<le> io_size i then Some (io_tail i) else None)"

definition io_space_len :: "io \<Rightarrow> nat option" where
  "io_space_len i =
     (if 0 < io_size i \<and> io_head i \<le> io_size i then Some (io_size i - io_head i) else None)"

definition io_data_len :: "io \<Rightarrow> nat option" where
  "io_data_len i =
     (if 0 < io_size i \<and> io_head i \<le> io_size i \<and> io_tail i \<le> io_head i
      then Some (io_head i - io_tail i) else None)"

definition io_inc_tail :: "io \<Rightarrow> nat \<Rightarrow> io option" where
  "io_inc_tail i n =
     (if 0 < io_size i \<and> io_tail i \<le> io_head i \<and> io_head i \<le> io_size i then
        let i1 = i\<lparr>io_tail := (io_tail i + n) mod 2 ^ 64\<rparr>
        in if io_tail i1 \<le> io_head i1
           then Some (if io_tail i1 = io_head i1 then i1\<lparr>io_head := 0, io_tail := 0\<rparr> else i1)
           else None
      else None)"

definition io_inc_head :: "io \<Rightarrow> nat \<Rightarrow> io option" where
  "io_inc_head i n =
     (if 0 < io_size i \<and> io_tail i \<le> io_head i then
        let i1 = i\<lparr>io_head := (io_head i + n) mod 2 ^ 64, io_total := io_total i + of_nat n\<rparr>
        in if io_head i1 \<le> io_size i1 then Some i1 else None
      else None)"

section \<open>Well-formed buffers and their content\<close>

definition io_ok :: "io \<Rightarrow> bool" where
  "io_ok i \<longleftrightarrow> 0 < io_size i \<and> io_tail i \<le> io_head i \<and> io_head i \<le> io_size i
     \<and> length (io_buf i) = io_size i \<and> io_size i < 2 ^ 63"

text \<open>The bytes between the two marks: read from one channel, not yet written to the other.\<close>

definition io_content :: "io \<Rightarrow> char list" where
  "io_content i = drop (io_tail i) (take (io_head i) (io_buf i))"

definition io_room :: "io \<Rightarrow> nat" where
  "io_room i = io_size i - io_head i"

definition io_new :: "nat \<Rightarrow> io" where
  "io_new n = \<lparr>io_buf = replicate n NUL, io_size = n, io_head = 0, io_tail = 0, io_total = 0\<rparr>"

lemma io_ok_new [buf_simps]: "0 < n \<Longrightarrow> n < 2 ^ 63 \<Longrightarrow> io_ok (io_new n)"
  by (simp add: io_ok_def io_new_def)

lemma io_clear_ok: "io_ok i \<Longrightarrow> \<exists>j. io_clear i = Some j \<and> io_ok j \<and> io_content j = []"
  by (simp add: io_ok_def io_clear_def io_content_def)

lemma io_len_ok [buf_simps]:
  assumes "io_ok i"
  shows "io_space_len i = Some (io_room i)" "io_data_len i = Some (length (io_content i))"
    "io_space i = Some (io_head i)" "io_data i = Some (io_tail i)"
  using assms by (auto simp: io_ok_def io_space_len_def io_data_len_def io_room_def io_content_def
      io_space_def io_data_def min_def)

lemma io_inc_tail_ok:
  assumes "io_ok i" "n \<le> length (io_content i)"
  shows "\<exists>j. io_inc_tail i n = Some j \<and> io_ok j \<and> io_content j = drop n (io_content i)
    \<and> io_total j = io_total i \<and> io_size j = io_size i"
  using assms by (auto simp: io_inc_tail_def io_ok_def io_content_def Let_def add.commute)

lemma io_inc_tail_fails: "io_ok i \<Longrightarrow> length (io_content i) < n \<Longrightarrow> n < 2 ^ 63 \<Longrightarrow> io_inc_tail i n = None"
  by (auto simp: io_inc_tail_def io_ok_def io_content_def Let_def)

lemma io_inc_head_fails: "io_ok i \<Longrightarrow> io_room i < n \<Longrightarrow> n < 2 ^ 63 \<Longrightarrow> io_inc_head i n = None"
  by (auto simp: io_inc_head_def io_ok_def io_room_def Let_def)

section \<open>Queue operations\<close>

text \<open>What a channel does when it stores \<open>d\<close> at \<open>io_space\<close> and the head moves, and what is left
  when \<open>n\<close> bytes at \<open>io_data\<close> were written out.\<close>

definition io_put :: "io \<Rightarrow> char list \<Rightarrow> io option" where
  "io_put i d = io_inc_head (i\<lparr>io_buf := overwrite (io_buf i) (io_head i) d\<rparr>) (length d)"

lemma io_put_ok:
  assumes "io_ok i" "length d \<le> io_room i"
  shows "\<exists>j. io_put i d = Some j \<and> io_ok j \<and> io_content j = io_content i @ d
    \<and> io_total j = io_total i + of_nat (length d) \<and> io_size j = io_size i"
  using assms
  by (auto simp: io_put_def io_inc_head_def io_ok_def io_content_def io_room_def Let_def
      take_overwrite_all)

text \<open>A queue of bytes with bounded room.\<close>

datatype qop = Put "char list" | Get nat

locale byte_queue =
  fixes ok :: "'q \<Rightarrow> bool" and content :: "'q \<Rightarrow> char list" and room :: "'q \<Rightarrow> nat"
    and put :: "'q \<Rightarrow> char list \<Rightarrow> 'q option" and get :: "'q \<Rightarrow> nat \<Rightarrow> 'q option"
  assumes put_ok: "ok q \<Longrightarrow> length d \<le> room q \<Longrightarrow>
      \<exists>q'. put q d = Some q' \<and> ok q' \<and> content q' = content q @ d"
    and get_ok: "ok q \<Longrightarrow> n \<le> length (content q) \<Longrightarrow>
      \<exists>q'. get q n = Some q' \<and> ok q' \<and> content q' = drop n (content q)"
begin

text \<open>A run of the queue: the bytes put in and the bytes taken out.\<close>

fun run :: "'q \<Rightarrow> qop list \<Rightarrow> (char list \<times> char list \<times> 'q) option" where
  "run q [] = Some ([], [], q)"
| "run q (Put d # ops) = (case put q d of None \<Rightarrow> None | Some q' \<Rightarrow>
     map_option (\<lambda>(i, out, q2). (d @ i, out, q2)) (run q' ops))"
| "run q (Get n # ops) = (case get q n of None \<Rightarrow> None | Some q' \<Rightarrow>
     map_option (\<lambda>(i, out, q2). (i, take n (content q) @ out, q2)) (run q' ops))"

fun fits :: "'q \<Rightarrow> qop list \<Rightarrow> bool" where
  "fits q [] = True"
| "fits q (Put d # ops) = (length d \<le> room q \<and> (case put q d of None \<Rightarrow> True | Some q' \<Rightarrow> fits q' ops))"
| "fits q (Get n # ops) = (n \<le> length (content q) \<and> (case get q n of None \<Rightarrow> True | Some q' \<Rightarrow> fits q' ops))"

lemma fifo:
  "ok q \<Longrightarrow> fits q ops \<Longrightarrow>
   \<exists>i out q'. run q ops = Some (i, out, q') \<and> ok q' \<and> content q @ i = out @ content q'"
proof (induction ops arbitrary: q)
  case (Cons op ops)
  show ?case
  proof (cases op)
    case (Put d)
    then obtain q1 where q1: "put q d = Some q1" "ok q1" "content q1 = content q @ d"
      using put_ok [OF Cons.prems(1), of d] Cons.prems(2) by auto
    then have "fits q1 ops" using Cons.prems(2) Put by simp
    from Cons.IH [OF q1(2) this] q1 Put show ?thesis by auto
  next
    case (Get n)
    then obtain q1 where q1: "get q n = Some q1" "ok q1" "content q1 = drop n (content q)"
      using get_ok [OF Cons.prems(1), of n] Cons.prems(2) by auto
    then have "fits q1 ops" using Cons.prems(2) Get by simp
    from Cons.IH [OF q1(2) this] obtain i out q' where
      r: "run q1 ops = Some (i, out, q')" "ok q'" "drop n (content q) @ i = out @ content q'"
      using q1 by auto
    have "content q @ i = take n (content q) @ (drop n (content q) @ i)"
      by (simp add: append_assoc [symmetric])
    then show ?thesis using r q1 Get by simp
  qed
qed simp

end

interpretation ioq: byte_queue io_ok io_content io_room io_put io_inc_tail
proof unfold_locales
  fix q and d :: "char list" assume "io_ok q" "length d \<le> io_room q"
  then show "\<exists>q'. io_put q d = Some q' \<and> io_ok q' \<and> io_content q' = io_content q @ d"
    using io_put_ok [of q d] by auto
next
  fix q n assume "io_ok q" "n \<le> length (io_content q)"
  then show "\<exists>q'. io_inc_tail q n = Some q' \<and> io_ok q' \<and> io_content q' = drop n (io_content q)"
    using io_inc_tail_ok [of q n] by auto
qed

text \<open>Draining the buffer completely gives the whole room back.\<close>

lemma io_drained_room: "io_ok i \<Longrightarrow> io_inc_tail i (length (io_content i)) = Some j \<Longrightarrow> io_room j = io_size i"
  by (auto simp: io_inc_tail_def io_ok_def io_content_def io_room_def Let_def min_def split: if_splits)

section \<open>Properties\<close>

text \<open>C23: an I/O buffer is a queue. For every sequence of stores and removals that keeps to the free
  room and to the bytes present, no assertion fails, the buffer stays well formed, and what was in it
  followed by what went in is what came out followed by what is left.\<close>

theorem io_buffer_fifo:
  assumes "io_ok i" "ioq.fits i ops"
  shows "\<exists>put got j. ioq.run i ops = Some (put, got, j) \<and> io_ok j \<and> io_content i @ put = got @ io_content j"
  using ioq.fifo [OF assms] by blast

theorem io_buffer_fifo_witness:
  "\<exists>put got j. ioq.run (io_new 4) [Put ''abc'', Get 2, Put ''d'', Get 2] = Some (put, got, j) \<and> io_ok j \<and>
     io_content (io_new 4) @ put = got @ io_content j"
  by (rule io_buffer_fifo)
    (simp_all add: io_ok_def io_new_def io_put_def io_room_def io_inc_head_def io_content_def
      io_inc_tail_def overwrite_def Let_def)



end
