(* ===== verification/Types.thy ===== *)
theory Types
  imports Str IoBuf
begin

text \<open>
  \<open>defs.h\<close> of shttpd: the data the server passes around. A pointer into a string is the rest of
  that string, a null pointer is \<open>None\<close>, the \<open>llhead\<close> lists are lists (theory \<open>LList\<close>), user
  callbacks and their data are numbers whose meaning is a parameter of the operating environment.
  The context is an argument of its own and not a field of the connection.
\<close>

section \<open>Substrings and parsed headers\<close>

record vec =
  vptr :: string
  vlen :: int

definition vbytes :: "vec \<Rightarrow> string" where
  "vbytes v = take (nat (vlen v)) (vptr v)"

definition vnull :: vec where
  "vnull = \<lparr>vptr = [], vlen = 0\<rparr>"

definition vec_of :: "string \<Rightarrow> vec" where
  "vec_of s = \<lparr>vptr = s, vlen = int (length s)\<rparr>"

lemma vbytes_vec_of [simp]: "vbytes (vec_of s) = s"
  by (simp add: vbytes_def vec_of_def)

lemma vlen_vec_of [simp]: "vlen (vec_of s) = int (length s)"
  by (simp add: vec_of_def)

lemma vnull_simps [simp]: "vlen vnull = 0" "vptr vnull = []" "vbytes vnull = []"
  by (simp_all add: vnull_def vbytes_def)

text \<open>Each header uses one member of \<open>union variant\<close>.\<close>

record headers =
  h_cl :: u64
  h_ct :: vec
  h_connection :: vec
  h_ims :: int
  h_user :: vec
  h_auth :: vec
  h_useragent :: vec
  h_referer :: vec
  h_cookie :: vec
  h_location :: vec
  h_range :: vec
  h_status :: u64
  h_transenc :: vec

definition headers0 :: headers where
  "headers0 = \<lparr>h_cl = 0, h_ct = vnull, h_connection = vnull, h_ims = 0, h_user = vnull,
     h_auth = vnull, h_useragent = vnull, h_referer = vnull, h_cookie = vnull,
     h_location = vnull, h_range = vnull, h_status = 0, h_transenc = vnull\<rparr>"

section \<open>Streams\<close>

datatype io_class = IO_FILE | IO_SOCKET | IO_SSL | IO_CGI | IO_DIR | IO_EMBEDDED | IO_SSI

text \<open>The members of \<open>union channel\<close>; the class of the stream says which one is in use.\<close>

record channel =
  ch_fd :: int
  ch_dirp :: "string list option"
  ch_path :: "string option"
  ch_state :: nat
  ch_func :: nat
  ch_data :: nat

record stream =
  chan :: channel
  sio :: io
  io_cls :: "io_class option"
  nread_last :: int
  headers_len :: int
  content_len :: u64
  sflags :: u32

definition FLAG_HEADERS_PARSED :: u32 where "FLAG_HEADERS_PARSED = 1"
definition FLAG_SSL_ACCEPTED :: u32 where "FLAG_SSL_ACCEPTED = 2"
definition FLAG_R :: u32 where "FLAG_R = 4"
definition FLAG_W :: u32 where "FLAG_W = 8"
definition FLAG_CLOSED :: u32 where "FLAG_CLOSED = 16"
definition FLAG_DONT_CLOSE :: u32 where "FLAG_DONT_CLOSE = 32"
definition FLAG_ALWAYS_READY :: u32 where "FLAG_ALWAYS_READY = 64"

lemmas flag_bits = FLAG_HEADERS_PARSED_def FLAG_SSL_ACCEPTED_def FLAG_R_def FLAG_W_def
  FLAG_CLOSED_def FLAG_DONT_CLOSE_def FLAG_ALWAYS_READY_def

text \<open>Stream flags are changed through these two updates.\<close>

abbreviation flag_on :: "u32 \<Rightarrow> stream \<Rightarrow> stream" where
  "flag_on b s \<equiv> s\<lparr>sflags := setf (sflags s) b\<rparr>"

abbreviation flag_off :: "u32 \<Rightarrow> stream \<Rightarrow> stream" where
  "flag_off b s \<equiv> s\<lparr>sflags := clrf (sflags s) b\<rparr>"

abbreviation flagged :: "stream \<Rightarrow> u32 \<Rightarrow> bool" where
  "flagged s b \<equiv> has (sflags s) b"

section \<open>Server-side includes\<close>

datatype ssi_state = SSI_PASS | SSI_BUF | SSI_EXEC | SSI_CALL

datatype ssi_cond = SSI_GO | SSI_STOP

text \<open>An open file or pipe is the text still to be read.\<close>

record ssi_inc =
  ssi_state :: ssi_state
  ssi_cond :: ssi_cond
  ssi_fp :: "string option"
  ssi_buf :: "char list"
  ssi_nbuf :: nat
  ssi_pipe :: "string option"

record ssi =
  ssi_nest :: nat
  ssi_incs :: "ssi_inc list"

section \<open>Connections\<close>

datatype http_method = METHOD_GET | METHOD_POST | METHOD_PUT | METHOD_DELETE | METHOD_HEAD

definition known_http_methods :: "(http_method \<times> string) list" where
  "known_http_methods = [(METHOD_GET, ''GET''), (METHOD_POST, ''POST''), (METHOD_PUT, ''PUT''),
     (METHOD_DELETE, ''DELETE''), (METHOD_HEAD, ''HEAD'')]"

fun method_name :: "http_method \<Rightarrow> string" where
  "method_name METHOD_GET = ''GET''"
| "method_name METHOD_POST = ''POST''"
| "method_name METHOD_PUT = ''PUT''"
| "method_name METHOD_DELETE = ''DELETE''"
| "method_name METHOD_HEAD = ''HEAD''"

lemma method_name_known: "(m, method_name m) \<in> set known_http_methods"
  by (cases m) (simp_all add: known_http_methods_def)

text \<open>\<open>c_request\<close> is the memory of the copied request, its NUL included; \<open>c_headers\<close> is the
  offset of the headers in it.\<close>

record conn =
  c_addr :: string
  c_port :: nat
  birth_time :: int
  expire_time :: int
  loc_port :: int
  c_status :: int
  c_method :: http_method
  c_uri :: "string option"
  major_version :: u64
  minor_version :: u64
  c_request :: "char list option"
  c_headers :: nat
  c_query :: "string option"
  path_info :: "string option"
  mime_type :: "string option"
  c_ch :: headers
  c_loc :: stream
  c_rem :: stream
  c_ssi :: "ssi option"

definition EXPIRE_TIME :: int where "EXPIRE_TIME = 3600"

text \<open>A connection as \<open>shttpd_add_socket\<close> sets it up after \<open>calloc\<close>.\<close>

definition chan0 :: channel where
  "chan0 = \<lparr>ch_fd = 0, ch_dirp = None, ch_path = None, ch_state = 0, ch_func = 0, ch_data = 0\<rparr>"

definition stream0 :: "nat \<Rightarrow> stream" where
  "stream0 n = \<lparr>chan = chan0, sio = io_new n, io_cls = None, nread_last = 0, headers_len = 0,
     content_len = 0, sflags = 0\<rparr>"

definition new_conn :: "nat \<Rightarrow> string \<Rightarrow> nat \<Rightarrow> int \<Rightarrow> int \<Rightarrow> int \<Rightarrow> conn" where
  "new_conn bufsz addr port lport sock now =
     \<lparr>c_addr = addr, c_port = port, birth_time = now, expire_time = now + EXPIRE_TIME, loc_port = lport,
      c_status = 0, c_method = METHOD_GET, c_uri = None, major_version = 0, minor_version = 0,
      c_request = None, c_headers = 0, c_query = None, path_info = None, mime_type = None,
      c_ch = headers0, c_loc = stream0 bufsz,
      c_rem = (stream0 bufsz)\<lparr>chan := chan0\<lparr>ch_fd := sock\<rparr>, io_cls := Some IO_SOCKET\<rparr>, c_ssi = None\<rparr>"

section \<open>The server context\<close>

record shttpd_ctx =
  start_time :: int
  nactive :: int
  nrequests :: u64
  ctx_in :: u64
  ctx_out :: u64
  ssl_ctx :: bool
  mime_types :: "(string \<times> string) list"
  registered_uris :: "(string \<times> nat \<times> nat) list"
  uri_auths :: "(string \<times> string) list"
  error_handlers :: "(int \<times> nat \<times> nat) list"
  access_log :: "string option"
  error_log :: "string option"
  put_auth_file :: "string option"
  document_root :: "string option"
  index_files :: "string option"
  ctx_aliases :: "string option"
  cgi_vars :: "string option"
  cgi_extensions :: "string option"
  cgi_interpreter :: "string option"
  ssi_extensions :: "string option"
  ssi_funcs :: "(string \<times> nat \<times> nat) list"
  auth_realm :: "string option"
  global_passwd_file :: "string option"
  ctx_uid :: "string option"
  ctx_ports :: "string option"
  dirlist :: int
  io_buf_size :: int
  inetd_mode :: int

text \<open>The context after \<open>memset\<close> and the initialisation of its lists.\<close>

definition zero_ctx :: shttpd_ctx where
  "zero_ctx = \<lparr>start_time = 0, nactive = 0, nrequests = 0, ctx_in = 0, ctx_out = 0, ssl_ctx = False,
     mime_types = [], registered_uris = [], uri_auths = [], error_handlers = [],
     access_log = None, error_log = None, put_auth_file = None, document_root = None,
     index_files = None, ctx_aliases = None, cgi_vars = None, cgi_extensions = None,
     cgi_interpreter = None, ssi_extensions = None, ssi_funcs = [], auth_realm = None,
     global_passwd_file = None, ctx_uid = None, ctx_ports = None, dirlist = 0, io_buf_size = 0,
     inetd_mode = 0\<rparr>"

text \<open>Reading a configuration string that is never null once the context is initialised.\<close>

definition str_of :: "string option \<Rightarrow> string" where
  "str_of s = (case s of None \<Rightarrow> [] | Some t \<Rightarrow> t)"

lemma str_of_Some [simp]: "str_of (Some s) = s"
  by (simp add: str_of_def)

definition ENV_MAX :: nat where "ENV_MAX = 4096"
definition CGI_ENV_VARS :: nat where "CGI_ENV_VARS = 64"
definition URI_MAX :: nat where "URI_MAX = 32768"
definition MIN_REQ_LEN :: nat where "MIN_REQ_LEN = 16"
definition HTPASSWD :: string where "HTPASSWD = ''.htpasswd''"

text \<open>\<open>FILENAME_MAX\<close> of the C library.\<close>

definition FILENAME_MAX :: nat where "FILENAME_MAX = 4096"

end
