(* ===== verification/Sys.thy ===== *)
theory Sys
  imports Types "HOL-Library.Monad_Syntax"
begin

text \<open>
  The operating environment of the server: the system calls, the C library functions on time and
  the user callbacks, collected in a record of functions over an abstract world \<open>'w\<close>. They are
  parameters of every definition that uses them. \<open>os_ok\<close> states what their documentation promises.
\<close>

record stat =
  st_dir :: bool
  st_size :: nat
  st_mtime :: int

datatype errno = EINTR | EWOULDBLOCK | EOTHER

text \<open>A read returns the bytes (none at the end of the file) or -1; a write the number of bytes
  taken or -1. \<open>errno\<close> is part of the world.\<close>

datatype rd = Got "char list" | RFail
datatype wr = Sent nat | WFail

fun rd_len :: "rd \<Rightarrow> int" where
  "rd_len (Got d) = int (length d)"
| "rd_len RFail = -1"

fun wr_len :: "wr \<Rightarrow> int" where
  "wr_len (Sent n) = int n"
| "wr_len WFail = -1"

fun rd_bytes :: "rd \<Rightarrow> char list" where
  "rd_bytes (Got d) = d"
| "rd_bytes RFail = []"

text \<open>What a user callback sees in \<open>struct shttpd_arg\<close> and what it leaves there.\<close>

record cb_in =
  cb_state :: nat
  cb_data :: nat
  cb_room :: nat
  cb_input :: "char list"
  cb_flags :: u32

record cb_out =
  cb_state' :: nat
  cb_output :: "char list"
  cb_taken :: nat
  cb_flags' :: u32

definition SHTTPD_END_OF_OUTPUT :: u32 where "SHTTPD_END_OF_OUTPUT = 1"
definition SHTTPD_CONNECTION_ERROR :: u32 where "SHTTPD_CONNECTION_ERROR = 2"
definition SHTTPD_SSI_EVAL_TRUE :: u32 where "SHTTPD_SSI_EVAL_TRUE = 16"

record 'w os =
  os_stat :: "'w \<Rightarrow> string \<Rightarrow> stat option"
  os_open :: "'w \<Rightarrow> string \<Rightarrow> bool \<Rightarrow> int \<times> 'w"
  os_read :: "'w \<Rightarrow> int \<Rightarrow> nat \<Rightarrow> rd \<times> 'w"
  os_write :: "'w \<Rightarrow> int \<Rightarrow> char list \<Rightarrow> wr \<times> 'w"
  os_recv :: "'w \<Rightarrow> int \<Rightarrow> nat \<Rightarrow> rd \<times> 'w"
  os_send :: "'w \<Rightarrow> int \<Rightarrow> char list \<Rightarrow> wr \<times> 'w"
  os_errno :: "'w \<Rightarrow> errno"
  os_ssl_accept :: "'w \<Rightarrow> int \<Rightarrow> int \<times> bool \<times> 'w"
  os_ssl_read :: "'w \<Rightarrow> int \<Rightarrow> nat \<Rightarrow> rd \<times> 'w"
  os_ssl_write :: "'w \<Rightarrow> int \<Rightarrow> char list \<Rightarrow> wr \<times> 'w"
  os_close :: "'w \<Rightarrow> int \<Rightarrow> 'w"
  os_seek :: "'w \<Rightarrow> int \<Rightarrow> u64 \<Rightarrow> 'w"
  os_fsize :: "'w \<Rightarrow> int \<Rightarrow> nat"
  os_remove :: "'w \<Rightarrow> string \<Rightarrow> bool \<times> 'w"
  os_mkdir :: "'w \<Rightarrow> string \<Rightarrow> bool \<times> 'w"
  os_opendir :: "'w \<Rightarrow> string \<Rightarrow> string list option"
  os_file :: "'w \<Rightarrow> string \<Rightarrow> string option"
  os_fdopen :: "'w \<Rightarrow> int \<Rightarrow> string option"
  os_popen :: "'w \<Rightarrow> string \<Rightarrow> string option"
  os_spawn :: "'w \<Rightarrow> string \<Rightarrow> string list \<Rightarrow> string \<Rightarrow> int \<times> 'w"
  os_callback :: "nat \<Rightarrow> cb_in \<Rightarrow> 'w \<Rightarrow> cb_out \<times> 'w"
  os_select :: "'w \<Rightarrow> int set \<Rightarrow> int set \<Rightarrow> int \<Rightarrow> (int set \<times> int set) option \<times> 'w"
  os_accept :: "'w \<Rightarrow> int \<Rightarrow> int list \<times> 'w"
  os_peer :: "'w \<Rightarrow> int \<Rightarrow> (string \<times> nat) option"
  os_port :: "'w \<Rightarrow> int \<Rightarrow> int"
  os_listen :: "'w \<Rightarrow> int \<Rightarrow> int \<times> 'w"
  os_now :: "'w \<Rightarrow> int"
  os_time :: "'w \<Rightarrow> 'w"
  os_log :: "'w \<Rightarrow> string \<Rightarrow> 'w"
  os_stack :: "char list"
  os_heap :: "char list"
  os_date :: "string \<Rightarrow> int \<Rightarrow> string"
  os_size_m :: "nat \<Rightarrow> string"
  os_mktime :: "string \<Rightarrow> int"
  os_getenv :: "string \<Rightarrow> string option"

text \<open>\<open>os_now\<close> is the variable \<open>current_time\<close>, which \<open>os_time\<close> sets; \<open>os_stack\<close> is what an
  uninitialised array holds and \<open>os_heap\<close> the bytes behind an allocated block.\<close>

text \<open>\<open>ERRNO == EINTR || ERRNO == EWOULDBLOCK\<close>.\<close>

definition try_again :: "'w os \<Rightarrow> 'w \<Rightarrow> bool" where
  "try_again S w \<longleftrightarrow> os_errno S w = EINTR \<or> os_errno S w = EWOULDBLOCK"

text \<open>A read never returns more than was asked for, a write never takes more than was offered, and a
  callback keeps to the two lengths it is given.\<close>

definition cb_ok :: "'w os \<Rightarrow> bool" where
  "cb_ok S \<longleftrightarrow> (\<forall>f a w. length (cb_output (fst (os_callback S f a w))) \<le> cb_room a \<and>
     cb_taken (fst (os_callback S f a w)) \<le> length (cb_input a))"

definition rw_ok :: "'w os \<Rightarrow> bool" where
  "rw_ok S \<longleftrightarrow>
     (\<forall>w fd n. length (rd_bytes (fst (os_read S w fd n))) \<le> n) \<and>
     (\<forall>w fd n. length (rd_bytes (fst (os_recv S w fd n))) \<le> n) \<and>
     (\<forall>w fd n. length (rd_bytes (fst (os_ssl_read S w fd n))) \<le> n) \<and>
     (\<forall>w fd d. wr_len (fst (os_write S w fd d)) \<le> int (length d)) \<and>
     (\<forall>w fd d. wr_len (fst (os_send S w fd d)) \<le> int (length d)) \<and>
     (\<forall>w fd d. wr_len (fst (os_ssl_write S w fd d)) \<le> int (length d))"

definition os_ok :: "'w os \<Rightarrow> bool" where
  "os_ok S \<longleftrightarrow> cb_ok S \<and> rw_ok S"

section \<open>An environment to compute with\<close>

text \<open>No files, sockets that take everything and have nothing to read, and a callback that ends at once.
  It keeps what is documented, and the concrete instances of the theorems use it.\<close>

definition null_os :: "'w os" where
  "null_os = \<lparr>
     os_stat = (\<lambda>w p. None), os_open = (\<lambda>w p b. (-1, w)), os_read = (\<lambda>w fd n. (Got [], w)),
     os_write = (\<lambda>w fd d. (Sent (length d), w)), os_recv = (\<lambda>w fd n. (Got [], w)),
     os_send = (\<lambda>w fd d. (Sent (length d), w)), os_errno = (\<lambda>w. EOTHER),
     os_ssl_accept = (\<lambda>w fd. (1, False, w)), os_ssl_read = (\<lambda>w fd n. (Got [], w)),
     os_ssl_write = (\<lambda>w fd d. (Sent (length d), w)), os_close = (\<lambda>w fd. w), os_seek = (\<lambda>w fd n. w),
     os_fsize = (\<lambda>w fd. 0), os_remove = (\<lambda>w p. (True, w)), os_mkdir = (\<lambda>w p. (True, w)),
     os_opendir = (\<lambda>w p. None), os_file = (\<lambda>w p. None), os_fdopen = (\<lambda>w fd. None),
     os_popen = (\<lambda>w p. None), os_spawn = (\<lambda>w p e d. (-1, w)),
     os_callback = (\<lambda>f a w. (\<lparr>cb_state' = cb_state a, cb_output = [], cb_taken = 0,
        cb_flags' = SHTTPD_END_OF_OUTPUT\<rparr>, w)),
     os_select = (\<lambda>w r s ms. (Some (r, s), w)), os_accept = (\<lambda>w fd. ([], w)),
     os_peer = (\<lambda>w fd. Some (''127.0.0.1'', 4711)), os_port = (\<lambda>w fd. 80), os_listen = (\<lambda>w p. (3, w)),
     os_now = (\<lambda>w. 0), os_time = (\<lambda>w. w), os_log = (\<lambda>w s. w), os_stack = [],
     os_heap = [NUL, NUL], os_date = (\<lambda>f t. ''-''), os_size_m = (\<lambda>n. ''-''), os_mktime = (\<lambda>s. 0),
     os_getenv = (\<lambda>n. None)\<rparr>"

lemma null_os_ok: "os_ok (null_os :: 'w os)"
  by (simp add: os_ok_def cb_ok_def rw_ok_def null_os_def)

end
