(* ===== verification/Url.thy ===== *)
theory Url
  imports Str
begin

text \<open>
  The URI routines of shttpd: percent decoding (\<open>url_decode\<close>), the removal of dot segments
  (\<open>remove_double_dots\<close>), alias lookup (\<open>is_alias\<close>), the wildcard matcher of registered URIs
  (\<open>match_regexp\<close>) and the lookup of form variables (\<open>shttpd_get_var\<close>).
  Where the code may read past a buffer the argument is the list of readable bytes, and a
  read beyond it is \<open>None\<close>.
\<close>

section \<open>Percent decoding\<close>

definition HEXTOI :: "char \<Rightarrow> nat" where
  "HEXTOI x = (if isdigit x then code x - 48 else code x - 87)"

definition hexbyte :: "char \<Rightarrow> char \<Rightarrow> char" where
  "hexbyte a b = char_of (HEXTOI (tolower a) * 16 + HEXTOI (tolower b))"

text \<open>\<open>m\<close>: the readable bytes from \<open>src + i\<close>; \<open>n\<close>: \<open>src_len - i\<close>; \<open>k\<close>: \<open>dst_len - 1 - j\<close>.\<close>

fun url_dec :: "char list \<Rightarrow> nat \<Rightarrow> nat \<Rightarrow> char list option" where
  "url_dec m 0 k = Some []"
| "url_dec m (Suc n) 0 = Some []"
| "url_dec [] (Suc n) (Suc k) = None"
| "url_dec (c # m) (Suc n) (Suc k) =
     (if c = CHR ''%'' then
        (case m of
           [] \<Rightarrow> None
         | a # m1 \<Rightarrow>
             if isxdigit a then
               (case m1 of
                  [] \<Rightarrow> None
                | b # m2 \<Rightarrow>
                    if isxdigit b
                    then map_option (Cons (hexbyte a b)) (url_dec m2 (n - 2) k)
                    else map_option (Cons CHR ''%'') (url_dec m n k))
             else map_option (Cons CHR ''%'') (url_dec m n k))
      else if c = CHR ''+'' then map_option (Cons CHR '' '') (url_dec m n k)
      else map_option (Cons c) (url_dec m n k))"

text \<open>The returned length and the bytes stored at \<open>dst\<close>, the NUL included.\<close>

definition url_decode :: "char list \<Rightarrow> nat \<Rightarrow> int \<Rightarrow> (nat \<times> char list) option" where
  "url_decode src src_len dst_len =
     map_option (\<lambda>d. (length d, d @ [NUL])) (url_dec src src_len (nat (dst_len - 1)))"

lemma url_dec_length: "url_dec m n k = Some d \<Longrightarrow> length d \<le> k \<and> length d \<le> n"
proof (induction m n k arbitrary: d rule: url_dec.induct)
  case (4 c m n k)
  then show ?case by (fastforce split: if_splits list.splits)
qed auto

lemma url_dec_cstring:
  "n \<le> length s \<Longrightarrow> \<exists>d. url_dec (s @ NUL # r) n k = Some d"
proof (induction n arbitrary: s k rule: less_induct)
  case (less n)
  show ?case
  proof (cases "n = 0 \<or> k = 0")
    case True
    then show ?thesis by (cases n; cases k) auto
  next
    case False
    then obtain n' k' where nk: "n = Suc n'" "k = Suc k'" by (cases n; cases k) auto
    then obtain c s' where s: "s = c # s'" using less.prems by (cases s) auto
    have step: "\<exists>d. url_dec (s' @ NUL # r) n' k' = Some d"
      using less.IH [of n' s' k'] less.prems nk s by simp
    show ?thesis
    proof (cases s')
      case Nil
      then show ?thesis using step nk s by (auto simp: isxdigit_def isdigit_def)
    next
      case (Cons a s2)
      show ?thesis
      proof (cases s2)
        case Nil
        then show ?thesis using step nk s Cons by (auto simp: isxdigit_def isdigit_def)
      next
        case s2: (Cons b s3)
        have "\<exists>d. url_dec (s3 @ NUL # r) (n' - 2) k' = Some d"
          using less.IH [of "n' - 2" s3 k'] less.prems nk s Cons s2 by simp
        then show ?thesis using step nk s Cons s2 by auto
      qed
    qed
  qed
qed

text \<open>A percent encoder in the sense of RFC 3986, every byte escaped that is not a letter,
  a digit or one of \<open>-._~\<close>.\<close>

definition hexdig :: "nat \<Rightarrow> char" where
  "hexdig d = (if d < 10 then char_of (48 + d) else char_of (55 + d))"

definition unreserved :: "char \<Rightarrow> bool" where
  "unreserved c \<longleftrightarrow> isdigit c \<or> isupper c \<or> islower c \<or> c \<in> {CHR ''-'', CHR ''.'', CHR ''_'', CHR ''~''}"

definition enc1 :: "char \<Rightarrow> string" where
  "enc1 c = (if unreserved c then [c] else [CHR ''%'', hexdig (code c div 16), hexdig (code c mod 16)])"

definition url_encode :: "string \<Rightarrow> string" where
  "url_encode s = concat (map enc1 s)"

lemma hexdig_props:
  assumes "d < 16"
  shows "isxdigit (hexdig d)" "HEXTOI (tolower (hexdig d)) = d"
proof -
  have "d \<in> set [0..<16]" using assms by simp
  then have "d \<in> {0, 1, 2, 3, 4, 5, 6, 7, 8, 9, 10, 11, 12, 13, 14, 15}"
    by (simp add: upt_rec numeral_eq_Suc)
  then show "isxdigit (hexdig d)" "HEXTOI (tolower (hexdig d)) = d"
    by (auto simp: hexdig_def HEXTOI_def ctype_simps)
qed

lemma hexbyte_hexdig: "hexbyte (hexdig (code c div 16)) (hexdig (code c mod 16)) = c"
proof -
  have "code c div 16 < 16" using nat_of_char_less_256 [of c]
    by (simp add: less_mult_imp_div_less)
  then show ?thesis by (simp add: hexbyte_def hexdig_props)
qed

lemma url_dec_0: "url_dec m n 0 = Some []"
  by (cases n) auto

lemma url_dec_encode:
  "url_dec (url_encode s @ r) (length (url_encode s)) k = Some (take k s)"
proof (induction s arbitrary: k)
  case Nil
  then show ?case by (simp add: url_encode_def)
next
  case (Cons c s)
  show ?case
  proof (cases k)
    case 0
    then show ?thesis by (simp add: url_dec_0)
  next
  case k: (Suc k')
  have e: "url_encode (c # s) = enc1 c @ url_encode s" by (simp add: url_encode_def)
  have IH: "url_dec (url_encode s @ r) (length (url_encode s)) k' = Some (take k' s)"
    using Cons.IH by simp
  show ?thesis
  proof (cases "unreserved c")
    case True
    then have "c \<noteq> CHR ''%''" "c \<noteq> CHR ''+''"
      by (auto simp: unreserved_def ctype_simps)
    then show ?thesis using True k IH by (simp add: e enc1_def)
  next
    case False
    have "code c div 16 < 16" using nat_of_char_less_256 [of c]
      by (simp add: less_mult_imp_div_less)
    then show ?thesis using False k IH
      by (simp add: e enc1_def hexdig_props hexbyte_hexdig)
  qed
  qed
qed

section \<open>Dot segments\<close>

function remove_double_dots :: "string \<Rightarrow> string" where
  "remove_double_dots [] = []"
| "remove_double_dots (c # s) =
     c # (if c = CHR ''/''
          then remove_double_dots (dropWhile (\<lambda>x. x = CHR ''.'' \<or> x = CHR ''/'') s)
          else remove_double_dots s)"
  by pat_completeness auto
termination
  by (relation "measure length") (auto simp: le_imp_less_Suc length_dropWhile_le)

lemma rdd_first: "chd (remove_double_dots s) = chd s"
  by (cases s) auto

text \<open>No slash of the result is followed by a dot or another slash.\<close>

fun clean :: "string \<Rightarrow> bool" where
  "clean (a # b # s) \<longleftrightarrow> \<not> (a = CHR ''/'' \<and> (b = CHR ''.'' \<or> b = CHR ''/'')) \<and> clean (b # s)"
| "clean s \<longleftrightarrow> True"

lemma clean_Cons: "clean (a # s) \<longleftrightarrow>
  \<not> (a = CHR ''/'' \<and> (chd s = CHR ''.'' \<or> chd s = CHR ''/'')) \<and> clean s"
  by (cases s) auto

lemma clean_rdd: "clean (remove_double_dots s)"
proof (induction s rule: remove_double_dots.induct)
  case (2 c s)
  let ?d = "dropWhile (\<lambda>x. x = CHR ''.'' \<or> x = CHR ''/'') s"
  have "chd ?d \<noteq> CHR ''.'' \<and> chd ?d \<noteq> CHR ''/''"
    using hd_dropWhile [of "\<lambda>x. x = CHR ''.'' \<or> x = CHR ''/''" s] by (cases "?d = []") (auto simp: chat_def hd_conv_nth)
  then show ?case using 2 by (auto simp: clean_Cons rdd_first)
qed simp

lemma rdd_id: "clean s \<Longrightarrow> remove_double_dots s = s"
proof (induction s)
  case (Cons c s)
  then have cs: "clean s" "\<not> (c = CHR ''/'' \<and> (chd s = CHR ''.'' \<or> chd s = CHR ''/''))"
    by (auto simp: clean_Cons)
  then have "c = CHR ''/'' \<Longrightarrow> dropWhile (\<lambda>x. x = CHR ''.'' \<or> x = CHR ''/'') s = s"
    by (cases s) auto
  then show ?case using Cons.IH cs by auto
qed simp

lemma clean_no_infix: "clean s \<Longrightarrow> \<not> strstr s ''/.'' \<and> \<not> strstr s ''//''"
proof (induction s)
  case (Cons c s)
  then show ?case by (cases s) (auto simp: clean_Cons)
qed simp

text \<open>The components of a path, between its slashes.\<close>

fun components :: "string \<Rightarrow> string list" where
  "components [] = [[]]"
| "components (c # s) =
     (if c = CHR ''/'' then [] # components s else (c # hd (components s)) # tl (components s))"

lemma components_hd: "components s \<noteq> []" "hd (components s) = takeWhile (\<lambda>c. c \<noteq> CHR ''/'') s"
  by (induction s) auto

lemma component_dot: "k \<in> set (tl (components s)) \<Longrightarrow> prefixb ''.'' k \<Longrightarrow> strstr s ''/.''"
proof (induction s)
  case (Cons c s)
  show ?case
  proof (cases "c = CHR ''/''")
    case True
    then have "k = hd (components s) \<or> k \<in> set (tl (components s))"
      using Cons.prems(1) components_hd(1) [of s] by (cases "components s") auto
    then show ?thesis
    proof
      assume "k = hd (components s)"
      then have "prefixb ''.'' (takeWhile (\<lambda>c. c \<noteq> CHR ''/'') s)" using Cons.prems(2) components_hd(2) [of s] by simp
      then show ?thesis using True by (cases s) (auto split: if_splits)
    qed (use Cons in simp)
  next
    case False
    then show ?thesis using Cons by simp
  qed
qed simp

lemma components_clean:
  assumes "clean (CHR ''/'' # t)"
  shows "list_all (\<lambda>k. \<not> prefixb ''.'' k) (components (CHR ''/'' # t))"
  using component_dot [of _ "CHR ''/'' # t"] clean_no_infix [OF assms] by (auto simp: list_all_iff)

section \<open>Aliases\<close>

text \<open>\<open>memchr(s, c, n)\<close>: the offset of the first \<open>c\<close> among the first \<open>n\<close> bytes.\<close>

definition memchr :: "char list \<Rightarrow> char \<Rightarrow> nat \<Rightarrow> nat option" where
  "memchr s c n =
     (let w = takeWhile (\<lambda>x. x \<noteq> c) (take n s)
      in if length w < min n (length s) then Some (length w) else None)"

text \<open>The mount point and the directory of the first alias whose name is a prefix of the URI.\<close>

definition is_alias :: "string option \<Rightarrow> string \<Rightarrow> (string \<times> string) option" where
  "is_alias aliases uri =
     map_option snd (find fst
       (map (\<lambda>(s, len). case memchr s CHR ''='' len of
               None \<Rightarrow> (False, [], [])
             | Some p \<Rightarrow> (prefixb (take p s) uri, take p s, take (len - (p + 1)) (drop (p + 1) s)))
          (FOR_EACH_WORD aliases)))"

section \<open>Registered URI patterns\<close>

text \<open>\<open>text\<close> is the list of readable bytes from the pointer on. \<open>star\<close> is the do-while loop:
  whether a match was found, and where \<open>text\<close> points after it.\<close>

function match_regexp :: "string \<Rightarrow> char list \<Rightarrow> bool option"
  and star :: "string \<Rightarrow> char list \<Rightarrow> (bool \<times> char list) option" where
  "match_regexp [] text = (case text of [] \<Rightarrow> None | c # _ \<Rightarrow> Some (c = NUL))"
| "match_regexp (x # re) text =
     (case (if x = CHR ''*'' then star re text else Some (False, text)) of
        None \<Rightarrow> None
      | Some (True, _) \<Rightarrow> Some True
      | Some (False, []) \<Rightarrow> None
      | Some (False, c # t) \<Rightarrow>
          if c \<noteq> NUL \<and> x = c then match_regexp re t else Some False)"
| "star re text =
     (case match_regexp re text of
        None \<Rightarrow> None
      | Some True \<Rightarrow> Some (True, text)
      | Some False \<Rightarrow>
          (case text of [] \<Rightarrow> None | c # t \<Rightarrow> if c \<noteq> NUL then star re t else Some (False, t)))"
  by pat_completeness auto
termination
  by (relation "measures [\<lambda>x. case x of Inl (re, t) \<Rightarrow> length re | Inr (re, t) \<Rightarrow> length re,
        \<lambda>x. case x of Inl (re, t) \<Rightarrow> 0 | Inr (re, t) \<Rightarrow> Suc (length t)]") auto


text \<open>The meaning of a pattern: a star stands for any bytes, every other byte for itself.\<close>

inductive globs :: "string \<Rightarrow> string \<Rightarrow> bool" where
  globs_nil: "globs [] []"
| globs_char: "x \<noteq> CHR ''*'' \<Longrightarrow> globs re s \<Longrightarrow> globs (x # re) (x # s)"
| globs_star: "globs re s \<Longrightarrow> globs (CHR ''*'' # re) (w @ s)"

inductive_cases globs_nilE: "globs [] s"
inductive_cases globs_ConsE: "globs (x # re) s"

text \<open>The memory behind the string: its NUL and then a byte that is not a star.\<close>

definition safe_after :: "char list \<Rightarrow> bool" where
  "safe_after m \<longleftrightarrow> (\<exists>c r. m = NUL # c # r \<and> c \<noteq> CHR ''*'')"

lemma star_spec:
  assumes "NUL \<notin> set s" "safe_after m"
    and IH: "\<And>t. NUL \<notin> set t \<Longrightarrow> match_regexp re (t @ m) = Some (globs re t)"
  shows "(\<exists>w t. s = w @ t \<and> globs re t \<and> star re (s @ m) = Some (True, t @ m)) \<or>
    ((\<forall>w t. s = w @ t \<longrightarrow> \<not> globs re t) \<and> star re (s @ m) = Some (False, tl m))"
  using assms(1)
proof (induction s)
  case Nil
  obtain c r where m: "m = NUL # c # r" using assms(2) by (auto simp: safe_after_def)
  show ?case using IH [of "[]"] by (cases "globs re []") (auto simp: m)
next
  case (Cons a s)
  have a: "a \<noteq> NUL" "NUL \<notin> set s" using Cons.prems by auto
  show ?case
  proof (cases "globs re (a # s)")
    case True
    then have "a # s = [] @ (a # s) \<and> globs re (a # s) \<and>
      star re ((a # s) @ m) = Some (True, (a # s) @ m)"
      using IH [of "a # s"] Cons.prems by simp
    then show ?thesis by blast
  next
    case False
    then have st: "star re ((a # s) @ m) = star re (s @ m)"
      using IH [of "a # s"] Cons.prems a by simp
    from Cons.IH [OF a(2)] show ?thesis
    proof
      assume "\<exists>w t. s = w @ t \<and> globs re t \<and> star re (s @ m) = Some (True, t @ m)"
      then obtain w t where "s = w @ t" "globs re t" "star re (s @ m) = Some (True, t @ m)"
        by blast
      then have "a # s = (a # w) @ t \<and> globs re t \<and> star re ((a # s) @ m) = Some (True, t @ m)"
        using st by simp
      then show ?thesis by blast
    next
      assume h: "(\<forall>w t. s = w @ t \<longrightarrow> \<not> globs re t) \<and> star re (s @ m) = Some (False, tl m)"
      have "\<forall>w t. a # s = w @ t \<longrightarrow> \<not> globs re t"
        using h False by (metis append_eq_Cons_conv)
      then show ?thesis using h st by simp
    qed
  qed
qed

lemma match_regexp_spec:
  "NUL \<notin> set re \<Longrightarrow> NUL \<notin> set s \<Longrightarrow> safe_after m \<Longrightarrow>
   match_regexp re (s @ m) = Some (globs re s)"
proof (induction re arbitrary: s)
  case Nil
  then show ?case
    by (cases s) (auto simp: safe_after_def intro: globs_nil elim: globs_nilE)
next
  case (Cons x re)
  have IH: "\<And>t. NUL \<notin> set t \<Longrightarrow> match_regexp re (t @ m) = Some (globs re t)"
    using Cons.IH Cons.prems by simp
  obtain c r where m: "m = NUL # c # r" "c \<noteq> CHR ''*''"
    using Cons.prems by (auto simp: safe_after_def)
  show ?case
  proof (cases "x = CHR ''*''")
    case True
    have "(\<exists>w t. s = w @ t \<and> globs re t \<and> star re (s @ m) = Some (True, t @ m)) \<or>
      ((\<forall>w t. s = w @ t \<longrightarrow> \<not> globs re t) \<and> star re (s @ m) = Some (False, tl m))"
      by (rule star_spec [OF Cons.prems(2,3)]) (rule IH)
    then show ?thesis
    proof (elim disjE exE conjE)
      fix w t
      assume "s = w @ t" "globs re t" "star re (s @ m) = Some (True, t @ m)"
      then show ?thesis using True globs_star [of re t w] by simp
    next
      assume no: "\<forall>w t. s = w @ t \<longrightarrow> \<not> globs re t"
        and st: "star re (s @ m) = Some (False, tl m)"
      have "\<not> globs (x # re) s" using no True by (auto elim: globs_ConsE)
      then show ?thesis using st True m by simp
    qed
  next
    case False
    show ?thesis
    proof (cases s)
      case Nil
      then show ?thesis using False m by (auto elim: globs_ConsE)
    next
      case (Cons a t)
      then have "match_regexp re (t @ m) = Some (globs re t)" "a \<noteq> NUL"
        using IH [of t] Cons.prems(2) by auto
      then show ?thesis using False Cons by (auto intro: globs_char elim: globs_ConsE)
    qed
  qed
qed

text \<open>The read behind the NUL can decide the answer.\<close>

lemma match_regexp_overread:
  "match_regexp ''*x'' (''a'' @ NUL # ''*x'' @ [NUL]) = Some True" "\<not> globs ''*x'' ''a''"
  by (simp, auto elim!: globs_ConsE globs_nilE simp: append_eq_Cons_conv)


text \<open>\<open>is_registered_uri\<close> walks the list of registrations; the callback is a parameter.\<close>

fun is_registered_uri :: "(string \<times> 'cb) list \<Rightarrow> char list \<Rightarrow> (string \<times> 'cb) option option" where
  "is_registered_uri [] uri = Some None"
| "is_registered_uri (r # rs) uri =
     (case match_regexp (fst r) uri of
        None \<Rightarrow> None
      | Some True \<Rightarrow> Some (Some r)
      | Some False \<Rightarrow> is_registered_uri rs uri)"

section \<open>Form variables\<close>

text \<open>The loop over \<open>p\<close>: \<open>m\<close> is the memory from \<open>p\<close>, \<open>n\<close> the number of bytes up to the end
  of the buffer. \<open>Some None\<close> is the return value 0.\<close>

fun get_var_at :: "string \<Rightarrow> char list \<Rightarrow> nat \<Rightarrow> int \<Rightarrow> char list option option" where
  "get_var_at var m n value_len =
     (if length var < n then
        (if my_strncasecmp var m (length var) = 0 \<and> chat m (length var) = CHR ''=''
         then (let p = drop (length var + 1) m;
                   r = n - (length var + 1);
                   l = (case memchr p CHR ''&'' r of None \<Rightarrow> r | Some i \<Rightarrow> i)
               in map_option (\<lambda>d. Some (snd d)) (url_decode p l value_len))
         else get_var_at var (tl m) (n - 1) value_len)
      else Some None)"

declare get_var_at.simps [simp del]

definition shttpd_get_var :: "string \<Rightarrow> char list \<Rightarrow> nat \<Rightarrow> int \<Rightarrow> char list option option" where
  "shttpd_get_var var buf buf_len value_len = get_var_at var buf buf_len value_len"

text \<open>A form body, and the variable the code finds in it.\<close>

fun form :: "(string \<times> string) list \<Rightarrow> string" where
  "form [] = []"
| "form [(k, v)] = k @ CHR ''='' # url_encode v"
| "form ((k, v) # p # ps) = k @ CHR ''='' # url_encode v @ CHR ''&'' # form (p # ps)"

definition var_at :: "string \<Rightarrow> char list \<Rightarrow> bool" where
  "var_at var m \<longleftrightarrow> my_strncasecmp var m (length var) = 0 \<and> chat m (length var) = CHR ''=''"

lemma get_var_skip:
  assumes "\<And>i. i < length w \<Longrightarrow> \<not> var_at var (drop i (w @ m))"
  shows "get_var_at var (w @ m) (length w + n) vl = get_var_at var m n vl"
  using assms
proof (induction w)
  case (Cons a w)
  have IH: "get_var_at var (w @ m) (length w + n) vl = get_var_at var m n vl"
  proof (rule Cons.IH)
    fix i
    assume "i < length w"
    then show "\<not> var_at var (drop i (w @ m))" using Cons.prems [of "Suc i"] by simp
  qed
  have no: "\<not> var_at var (a # w @ m)" using Cons.prems [of 0] by simp
  show ?case
  proof (cases "length var < length (a # w) + n")
    case True
    then show ?thesis
      using IH no by (subst get_var_at.simps) (auto simp: var_at_def)
  next
    case False
    then have "get_var_at var m n vl = Some None" "get_var_at var ((a # w) @ m) (length (a # w) + n) vl = Some None"
      by (subst get_var_at.simps; simp)+
    then show ?thesis by simp
  qed
qed simp

text \<open>Where the name can match: only at a suffix of the bytes before an equals sign.\<close>

definition form_delim :: "char set" where
  "form_delim = {NUL, CHR ''='', CHR ''&''}"

lemma tolower_delim: "d \<in> form_delim \<Longrightarrow> tolower x = tolower d \<longleftrightarrow> x = d"
proof -
  assume d: "d \<in> form_delim"
  have "isupper x \<Longrightarrow> 97 \<le> code (tolower x) \<and> code (tolower x) \<le> 122"
    by (simp add: tolower_def isupper_def)
  moreover have "tolower d = d" "code d < 97"
    using d by (auto simp: form_delim_def tolower_def isupper_def)
  ultimately show ?thesis by (cases "isupper x") (auto, auto simp: tolower_def)
qed

lemma var_at_iff:
  assumes "var \<noteq> []" "set var \<inter> form_delim = {}" "set u \<inter> form_delim = {}" "d \<in> form_delim"
  shows "var_at var (u @ d # r) \<longleftrightarrow> d = CHR ''='' \<and> map tolower u = map tolower var"
proof -
  have nul: "NUL \<notin> set var" using assms(2) by (auto simp: form_delim_def)
  have at: "var_at var (u @ d # r) \<longleftrightarrow>
    map tolower var = map tolower (take (length var) (u @ d # r)) \<and> chat (u @ d # r) (length var) = CHR ''=''"
    using my_strncasecmp_prefix [OF nul assms(1)] by (simp add: var_at_def)
  consider "length var < length u" | "length var = length u" | "length u < length var" by linarith
  then show ?thesis
  proof cases
    case 1
    then have "chat (u @ d # r) (length var) \<in> set u" by (simp add: chat_def nth_append)
    then have "chat (u @ d # r) (length var) \<noteq> CHR ''=''" using assms(3) by (auto simp: form_delim_def)
    moreover have "map tolower u \<noteq> map tolower var" using 1 by (auto dest: arg_cong [of _ _ length])
    ultimately show ?thesis using at by auto
  next
    case 2
    then show ?thesis using at by (auto simp: chat_def)
  next
    case 3
    have "map tolower var \<noteq> map tolower (take (length var) (u @ d # r))"
    proof
      assume "map tolower var = map tolower (take (length var) (u @ d # r))"
      then have "map tolower var ! length u = map tolower (take (length var) (u @ d # r)) ! length u" by simp
      moreover obtain j where "length var = length u + Suc j"
        using 3 less_imp_Suc_add by fastforce
      ultimately have "tolower (var ! length u) = tolower d" by (simp add: nth_append)
      then have "d \<in> set var" using 3 tolower_delim [OF assms(4)] by (metis nth_mem)
      then show False using assms by blast
    qed
    moreover have "map tolower u \<noteq> map tolower var" using 3 by (auto dest: arg_cong [of _ _ length])
    ultimately show ?thesis using at by auto
  qed
qed

lemma chd_suffix_NUL: "var_at var [] \<Longrightarrow> False"
  by (simp add: var_at_def)

lemma xdigit_no_delim: "isxdigit c \<Longrightarrow> c \<notin> form_delim"
  by (auto simp: form_delim_def ctype_simps)

lemma enc_no_delim: "set (url_encode v) \<inter> form_delim = {}"
proof -
  have "set (enc1 c) \<inter> form_delim = {}" for c
  proof (cases "unreserved c")
    case True
    then show ?thesis by (auto simp: enc1_def form_delim_def unreserved_def ctype_simps)
  next
    case False
    have "code c div 16 < 16" using nat_of_char_less_256 [of c]
      by (simp add: less_mult_imp_div_less)
    then have "isxdigit (hexdig (code c div 16))" "isxdigit (hexdig (code c mod 16))"
      by (simp_all add: hexdig_props)
    then show ?thesis using False xdigit_no_delim by (auto simp: enc1_def form_delim_def)
  qed
  then show ?thesis by (auto simp: url_encode_def)
qed

definition suffix_ci :: "string \<Rightarrow> string \<Rightarrow> bool" where
  "suffix_ci var k \<longleftrightarrow> length var \<le> length k \<and>
     map tolower (drop (length k - length var) k) = map tolower var"


lemma get_var_none:
  "(\<forall>c \<in> set w. c \<noteq> CHR ''='') \<Longrightarrow> get_var_at var (w @ r) (length w) vl = Some None"
proof (induction w)
  case (Cons a w)
  show ?case
  proof (cases "length var < length (a # w)")
    case True
    then have "chat ((a # w) @ r) (length var) = (a # w) ! length var"
      by (simp add: chat_def nth_append del: append_Cons)
    then have "chat ((a # w) @ r) (length var) \<noteq> CHR ''=''" using Cons.prems True by (metis nth_mem)
    then show ?thesis using Cons by (subst get_var_at.simps) auto
  qed (subst get_var_at.simps, simp)
qed (subst get_var_at.simps, simp)

lemma no_var_at:
  assumes "var \<noteq> []" "set var \<inter> form_delim = {}" "set k \<inter> form_delim = {}" "d \<in> form_delim"
    and "i \<le> length k" "d = CHR ''='' \<Longrightarrow> map tolower (drop i k) \<noteq> map tolower var"
  shows "\<not> var_at var (drop i (k @ d # r))"
proof -
  have "set (drop i k) \<inter> form_delim = {}" using assms(3) by (auto dest: in_set_dropD)
  then show ?thesis using var_at_iff [of var "drop i k" d r] assms by auto
qed

lemma suffix_ci_drop:
  "map tolower (drop i k) = map tolower var \<Longrightarrow> i \<le> length k \<Longrightarrow> var \<noteq> [] \<Longrightarrow>
   i = length k - length var \<and> length var \<le> length k \<and> suffix_ci var k"
proof -
  assume e: "map tolower (drop i k) = map tolower var" "i \<le> length k" "var \<noteq> []"
  then have "length k - i = length var" by (metis length_drop length_map)
  then have "i = length k - length var \<and> length var \<le> length k" using e(2) by linarith
  then show ?thesis using e by (simp add: suffix_ci_def)
qed

lemma get_var_miss:
  assumes v: "var \<noteq> []" "set var \<inter> form_delim = {}" and k: "set k \<inter> form_delim = {}"
    and no: "\<not> suffix_ci var k"
  shows "get_var_at var (k @ CHR ''='' # m) (length k + 1 + n) vl = get_var_at var m n vl"
proof -
  have "get_var_at var ((k @ ''='') @ m) (length (k @ ''='') + n) vl = get_var_at var m n vl"
  proof (rule get_var_skip)
    fix i assume i: "i < length (k @ ''='')"
    have "\<not> var_at var (drop i (k @ CHR ''='' # m))"
      by (rule no_var_at [OF v k]) (use i no v suffix_ci_drop in \<open>auto simp: form_delim_def\<close>)
    then show "\<not> var_at var (drop i ((k @ ''='') @ m))" by simp
  qed
  then show ?thesis by simp
qed

lemma get_var_value_skip:
  assumes v: "var \<noteq> []" "set var \<inter> form_delim = {}"
  shows "get_var_at var (url_encode x @ CHR ''&'' # m) (length (url_encode x) + 1 + n) vl =
    get_var_at var m n vl"
proof -
  have "get_var_at var ((url_encode x @ ''&'') @ m) (length (url_encode x @ ''&'') + n) vl =
    get_var_at var m n vl"
  proof (rule get_var_skip)
    fix i assume "i < length (url_encode x @ ''&'')"
    then have "\<not> var_at var (drop i (url_encode x @ CHR ''&'' # m))"
      by (intro no_var_at [OF v enc_no_delim]) (auto simp: form_delim_def)
    then show "\<not> var_at var (drop i ((url_encode x @ ''&'') @ m))" by simp
  qed
  then show ?thesis by simp
qed

lemma memchr_enc:
  "memchr (url_encode x @ CHR ''&'' # m) (CHR ''&'') (length (url_encode x) + Suc n) =
     Some (length (url_encode x))"
  "memchr (url_encode x @ m) (CHR ''&'') (length (url_encode x)) = None"
  using enc_no_delim [of x]
  by (auto simp: memchr_def Let_def form_delim_def takeWhile_neq_app takeWhile_neq_id)

lemma get_var_hit:
  assumes v: "var \<noteq> []" "set var \<inter> form_delim = {}" and k: "set k \<inter> form_delim = {}"
    and yes: "suffix_ci var k" and t: "n = 0 \<or> chd m = CHR ''&'' \<and> m \<noteq> []"
  shows "get_var_at var (k @ CHR ''='' # url_encode x @ m) (length k + 1 + length (url_encode x) + n) vl
    = Some (Some (take (nat (vl - 1)) x @ [NUL]))"
proof -
  define a where "a = take (length k - length var) k"
  define b where "b = drop (length k - length var) k"
  have ab: "k = a @ b" by (simp add: a_def b_def)
  have b: "map tolower b = map tolower var" "length b = length var"
    using yes by (auto simp: suffix_ci_def b_def)
  let ?m = "url_encode x @ m" and ?n = "length (url_encode x) + n"
  have "get_var_at var (a @ b @ CHR ''='' # ?m) (length a + (length b + 1 + ?n)) vl =
    get_var_at var (b @ CHR ''='' # ?m) (length b + 1 + ?n) vl"
  proof (rule get_var_skip)
    fix i assume i: "i < length a"
    have "\<not> var_at var (drop i (k @ CHR ''='' # ?m))"
    proof (rule no_var_at [OF v k])
      show "i \<le> length k" using i by (simp add: a_def)
      then show "map tolower (drop i k) \<noteq> map tolower var"
        using suffix_ci_drop [of i k var] v(1) i by (auto simp: a_def)
    qed (simp add: form_delim_def)
    then show "\<not> var_at var (drop i (a @ b @ CHR ''='' # ?m))" by (simp add: ab)
  qed
  moreover have "var_at var (b @ CHR ''='' # ?m)"
    using var_at_iff [OF v, of b "CHR ''=''" ?m] k b ab by (auto simp: form_delim_def)
  moreover have "(case memchr ?m CHR ''&'' ?n of None \<Rightarrow> ?n | Some i \<Rightarrow> i) = length (url_encode x)"
  proof (cases n)
    case 0
    then show ?thesis by (simp add: memchr_enc)
  next
    case (Suc n')
    then obtain m' where "m = CHR ''&'' # m'" using t by (cases m) auto
    then show ?thesis using memchr_enc(1) [of x m' n'] Suc by simp
  qed
  ultimately show ?thesis
    by (simp add: ab add.assoc, subst get_var_at.simps)
      (simp add: var_at_def b url_decode_def url_dec_encode Let_def)
qed

lemma get_var_form:
  assumes "var \<noteq> []" "set var \<inter> form_delim = {}" "\<forall>p \<in> set kvs. set (fst p) \<inter> form_delim = {}"
  shows "shttpd_get_var var (form kvs @ r) (length (form kvs)) vl =
    Some (map_option (\<lambda>p. take (nat (vl - 1)) (snd p) @ [NUL]) (find (\<lambda>p. suffix_ci var (fst p)) kvs))"
  using assms unfolding shttpd_get_var_def
proof (induction kvs rule: form.induct)
  case 1
  then show ?case by (subst get_var_at.simps) simp
next
  case (2 k v)
  then show ?case
    using get_var_hit [of var k 0 r v vl] get_var_miss [of var k "url_encode v @ r" "length (url_encode v)" vl]
      get_var_none [of "url_encode v" var r vl] enc_no_delim [of v]
    by (cases "suffix_ci var k") (auto simp: form_delim_def)
next
  case (3 k v p ps)
  let ?f = "form (p # ps)"
  show ?case
  proof (cases "suffix_ci var k")
    case True
    then show ?thesis
      using get_var_hit [of var k "1 + length ?f" "CHR ''&'' # ?f @ r" v vl] 3 by (simp add: add.assoc)
  next
    case False
    have "get_var_at var (k @ CHR ''='' # url_encode v @ CHR ''&'' # ?f @ r)
        (length k + 1 + (length (url_encode v) + 1 + length ?f)) vl = get_var_at var (?f @ r) (length ?f) vl"
      by (rule trans [OF get_var_miss get_var_value_skip]) (use 3 False in auto)
    moreover have "length (form ((k, v) # p # ps)) = length k + 1 + (length (url_encode v) + 1 + length ?f)"
      "form ((k, v) # p # ps) @ r = k @ CHR ''='' # url_encode v @ CHR ''&'' # ?f @ r"
      by simp_all
    ultimately have "get_var_at var (form ((k, v) # p # ps) @ r) (length (form ((k, v) # p # ps))) vl =
        get_var_at var (?f @ r) (length ?f) vl"
      by (simp only:)
    then show ?thesis using 3 False by simp
  qed
qed

section \<open>Properties\<close>

text \<open>C28: decoding a URL-encoded text gives the text back, cut to the room of the destination and
  terminated, whatever bytes follow the encoded text in memory.\<close>

theorem url_decode_encode:
  assumes "0 < dst_len"
  shows "url_decode (url_encode s @ r) (length (url_encode s)) dst_len =
    Some (min (length s) (nat (dst_len - 1)), take (nat (dst_len - 1)) s @ [NUL])"
  using assms by (simp add: url_decode_def url_dec_encode)

theorem url_decode_encode_witness:
  "url_decode (url_encode ''a b/c'' @ ''%41'') (length (url_encode ''a b/c'')) 4 =
    Some (min (length ''a b/c'') (nat (4 - 1)), take (nat (4 - 1)) ''a b/c'' @ [NUL])"
  by (rule url_decode_encode) simp


text \<open>C26: the matcher of registered URIs decides the language of its pattern, a star standing for any
  text, when the bytes behind the URI do not continue the pattern.\<close>

theorem match_regexp_globs:
  assumes "NUL \<notin> set re" "NUL \<notin> set s" "c \<noteq> CHR ''*''"
  shows "match_regexp re (s @ NUL # c # r) = Some (globs re s)"
  by (rule match_regexp_spec) (use assms in \<open>simp_all add: safe_after_def\<close>)

theorem match_regexp_globs_witness:
  "match_regexp ''/a/*'' (''/a/b'' @ NUL # CHR ''x'' # []) = Some (globs ''/a/*'' ''/a/b'')"
  by (rule match_regexp_globs) simp_all

text \<open>C27: a variable of a submitted form is found under any name that has the wanted name as a suffix,
  without regard to case, and the first such pair gives the decoded value, cut to the room given.\<close>

theorem shttpd_get_var_form:
  assumes "var \<noteq> []" "set var \<inter> form_delim = {}" "\<forall>p \<in> set kvs. set (fst p) \<inter> form_delim = {}"
  shows "shttpd_get_var var (form kvs @ r) (length (form kvs)) vl =
    Some (map_option (\<lambda>p. take (nat (vl - 1)) (snd p) @ [NUL]) (find (\<lambda>p. suffix_ci var (fst p)) kvs))"
  by (rule get_var_form [OF assms])

theorem shttpd_get_var_form_witness:
  "shttpd_get_var ''x'' (form [(''maX'', ''1''), (''x'', ''2&3'')] @ []) (length (form [(''maX'', ''1''), (''x'', ''2&3'')])) 10 =
    Some (map_option (\<lambda>p. take (nat (10 - 1)) (snd p) @ [NUL])
      (find (\<lambda>p. suffix_ci ''x'' (fst p)) [(''maX'', ''1''), (''x'', ''2&3'')]))"
  by (rule shttpd_get_var_form) (simp_all add: form_delim_def)

end
