(* ===== verification/Streams.thy ===== *)
theory Streams
  imports Sys Url
begin

text \<open>
  Streams of \<open>shttpd.c\<close> and the close and callback routines of the \<open>io_*.c\<close> classes: a connection
  has a local stream (file, directory, CGI, include, callback) and a remote one (socket, SSL).
  \<open>None\<close> is a failed assertion or an access outside a buffer. The invariant \<open>conn_ok\<close> says that
  both buffers are well formed; the lemmas show that the operations keep it.
\<close>

datatype side = Loc | Rem

fun strm :: "side \<Rightarrow> conn \<Rightarrow> stream" where
  "strm Loc c = c_loc c"
| "strm Rem c = c_rem c"

fun upd_strm :: "side \<Rightarrow> (stream \<Rightarrow> stream) \<Rightarrow> conn \<Rightarrow> conn" where
  "upd_strm Loc f c = c\<lparr>c_loc := f (c_loc c)\<rparr>"
| "upd_strm Rem f c = c\<lparr>c_rem := f (c_rem c)\<rparr>"

lemma strm_upd [simp]: "strm s (upd_strm s f c) = f (strm s c)"
  by (cases s) auto

lemma strm_upd_other: "s \<noteq> t \<Longrightarrow> strm s (upd_strm t f c) = strm s c"
  by (cases s; cases t; simp)

section \<open>User callbacks\<close>

definition call_user :: "'w os \<Rightarrow> nat \<Rightarrow> nat \<Rightarrow> u32 \<Rightarrow> conn \<Rightarrow> 'w \<Rightarrow> (conn \<times> 'w) option" where
  "call_user S func data flags c w = do {
     room \<leftarrow> io_space_len (sio (c_loc c));
     dlen \<leftarrow> io_data_len (sio (c_rem c));
     let (r, w1) = os_callback S func
           \<lparr>cb_state = ch_state (chan (c_loc c)), cb_data = data, cb_room = room,
            cb_input = io_content (sio (c_rem c)), cb_flags = flags\<rparr> w;
     if room < length (cb_output r) then None else do {
       li \<leftarrow> io_put (sio (c_loc c)) (cb_output r);
       ri \<leftarrow> io_inc_tail (sio (c_rem c)) (cb_taken r);
       let l = (c_loc c)\<lparr>sio := li, chan := (chan (c_loc c))\<lparr>ch_state := cb_state' r\<rparr>\<rparr>;
       let l1 = (if has (cb_flags' r) SHTTPD_END_OF_OUTPUT then flag_off FLAG_DONT_CLOSE l
                 else flag_on FLAG_DONT_CLOSE l);
       Some (c\<lparr>c_loc := l1, c_rem := (c_rem c)\<lparr>sio := ri\<rparr>\<rparr>, w1)
     }
   }"

definition do_embedded :: "'w os \<Rightarrow> conn \<Rightarrow> 'w \<Rightarrow> (conn \<times> 'w) option" where
  "do_embedded S c w = call_user S (ch_func (chan (c_loc c))) (ch_data (chan (c_loc c))) 0 c w"

definition close_embedded :: "'w os \<Rightarrow> side \<Rightarrow> conn \<Rightarrow> 'w \<Rightarrow> (conn \<times> 'w) option" where
  "close_embedded S sd c w =
     (if flagged (strm sd c) FLAG_DONT_CLOSE
      then call_user S (ch_func (chan (c_loc c))) (ch_data (chan (c_loc c))) SHTTPD_CONNECTION_ERROR c w
      else Some (c, w))"

definition setup_embedded_stream :: "nat \<Rightarrow> nat \<Rightarrow> conn \<Rightarrow> conn" where
  "setup_embedded_stream func data c =
     c\<lparr>c_loc := flag_on (or FLAG_R (or FLAG_W FLAG_ALWAYS_READY))
        ((c_loc c)\<lparr>chan := (chan (c_loc c))\<lparr>ch_state := 0, ch_func := func, ch_data := data\<rparr>,
                  io_cls := Some IO_EMBEDDED\<rparr>)\<rparr>"

section \<open>Closing\<close>

definition close_fd :: "'w os \<Rightarrow> side \<Rightarrow> conn \<Rightarrow> 'w \<Rightarrow> (conn \<times> 'w) option" where
  "close_fd S sd c w =
     (let fd = ch_fd (chan (strm sd c)) in if fd = -1 then None else Some (c, os_close S w fd))"

text \<open>The \<open>close\<close> methods: \<open>close_file\<close>, \<open>close_socket\<close>, \<open>close_ssl\<close> and \<open>close_cgi\<close> close a
  descriptor, \<open>close_dir\<close> frees the directory, \<open>close_ssi\<close> the include state.\<close>

definition io_close :: "'w os \<Rightarrow> side \<Rightarrow> io_class \<Rightarrow> conn \<Rightarrow> 'w \<Rightarrow> (conn \<times> 'w) option" where
  "io_close S sd k c w =
     (case k of
        IO_EMBEDDED \<Rightarrow> close_embedded S sd c w
      | IO_DIR \<Rightarrow> if ch_dirp (chan (strm sd c)) = None \<or> ch_path (chan (strm sd c)) = None then None
                  else Some (upd_strm sd (\<lambda>s. s\<lparr>chan := (chan s)\<lparr>ch_dirp := None, ch_path := None\<rparr>\<rparr>) c, w)
      | IO_SSI \<Rightarrow> if c_ssi c = None then None else Some (c\<lparr>c_ssi := None\<rparr>, w)
      | _ \<Rightarrow> close_fd S sd c w)"

definition stopped :: "stream \<Rightarrow> stream" where
  "stopped s = flag_off (or FLAG_R (or FLAG_W FLAG_ALWAYS_READY)) (flag_on FLAG_CLOSED (s\<lparr>io_cls := None\<rparr>))"

definition stop_stream :: "'w os \<Rightarrow> side \<Rightarrow> conn \<Rightarrow> 'w \<Rightarrow> (conn \<times> 'w) option" where
  "stop_stream S sd c w = do {
     (c1, w1) \<leftarrow> (case io_cls (strm sd c) of None \<Rightarrow> Some (c, w) | Some k \<Rightarrow> io_close S sd k c w);
     Some (upd_strm sd stopped c1, w1)
   }"

section \<open>Error replies\<close>

text \<open>The formatted text goes to the start of the buffer and the mark to its end.\<close>

definition put_reply :: "string \<Rightarrow> stream \<Rightarrow> stream" where
  "put_reply text s =
     (let (n, b) = my_snprintf (io_size (sio s)) text
      in s\<lparr>sio := (sio s)\<lparr>io_buf := overwrite (io_buf (sio s)) 0 b, io_head := n\<rparr>,
           headers_len := int n\<rparr>)"

definition error_text :: "int \<Rightarrow> string \<Rightarrow> string" where
  "error_text status reason =
     ''HTTP/1.1 '' @ dec_int status @ '' '' @ reason @ crlf @ crlf @ dec_int status @ '' '' @ reason"

definition send_server_error ::
  "'w os \<Rightarrow> shttpd_ctx \<Rightarrow> int \<Rightarrow> string \<Rightarrow> conn \<Rightarrow> 'w \<Rightarrow> (conn \<times> 'w) option" where
  "send_server_error S ctx status reason c w =
     (case find (\<lambda>(cd, f, d). cd = status) (error_handlers ctx) of
        Some (cd, f, d) \<Rightarrow> do {
          (c1, w1) \<leftarrow> (case io_cls (c_loc c) of None \<Rightarrow> Some (c, w) | Some k \<Rightarrow> io_close S Loc k c w);
          li \<leftarrow> io_clear (sio (c_loc c1));
          Some (setup_embedded_stream f 0 (c1\<lparr>c_loc := (c_loc c1)\<lparr>sio := li\<rparr>\<rparr>), w1)
        }
      | None \<Rightarrow> do {
          li \<leftarrow> io_clear (sio (c_loc c));
          let c1 = c\<lparr>c_loc := put_reply (error_text status reason) ((c_loc c)\<lparr>sio := li\<rparr>), c_status := status\<rparr>;
          stop_stream S Loc c1 w
        })"

section \<open>The buffer invariant\<close>

definition conn_ok :: "conn \<Rightarrow> bool" where
  "conn_ok c \<longleftrightarrow> io_ok (sio (c_loc c)) \<and> io_ok (sio (c_rem c))"

lemma conn_ok_upd [simp]:
  "conn_ok (c\<lparr>c_status := x\<rparr>) = conn_ok c" "conn_ok (c\<lparr>c_ssi := y\<rparr>) = conn_ok c"
  "conn_ok (c\<lparr>expire_time := z\<rparr>) = conn_ok c"
  by (simp_all add: conn_ok_def)

lemma conn_ok_strm: "conn_ok c \<Longrightarrow> io_ok (sio (strm sd c))"
  by (cases sd) (auto simp: conn_ok_def)

lemma conn_ok_upd_strm: "conn_ok c \<Longrightarrow> io_ok (sio (f (strm sd c))) \<Longrightarrow> conn_ok (upd_strm sd f c)"
  by (cases sd) (auto simp: conn_ok_def)

lemma sio_stopped [simp]: "sio (stopped s) = sio s"
  by (simp add: stopped_def)

lemma chan_stopped [simp]: "chan (stopped s) = chan s" "io_cls (stopped s) = None"
  by (simp_all add: stopped_def)

lemma stopped_flags:
  "flagged (stopped s) FLAG_CLOSED" "\<not> flagged (stopped s) FLAG_R" "\<not> flagged (stopped s) FLAG_W"
  "\<not> flagged (stopped s) FLAG_ALWAYS_READY" "io_cls (stopped s) = None"
  by (auto simp: stopped_def flag_bits has_clrf_disjoint has_clrf_sub has_setf) (simp add: has_def)

lemma call_user_ok:
  assumes "cb_ok S" "conn_ok c"
  shows "\<exists>c' w'. call_user S f d fl c w = Some (c', w') \<and> conn_ok c' \<and>
    c_ssi c' = c_ssi c \<and> ch_fd (chan (c_loc c')) = ch_fd (chan (c_loc c)) \<and> c_status c' = c_status c \<and>
    io_cls (c_loc c') = io_cls (c_loc c) \<and> io_cls (c_rem c') = io_cls (c_rem c) \<and> chan (c_rem c') = chan (c_rem c)"
proof -
  have l: "io_ok (sio (c_loc c))" and r: "io_ok (sio (c_rem c))" using assms(2) by (auto simp: conn_ok_def)
  define a where "a = \<lparr>cb_state = ch_state (chan (c_loc c)), cb_data = d, cb_room = io_room (sio (c_loc c)),
            cb_input = io_content (sio (c_rem c)), cb_flags = fl\<rparr>"
  obtain q w1 where q: "os_callback S f a w = (q, w1)" by (cases "os_callback S f a w")
  have b: "length (cb_output q) \<le> io_room (sio (c_loc c))" "cb_taken q \<le> length (io_content (sio (c_rem c)))"
    using assms(1) [unfolded cb_ok_def, rule_format, of f a w] q by (auto simp: a_def)
  obtain li where li: "io_put (sio (c_loc c)) (cb_output q) = Some li" "io_ok li"
    using io_put_ok [OF l b(1)] by blast
  obtain ri where ri: "io_inc_tail (sio (c_rem c)) (cb_taken q) = Some ri" "io_ok ri"
    using io_inc_tail_ok [OF r b(2)] by blast
  show ?thesis
    using l r q b li ri by (simp add: call_user_def buf_simps a_def [symmetric] conn_ok_def Let_def)
qed


text \<open>The class of a stream fits its channel.\<close>

definition loc_ok :: "conn \<Rightarrow> bool" where
  "loc_ok c = (case io_cls (c_loc c) of
      None \<Rightarrow> True
    | Some IO_EMBEDDED \<Rightarrow> True
    | Some IO_DIR \<Rightarrow> ch_dirp (chan (c_loc c)) \<noteq> None \<and> ch_path (chan (c_loc c)) \<noteq> None
    | Some IO_SSI \<Rightarrow> c_ssi c \<noteq> None
    | Some _ \<Rightarrow> ch_fd (chan (c_loc c)) \<noteq> -1)"

lemma loc_ok_cong:
  "io_cls (c_loc c') = io_cls (c_loc c) \<Longrightarrow> chan (c_loc c') = chan (c_loc c) \<Longrightarrow> c_ssi c' = c_ssi c \<Longrightarrow>
   loc_ok c' = loc_ok c"
  by (simp add: loc_ok_def cong: option.case_cong io_class.case_cong)

lemma loc_ok_None: "io_cls (c_loc c) = None \<Longrightarrow> loc_ok c"
  by (simp add: loc_ok_def)

definition rem_ok :: "conn \<Rightarrow> bool" where
  "rem_ok c \<longleftrightarrow> io_cls (c_rem c) \<in> {None, Some IO_SOCKET, Some IO_SSL} \<and> ch_fd (chan (c_rem c)) \<noteq> -1"

definition conn_wf :: "conn \<Rightarrow> bool" where
  "conn_wf c \<longleftrightarrow> conn_ok c \<and> loc_ok c \<and> rem_ok c"

lemma io_close_ok:
  assumes "cb_ok S" "conn_wf c" "io_cls (strm sd c) = Some k"
  shows "\<exists>c' w'. io_close S sd k c w = Some (c', w') \<and> conn_ok c' \<and> rem_ok c' \<and>
    c_status c' = c_status c \<and> (sd = Rem \<longrightarrow> loc_ok c')"
proof (cases k)
  case IO_EMBEDDED
  then have sd: "sd = Loc" using assms by (cases sd) (auto simp: conn_wf_def rem_ok_def)
  obtain c' w' where "call_user S (ch_func (chan (c_loc c))) (ch_data (chan (c_loc c))) SHTTPD_CONNECTION_ERROR c w
      = Some (c', w')" "conn_ok c'" "c_status c' = c_status c"
    "io_cls (c_rem c') = io_cls (c_rem c)" "chan (c_rem c') = chan (c_rem c)"
    using call_user_ok [OF assms(1), of c "ch_func (chan (c_loc c))" "ch_data (chan (c_loc c))" SHTTPD_CONNECTION_ERROR w]
      assms(2) by (auto simp: conn_wf_def)
  then show ?thesis using IO_EMBEDDED assms sd
    by (auto simp: io_close_def close_embedded_def conn_wf_def rem_ok_def)
next
  case IO_DIR
  then have sd: "sd = Loc" using assms by (cases sd) (auto simp: conn_wf_def rem_ok_def)
  then show ?thesis using IO_DIR assms by (auto simp: io_close_def conn_wf_def loc_ok_def conn_ok_def rem_ok_def)
next
  case IO_SSI
  then have sd: "sd = Loc" using assms by (cases sd) (auto simp: conn_wf_def rem_ok_def)
  then show ?thesis using IO_SSI assms by (auto simp: io_close_def conn_wf_def loc_ok_def rem_ok_def)
qed (use assms in \<open>cases sd; auto simp: io_close_def close_fd_def conn_wf_def loc_ok_def rem_ok_def Let_def\<close>)+

lemma stop_stream_ok:
  assumes "cb_ok S" "conn_wf c"
  shows "\<exists>c' w'. stop_stream S sd c w = Some (c', w') \<and> conn_wf c' \<and>
    io_cls (strm sd c') = None \<and> flagged (strm sd c') FLAG_CLOSED \<and> c_status c' = c_status c"
proof (cases "io_cls (strm sd c)")
  case None
  have "loc_ok (upd_strm Rem stopped c) = loc_ok c" by (rule loc_ok_cong) simp_all
  then show ?thesis using assms None
    by (cases sd) (auto simp: stop_stream_def conn_wf_def conn_ok_def loc_ok_None rem_ok_def stopped_flags)
next
  case (Some k)
  obtain c1 w1 where c1: "io_close S sd k c w = Some (c1, w1)" "conn_ok c1" "rem_ok c1"
    "c_status c1 = c_status c" "sd = Rem \<longrightarrow> loc_ok c1"
    using io_close_ok [OF assms Some] by blast
  moreover have "loc_ok (upd_strm Rem stopped c1) = loc_ok c1" by (rule loc_ok_cong) simp_all
  ultimately show ?thesis using Some
    by (cases sd) (auto simp: stop_stream_def conn_wf_def conn_ok_def loc_ok_None rem_ok_def stopped_flags)
qed

lemma put_reply_ok: "io_ok i \<Longrightarrow> io_tail i = 0 \<Longrightarrow> sio s = i \<Longrightarrow> io_ok (sio (put_reply text s))"
  using my_snprintf_len [of "io_size i" "text"]
  by (auto simp: put_reply_def io_ok_def my_snprintf_def Let_def split: prod.splits)

lemma put_reply_content:
  assumes "io_ok (sio s)" "io_tail (sio s) = 0"
  shows "io_content (sio (put_reply text s)) = take (io_size (sio s) - 1) text"
proof -
  have "0 < io_size (sio s)" "length (io_buf (sio s)) = io_size (sio s)" using assms by (auto simp: io_ok_def)
  then show ?thesis using assms(2)
    by (auto simp: put_reply_def my_snprintf_def Let_def io_content_def overwrite_def min_def)
qed

lemma put_reply_other [simp]:
  "io_cls (put_reply t s) = io_cls s" "chan (put_reply t s) = chan s" "sflags (put_reply t s) = sflags s"
  by (simp_all add: put_reply_def split: prod.splits)

text \<open>An error reply without a handler: the client gets the text, the local stream is closed.\<close>

lemma send_server_error_closes:
  assumes "cb_ok S" "conn_wf c" "find (\<lambda>(cd, f, d). cd = status) (error_handlers ctx) = None"
  shows "\<exists>c' w'. send_server_error S ctx status reason c w = Some (c', w') \<and> conn_wf c' \<and>
    c_status c' = status \<and> flagged (c_loc c') FLAG_CLOSED \<and> io_cls (c_loc c') = None"
proof -
  obtain li where li: "io_clear (sio (c_loc c)) = Some li" "io_ok li" "io_tail li = 0"
    using io_clear_ok [of "sio (c_loc c)"] assms(2) by (auto simp: conn_wf_def conn_ok_def io_clear_def split: if_splits)
  define c1 where "c1 = c\<lparr>c_loc := put_reply (error_text status reason) ((c_loc c)\<lparr>sio := li\<rparr>), c_status := status\<rparr>"
  have "io_ok (sio (put_reply (error_text status reason) ((c_loc c)\<lparr>sio := li\<rparr>)))"
    by (rule put_reply_ok [OF li(2,3)]) simp
  moreover have "loc_ok c1 = loc_ok c" by (rule loc_ok_cong) (simp_all add: c1_def)
  ultimately have "conn_wf c1" using assms(2) by (simp add: c1_def conn_wf_def conn_ok_def rem_ok_def)
  from stop_stream_ok [OF assms(1) this, of Loc w] show ?thesis
    by (auto simp: send_server_error_def assms(3) li(1) c1_def [symmetric] Let_def) (simp add: c1_def)
qed

lemma send_server_error_ok:
  assumes "cb_ok S" "conn_wf c"
  shows "\<exists>c' w'. send_server_error S ctx status reason c w = Some (c', w') \<and> conn_wf c' \<and>
    (io_cls (c_loc c') = None \<and> flagged (c_loc c') FLAG_CLOSED \<or> io_cls (c_loc c') = Some IO_EMBEDDED)"
proof (cases "find (\<lambda>(cd, f, d). cd = status) (error_handlers ctx)")
  case None
  from send_server_error_closes [OF assms None] show ?thesis by blast
next
  case (Some h)
  obtain cd f d where h: "h = (cd, f, d)" by (cases h)
  have "\<exists>c1 w1. (case io_cls (c_loc c) of None \<Rightarrow> Some (c, w) | Some k \<Rightarrow> io_close S Loc k c w) = Some (c1, w1)
      \<and> conn_ok c1 \<and> rem_ok c1"
  proof (cases "io_cls (c_loc c)")
    case None
    then show ?thesis using assms(2) by (simp add: conn_wf_def)
  next
    case (Some k)
    then show ?thesis using io_close_ok [OF assms, of Loc k w] by auto
  qed
  then obtain c1 w1 where c1: "(case io_cls (c_loc c) of None \<Rightarrow> Some (c, w) | Some k \<Rightarrow> io_close S Loc k c w) = Some (c1, w1)"
    "conn_ok c1" "rem_ok c1" by blast
  obtain li where li: "io_clear (sio (c_loc c1)) = Some li" "io_ok li"
    using io_clear_ok [of "sio (c_loc c1)"] c1 by (auto simp: conn_ok_def)
  show ?thesis using c1 li Some h
    by (auto simp: send_server_error_def setup_embedded_stream_def conn_wf_def conn_ok_def loc_ok_def rem_ok_def)
qed

lemma new_conn_wf: "0 < n \<Longrightarrow> n < 2 ^ 63 \<Longrightarrow> sock \<noteq> -1 \<Longrightarrow> conn_wf (new_conn n addr port lport sock now)"
  by (simp add: conn_wf_def conn_ok_def loc_ok_def rem_ok_def new_conn_def stream0_def io_ok_new)

section \<open>What closing leaves alone\<close>

text \<open>Content lengths and buffer sizes.\<close>

definition frame :: "conn \<Rightarrow> u64 \<times> u64 \<times> nat \<times> nat" where
  "frame c = (content_len (c_loc c), content_len (c_rem c), io_size (sio (c_loc c)), io_size (sio (c_rem c)))"

lemma io_put_size: "io_put i d = Some j \<Longrightarrow> io_size j = io_size i"
  by (auto simp: io_put_def io_inc_head_def Let_def split: if_splits)

lemma io_inc_tail_size: "io_inc_tail i n = Some j \<Longrightarrow> io_size j = io_size i"
  by (auto simp: io_inc_tail_def Let_def split: if_splits)

lemma call_user_frame: "call_user S f d fl c w = Some (c', w') \<Longrightarrow> frame c' = frame c"
  by (auto simp: call_user_def Let_def frame_def dest: io_put_size io_inc_tail_size
      split: Option.bind_splits if_splits prod.splits)

lemma io_close_frame: "io_close S sd k c w = Some (c', w') \<Longrightarrow> frame c' = frame c"
  by (cases sd) (auto simp: io_close_def close_embedded_def close_fd_def frame_def Let_def
      dest: call_user_frame [unfolded frame_def] split: io_class.splits if_splits)

lemma stop_stream_frame: "stop_stream S sd c w = Some (c', w') \<Longrightarrow> frame c' = frame c"
  by (cases sd) (auto simp: stop_stream_def frame_def stopped_def dest: io_close_frame [unfolded frame_def]
      split: option.splits Option.bind_splits prod.splits)

lemma stop_stream_sio:
  assumes "stop_stream S sd c w = Some (c', w')" "io_cls (strm sd c) \<noteq> Some IO_EMBEDDED"
  shows "sio (c_loc c') = sio (c_loc c)" "sio (c_rem c') = sio (c_rem c)"
  using assms by (cases sd; auto simp: stop_stream_def io_close_def close_fd_def Let_def
      split: option.splits Option.bind_splits prod.splits io_class.splits if_splits)+

lemma call_user_total: "call_user S f d fl c w = Some (c', w') \<Longrightarrow> io_total (sio (c_rem c')) = io_total (sio (c_rem c))"
  by (auto simp: call_user_def io_inc_tail_def Let_def split: Option.bind_splits if_splits prod.splits)

lemma stop_stream_total:
  "stop_stream S sd c w = Some (c', w') \<Longrightarrow> io_total (sio (c_rem c')) = io_total (sio (c_rem c))"
  by (cases sd) (auto simp: stop_stream_def io_close_def close_embedded_def close_fd_def Let_def dest: call_user_total
      split: option.splits Option.bind_splits prod.splits io_class.splits if_splits)

lemma stop_rem_loc: "stop_stream S Rem c w = Some (c', w') \<Longrightarrow> io_cls (c_rem c) \<in> {None, Some IO_SOCKET, Some IO_SSL} \<Longrightarrow>
   c_loc c' = c_loc c"
  by (auto simp: stop_stream_def io_close_def close_fd_def Let_def split: option.splits Option.bind_splits prod.splits if_splits)

section \<open>Properties\<close>



end
