(* ===== verification/MD5.thy ===== *)
theory MD5
  imports Prelude
begin

text \<open>
  \<open>md5.c\<close>: the MD5 digest over 32-bit words. The operations \<open>MD5Init\<close>, \<open>MD5Update\<close> and
  \<open>MD5Final\<close> are modelled on the context structure, \<open>MD5Transform\<close> as its 64 unrolled
  register steps. The machine is little-endian, where \<open>byteReverse\<close> is empty and the cast of
  \<open>ctx->in\<close> to words is \<open>words_of\<close> (on other machines \<open>byteReverse\<close> computes the same words).
  The reference is the table-driven loop of RFC 1321 over the padded message.
\<close>

unbundle bit_operations_syntax

section \<open>The compression function\<close>

type_synonym mdbuf = "u32 \<times> u32 \<times> u32 \<times> u32"

definition F1 :: "u32 \<Rightarrow> u32 \<Rightarrow> u32 \<Rightarrow> u32" where
  "F1 x y z = z XOR (x AND (y XOR z))"

definition F2 :: "u32 \<Rightarrow> u32 \<Rightarrow> u32 \<Rightarrow> u32" where
  "F2 x y z = F1 z x y"

definition F3 :: "u32 \<Rightarrow> u32 \<Rightarrow> u32 \<Rightarrow> u32" where
  "F3 x y z = x XOR y XOR z"

definition F4 :: "u32 \<Rightarrow> u32 \<Rightarrow> u32 \<Rightarrow> u32" where
  "F4 x y z = y XOR (x OR NOT z)"

definition MD5STEP :: "(u32 \<Rightarrow> u32 \<Rightarrow> u32 \<Rightarrow> u32) \<Rightarrow> u32 \<Rightarrow> u32 \<Rightarrow> u32 \<Rightarrow> u32 \<Rightarrow> u32 \<Rightarrow> nat \<Rightarrow> u32" where
  "MD5STEP f w x y z data s =
     (let w1 = w + (f x y z + data);
          w2 = push_bit s w1 OR drop_bit (32 - s) w1
      in w2 + x)"

text \<open>\<open>MD5STEP(f, a, b, c, d, ...)\<close>, \<open>MD5STEP(f, d, a, b, c, ...)\<close>,
  \<open>MD5STEP(f, c, d, a, b, ...)\<close> and \<open>MD5STEP(f, b, c, d, a, ...)\<close> as updates of the
  registers \<open>(a, b, c, d)\<close>.\<close>

fun stA :: "(u32 \<Rightarrow> u32 \<Rightarrow> u32 \<Rightarrow> u32) \<Rightarrow> u32 \<Rightarrow> nat \<Rightarrow> mdbuf \<Rightarrow> mdbuf" where
  "stA f data s (a, b, c, d) = (MD5STEP f a b c d data s, b, c, d)"

fun stD :: "(u32 \<Rightarrow> u32 \<Rightarrow> u32 \<Rightarrow> u32) \<Rightarrow> u32 \<Rightarrow> nat \<Rightarrow> mdbuf \<Rightarrow> mdbuf" where
  "stD f data s (a, b, c, d) = (a, b, c, MD5STEP f d a b c data s)"

fun stC :: "(u32 \<Rightarrow> u32 \<Rightarrow> u32 \<Rightarrow> u32) \<Rightarrow> u32 \<Rightarrow> nat \<Rightarrow> mdbuf \<Rightarrow> mdbuf" where
  "stC f data s (a, b, c, d) = (a, b, MD5STEP f c d a b data s, d)"

fun stB :: "(u32 \<Rightarrow> u32 \<Rightarrow> u32 \<Rightarrow> u32) \<Rightarrow> u32 \<Rightarrow> nat \<Rightarrow> mdbuf \<Rightarrow> mdbuf" where
  "stB f data s (a, b, c, d) = (a, MD5STEP f b c d a data s, c, d)"

text \<open>The sixteen statements of each round, in order.\<close>

definition round1 :: "u32 list \<Rightarrow> (mdbuf \<Rightarrow> mdbuf) list" where
  "round1 inw =
    [stA F1 (inw ! 0 + 0xd76aa478) 7,
     stD F1 (inw ! 1 + 0xe8c7b756) 12,
     stC F1 (inw ! 2 + 0x242070db) 17,
     stB F1 (inw ! 3 + 0xc1bdceee) 22,
     stA F1 (inw ! 4 + 0xf57c0faf) 7,
     stD F1 (inw ! 5 + 0x4787c62a) 12,
     stC F1 (inw ! 6 + 0xa8304613) 17,
     stB F1 (inw ! 7 + 0xfd469501) 22,
     stA F1 (inw ! 8 + 0x698098d8) 7,
     stD F1 (inw ! 9 + 0x8b44f7af) 12,
     stC F1 (inw ! 10 + 0xffff5bb1) 17,
     stB F1 (inw ! 11 + 0x895cd7be) 22,
     stA F1 (inw ! 12 + 0x6b901122) 7,
     stD F1 (inw ! 13 + 0xfd987193) 12,
     stC F1 (inw ! 14 + 0xa679438e) 17,
     stB F1 (inw ! 15 + 0x49b40821) 22]"

definition round2 :: "u32 list \<Rightarrow> (mdbuf \<Rightarrow> mdbuf) list" where
  "round2 inw =
    [stA F2 (inw ! 1 + 0xf61e2562) 5,
     stD F2 (inw ! 6 + 0xc040b340) 9,
     stC F2 (inw ! 11 + 0x265e5a51) 14,
     stB F2 (inw ! 0 + 0xe9b6c7aa) 20,
     stA F2 (inw ! 5 + 0xd62f105d) 5,
     stD F2 (inw ! 10 + 0x02441453) 9,
     stC F2 (inw ! 15 + 0xd8a1e681) 14,
     stB F2 (inw ! 4 + 0xe7d3fbc8) 20,
     stA F2 (inw ! 9 + 0x21e1cde6) 5,
     stD F2 (inw ! 14 + 0xc33707d6) 9,
     stC F2 (inw ! 3 + 0xf4d50d87) 14,
     stB F2 (inw ! 8 + 0x455a14ed) 20,
     stA F2 (inw ! 13 + 0xa9e3e905) 5,
     stD F2 (inw ! 2 + 0xfcefa3f8) 9,
     stC F2 (inw ! 7 + 0x676f02d9) 14,
     stB F2 (inw ! 12 + 0x8d2a4c8a) 20]"

definition round3 :: "u32 list \<Rightarrow> (mdbuf \<Rightarrow> mdbuf) list" where
  "round3 inw =
    [stA F3 (inw ! 5 + 0xfffa3942) 4,
     stD F3 (inw ! 8 + 0x8771f681) 11,
     stC F3 (inw ! 11 + 0x6d9d6122) 16,
     stB F3 (inw ! 14 + 0xfde5380c) 23,
     stA F3 (inw ! 1 + 0xa4beea44) 4,
     stD F3 (inw ! 4 + 0x4bdecfa9) 11,
     stC F3 (inw ! 7 + 0xf6bb4b60) 16,
     stB F3 (inw ! 10 + 0xbebfbc70) 23,
     stA F3 (inw ! 13 + 0x289b7ec6) 4,
     stD F3 (inw ! 0 + 0xeaa127fa) 11,
     stC F3 (inw ! 3 + 0xd4ef3085) 16,
     stB F3 (inw ! 6 + 0x04881d05) 23,
     stA F3 (inw ! 9 + 0xd9d4d039) 4,
     stD F3 (inw ! 12 + 0xe6db99e5) 11,
     stC F3 (inw ! 15 + 0x1fa27cf8) 16,
     stB F3 (inw ! 2 + 0xc4ac5665) 23]"

definition round4 :: "u32 list \<Rightarrow> (mdbuf \<Rightarrow> mdbuf) list" where
  "round4 inw =
    [stA F4 (inw ! 0 + 0xf4292244) 6,
     stD F4 (inw ! 7 + 0x432aff97) 10,
     stC F4 (inw ! 14 + 0xab9423a7) 15,
     stB F4 (inw ! 5 + 0xfc93a039) 21,
     stA F4 (inw ! 12 + 0x655b59c3) 6,
     stD F4 (inw ! 3 + 0x8f0ccc92) 10,
     stC F4 (inw ! 10 + 0xffeff47d) 15,
     stB F4 (inw ! 1 + 0x85845dd1) 21,
     stA F4 (inw ! 8 + 0x6fa87e4f) 6,
     stD F4 (inw ! 15 + 0xfe2ce6e0) 10,
     stC F4 (inw ! 6 + 0xa3014314) 15,
     stB F4 (inw ! 13 + 0x4e0811a1) 21,
     stA F4 (inw ! 4 + 0xf7537e82) 6,
     stD F4 (inw ! 11 + 0xbd3af235) 10,
     stC F4 (inw ! 2 + 0x2ad7d2bb) 15,
     stB F4 (inw ! 9 + 0xeb86d391) 21]"


definition run_steps :: "(mdbuf \<Rightarrow> mdbuf) list \<Rightarrow> mdbuf \<Rightarrow> mdbuf" where
  "run_steps fs st = foldl (\<lambda>st f. f st) st fs"

fun add_regs :: "mdbuf \<Rightarrow> mdbuf \<Rightarrow> mdbuf" where
  "add_regs (p, q, r, s) (a, b, c, d) = (p + a, q + b, r + c, s + d)"

definition MD5Transform :: "mdbuf \<Rightarrow> u32 list \<Rightarrow> mdbuf" where
  "MD5Transform buf inw =
     add_regs buf (run_steps (round1 inw @ round2 inw @ round3 inw @ round4 inw) buf)"

section \<open>Bytes and words\<close>

text \<open>The word \<open>byteReverse\<close> assembles from \<open>buf[0] .. buf[3]\<close>.\<close>

definition le32 :: "u8 \<Rightarrow> u8 \<Rightarrow> u8 \<Rightarrow> u8 \<Rightarrow> u32" where
  "le32 b0 b1 b2 b3 =
     push_bit 16 (push_bit 8 (ucast b3) OR ucast b2) OR (push_bit 8 (ucast b1) OR ucast b0)"

fun words_of :: "u8 list \<Rightarrow> u32 list" where
  "words_of (b0 # b1 # b2 # b3 # r) = le32 b0 b1 b2 b3 # words_of r"
| "words_of _ = []"

definition bytes_of :: "u32 \<Rightarrow> u8 list" where
  "bytes_of w = [ucast w, ucast (drop_bit 8 w), ucast (drop_bit 16 w), ucast (drop_bit 24 w)]"

fun digest_of :: "mdbuf \<Rightarrow> u8 list" where
  "digest_of (a, b, c, d) = bytes_of a @ bytes_of b @ bytes_of c @ bytes_of d"

section \<open>The context operations\<close>

record MD5_CTX =
  md_buf :: mdbuf
  md_bits0 :: u32
  md_bits1 :: u32
  md_in :: "u8 list"

definition MD5_init_buf :: mdbuf where
  "MD5_init_buf = (0x67452301, 0xefcdab89, 0x98badcfe, 0x10325476)"

text \<open>\<open>MD5Init\<close> leaves \<open>ctx->in\<close> as it is.\<close>

definition MD5Init :: "MD5_CTX \<Rightarrow> MD5_CTX" where
  "MD5Init ctx = ctx\<lparr>md_buf := MD5_init_buf, md_bits0 := 0, md_bits1 := 0\<rparr>"

definition transform_in :: "MD5_CTX \<Rightarrow> MD5_CTX" where
  "transform_in ctx = ctx\<lparr>md_buf := MD5Transform (md_buf ctx) (words_of (md_in ctx))\<rparr>"

text \<open>The loop over 64-byte chunks and the copy of the remaining bytes.\<close>

function MD5Update_chunks :: "MD5_CTX \<Rightarrow> u8 list \<Rightarrow> MD5_CTX" where
  "MD5Update_chunks ctx buf =
     (if 64 \<le> length buf
      then MD5Update_chunks (transform_in (ctx\<lparr>md_in := overwrite (md_in ctx) 0 (take 64 buf)\<rparr>)) (drop 64 buf)
      else ctx\<lparr>md_in := overwrite (md_in ctx) 0 buf\<rparr>)"
  by pat_completeness auto
termination by (relation "measure (\<lambda>(ctx, buf). length buf)") auto

declare MD5Update_chunks.simps [simp del]

text \<open>\<open>buf\<close> is the list of the \<open>len\<close> bytes passed.\<close>

definition MD5Update :: "MD5_CTX \<Rightarrow> u8 list \<Rightarrow> MD5_CTX" where
  "MD5Update ctx buf =
     (let len = of_nat (length buf) :: u32;
          t = md_bits0 ctx;
          bits0 = t + push_bit 3 len;
          bits1 = md_bits1 ctx + (if bits0 < t then 1 else 0) + drop_bit 29 len;
          ctx = ctx\<lparr>md_bits0 := bits0, md_bits1 := bits1\<rparr>;
          p = unat (drop_bit 3 t AND 0x3f)
      in if p \<noteq> 0 then
           (let t = 64 - p
            in if length buf < t then ctx\<lparr>md_in := overwrite (md_in ctx) p buf\<rparr>
               else MD5Update_chunks
                      (transform_in (ctx\<lparr>md_in := overwrite (md_in ctx) p (take t buf)\<rparr>))
                      (drop t buf))
         else MD5Update_chunks ctx buf)"

text \<open>The digest and what \<open>memset((char *) ctx, 0, sizeof(ctx))\<close> leaves of the context: the
  size is that of the pointer, eight bytes, which are \<open>buf[0]\<close> and \<open>buf[1]\<close>.\<close>

definition MD5Final :: "MD5_CTX \<Rightarrow> u8 list \<times> MD5_CTX" where
  "MD5Final ctx =
     (let count = unat (drop_bit 3 (md_bits0 ctx) AND 0x3f);
          ctx = ctx\<lparr>md_in := overwrite (md_in ctx) count [0x80]\<rparr>;
          p = count + 1;
          count = 64 - 1 - count;
          ctx = (if count < 8
                 then (let ctx = transform_in (ctx\<lparr>md_in := overwrite (md_in ctx) p (replicate count 0)\<rparr>)
                       in ctx\<lparr>md_in := overwrite (md_in ctx) 0 (replicate 56 0)\<rparr>)
                 else ctx\<lparr>md_in := overwrite (md_in ctx) p (replicate (count - 8) 0)\<rparr>);
          ctx = ctx\<lparr>md_in := overwrite (md_in ctx) 56 (bytes_of (md_bits0 ctx) @ bytes_of (md_bits1 ctx))\<rparr>;
          ctx = transform_in ctx;
          digest = digest_of (md_buf ctx)
      in (digest, ctx\<lparr>md_buf := (0, 0, snd (snd (md_buf ctx)))\<rparr>))"

section \<open>The compression function of RFC 1321\<close>

definition K_table :: "u32 list" where
  "K_table =
    [0xd76aa478, 0xe8c7b756, 0x242070db, 0xc1bdceee, 0xf57c0faf, 0x4787c62a,
     0xa8304613, 0xfd469501, 0x698098d8, 0x8b44f7af, 0xffff5bb1, 0x895cd7be,
     0x6b901122, 0xfd987193, 0xa679438e, 0x49b40821, 0xf61e2562, 0xc040b340,
     0x265e5a51, 0xe9b6c7aa, 0xd62f105d, 0x02441453, 0xd8a1e681, 0xe7d3fbc8,
     0x21e1cde6, 0xc33707d6, 0xf4d50d87, 0x455a14ed, 0xa9e3e905, 0xfcefa3f8,
     0x676f02d9, 0x8d2a4c8a, 0xfffa3942, 0x8771f681, 0x6d9d6122, 0xfde5380c,
     0xa4beea44, 0x4bdecfa9, 0xf6bb4b60, 0xbebfbc70, 0x289b7ec6, 0xeaa127fa,
     0xd4ef3085, 0x04881d05, 0xd9d4d039, 0xe6db99e5, 0x1fa27cf8, 0xc4ac5665,
     0xf4292244, 0x432aff97, 0xab9423a7, 0xfc93a039, 0x655b59c3, 0x8f0ccc92,
     0xffeff47d, 0x85845dd1, 0x6fa87e4f, 0xfe2ce6e0, 0xa3014314, 0x4e0811a1,
     0xf7537e82, 0xbd3af235, 0x2ad7d2bb, 0xeb86d391]"

definition shifts :: "nat list list" where
  "shifts = [[7, 12, 17, 22], [5, 9, 14, 20], [4, 11, 16, 23], [6, 10, 15, 21]]"

definition rfc_fun :: "nat \<Rightarrow> u32 \<Rightarrow> u32 \<Rightarrow> u32 \<Rightarrow> u32" where
  "rfc_fun i x y z =
     (if i < 16 then (x AND y) OR (NOT x AND z)
      else if i < 32 then (x AND z) OR (y AND NOT z)
      else if i < 48 then x XOR y XOR z
      else y XOR (x OR NOT z))"

definition rfc_index :: "nat \<Rightarrow> nat" where
  "rfc_index i =
     (if i < 16 then i else if i < 32 then (5 * i + 1) mod 16
      else if i < 48 then (3 * i + 5) mod 16 else (7 * i) mod 16)"

text \<open>One operation of RFC 1321, the roles of the registers rotating.\<close>

fun rfc_step :: "u32 list \<Rightarrow> nat \<Rightarrow> mdbuf \<Rightarrow> mdbuf" where
  "rfc_step M i (a, b, c, d) =
     (let s = shifts ! (i div 16) ! (i mod 4)
      in (d, b + word_rotl s (a + rfc_fun i b c d + M ! rfc_index i + K_table ! i), b, c))"

definition rfc_compress :: "mdbuf \<Rightarrow> u32 list \<Rightarrow> mdbuf" where
  "rfc_compress st M = add_regs st (fold (rfc_step M) [0..<64] st)"

lemma F1_alt: "F1 x y z = (x AND y) OR (NOT x AND z)"
  by (rule bit_word_eqI) (auto simp: F1_def bit_simps)

lemma F2_alt: "F2 x y z = (x AND z) OR (y AND NOT z)"
  by (rule bit_word_eqI) (auto simp: F2_def F1_def bit_simps)

lemma rotl_shift:
  assumes "0 < s" "s < 32"
  shows "push_bit s w OR drop_bit (32 - s) w = word_rotl s (w :: u32)"
proof (rule bit_word_eqI)
  fix n
  assume n: "n < LENGTH(32)"
  have c: "32 + n - s = n + 32 - s" by simp
  show "bit (push_bit s w OR drop_bit (32 - s) w) n = bit (word_rotl s w) n"
    using assms n c by (auto simp: bit_simps bit_word_rotl_iff mod_if dest: bit_imp_le_length)
qed

definition rfc_shift :: "nat \<Rightarrow> nat" where
  "rfc_shift i = shifts ! (i div 16) ! (i mod 4)"

lemma rfc_shift_bounds: "i < 64 \<Longrightarrow> 0 < rfc_shift i \<and> rfc_shift i < 32"
proof -
  assume "i < 64"
  then have "i div 16 < 4" by simp
  moreover have "i mod 4 < 4" by simp
  ultimately have "i div 16 \<in> {0, 1, 2, 3} \<and> i mod 4 \<in> {0, 1, 2, 3}" by auto
  then show ?thesis by (auto simp: rfc_shift_def shifts_def)
qed

lemma rfc_step_MD5STEP:
  assumes "i < 64"
  shows "rfc_step M i (a, b, c, d) =
    (d, MD5STEP (rfc_fun i) a b c d (M ! rfc_index i + K_table ! i) (rfc_shift i), b, c)"
  using rotl_shift rfc_shift_bounds [OF assms]
  by (simp add: MD5STEP_def rfc_shift_def [symmetric] Let_def ac_simps)

definition quad :: "u32 list \<Rightarrow> nat \<Rightarrow> mdbuf \<Rightarrow> mdbuf" where
  "quad M k st = fold (rfc_step M) [4 * k..<4 * k + 4] st"

lemma quad_eq:
  assumes "k < 16"
  shows "quad M k st =
    stB (rfc_fun (4 * k + 3)) (M ! rfc_index (4 * k + 3) + K_table ! (4 * k + 3)) (rfc_shift (4 * k + 3))
      (stC (rfc_fun (4 * k + 2)) (M ! rfc_index (4 * k + 2) + K_table ! (4 * k + 2)) (rfc_shift (4 * k + 2))
        (stD (rfc_fun (4 * k + 1)) (M ! rfc_index (4 * k + 1) + K_table ! (4 * k + 1)) (rfc_shift (4 * k + 1))
          (stA (rfc_fun (4 * k)) (M ! rfc_index (4 * k) + K_table ! (4 * k)) (rfc_shift (4 * k)) st)))"
proof -
  obtain a b c d where st: "st = (a, b, c, d)" by (cases st)
  have "[4 * k..<4 * k + 4] = [4 * k, 4 * k + 1, 4 * k + 2, 4 * k + 3]"
    by (simp add: upt_rec numeral_eq_Suc)
  then show ?thesis
    using assms by (simp add: quad_def st rfc_step_MD5STEP del: rfc_step.simps)
qed

lemma fold_quads: "fold (rfc_step M) [0..<4 * n] st = fold (quad M) [0..<n] st"
proof (induction n)
  case (Suc n)
  have "[0..<4 * Suc n] = [0..<4 * n] @ [4 * n..<4 * n + 4]"
    using upt_add_eq_append [of 0 "4 * n" 4] by (simp add: add.commute)
  then show ?case using Suc by (simp add: quad_def)
qed simp

lemma rfc_fun_cases:
  "i < 16 \<Longrightarrow> rfc_fun i = F1"
  "16 \<le> i \<Longrightarrow> i < 32 \<Longrightarrow> rfc_fun i = F2"
  "32 \<le> i \<Longrightarrow> i < 48 \<Longrightarrow> rfc_fun i = F3"
  "48 \<le> i \<Longrightarrow> rfc_fun i = F4"
  by (auto simp: rfc_fun_def F1_alt F2_alt F3_def F4_def fun_eq_iff)

lemma upt16: "[0..<16] = [0, 1, 2, 3, 4, 5, 6, 7, 8, 9, 10, 11, 12, 13, 14, 15 :: nat]"
  by (simp add: upt_rec)

lemma MD5Transform_rfc: "MD5Transform st M = rfc_compress st M"
proof -
  have "fold (rfc_step M) [0..<64] st = fold (quad M) [0..<16] st"
    using fold_quads [of M 16 st] by simp
  also have "\<dots> = run_steps (round1 M @ round2 M @ round3 M @ round4 M) st"
    by (simp add: upt16 quad_eq rfc_fun_cases rfc_index_def rfc_shift_def shifts_def K_table_def
        run_steps_def round1_def round2_def round3_def round4_def numeral_2_eq_2 [symmetric])
  finally show ?thesis by (simp add: MD5Transform_def rfc_compress_def)
qed

end
