(* ===== verification/MD5_Stream.thy ===== *)
theory MD5_Stream
  imports MD5
begin

text \<open>
  The contract of the incremental interface of \<open>md5.c\<close>: after any sequence of updates the
  context represents the concatenation of the chunks, and the digest is the reference digest
  of that message. The reference digest folds the compression function over the padded
  message. The contract is stated as the locale \<open>stream_hash\<close> and discharged for
  \<open>MD5Init\<close>, \<open>MD5Update\<close> and \<open>MD5Final\<close>.
\<close>

section \<open>Reference digest\<close>

function md5_blocks :: "mdbuf \<Rightarrow> u8 list \<Rightarrow> mdbuf \<times> u8 list" where
  "md5_blocks st m =
     (if 64 \<le> length m then md5_blocks (rfc_compress st (words_of (take 64 m))) (drop 64 m)
      else (st, m))"
  by pat_completeness auto
termination by (relation "measure (\<lambda>(st, m). length m)") auto

declare md5_blocks.simps [simp del]

text \<open>The length field holds the low 64 bits of the length in bits, low word first.\<close>

definition len_field :: "nat \<Rightarrow> u8 list" where
  "len_field n = bytes_of (of_nat (8 * n)) @ bytes_of (of_nat (8 * n div 2 ^ 32))"

definition md5_pad :: "u8 list \<Rightarrow> u8 list" where
  "md5_pad m = 0x80 # replicate ((119 - length m mod 64) mod 64) 0 @ len_field (length m)"

definition md5_ref :: "u8 list \<Rightarrow> u8 list" where
  "md5_ref m = digest_of (fst (md5_blocks MD5_init_buf (m @ md5_pad m)))"

section \<open>The contract\<close>

locale stream_hash =
  fixes init :: "'c \<Rightarrow> 'c"
    and update :: "'c \<Rightarrow> 'b list \<Rightarrow> 'c"
    and final :: "'c \<Rightarrow> 'd"
    and hash :: "'b list \<Rightarrow> 'd"
    and wf :: "'c \<Rightarrow> bool"
    and rep :: "'c \<Rightarrow> 'b list \<Rightarrow> bool"
    and bound :: nat
  assumes rep_init: "wf c \<Longrightarrow> rep (init c) []"
    and rep_update: "rep c m \<Longrightarrow> length x < bound \<Longrightarrow> rep (update c x) (m @ x)"
    and final_rep: "rep c m \<Longrightarrow> final c = hash m"
begin

lemma rep_foldl:
  "rep c m \<Longrightarrow> list_all (\<lambda>x. length x < bound) xs \<Longrightarrow> rep (foldl update c xs) (m @ concat xs)"
proof (induction xs arbitrary: c m)
  case (Cons x xs)
  then have "rep (update c x) (m @ x)" by (simp add: rep_update)
  then show ?case using Cons.IH [of "update c x" "m @ x"] Cons.prems by simp
qed simp

lemma hash_chunks:
  "wf c \<Longrightarrow> list_all (\<lambda>x. length x < bound) xs \<Longrightarrow> final (foldl update (init c) xs) = hash (concat xs)"
  using final_rep rep_foldl [of "init c" "[]" xs] rep_init by simp

end

section \<open>Splitting into blocks\<close>

lemma snd_md5_blocks: "snd (md5_blocks st m) = drop (64 * (length m div 64)) m"
proof (induction st m rule: md5_blocks.induct)
  case (1 st m)
  show ?case
  proof (cases "64 \<le> length m")
    case True
    then have "length m div 64 = Suc ((length m - 64) div 64)" by (simp add: le_div_geq)
    then show ?thesis using 1 True by (subst md5_blocks.simps) (simp add: add.commute)
  next
    case False
    then show ?thesis by (subst md5_blocks.simps) simp
  qed
qed

lemma length_snd_md5_blocks [simp]: "length (snd (md5_blocks st m)) = length m mod 64"
  by (simp add: snd_md5_blocks minus_mult_div_eq_mod)

lemma md5_blocks_append:
  "md5_blocks st (m @ a) =
     md5_blocks (fst (md5_blocks st m)) (snd (md5_blocks st m) @ a)"
proof (induction st m rule: md5_blocks.induct)
  case (1 st m)
  show ?case
  proof (cases "64 \<le> length m")
    case True
    then have "md5_blocks st (m @ a) =
        md5_blocks (rfc_compress st (words_of (take 64 m))) (drop 64 m @ a)"
      by (subst md5_blocks.simps) simp
    moreover have "md5_blocks st m = md5_blocks (rfc_compress st (words_of (take 64 m))) (drop 64 m)"
      using True by (subst md5_blocks.simps) simp
    ultimately show ?thesis using 1 True by simp
  next
    case False
    then have "md5_blocks st m = (st, m)" by (subst md5_blocks.simps) simp
    then show ?thesis by simp
  qed
qed

lemma md5_blocks_short: "length m < 64 \<Longrightarrow> md5_blocks st m = (st, m)"
  by (subst md5_blocks.simps) simp

lemma md5_blocks_block:
  "length b = 64 \<Longrightarrow> md5_blocks st (b @ m) = md5_blocks (rfc_compress st (words_of b)) m"
  by (subst md5_blocks.simps) simp

lemma md5_blocks_one: "length b = 64 \<Longrightarrow> fst (md5_blocks st b) = rfc_compress st (words_of b)"
  using md5_blocks_block [of b st "[]"] by (simp add: md5_blocks_short)

lemma md5_blocks_two:
  "length b1 = 64 \<Longrightarrow> length b2 = 64 \<Longrightarrow> fst (md5_blocks st (b1 @ b2)) =
     rfc_compress (rfc_compress st (words_of b1)) (words_of b2)"
  by (simp add: md5_blocks_block md5_blocks_one)

section \<open>The represented message\<close>

definition md5_wf :: "MD5_CTX \<Rightarrow> bool" where
  "md5_wf ctx \<longleftrightarrow> length (md_in ctx) = 64"

definition md5_rep :: "MD5_CTX \<Rightarrow> u8 list \<Rightarrow> bool" where
  "md5_rep ctx m \<longleftrightarrow>
     length (md_in ctx) = 64 \<and>
     (md_buf ctx, take (length m mod 64) (md_in ctx)) = md5_blocks MD5_init_buf m \<and>
     md_bits0 ctx = of_nat (8 * length m) \<and>
     md_bits1 ctx = of_nat (8 * length m div 2 ^ 32)"

lemma md5_rep_init: "md5_wf ctx \<Longrightarrow> md5_rep (MD5Init ctx) []"
  by (simp add: md5_wf_def md5_rep_def MD5Init_def md5_blocks_short)

lemma used_bytes: "unat (drop_bit 3 (of_nat (8 * n) :: u32) AND 0x3f) = n mod 64"
proof -
  have m: "(0x3f :: u32) = mask 6" by (simp add: mask_eq_exp_minus_1)
  have "unat (drop_bit 3 (of_nat (8 * n) :: u32) AND 0x3f)
      = take_bit 6 (drop_bit 3 (take_bit 32 (8 * n)))"
    by (simp only: m take_bit_eq_mask [symmetric] unsigned_take_bit_eq unsigned_drop_bit_eq
        unsigned_of_nat) simp
  also have "\<dots> = take_bit 6 n"
  proof -
    have "(8 * n) mod 2 ^ 32 = 8 * (n mod 2 ^ 29)"
      using mult_mod_right [of 8 n "2 ^ 29"] by simp
    then have "drop_bit 3 (take_bit 32 (8 * n)) = n mod 2 ^ 29"
      by (simp add: take_bit_eq_mod drop_bit_eq_div)
    then show ?thesis by (simp add: take_bit_eq_mod mod_mod_cancel)
  qed
  finally show ?thesis by (simp add: take_bit_eq_mod)
qed


lemma MD5Update_chunks_rep:
  assumes "length (md_in ctx) = 64"
  shows "length (md_in (MD5Update_chunks ctx x)) = 64
    \<and> (md_buf (MD5Update_chunks ctx x), take (length x mod 64) (md_in (MD5Update_chunks ctx x)))
       = md5_blocks (md_buf ctx) x
    \<and> md_bits0 (MD5Update_chunks ctx x) = md_bits0 ctx
    \<and> md_bits1 (MD5Update_chunks ctx x) = md_bits1 ctx"
  using assms
proof (induction ctx x rule: MD5Update_chunks.induct)
  case (1 ctx x)
  let ?ctx' = "transform_in (ctx\<lparr>md_in := overwrite (md_in ctx) 0 (take 64 x)\<rparr>)"
  show ?case
  proof (cases "64 \<le> length x")
    case True
    have ow: "overwrite (md_in ctx) 0 (take 64 x) = take 64 x"
      using True 1 by (simp add: overwrite_def)
    have u: "MD5Update_chunks ctx x = MD5Update_chunks ?ctx' (drop 64 x)"
      using True by (subst MD5Update_chunks.simps) simp
    have b: "md5_blocks (md_buf ctx) x = md5_blocks (md_buf ?ctx') (drop 64 x)"
      using md5_blocks_block [of "take 64 x" "md_buf ctx" "drop 64 x"] True ow
      by (simp add: transform_in_def MD5Transform_rfc)
    have m: "length x mod 64 = length (drop 64 x) mod 64"
      using True by (simp add: le_mod_geq)
    have "length (md_in ?ctx') = 64" using True 1 by (simp add: transform_in_def ow)
    from "1.IH" [OF True this] show ?thesis
      by (simp only: u b m) (simp add: transform_in_def)
  next
    case False
    then have "MD5Update_chunks ctx x = ctx\<lparr>md_in := overwrite (md_in ctx) 0 x\<rparr>"
      by (subst MD5Update_chunks.simps) simp
    then show ?thesis
      using 1 False take_overwrite_all [of 0 "md_in ctx" x] by (simp add: md5_blocks_short)
  qed
qed

lemma bit_count:
  assumes "l < 2 ^ 32"
  shows "of_nat (8 * n) + push_bit 3 (of_nat l :: u32) = of_nat (8 * (n + l))"
    and "of_nat (8 * n div 2 ^ 32) + (if of_nat (8 * (n + l)) < (of_nat (8 * n) :: u32) then 1 else 0)
      + drop_bit 29 (of_nat l :: u32) = of_nat (8 * (n + l) div 2 ^ 32)"
proof -
  define t where "t = 8 * n mod 2 ^ 32"
  define s where "s = 8 * l mod 2 ^ 32"
  have ut: "unat (of_nat (8 * n) :: u32) = t" by (simp add: t_def unat_of_nat del: of_nat_mult)
  have p: "push_bit 3 (of_nat l :: u32) = of_nat (8 * l)"
    by (simp add: push_bit_eq_mult)
  have sum: "(of_nat (8 * n) :: u32) + of_nat (8 * l) = of_nat (8 * (n + l))"
    by (simp add: algebra_simps)
  have ub: "unat (of_nat (8 * (n + l)) :: u32) = (t + s) mod 2 ^ 32"
    by (simp add: unat_of_nat t_def s_def mod_add_eq distrib_left del: of_nat_mult of_nat_add)
  have d: "drop_bit 29 (of_nat l :: u32) = of_nat (8 * l div 2 ^ 32)"
  proof (rule word_unat_eq_iff [THEN iffD2])
    have "8 * l div 2 ^ 32 = l div 2 ^ 29"
      using div_mult2_eq [of "8 * l" 8 "2 ^ 29"] by simp
    moreover have "unat (of_nat l :: u32) = l"
      using assms by (simp add: unat_of_nat)
    then have "unat (drop_bit 29 (of_nat l :: u32)) = l div 2 ^ 29"
      unfolding unat_drop_bit_eq by (simp only: drop_bit_eq_div)
    moreover have "unat (of_nat (l div 2 ^ 29) :: u32) = l div 2 ^ 29"
      using assms by (simp add: unat_of_nat less_imp_le_nat order.strict_trans1 [OF div_le_dividend])
    ultimately show "unat (drop_bit 29 (of_nat l :: u32)) = unat (of_nat (8 * l div 2 ^ 32) :: u32)"
      by simp
  qed
  have carry: "(of_nat (8 * (n + l)) < (of_nat (8 * n) :: u32)) \<longleftrightarrow> 2 ^ 32 \<le> t + s"
  proof -
    have "t < 2 ^ 32" "s < 2 ^ 32" by (simp_all add: t_def s_def)
    then have "(t + s) mod 2 ^ 32 = (if 2 ^ 32 \<le> t + s then t + s - 2 ^ 32 else t + s)"
      by (simp add: mod_if)
    then show ?thesis
      unfolding word_less_nat_alt ut ub using \<open>s < 2 ^ 32\<close> by auto
  qed
  have q: "8 * (n + l) div 2 ^ 32 =
      8 * n div 2 ^ 32 + (if 2 ^ 32 \<le> t + s then 1 else 0) + 8 * l div 2 ^ 32"
  proof -
    have "(8 * n + 8 * l) div 2 ^ 32 = 8 * n div 2 ^ 32 + 8 * l div 2 ^ 32 + (t + s) div 2 ^ 32"
      unfolding t_def s_def by (rule div_add1_eq)
    moreover have "(t + s) div 2 ^ 32 = (if 2 ^ 32 \<le> t + s then 1 else 0)"
    proof -
      have "t < 2 ^ 32" "s < 2 ^ 32" by (simp_all add: t_def s_def)
      then show ?thesis by (auto simp: div_if)
    qed
    ultimately show ?thesis by (simp add: algebra_simps)
  qed
  show "of_nat (8 * n) + push_bit 3 (of_nat l :: u32) = of_nat (8 * (n + l))"
    unfolding p by (rule sum)
  show "of_nat (8 * n div 2 ^ 32) + (if of_nat (8 * (n + l)) < (of_nat (8 * n) :: u32) then 1 else 0)
      + drop_bit 29 (of_nat l :: u32) = of_nat (8 * (n + l) div 2 ^ 32)"
    unfolding carry d q by simp
qed


lemma md5_rep_update:
  assumes rep: "md5_rep ctx m" and l: "length x < 2 ^ 32"
  shows "md5_rep (MD5Update ctx x) (m @ x)"
proof -
  define p where "p = length m mod 64"
  have in64: "length (md_in ctx) = 64"
    and st: "(md_buf ctx, take p (md_in ctx)) = md5_blocks MD5_init_buf m"
    and b0: "md_bits0 ctx = of_nat (8 * length m)"
    and b1: "md_bits1 ctx = of_nat (8 * length m div 2 ^ 32)"
    using rep by (auto simp: md5_rep_def p_def)
  have p64: "p < 64" by (simp add: p_def)
  have pm: "unat (drop_bit 3 (of_nat (8 * length m) :: u32) AND 0x3f) = p"
    by (simp only: used_bytes p_def)
  define c where "c = ctx\<lparr>md_bits0 := of_nat (8 * (length m + length x)),
                         md_bits1 := of_nat (8 * (length m + length x) div 2 ^ 32)\<rparr>"
  have upd: "MD5Update ctx x =
    (if p \<noteq> 0 then
       if length x < 64 - p then c\<lparr>md_in := overwrite (md_in c) p x\<rparr>
       else MD5Update_chunks
              (transform_in (c\<lparr>md_in := overwrite (md_in c) p (take (64 - p) x)\<rparr>)) (drop (64 - p) x)
     else MD5Update_chunks c x)"
    by (simp only: MD5Update_def Let_def b0 b1 pm bit_count [OF l, of "length m"] c_def)
  have c: "md_buf c = md_buf ctx" "md_in c = md_in ctx"
    "md_bits0 c = of_nat (8 * length (m @ x))" "md_bits1 c = of_nat (8 * length (m @ x) div 2 ^ 32)"
    by (simp_all add: c_def)
  have app: "md5_blocks MD5_init_buf (m @ x) = md5_blocks (md_buf ctx) (take p (md_in ctx) @ x)"
    using md5_blocks_append [of MD5_init_buf m x] by (simp add: st [symmetric])
  consider (zero) "p = 0" | (short) "p \<noteq> 0" "length x < 64 - p" | (long) "p \<noteq> 0" "64 - p \<le> length x"
    by linarith
  then show ?thesis
  proof cases
    case zero
    then have "length (m @ x) mod 64 = length x mod 64"
      using mod_add_left_eq [of "length m" 64 "length x"] by (simp add: p_def)
    with zero show ?thesis
      using MD5Update_chunks_rep [of c x] c in64 app by (simp add: md5_rep_def upd)
  next
    case short
    have "length (m @ x) mod 64 = (p + length x) mod 64"
      by (simp add: p_def mod_add_left_eq)
    then have "length (m @ x) mod 64 = p + length x" using short by simp
    moreover have "take (p + length x) (overwrite (md_in ctx) p x) = take p (md_in ctx) @ x"
      using in64 p64 by (simp add: take_overwrite_all)
    moreover have "md5_blocks (md_buf ctx) (take p (md_in ctx) @ x) = (md_buf ctx, take p (md_in ctx) @ x)"
      using short in64 by (intro md5_blocks_short) simp
    moreover have "MD5Update ctx x = c\<lparr>md_in := overwrite (md_in c) p x\<rparr>"
      using short by (simp add: upd)
    moreover have "length (overwrite (md_in ctx) p x) = 64"
      using short in64 by simp
    ultimately show ?thesis
      using c app by (simp add: md5_rep_def del: length_append of_nat_mult of_nat_add)
  next
    case long
    let ?x1 = "take (64 - p) x" and ?x2 = "drop (64 - p) x"
    let ?c' = "transform_in (c\<lparr>md_in := overwrite (md_in c) p ?x1\<rparr>)"
    have blk: "overwrite (md_in ctx) p ?x1 = take p (md_in ctx) @ ?x1"
      using long in64 p64 by (simp add: overwrite_def)
    have len: "length (take p (md_in ctx) @ ?x1) = 64" using long in64 p64 by simp
    have b: "md5_blocks (md_buf ctx) (take p (md_in ctx) @ x) = md5_blocks (md_buf ?c') ?x2"
      using md5_blocks_block [OF len, of "md_buf ctx" ?x2]
      by (simp add: transform_in_def MD5Transform_rfc c blk)
    have "length (m @ x) mod 64 = length ?x2 mod 64"
    proof -
      have "length (m @ x) mod 64 = (p + length x) mod 64"
        by (simp add: p_def mod_add_left_eq)
      also have "p + length x = 64 + length ?x2" using long p64 by simp
      finally show ?thesis by simp
    qed
    with long show ?thesis
      using MD5Update_chunks_rep [of ?c' ?x2] c in64 app b len
      by (simp add: md5_rep_def upd transform_in_def blk)
  qed
qed

lemma length_bytes_of [simp]: "length (bytes_of w) = 4"
  by (simp add: bytes_of_def)

lemma length_len_field [simp]: "length (len_field n) = 8"
  by (simp add: len_field_def)

lemma md5_final_rep:
  assumes rep: "md5_rep ctx m"
  shows "fst (MD5Final ctx) = md5_ref m"
proof -
  define p where "p = length m mod 64"
  define r where "r = take p (md_in ctx)"
  define L where "L = len_field (length m)"
  have in64: "length (md_in ctx) = 64"
    and st: "md5_blocks MD5_init_buf m = (md_buf ctx, r)"
    and b0: "md_bits0 ctx = of_nat (8 * length m)"
    and b1: "md_bits1 ctx = of_nat (8 * length m div 2 ^ 32)"
    using rep by (auto simp: md5_rep_def p_def r_def)
  have p64: "p < 64" by (simp add: p_def)
  have lr: "length r = p" using in64 p64 by (simp add: r_def)
  have lL: "length L = 8" by (simp add: L_def)
  have pm: "unat (drop_bit 3 (md_bits0 ctx) AND 0x3f) = p"
    by (simp only: used_bytes p_def b0)
  have bl: "bytes_of (md_bits0 ctx) @ bytes_of (md_bits1 ctx) = L"
    by (simp only: b0 b1 L_def len_field_def)
  have ref: "md5_ref m = digest_of (fst (md5_blocks (md_buf ctx)
      (r @ 0x80 # replicate ((119 - p) mod 64) 0 @ L)))"
    using md5_blocks_append [of MD5_init_buf m "md5_pad m"]
    by (simp add: md5_ref_def st md5_pad_def p_def L_def)
  have md_in1: "overwrite (md_in ctx) p [0x80] = r @ 0x80 # drop (p + 1) (md_in ctx)"
    using p64 in64 by (simp add: overwrite_def r_def)
  show ?thesis
  proof (cases "63 - p < 8")
    case True
    let ?b1 = "r @ 0x80 # replicate (63 - p) 0"
    let ?b2 = "replicate 56 0 @ L"
    have pad: "(119 - p) mod 64 = 63 - p + 56"
      using True p64 by (simp add: mod_if)
    have "fst (MD5Final ctx) = digest_of (rfc_compress (rfc_compress (md_buf ctx) (words_of ?b1)) (words_of ?b2))"
    proof -
      have o1: "overwrite (overwrite (md_in ctx) p [0x80]) (Suc p) (replicate (63 - p) 0) = ?b1"
        unfolding md_in1 using in64 p64 lr by (simp add: overwrite_def)
      have l1: "length ?b1 = 64" using lr p64 by simp
      have o2: "overwrite (overwrite ?b1 0 (replicate 56 0)) 56 L = ?b2"
        using l1 lL by (simp add: overwrite_def)
      show ?thesis
        using True by (simp add: MD5Final_def Let_def pm transform_in_def o1 bl o2 MD5Transform_rfc)
    qed
    moreover have "length ?b1 = 64" "length ?b2 = 64" using lr p64 lL by simp_all
    moreover have "r @ 0x80 # replicate ((119 - p) mod 64) 0 @ L = ?b1 @ ?b2"
      unfolding pad replicate_add by simp
    ultimately show ?thesis
      by (simp only: ref md5_blocks_two)
  next
    case False
    let ?b = "r @ 0x80 # replicate (55 - p) 0 @ L"
    have pad: "(119 - p) mod 64 = 55 - p"
      using False p64 by (simp add: mod_if)
    have "fst (MD5Final ctx) = digest_of (rfc_compress (md_buf ctx) (words_of ?b))"
    proof -
      have o1: "overwrite (overwrite (overwrite (md_in ctx) p [0x80]) (Suc p)
          (replicate (55 - p) 0)) 56 L = ?b"
      proof -
        have "56 - p = Suc (55 - p)" using False by simp
        then show ?thesis
          unfolding md_in1 using in64 p64 lr lL False by (simp add: overwrite_def)
      qed
      show ?thesis
        using False by (simp add: MD5Final_def Let_def pm transform_in_def o1 bl MD5Transform_rfc)
    qed
    moreover have "length ?b = 64" using lr p64 lL False by simp
    ultimately show ?thesis
      by (simp only: ref pad md5_blocks_one)
  qed
qed

interpretation md5: stream_hash MD5Init MD5Update "\<lambda>c. fst (MD5Final c)" md5_ref md5_wf md5_rep "2 ^ 32"
  by unfold_locales (simp_all add: md5_rep_init md5_rep_update md5_final_rep)

section \<open>Properties\<close>

text \<open>C22: feeding a message to \<open>MD5Init\<close>, \<open>MD5Update\<close> and \<open>MD5Final\<close> in pieces of any sizes gives
  the digest that RFC 1321 defines for the whole message.\<close>

theorem md5_digest_correct:
  assumes "length (md_in ctx) = 64" "list_all (\<lambda>x. length x < 2 ^ 32) xs"
  shows "fst (MD5Final (foldl MD5Update (MD5Init ctx) xs)) = md5_ref (concat xs)"
  by (rule md5.hash_chunks) (use assms in \<open>simp_all add: md5_wf_def\<close>)

theorem md5_digest_correct_witness:
  "fst (MD5Final (foldl MD5Update
     (MD5Init \<lparr>md_buf = (0, 0, 0, 0), md_bits0 = 0, md_bits1 = 0, md_in = replicate 64 0\<rparr>)
     [[97], [98, 99]])) = md5_ref [97, 98, 99]"
  using md5_digest_correct [of "\<lparr>md_buf = (0, 0, 0, 0), md_bits0 = 0, md_bits1 = 0, md_in = replicate 64 0\<rparr>"
      "[[97], [98, 99]]"] by simp

end
