(* ===== verification/Auth.thy ===== *)
theory Auth
  imports Sys MD5_Stream
begin

text \<open>
  \<open>auth.c\<close> of shttpd: HTTP digest authentication. The hash is the streaming MD5 of \<open>md5.c\<close>,
  used through the contract \<open>stream_hash\<close>; a password file is opened, read and closed with the system calls
  of \<open>Sys\<close>.
\<close>

section \<open>Stringified hashes\<close>

definition byte :: "char \<Rightarrow> u8" where
  "byte c = of_nat (code c)"

definition bytes_str :: "string \<Rightarrow> u8 list" where
  "bytes_str s = map byte s"

definition hexdigit :: "nat \<Rightarrow> char" where
  "hexdigit n = ''0123456789abcdef'' ! n"

fun bin2str :: "u8 list \<Rightarrow> string" where
  "bin2str [] = []"
| "bin2str (b # p) = hexdigit (unat (drop_bit 4 b)) # hexdigit (unat (and b 0x0f)) # bin2str p"

text \<open>The updates of the varargs loop; a negative length fails the assertion.\<close>

fun md5_args :: "nat \<Rightarrow> MD5_CTX \<Rightarrow> vec list \<Rightarrow> MD5_CTX option" where
  "md5_args i ctx [] = Some ctx"
| "md5_args i ctx (v # vs) =
     (if vlen v < 0 then None
      else if vlen v = 0 then md5_args (i + 1) ctx vs
      else let ctx1 = (if 0 < i then MD5Update ctx (bytes_str '':'') else ctx)
           in md5_args (i + 1) (MD5Update ctx1 (bytes_str (vbytes v))) vs)"

text \<open>The context on the stack is not initialised; \<open>md5_hex\<close> takes it as an argument.\<close>

definition md5_hex :: "MD5_CTX \<Rightarrow> vec list \<Rightarrow> string option" where
  "md5_hex ctx0 vs = map_option (\<lambda>c. bin2str (fst (MD5Final c))) (md5_args 0 (MD5Init ctx0) vs)"

definition stack_ctx :: MD5_CTX where
  "stack_ctx = \<lparr>md_buf = (0, 0, 0, 0), md_bits0 = 0, md_bits1 = 0, md_in = replicate 64 0\<rparr>"

definition md5_str :: "vec list \<Rightarrow> string option" where
  "md5_str vs = md5_hex stack_ctx vs"

text \<open>The text that is hashed.\<close>

fun colon_args :: "nat \<Rightarrow> vec list \<Rightarrow> string" where
  "colon_args i [] = []"
| "colon_args i (v # vs) =
     (if vlen v = 0 then [] else (if 0 < i then '':'' else []) @ vbytes v) @ colon_args (i + 1) vs"

definition vec_ok :: "vec \<Rightarrow> bool" where
  "vec_ok v \<longleftrightarrow> 0 \<le> vlen v \<and> vlen v \<le> int (length (vptr v)) \<and> vlen v < 2 ^ 31"

lemma vec_ok_length: "vec_ok v \<Longrightarrow> length (vbytes v) = nat (vlen v)"
  by (auto simp: vec_ok_def vbytes_def min_def)

lemma vec_ok_short: "vec_ok v \<Longrightarrow> length (vbytes v) < 2 ^ 32"
  by (auto simp: vec_ok_length vec_ok_def)

lemma vec_ok_vnull [simp]: "vec_ok vnull"
  by (simp add: vec_ok_def)

lemma vec_ok_vec_of: "length s < 2 ^ 31 \<Longrightarrow> vec_ok (vec_of s)"
  by (simp add: vec_ok_def vec_of_def)

lemma md5_args_chunks:
  "list_all vec_ok vs \<Longrightarrow>
   \<exists>xs. md5_args i c vs = Some (foldl MD5Update c xs) \<and> concat xs = bytes_str (colon_args i vs) \<and>
     list_all (\<lambda>x. length x < 2 ^ 32) xs"
proof (induction vs arbitrary: i c)
  case Nil
  then show ?case by (intro exI [of _ "[]"]) (simp add: bytes_str_def)
next
  case (Cons v vs)
  have ok: "vec_ok v" using Cons.prems by simp
  show ?case
  proof (cases "vlen v = 0")
    case True
    then show ?thesis using Cons by simp
  next
    case False
    let ?p = "(if 0 < i then [bytes_str '':''] else []) @ [bytes_str (vbytes v)]"
    have "list_all vec_ok vs" using Cons.prems by simp
    from Cons.IH [OF this] obtain xs where xs:
      "md5_args (i + 1) (foldl MD5Update c ?p) vs = Some (foldl MD5Update (foldl MD5Update c ?p) xs)"
      "concat xs = bytes_str (colon_args (i + 1) vs)" "list_all (\<lambda>x. length x < 2 ^ 32) xs" by blast
    have "md5_args i c (v # vs) = md5_args (i + 1) (foldl MD5Update c ?p) vs"
      using False ok by (simp add: vec_ok_def Let_def)
    moreover have "concat (?p @ xs) = bytes_str (colon_args i (v # vs))"
      using False xs(2) by (simp add: bytes_str_def)
    moreover have "list_all (\<lambda>x. length x < 2 ^ 32) (?p @ xs)"
      using xs(3) vec_ok_short [OF ok] by (simp add: bytes_str_def)
    ultimately show ?thesis using xs(1) by (intro exI [of _ "?p @ xs"]) simp
  qed
qed

text \<open>The streaming hash of the arguments is the hash of the joined text, whatever the stack held.\<close>

lemma md5_hex_ref:
  assumes "md5_wf ctx0" "list_all vec_ok vs"
  shows "md5_hex ctx0 vs = Some (bin2str (md5_ref (bytes_str (colon_args 0 vs))))"
proof -
  obtain xs where xs: "md5_args 0 (MD5Init ctx0) vs = Some (foldl MD5Update (MD5Init ctx0) xs)"
    "concat xs = bytes_str (colon_args 0 vs)" "list_all (\<lambda>x. length x < 2 ^ 32) xs"
    using md5_args_chunks [OF assms(2), of 0 "MD5Init ctx0"] by blast
  show ?thesis using md5.hash_chunks [OF assms(1) xs(3)] xs by (simp add: md5_hex_def)
qed

definition hash_str :: "string \<Rightarrow> string" where
  "hash_str s = bin2str (md5_ref (bytes_str s))"

lemma md5_str_hash: "list_all vec_ok vs \<Longrightarrow> md5_str vs = Some (hash_str (colon_args 0 vs))"
  by (simp add: md5_str_def md5_hex_ref md5_wf_def stack_ctx_def hash_str_def)

lemma length_bin2str [simp]: "length (bin2str p) = 2 * length p"
  by (induction p rule: bin2str.induct) auto

lemma hexdigit_set: "n < 16 \<Longrightarrow> hexdigit n \<in> set ''0123456789abcdef''"
  unfolding hexdigit_def by (rule nth_mem) simp

lemma unat_nibbles: "unat (drop_bit 4 (b :: u8)) < 16" "unat (and b 0x0f) < 16"
proof -
  have "unat (drop_bit 4 b) = unat b div 16" by (simp add: drop_bit_eq_div unat_div)
  moreover have "unat b < 256" using unsigned_less [of b] by simp
  ultimately show "unat (drop_bit 4 b) < 16" by simp
  have "and b 0x0f = take_bit 4 b" by (simp add: take_bit_eq_mask mask_eq_decr_exp)
  then show "unat (and b 0x0f) < 16" by (simp add: take_bit_eq_mod unat_mod)
qed

lemma bin2str_chars: "set (bin2str p) \<subseteq> set ''0123456789abcdef''"
proof (induction p rule: bin2str.induct)
  case (2 b p)
  then show ?case using hexdigit_set [OF unat_nibbles(1) [of b]] hexdigit_set [OF unat_nibbles(2) [of b]]
    by (simp only: bin2str.simps list.set insert_subset simp_thms)
qed simp

section \<open>Vectors\<close>

definition vcmp :: "vec \<Rightarrow> vec \<Rightarrow> bool" where
  "vcmp v1 v2 \<longleftrightarrow> vlen v1 = vlen v2 \<and> take (nat (vlen v1)) (vptr v1) = take (nat (vlen v1)) (vptr v2)"

lemma vcmp_bytes: "vcmp v1 v2 \<longleftrightarrow> vlen v1 = vlen v2 \<and> vbytes v1 = vbytes v2"
  by (auto simp: vcmp_def vbytes_def)


section \<open>The Authorization header\<close>

record digest =
  d_user :: vec
  d_uri :: vec
  d_nonce :: vec
  d_cnonce :: vec
  d_resp :: vec
  d_qop :: vec
  d_nc :: vec

definition digest0 :: digest where
  "digest0 = \<lparr>d_user = vnull, d_uri = vnull, d_nonce = vnull, d_cnonce = vnull, d_resp = vnull,
     d_qop = vnull, d_nc = vnull\<rparr>"

datatype auth_field = A_user | A_cnonce | A_resp | A_uri | A_qop | A_nc | A_nonce

definition known_auth_keywords :: "(auth_field \<times> string) list" where
  "known_auth_keywords =
    [(A_user, ''username=''), (A_cnonce, ''cnonce=''), (A_resp, ''response=''), (A_uri, ''uri=''),
     (A_qop, ''qop=''), (A_nc, ''nc=''), (A_nonce, ''nonce='')]"

fun put_digest :: "auth_field \<Rightarrow> vec \<Rightarrow> digest \<Rightarrow> digest" where
  "put_digest A_user v d = d\<lparr>d_user := v\<rparr>"
| "put_digest A_cnonce v d = d\<lparr>d_cnonce := v\<rparr>"
| "put_digest A_resp v d = d\<lparr>d_resp := v\<rparr>"
| "put_digest A_uri v d = d\<lparr>d_uri := v\<rparr>"
| "put_digest A_qop v d = d\<lparr>d_qop := v\<rparr>"
| "put_digest A_nc v d = d\<lparr>d_nc := v\<rparr>"
| "put_digest A_nonce v d = d\<lparr>d_nonce := v\<rparr>"

definition find_keyword :: "char list \<Rightarrow> nat \<Rightarrow> (auth_field \<times> string) option" where
  "find_keyword p d = find (\<lambda>(f, kw). length kw \<le> d \<and> take (length kw) p = kw) known_auth_keywords"

text \<open>One \<open>keyword=value\<close>. \<open>m\<close>: the memory from \<open>p\<close> on; \<open>n\<close>: \<open>e - p\<close>. A value in double
  quotes runs to the next quote, another one to the next space or comma.\<close>

definition auth_value :: "char list \<Rightarrow> int \<Rightarrow> char list \<times> int \<times> nat" where
  "auth_value s ns =
     (if chd s = DQ
      then (drop 1 s, ns - 1, length (takeWhile (\<lambda>c. c \<noteq> DQ) (take (nat (ns - 1)) (drop 1 s))))
      else (s, ns, length (takeWhile (\<lambda>c. c \<noteq> CHR '' '' \<and> c \<noteq> CHR '','') (take (nat ns) s))))"

definition auth_step :: "char list \<Rightarrow> int \<Rightarrow> digest \<Rightarrow> char list \<times> int \<times> digest" where
  "auth_step m n dig =
     (let sp = length (takeWhile (\<lambda>c. c = CHR '' '' \<or> c = CHR '','') (take (nat n) m));
          p1 = drop sp m; n1 = n - int sp;
          eq = length (takeWhile (\<lambda>c. c \<noteq> CHR ''='') (take (nat n1) p1));
          (s, ns, l) = auth_value (drop (eq + 1) p1) (n1 - int (eq + 1));
          dig1 = (case find_keyword p1 (eq + 1) of
              None \<Rightarrow> dig
            | Some (f, k) \<Rightarrow> put_digest f \<lparr>vptr = s, vlen = int l\<rparr> dig);
          p2 = drop l s; n2 = ns - int l
      in if chd p2 = DQ then (drop 1 p2, n2 - 1, dig1) else (p2, n2, dig1))"

lemma auth_value_le: "auth_value s ns = (s', ns', l) \<Longrightarrow> ns' \<le> ns"
  by (auto simp: auth_value_def split: if_splits)

lemma auth_step_less: "auth_step m n dig = (m', n', dig') \<Longrightarrow> n' < n"
proof -
  assume h: "auth_step m n dig = (m', n', dig')"
  define sp where "sp = length (takeWhile (\<lambda>c. c = CHR '' '' \<or> c = CHR '','') (take (nat n) m))"
  define eq where "eq = length (takeWhile (\<lambda>c. c \<noteq> CHR ''='') (take (nat (n - int sp)) (drop sp m)))"
  obtain s ns l where v: "auth_value (drop (eq + 1) (drop sp m)) (n - int sp - int (eq + 1)) = (s, ns, l)"
    by (metis prod_cases3)
  have "n' \<le> ns" using h v unfolding auth_step_def Let_def sp_def [symmetric] eq_def [symmetric]
    by (auto split: if_splits)
  moreover have "ns \<le> n - int sp - int (eq + 1)" by (rule auth_value_le [OF v])
  ultimately show ?thesis by simp
qed

function parse_auth :: "char list \<Rightarrow> int \<Rightarrow> digest \<Rightarrow> digest" where
  "parse_auth m n dig =
     (if n \<le> 0 then dig
      else case auth_step m n dig of (m1, n1, dig1) \<Rightarrow> parse_auth m1 n1 dig1)"
  by pat_completeness auto
termination
  by (relation "measure (\<lambda>(m, n, d). nat n)") (auto split: prod.splits dest: auth_step_less)

declare parse_auth.simps [simp del]

definition parse_authorization_header :: "vec \<Rightarrow> digest" where
  "parse_authorization_header h = parse_auth (drop 7 (vptr h)) (vlen h - 7) digest0"

section \<open>Checking a response\<close>

text \<open>\<open>None\<close> is a failed assertion inside \<open>md5\<close>; \<open>Some b\<close> the return value.\<close>

definition check_password :: "http_method \<Rightarrow> vec \<Rightarrow> digest \<Rightarrow> bool option" where
  "check_password method ha1 dig =
     (if vlen (d_resp dig) \<noteq> 32 then Some False
      else case md5_str [vec_of (method_name method), d_uri dig] of
             None \<Rightarrow> None
           | Some a2 \<Rightarrow>
               map_option (\<lambda>resp. resp = take 32 (vptr (d_resp dig)))
                 (md5_str [ha1, d_nonce dig, d_nc dig, d_cnonce dig, d_qop dig, vec_of a2]))"

text \<open>A line of a password file.\<close>

definition parse_htpasswd_line :: "string \<Rightarrow> (vec \<times> vec \<times> vec) option" where
  "parse_htpasswd_line s =
    (let u = takeWhile (\<lambda>c. c \<noteq> CHR '':'') s; s1 = drop (length u) s
     in if chd s1 \<noteq> CHR '':'' then None
        else let s2 = drop 1 s1; d = takeWhile (\<lambda>c. c \<noteq> CHR '':'') s2; s3 = drop (length d) s2
             in if chd s3 \<noteq> CHR '':'' then None
                else let s4 = drop 1 s3; h = takeWhile (\<lambda>c. \<not> isspace c) s4
                     in if 0 < length u \<and> 0 < length d \<and> 0 < length h
                        then Some (\<lparr>vptr = s, vlen = int (length u)\<rparr>,
                               \<lparr>vptr = s2, vlen = int (length d)\<rparr>, \<lparr>vptr = s4, vlen = int (length h)\<rparr>)
                        else None)"

text \<open>\<open>fgets\<close> with a buffer of \<open>n\<close> bytes: the lines a loop over a file sees. A longer line comes
  in pieces.\<close>

definition line_len :: "nat \<Rightarrow> string \<Rightarrow> nat" where
  "line_len n s = min (n - 1) (min (length s) (length (takeWhile (\<lambda>c. c \<noteq> LF) s) + 1))"

function fgets_lines :: "nat \<Rightarrow> string \<Rightarrow> string list" where
  "fgets_lines n s =
     (if s = [] \<or> n \<le> 1 then []
      else take (line_len n s) s # fgets_lines n (drop (line_len n s) s))"
  by pat_completeness auto
termination
  by (relation "measure (length \<circ> snd)") (auto simp: line_len_def min_def)

declare fgets_lines.simps [simp del]

text \<open>The loop of \<open>authorize\<close> over the lines. The realm is compared up to the length of the
  domain of the line only.\<close>

fun auth_lines :: "string \<Rightarrow> http_method \<Rightarrow> digest \<Rightarrow> string list \<Rightarrow> bool option" where
  "auth_lines realm method dig [] = Some False"
| "auth_lines realm method dig (line # ls) =
     (case parse_htpasswd_line line of
        None \<Rightarrow> auth_lines realm method dig ls
      | Some (user, domain, ha1) \<Rightarrow>
          if vcmp (d_user dig) user \<and> take (nat (vlen domain)) (realm @ [NUL]) = vbytes domain
          then check_password method ha1 dig
          else auth_lines realm method dig ls)"

definition authorize :: "shttpd_ctx \<Rightarrow> conn \<Rightarrow> string \<Rightarrow> (bool \<times> conn) option" where
  "authorize ctx c file =
    (let av = h_auth (c_ch c)
     in if 20 < vlen av \<and> my_strncasecmp (vptr av) ''Digest '' 7 = 0
        then let dig = parse_authorization_header av;
                 c1 = c\<lparr>c_ch := (c_ch c)\<lparr>h_user := d_user dig\<rparr>\<rparr>
             in map_option (\<lambda>ok. (ok, c1))
                  (auth_lines (str_of (auth_realm ctx)) (c_method c) dig (fgets_lines 256 file))
        else Some (False, c))"

text \<open>The password file that protects a path: \<open>None\<close> when the assertion on the separator fails.\<close>

definition auth_file_name :: "shttpd_ctx \<Rightarrow> string \<Rightarrow> string option" where
  "auth_file_name ctx path =
    (case global_passwd_file ctx of
       Some g \<Rightarrow> Some (cstr (snd (my_snprintf FILENAME_MAX g)))
     | None \<Rightarrow>
         if path = [] then None
         else let e = length (dropWhile (\<lambda>c. c \<noteq> CHR ''/'') (rev (tl path)));
                  d = take e path
              in if chat path e = CHR ''/''
                 then Some (cstr (snd (my_snprintf FILENAME_MAX (d @ ''/'' @ HTPASSWD))))
                 else None)"

text \<open>\<open>fopen\<close> for reading, and \<open>my_open\<close> with \<open>fdopen\<close>: the descriptor and the content, or nothing.\<close>

definition fopen_r :: "'w os \<Rightarrow> string \<Rightarrow> 'w \<Rightarrow> (int \<times> string) option \<times> 'w" where
  "fopen_r S name w =
    (let (fd, w1) = os_open S w name False
     in if fd = -1 then (None, w1)
        else case os_fdopen S w1 fd of
               None \<Rightarrow> (None, os_close S w1 fd)
             | Some text \<Rightarrow> (Some (fd, text), w1))"

definition open_auth_file ::
  "'w os \<Rightarrow> shttpd_ctx \<Rightarrow> string \<Rightarrow> 'w \<Rightarrow> ((int \<times> string) option \<times> 'w) option" where
  "open_auth_file S ctx path w = map_option (\<lambda>name. fopen_r S name w) (auth_file_name ctx path)"

definition protecting_file :: "shttpd_ctx \<Rightarrow> string \<Rightarrow> string option" where
  "protecting_file ctx uri = map_option snd (find (\<lambda>(u, f). prefixb u uri) (uri_auths ctx))"

definition check_authorization ::
  "'w os \<Rightarrow> shttpd_ctx \<Rightarrow> conn \<Rightarrow> string \<Rightarrow> 'w \<Rightarrow> (bool \<times> conn \<times> 'w) option" where
  "check_authorization S ctx c path w =
    (let (fp0, w0) = (case protecting_file ctx (str_of (c_uri c)) of None \<Rightarrow> (None, w) | Some f \<Rightarrow> fopen_r S f w)
     in case (if fp0 = None then open_auth_file S ctx path w0 else Some (fp0, w0)) of
          None \<Rightarrow> None
        | Some (None, w1) \<Rightarrow> Some (True, c, w1)
        | Some (Some (fd, file), w1) \<Rightarrow> map_option (\<lambda>(ok, c1). (ok, c1, os_close S w1 fd)) (authorize ctx c file))"

definition is_authorized_for_put ::
  "'w os \<Rightarrow> shttpd_ctx \<Rightarrow> conn \<Rightarrow> 'w \<Rightarrow> (bool \<times> conn \<times> 'w) option" where
  "is_authorized_for_put S ctx c w =
    (case fopen_r S (str_of (put_auth_file ctx)) w of
       (None, w1) \<Rightarrow> Some (False, c, w1)
     | (Some (fd, file), w1) \<Rightarrow> map_option (\<lambda>(ok, c1). (ok, c1, os_close S w1 fd)) (authorize ctx c file))"

text \<open>What the checks do outside: files are opened for reading, and descriptors closed.\<close>

inductive looked :: "'w os \<Rightarrow> 'w \<Rightarrow> 'w \<Rightarrow> bool" for S w where
  looked_none [intro]: "looked S w w"
| looked_open: "looked S w v \<Longrightarrow> os_open S v name False = (fd, v') \<Longrightarrow> looked S w v'"
| looked_close: "looked S w v \<Longrightarrow> looked S w (os_close S v fd)"

lemma fopen_r_looked: "fopen_r S name v = (r, v') \<Longrightarrow> looked S w v \<Longrightarrow> looked S w v'"
  by (auto simp: fopen_r_def split: prod.splits if_splits option.splits intro: looked_open looked_close)

lemma looked_trans: "looked S v u \<Longrightarrow> looked S w v \<Longrightarrow> looked S w u"
  by (induction rule: looked.induct) (auto intro: looked_open looked_close)

lemma check_authorization_looked:
  "check_authorization S ctx c path w = Some (b, c', w') \<Longrightarrow> looked S w w'"
  by (auto simp: check_authorization_def open_auth_file_def split: prod.splits option.splits if_splits
      intro: looked_close looked_trans dest!: fopen_r_looked [OF _ looked_none])

section \<open>What a client sends\<close>

text \<open>The parameters of a Digest header, separated by a comma and a space: the name, whether the value is
  quoted, and the value.\<close>

type_synonym auth_param = "string \<times> bool \<times> string"

fun auth_param_text :: "auth_param \<Rightarrow> string" where
  "auth_param_text (k, q, v) = k @ CHR ''='' # (if q then DQ # v @ [DQ] else v)"

fun render_auth :: "auth_param list \<Rightarrow> string" where
  "render_auth [] = []"
| "render_auth [p] = auth_param_text p"
| "render_auth (p # p2 # ps) = auth_param_text p @ '', '' @ render_auth (p2 # ps)"

text \<open>Without quotes there can be no space, comma or quote in a value.\<close>

fun param_ok :: "auth_param \<Rightarrow> bool" where
  "param_ok (k, q, v) \<longleftrightarrow> k \<noteq> [] \<and> set k \<inter> {CHR ''='', CHR '' '', CHR '',''} = {} \<and> DQ \<notin> set v \<and>
     (\<not> q \<longrightarrow> v \<noteq> [] \<and> set v \<inter> {CHR '' '', CHR '',''} = {})"

definition auth_key :: "string \<Rightarrow> bool" where
  "auth_key k \<longleftrightarrow> k \<noteq> [] \<and> set k \<inter> {CHR ''='', CHR '' '', CHR '',''} = {}"

definition keyword_field :: "string \<Rightarrow> auth_field option" where
  "keyword_field k = map_option fst (find (\<lambda>(f, kw). kw = k @ ''='') known_auth_keywords)"

lemma find_keyword_eq:
  assumes "CHR ''='' \<notin> set k"
  shows "find_keyword (k @ CHR ''='' # r) (length k + 1) = find (\<lambda>(f, kw). kw = k @ ''='') known_auth_keywords"
proof -
  have "(length kw \<le> length k + 1 \<and> take (length kw) (k @ CHR ''='' # r) = kw) \<longleftrightarrow> kw = k @ ''=''"
    if "(f, kw) \<in> set known_auth_keywords" for f kw
  proof -
    have "kw = butlast kw @ ''='' \<and> CHR ''='' \<notin> set (butlast kw)"
      using that by (auto simp: known_auth_keywords_def)
    then obtain t where t: "kw = t @ ''=''" "CHR ''='' \<notin> set t" by blast
    have "take (length kw) (k @ CHR ''='' # r) = kw \<Longrightarrow> length kw \<le> length k \<Longrightarrow> CHR ''='' \<in> set k"
    proof -
      assume h: "take (length kw) (k @ CHR ''='' # r) = kw" "length kw \<le> length k"
      then have "take (length kw) k = kw" by simp
      then have "set kw \<subseteq> set k" by (metis set_take_subset)
      then show "CHR ''='' \<in> set k" using t by auto
    qed
    then have "length kw \<le> length k + 1 \<and> take (length kw) (k @ CHR ''='' # r) = kw \<Longrightarrow> length kw = length k + 1"
      using assms by linarith
    moreover have "take (length k + 1) (k @ CHR ''='' # r) = k @ ''=''" by simp
    ultimately show ?thesis by (metis length_append_singleton Suc_eq_plus1 le_refl)
  qed
  then show ?thesis unfolding find_keyword_def by (intro find_cong_set) auto
qed

lemma auth_step_quoted:
  assumes "auth_key k" "DQ \<notin> set v" "set sep \<subseteq> {CHR '' '', CHR '',''}"
  shows "auth_step (sep @ k @ CHR ''='' # DQ # v @ DQ # t) (int (length sep + length k + length v + 3 + j)) dig =
    (t, int j, case keyword_field k of None \<Rightarrow> dig
       | Some f \<Rightarrow> put_digest f \<lparr>vptr = v @ DQ # t, vlen = int (length v)\<rparr> dig)"
proof -
  let ?p1 = "k @ CHR ''='' # DQ # v @ DQ # t"
  let ?n = "int (length sep + length k + length v + 3 + j)"
  obtain a k' where k: "k = a # k'" "a \<noteq> CHR '' ''" "a \<noteq> CHR '',''" using assms(1) by (cases k) (auto simp: auth_key_def)
  have sp: "takeWhile (\<lambda>c. c = CHR '' '' \<or> c = CHR '','') (take (nat ?n) (sep @ ?p1)) = sep"
  proof -
    have "\<forall>x \<in> set sep. x = CHR '' '' \<or> x = CHR '',''" using assms(3) by auto
    moreover have "nat ?n = length sep + (length k + length v + 3 + j)" by simp
    ultimately show ?thesis using k by (simp only: take_append) (simp add: takeWhile_append2)
  qed
  have eq: "takeWhile (\<lambda>c. c \<noteq> CHR ''='') (take (nat (?n - int (length sep))) ?p1) = k"
  proof -
    have "nat (?n - int (length sep)) = length k + Suc (length v + 2 + j)" by simp
    then have "take (nat (?n - int (length sep))) ?p1 = k @ CHR ''='' # take (length v + 2 + j) (DQ # v @ DQ # t)"
      by (simp only: take_app_Cons)
    then show ?thesis using assms(1) by (simp add: takeWhile_neq_app auth_key_def)
  qed
  have v: "auth_value (DQ # v @ DQ # t) (?n - int (length sep) - int (length k + 1)) =
      (v @ DQ # t, ?n - int (length sep) - int (length k + 1) - 1, length v)"
  proof -
    have "nat (?n - int (length sep) - int (length k + 1) - 1) = length v + Suc j" by simp
    then have "takeWhile (\<lambda>c. c \<noteq> DQ) (take (nat (?n - int (length sep) - int (length k + 1) - 1)) (v @ DQ # t)) = v"
      using takeWhile_neq_app [OF assms(2)] by (simp only: take_app_Cons)
    then show ?thesis by (simp add: auth_value_def)
  qed
  show ?thesis
    unfolding auth_step_def Let_def sp
    using eq v find_keyword_eq [of k "DQ # v @ DQ # t"] assms(1)
    by (simp add: auth_key_def keyword_field_def split: option.splits)
qed


lemma auth_step_token:
  assumes "auth_key k" "v \<noteq> []" "set v \<inter> {DQ, CHR '' '', CHR '',''} = {}" "set sep \<subseteq> {CHR '' '', CHR '',''}"
    and "j = 0 \<or> (\<exists>u. t = CHR '','' # u)"
  shows "\<exists>t' j'. auth_step (sep @ k @ CHR ''='' # v @ t) (int (length sep + length k + length v + 1 + j)) dig =
      (t', j', case keyword_field k of None \<Rightarrow> dig
         | Some f \<Rightarrow> put_digest f \<lparr>vptr = v @ t, vlen = int (length v)\<rparr> dig) \<and>
    (t' = t \<and> j' = int j \<or> j = 0 \<and> j' \<le> 0)"
proof -
  let ?p1 = "k @ CHR ''='' # v @ t"
  let ?n = "int (length sep + length k + length v + 1 + j)"
  obtain a k' where k: "k = a # k'" "a \<noteq> CHR '' ''" "a \<noteq> CHR '',''" using assms(1) by (cases k) (auto simp: auth_key_def)
  have sp: "takeWhile (\<lambda>c. c = CHR '' '' \<or> c = CHR '','') (take (nat ?n) (sep @ ?p1)) = sep"
  proof -
    have "\<forall>x \<in> set sep. x = CHR '' '' \<or> x = CHR '',''" using assms(4) by auto
    moreover have "nat ?n = length sep + (length k + length v + 1 + j)" by simp
    ultimately show ?thesis using k by (simp only: take_append) (simp add: takeWhile_append2)
  qed
  have eq: "takeWhile (\<lambda>c. c \<noteq> CHR ''='') (take (nat (?n - int (length sep))) ?p1) = k"
  proof -
    have "nat (?n - int (length sep)) = length k + Suc (length v + j)" by simp
    then have "take (nat (?n - int (length sep))) ?p1 = k @ CHR ''='' # take (length v + j) (v @ t)"
      by (simp only: take_app_Cons)
    then show ?thesis using assms(1) by (simp add: takeWhile_neq_app auth_key_def)
  qed
  have v: "auth_value (v @ t) (?n - int (length sep) - int (length k + 1)) =
      (v @ t, ?n - int (length sep) - int (length k + 1), length v)"
  proof -
    have n: "nat (?n - int (length sep) - int (length k + 1)) = length v + j" by simp
    have all: "\<forall>c \<in> set v. c \<noteq> CHR '' '' \<and> c \<noteq> CHR '',''" and q: "chd (v @ t) \<noteq> DQ"
      using assms(2,3) by (auto simp: neq_Nil_conv)
    have "takeWhile (\<lambda>c. c \<noteq> CHR '' '' \<and> c \<noteq> CHR '','') (v @ take j t) = v @ takeWhile (\<lambda>c. c \<noteq> CHR '' '' \<and> c \<noteq> CHR '','') (take j t)"
      by (rule takeWhile_append2) (use all in blast)
    moreover have "takeWhile (\<lambda>c. c \<noteq> CHR '' '' \<and> c \<noteq> CHR '','') (take j t) = []"
      using assms(5) by (cases j) auto
    ultimately have "takeWhile (\<lambda>c. c \<noteq> CHR '' '' \<and> c \<noteq> CHR '','') (v @ take j t) = v" by simp
    then show ?thesis using q unfolding auth_value_def n by simp
  qed
  show ?thesis
    unfolding auth_step_def Let_def sp
    using eq v find_keyword_eq [of k "v @ t"] assms(1,5)
    by (auto simp: auth_key_def keyword_field_def split: option.splits)
qed

fun get_digest :: "auth_field \<Rightarrow> digest \<Rightarrow> vec" where
  "get_digest A_user d = d_user d"
| "get_digest A_cnonce d = d_cnonce d"
| "get_digest A_resp d = d_resp d"
| "get_digest A_uri d = d_uri d"
| "get_digest A_qop d = d_qop d"
| "get_digest A_nc d = d_nc d"
| "get_digest A_nonce d = d_nonce d"

lemma get_put_digest: "get_digest f (put_digest g v d) = (if g = f then v else get_digest f d)"
  by (cases f; cases g; simp)

lemma render_auth_Cons:
  "render_auth (p # ps) = auth_param_text p @ (if ps = [] then [] else '', '' @ render_auth ps)"
  by (cases ps) auto

text \<open>One parameter, quoted or not.\<close>

lemma parse_auth_param:
  assumes "param_ok (k, q, v)" "set sep \<subseteq> {CHR '' '', CHR '',''}" "j = 0 \<or> (\<exists>u. t = CHR '','' # u)"
  shows "\<exists>w. parse_auth (sep @ auth_param_text (k, q, v) @ t) (int (length sep + length (auth_param_text (k, q, v)) + j)) dig =
      parse_auth t (int j) (case keyword_field k of None \<Rightarrow> dig | Some f \<Rightarrow> put_digest f w dig) \<and> vbytes w = v"
proof -
  have key: "auth_key k" "DQ \<notin> set v" using assms(1) by (auto simp: auth_key_def)
  show ?thesis
  proof (cases q)
    case True
    have "sep @ auth_param_text (k, q, v) @ t = sep @ k @ CHR ''='' # DQ # v @ DQ # t"
      "length sep + length (auth_param_text (k, q, v)) + j = length sep + length k + length v + 3 + j" using True by simp_all
    then show ?thesis
      by (intro exI [of _ "\<lparr>vptr = v @ DQ # t, vlen = int (length v)\<rparr>"])
        (subst parse_auth.simps, simp only: auth_step_quoted [OF key assms(2)] prod.case, simp add: vbytes_def)
  next
    case False
    let ?d = "case keyword_field k of None \<Rightarrow> dig | Some f \<Rightarrow> put_digest f \<lparr>vptr = v @ t, vlen = int (length v)\<rparr> dig"
    have m: "sep @ auth_param_text (k, q, v) @ t = sep @ k @ CHR ''='' # v @ t"
      "length sep + length (auth_param_text (k, q, v)) + j = length sep + length k + length v + 1 + j" using False by simp_all
    have "v \<noteq> []" "set v \<inter> {DQ, CHR '' '', CHR '',''} = {}" using False assms(1) by auto
    from auth_step_token [OF key(1) this assms(2,3), of dig] obtain t' j' where
      st: "auth_step (sep @ k @ CHR ''='' # v @ t) (int (length sep + length k + length v + 1 + j)) dig = (t', j', ?d)"
      "t' = t \<and> j' = int j \<or> j = 0 \<and> j' \<le> 0" by blast
    have "parse_auth t' j' ?d = parse_auth t (int j) ?d" using st(2) by (auto simp: parse_auth.simps)
    then show ?thesis unfolding m
      by (intro exI [of _ "\<lparr>vptr = v @ t, vlen = int (length v)\<rparr>"])
        (subst parse_auth.simps, simp only: st(1) prod.case, simp add: vbytes_def)
  qed
qed

lemma parse_auth_render:
  assumes "\<forall>p \<in> set kvs. param_ok p" "set sep \<subseteq> {CHR '' '', CHR '',''}" "kvs \<noteq> []"
  shows "vbytes (get_digest f (parse_auth (sep @ render_auth kvs @ r) (int (length sep + length (render_auth kvs))) dig)) =
    (case find (\<lambda>p. keyword_field (fst p) = Some f) (rev kvs) of
       None \<Rightarrow> vbytes (get_digest f dig) | Some p \<Rightarrow> snd (snd p))"
  using assms
proof (induction kvs arbitrary: sep dig)
  case (Cons p ps)
  obtain k q v where p: "p = (k, q, v)" by (cases p)
  have ok: "param_ok (k, q, v)" using Cons.prems p by simp
  define t where "t = (if ps = [] then [] else '', '' @ render_auth ps)"
  have m: "sep @ render_auth (p # ps) @ r = sep @ auth_param_text (k, q, v) @ (t @ r)"
    by (simp add: p render_auth_Cons t_def)
  have n: "int (length sep + length (render_auth (p # ps))) = int (length sep + length (auth_param_text (k, q, v)) + length t)"
    by (simp add: p render_auth_Cons t_def)
  have "length t = 0 \<or> (\<exists>u. t @ r = CHR '','' # u)" by (simp add: t_def)
  from parse_auth_param [OF ok Cons.prems(2) this, of dig] obtain w where w:
    "parse_auth (sep @ auth_param_text (k, q, v) @ t @ r) (int (length sep + length (auth_param_text (k, q, v)) + length t)) dig =
      parse_auth (t @ r) (int (length t)) (case keyword_field k of None \<Rightarrow> dig | Some f \<Rightarrow> put_digest f w dig)"
    "vbytes w = v" by blast
  define dig' where "dig' = (case keyword_field k of None \<Rightarrow> dig | Some g \<Rightarrow> put_digest g w dig)"
  have "vbytes (get_digest f dig') = (if keyword_field k = Some f then v else vbytes (get_digest f dig))"
    using w(2) by (auto simp: dig'_def get_put_digest split: option.splits)
  moreover have "vbytes (get_digest f (parse_auth (t @ r) (int (length t)) dig')) =
      (case find (\<lambda>p. keyword_field (fst p) = Some f) (rev ps) of
       None \<Rightarrow> vbytes (get_digest f dig') | Some p \<Rightarrow> snd (snd p))"
  proof (cases ps)
    case Nil
    then show ?thesis by (subst parse_auth.simps) (simp add: t_def)
  next
    case (Cons a as)
    then show ?thesis using Cons.IH [of "'', ''" dig'] Cons.prems by (simp add: t_def)
  qed
  ultimately show ?case unfolding m n w(1) dig'_def [symmetric] by (simp add: p find_append split: option.splits)
qed simp

end
