(* ===== verification/Passwd.thy ===== *)
theory Passwd
  imports Auth
begin

text \<open>
  The password files of \<open>auth.c\<close>: \<open>edit_passwords\<close> (the \<open>-A\<close> option of the server) over a file
  system that maps names to contents, and how the files it writes are used by \<open>authorize\<close>.
\<close>

section \<open>Editing\<close>

definition htpasswd_line :: "string \<Rightarrow> string \<Rightarrow> string \<Rightarrow> string" where
  "htpasswd_line user domain ha1 = user @ '':'' @ domain @ '':'' @ take 32 ha1 @ [LF]"

text \<open>One line of the old file: what is written to the new one, and whether the user was found.
  A line without two colons is not copied.\<close>

definition edit_line :: "string \<Rightarrow> string \<Rightarrow> string \<Rightarrow> string \<Rightarrow> (string \<times> bool) option" where
  "edit_line domain user pass line =
    (case strchr line CHR '':'' of
       None \<Rightarrow> Some ([], False)
     | Some r \<Rightarrow>
         let u = take (length line - length r) line; d0 = tl r
         in case strchr d0 CHR '':'' of
              None \<Rightarrow> Some ([], False)
            | Some r2 \<Rightarrow>
                let d = take (length d0 - length r2) d0
                in if user = u \<and> domain = d
                   then map_option (\<lambda>ha1. (htpasswd_line user domain ha1, True))
                          (md5_str [vec_of u, vec_of d, vec_of pass])
                   else Some (line, False))"

fun edit_lines :: "string \<Rightarrow> string \<Rightarrow> string \<Rightarrow> string list \<Rightarrow> (string \<times> nat) option" where
  "edit_lines domain user pass [] = Some ([], 0)"
| "edit_lines domain user pass (l # ls) =
     (case edit_line domain user pass l of
        None \<Rightarrow> None
      | Some (out, found) \<Rightarrow>
          map_option (\<lambda>(o2, n). (out @ o2, (if found then n + 1 else n))) (edit_lines domain user pass ls))"

definition edit_text :: "string \<Rightarrow> string \<Rightarrow> string \<Rightarrow> string \<Rightarrow> string option" where
  "edit_text domain user pass old =
    (case edit_lines domain user pass (fgets_lines 512 old) of
       None \<Rightarrow> None
     | Some (out, n) \<Rightarrow>
         if n = 0
         then map_option (\<lambda>ha1. out @ htpasswd_line user domain ha1)
                (md5_str [vec_of user, vec_of domain, vec_of pass])
         else Some out)"

type_synonym files = "string \<Rightarrow> string option"

text \<open>Every file can be opened here; where one cannot, the program exits.\<close>

definition edit_passwords :: "files \<Rightarrow> string \<Rightarrow> string \<Rightarrow> string \<Rightarrow> string \<Rightarrow> files option" where
  "edit_passwords fs fname domain user pass =
    (let tmp = cstr (snd (my_snprintf FILENAME_MAX (fname @ ''.tmp'')));
         fs1 = (if fs fname = None then fs(fname := Some []) else fs)
     in map_option (\<lambda>out.
          let fs2 = fs1(tmp := Some out);
              fs3 = fs2(fname := None)
          in fs3(fname := fs3 tmp, tmp := None))
        (edit_text domain user pass (str_of (fs1 fname))))"

section \<open>Lines\<close>

definition pw_name :: "string \<Rightarrow> bool" where
  "pw_name s \<longleftrightarrow> s \<noteq> [] \<and> set s \<inter> {NUL, LF, CHR '':''} = {}"

lemma strchr_app: "c \<notin> set u \<Longrightarrow> strchr (u @ c # r) c = Some (c # r)"
  by (simp add: strchr_def dropWhile_neq_app)

lemma strchr_none: "c \<notin> set u \<Longrightarrow> strchr u c = None"
  by (simp add: strchr_def dropWhile_neq_Nil)

lemma edit_line_split:
  assumes "CHR '':'' \<notin> set u" "CHR '':'' \<notin> set d"
  shows "edit_line domain user pass (u @ CHR '':'' # d @ CHR '':'' # r) =
    (if user = u \<and> domain = d
     then map_option (\<lambda>ha1. (htpasswd_line user domain ha1, True)) (md5_str [vec_of u, vec_of d, vec_of pass])
     else Some (u @ CHR '':'' # d @ CHR '':'' # r, False))"
  by (simp add: edit_line_def strchr_app [OF assms(1)] strchr_app [OF assms(2)] Let_def)

lemma isspace_hex: "c \<in> set ''0123456789abcdef'' \<Longrightarrow> \<not> isspace c"
  by (auto simp: isspace_def)

definition hex32 :: "string \<Rightarrow> bool" where
  "hex32 h \<longleftrightarrow> length h = 32 \<and> set h \<subseteq> set ''0123456789abcdef''"

lemma takeWhile_nonspace: "hex32 h \<Longrightarrow> takeWhile (\<lambda>c. \<not> isspace c) (h @ LF # r) = h"
proof -
  assume "hex32 h"
  then have "\<forall>c \<in> set h. \<not> isspace c" by (auto simp only: hex32_def dest: isspace_hex)
  then show ?thesis by (simp add: takeWhile_append2 isspace_def)
qed

lemma parse_htpasswd_line_render:
  assumes "pw_name u" "pw_name d" "hex32 h"
  shows "\<exists>uv dv hv. parse_htpasswd_line (htpasswd_line u d h) = Some (uv, dv, hv) \<and>
    vbytes uv = u \<and> vlen uv = int (length u) \<and> vbytes dv = d \<and> vlen dv = int (length d) \<and>
    vbytes hv = h \<and> vlen hv = 32 \<and> vec_ok hv"
proof -
  let ?s = "u @ CHR '':'' # d @ CHR '':'' # h @ [LF]"
  have s: "htpasswd_line u d h = ?s" using assms(3) by (simp add: htpasswd_line_def hex32_def)
  have 1: "takeWhile (\<lambda>c. c \<noteq> CHR '':'') ?s = u"
    "takeWhile (\<lambda>c. c \<noteq> CHR '':'') (d @ CHR '':'' # h @ [LF]) = d"
    "takeWhile (\<lambda>c. \<not> isspace c) (h @ [LF]) = h"
    using assms takeWhile_nonspace [OF assms(3), of "[]"] by (auto simp: takeWhile_neq_app pw_name_def)
  have "h \<noteq> []" using assms(3) by (auto simp: hex32_def)
  then show ?thesis using assms
    by (simp add: s parse_htpasswd_line_def Let_def 1 vbytes_def pw_name_def hex32_def vec_ok_def)
qed

lemma fgets_lines_Nil [simp]: "fgets_lines n [] = []"
  by (subst fgets_lines.simps) simp

lemma fgets_lines_line:
  assumes "LF \<notin> set l" "length l + 1 < n"
  shows "fgets_lines n (l @ LF # r) = (l @ [LF]) # fgets_lines n r"
proof -
  have "line_len n (l @ LF # r) = length l + 1"
    using assms by (simp add: line_len_def takeWhile_neq_app)
  then show ?thesis using assms by (subst fgets_lines.simps) simp
qed

lemma concat_fgets: "1 < n \<Longrightarrow> concat (fgets_lines n s) = s"
proof (induction n s rule: fgets_lines.induct)
  case (1 n s)
  then show ?case by (subst fgets_lines.simps) simp
qed

lemma length_digest_of [simp]: "length (digest_of b) = 16"
  by (cases b) (simp add: bytes_of_def)

lemma hex32_hash: "hex32 (hash_str s)"
  using bin2str_chars by (simp add: hex32_def hash_str_def md5_ref_def del: list.set)


section \<open>Responses\<close>

definition digest_ok :: "digest \<Rightarrow> bool" where
  "digest_ok d \<longleftrightarrow> list_all vec_ok [d_user d, d_uri d, d_nonce d, d_cnonce d, d_resp d, d_qop d, d_nc d]"

definition expected_response :: "http_method \<Rightarrow> vec \<Rightarrow> digest \<Rightarrow> string" where
  "expected_response m ha1 d =
     hash_str (colon_args 0 [ha1, d_nonce d, d_nc d, d_cnonce d, d_qop d,
       vec_of (hash_str (colon_args 0 [vec_of (method_name m), d_uri d]))])"

lemma length_hash_str [simp]: "length (hash_str s) = 32"
  using hex32_hash [of s] by (simp add: hex32_def)

lemma length_method_name: "length (method_name m) < 2 ^ 31"
  by (cases m) simp_all

lemma check_password_response:
  assumes "vec_ok ha1" "digest_ok d"
  shows "check_password m ha1 d = Some (vbytes (d_resp d) = expected_response m ha1 d)"
proof -
  have 1: "md5_str [vec_of (method_name m), d_uri d] = Some (hash_str (colon_args 0 [vec_of (method_name m), d_uri d]))"
    by (rule md5_str_hash) (use assms vec_ok_vec_of [OF length_method_name] in \<open>auto simp: digest_ok_def\<close>)
  have 2: "md5_str [ha1, d_nonce d, d_nc d, d_cnonce d, d_qop d, vec_of (hash_str x)] =
      Some (hash_str (colon_args 0 [ha1, d_nonce d, d_nc d, d_cnonce d, d_qop d, vec_of (hash_str x)]))" for x
    by (rule md5_str_hash) (use assms in \<open>auto simp: digest_ok_def vec_ok_vec_of\<close>)
  show ?thesis
  proof (cases "vlen (d_resp d) = 32")
    case True
    then have "vbytes (d_resp d) = take 32 (vptr (d_resp d))" by (simp add: vbytes_def)
    then show ?thesis using True by (auto simp: check_password_def 1 2 expected_response_def)
  next
    case False
    have "vec_ok (d_resp d)" using assms(2) by (simp add: digest_ok_def)
    then have "length (vbytes (d_resp d)) \<noteq> 32" using False by (auto simp: vec_ok_length vec_ok_def)
    then have "vbytes (d_resp d) \<noteq> expected_response m ha1 d"
      by (metis expected_response_def length_hash_str)
    then show ?thesis using False by (simp add: check_password_def)
  qed
qed

text \<open>The vectors a header of fewer than \<open>2 ^ 31\<close> bytes yields are in bounds.\<close>

lemma digest_ok_get: "digest_ok d \<longleftrightarrow> (\<forall>f. vec_ok (get_digest f d))"
proof
  assume "digest_ok d"
  then show "\<forall>f. vec_ok (get_digest f d)"
    by (intro allI) (case_tac f; simp add: digest_ok_def)
next
  assume a: "\<forall>f. vec_ok (get_digest f d)"
  show "digest_ok d"
    using a [THEN spec, of A_user] a [THEN spec, of A_uri] a [THEN spec, of A_nonce]
      a [THEN spec, of A_cnonce] a [THEN spec, of A_resp] a [THEN spec, of A_qop] a [THEN spec, of A_nc]
    by (simp add: digest_ok_def)
qed

lemma auth_value_len:
  "auth_value s ns = (s', ns', l) \<Longrightarrow> l \<le> length s' \<and> l \<le> nat ns'"
  by (auto simp: auth_value_def split: if_splits
      intro: order_trans [OF length_takeWhile_le])

lemma auth_step_ok:
  assumes "auth_step m n dig = (m', n', dig')" "digest_ok dig" "n < 2 ^ 31"
  shows "digest_ok dig'"
proof -
  define sp where "sp = length (takeWhile (\<lambda>c. c = CHR '' '' \<or> c = CHR '','') (take (nat n) m))"
  define eq where "eq = length (takeWhile (\<lambda>c. c \<noteq> CHR ''='') (take (nat (n - int sp)) (drop sp m)))"
  obtain s ns l where v: "auth_value (drop (eq + 1) (drop sp m)) (n - int sp - int (eq + 1)) = (s, ns, l)"
    by (metis prod_cases3)
  have l: "l \<le> length s" "l \<le> nat ns" using auth_value_len [OF v] by auto
  have "ns \<le> n" using auth_value_le [OF v] by simp
  then have ok: "vec_ok \<lparr>vptr = s, vlen = int l\<rparr>" using l assms(3) by (simp add: vec_ok_def)
  have "dig' = (case find_keyword (drop sp m) (eq + 1) of None \<Rightarrow> dig
      | Some (f, k) \<Rightarrow> put_digest f \<lparr>vptr = s, vlen = int l\<rparr> dig)"
    using assms(1) v unfolding auth_step_def Let_def sp_def [symmetric] eq_def [symmetric]
    by (auto split: if_splits)
  then show ?thesis using assms(2) ok
    by (auto simp: digest_ok_get get_put_digest split: option.splits)
qed

lemma parse_auth_ok: "digest_ok dig \<Longrightarrow> n < 2 ^ 31 \<Longrightarrow> digest_ok (parse_auth m n dig)"
proof (induction m n dig rule: parse_auth.induct)
  case (1 m n dig)
  show ?case
  proof (cases "n \<le> 0")
    case True
    then show ?thesis using 1(2) by (subst parse_auth.simps) simp
  next
    case False
    obtain m' n' dig' where st: "auth_step m n dig = (m', n', dig')" by (metis prod_cases3)
    have "digest_ok (parse_auth m' n' dig')"
      using 1(1) [OF False st [symmetric] refl] auth_step_ok [OF st 1(2,3)] auth_step_less [OF st] 1(3) by simp
    then show ?thesis using False st by (subst parse_auth.simps) simp
  qed
qed

lemma digest0_ok: "digest_ok digest0"
  by (simp add: digest_ok_def digest0_def)

lemma parse_authorization_header_ok: "vlen h < 2 ^ 31 \<Longrightarrow> digest_ok (parse_authorization_header h)"
  unfolding parse_authorization_header_def by (rule parse_auth_ok [OF digest0_ok]) simp


text \<open>The check never fails an assertion: the vectors of the header and of a line of the file are in bounds.\<close>

lemma fgets_lines_short: "l \<in> set (fgets_lines n s) \<Longrightarrow> length l < n"
proof (induction n s rule: fgets_lines.induct)
  case (1 n s)
  show ?case
  proof (cases "s = [] \<or> n \<le> 1")
    case True
    then show ?thesis using 1(2) by (subst (asm) fgets_lines.simps) simp
  next
    case False
    moreover have "length (take (line_len n s) s) < n" using False by (auto simp: line_len_def min_def)
    ultimately show ?thesis using 1 by (subst (asm) (2) fgets_lines.simps) auto
  qed
qed

lemma parse_htpasswd_line_ok:
  assumes "parse_htpasswd_line s = Some (u, d, h)" "length s < 2 ^ 31"
  shows "vec_ok h"
proof -
  define s4 where "s4 = vptr h"
  have "s4 \<noteq> [] \<longrightarrow> (\<exists>k. s4 = drop k s)" "vlen h = int (length (takeWhile (\<lambda>c. \<not> isspace c) s4))"
    using assms(1) by (auto simp: parse_htpasswd_line_def Let_def s4_def split: if_splits)
  moreover have "length (takeWhile (\<lambda>c. \<not> isspace c) s4) \<le> length s4" by (rule length_takeWhile_le)
  moreover have "length s4 \<le> length s" using calculation(1) by (cases "s4 = []") auto
  ultimately show ?thesis using assms(2) by (simp add: vec_ok_def s4_def)
qed

lemma auth_lines_total: "digest_ok d \<Longrightarrow> \<forall>l \<in> set ls. length l < 2 ^ 31 \<Longrightarrow> auth_lines realm m d ls \<noteq> None"
proof (induction ls)
  case (Cons l ls)
  then show ?case
    by (auto simp: check_password_response parse_htpasswd_line_ok split: option.splits prod.splits)
qed simp

lemma authorize_total: "vlen (h_auth (c_ch c)) < 2 ^ 31 \<Longrightarrow> authorize ctx c file \<noteq> None"
  using auth_lines_total [OF parse_authorization_header_ok [of "h_auth (c_ch c)"], where ls = "fgets_lines 256 file"]
    fgets_lines_short [where n = 256 and s = "file"]
  by (fastforce simp: authorize_def Let_def)

lemma auth_file_name_total: "CHR ''/'' \<in> set path \<Longrightarrow> auth_file_name ctx path \<noteq> None"
proof -
  assume p: "CHR ''/'' \<in> set path"
  define e where "e = length (dropWhile (\<lambda>c. c \<noteq> CHR ''/'') (rev (tl path)))"
  have "chat path e = CHR ''/''"
  proof (cases "CHR ''/'' \<in> set (tl path)")
    case True
    then obtain a b where ab: "rev (tl path) = a @ CHR ''/'' # b" "CHR ''/'' \<notin> set a"
      by (metis set_rev split_list_first)
    then have "tl path = rev b @ CHR ''/'' # rev a" by (metis rev_append rev.simps(2) rev_rev_ident append.assoc append_Cons append_Nil)
    moreover have "e = Suc (length b)" using ab by (simp add: e_def dropWhile_neq_app)
    moreover obtain x where "path = x # tl path" using p by (cases path) auto
    ultimately obtain y where "path = y # rev b @ CHR ''/'' # rev a" "e = Suc (length b)" by metis
    then show ?thesis by (simp add: chat_def nth_append)
  next
    case False
    then have "e = 0" by (simp add: e_def dropWhile_neq_Nil)
    moreover have "chat path 0 = CHR ''/''" using p False by (cases path) auto
    ultimately show ?thesis by simp
  qed
  then show ?thesis using p by (auto simp: auth_file_name_def e_def [symmetric] Let_def split: option.splits)
qed

lemma check_authorization_total:
  assumes "vlen (h_auth (c_ch c)) < 2 ^ 31" "CHR ''/'' \<in> set path"
  shows "check_authorization S ctx c path w \<noteq> None"
  using authorize_total [OF assms(1), of ctx] auth_file_name_total [OF assms(2), of ctx]
  by (fastforce simp: check_authorization_def open_auth_file_def split: prod.splits option.splits)

section \<open>From the password file to a login\<close>

text \<open>What RFC 2617 calls the request digest for \<open>qop=auth\<close>.\<close>

definition rfc2617_response ::
  "string \<Rightarrow> string \<Rightarrow> string \<Rightarrow> string \<Rightarrow> string \<Rightarrow> string \<Rightarrow> string \<Rightarrow> string \<Rightarrow> string" where
  "rfc2617_response user realm pass method uri nonce nc cnonce =
     hash_str (hash_str (user @ '':'' @ realm @ '':'' @ pass) @ '':'' @ nonce @ '':'' @ nc @ '':'' @
       cnonce @ '':auth:'' @ hash_str (method @ '':'' @ uri))"

text \<open>An Authorization header: its parameters in any order, each with or without quotes; the RFC quotes all of the
  eight below but \<open>qop\<close> and \<open>nc\<close>.\<close>

definition digest_header :: "auth_param list \<Rightarrow> string" where
  "digest_header ps = ''Digest '' @ render_auth ps"

definition digest_params ::
  "string \<Rightarrow> string \<Rightarrow> string \<Rightarrow> string \<Rightarrow> string \<Rightarrow> string \<Rightarrow> string \<Rightarrow> (string \<times> string) list" where
  "digest_params user realm nonce uri nc cnonce response =
     [(''username'', user), (''realm'', realm), (''nonce'', nonce), (''uri'', uri), (''qop'', ''auth''),
      (''nc'', nc), (''cnonce'', cnonce), (''response'', response)]"

text \<open>The list has each of the named parameters with its value, and none twice; others may be there as well.\<close>

definition carries :: "auth_param list \<Rightarrow> (string \<times> string) list \<Rightarrow> bool" where
  "carries ps kvs \<longleftrightarrow> list_all param_ok ps \<and> distinct (map fst ps) \<and>
     set kvs \<subseteq> (\<lambda>(k, q, v). (k, v)) ` set ps \<and> length (digest_header ps) < 2 ^ 31"

lemma colon_args_nonempty:
  "list_all (\<lambda>v. vlen v \<noteq> 0) vs \<Longrightarrow> colon_args (Suc i) vs = concat (map (\<lambda>v. '':'' @ vbytes v) vs)"
  by (induction vs arbitrary: i) auto

lemma edit_text_new:
  assumes "length user < 2 ^ 31" "length domain < 2 ^ 31" "length pass < 2 ^ 31"
    and "user \<noteq> []" "domain \<noteq> []" "pass \<noteq> []"
  shows "edit_text domain user pass [] =
    Some (htpasswd_line user domain (hash_str (user @ '':'' @ domain @ '':'' @ pass)))"
proof -
  have "md5_str [vec_of user, vec_of domain, vec_of pass] =
      Some (hash_str (colon_args 0 [vec_of user, vec_of domain, vec_of pass]))"
    by (rule md5_str_hash) (use assms in \<open>simp add: vec_ok_vec_of\<close>)
  moreover have "colon_args 0 [vec_of user, vec_of domain, vec_of pass] = user @ '':'' @ domain @ '':'' @ pass"
    using assms by simp
  ultimately show ?thesis by (simp add: edit_text_def)
qed

lemma find_distinct:
  assumes "distinct (map fst ps)" "(k, q, v) \<in> set ps" "keyword_field k = Some f"
    and "\<And>k'. keyword_field k' = Some f \<Longrightarrow> k' = k"
  shows "find (\<lambda>p. keyword_field (fst p) = Some f) (rev ps) = Some (k, q, v)"
proof -
  have "find (\<lambda>p. keyword_field (fst p) = Some f) (rev ps) \<noteq> None"
    using assms(2,3) by (auto simp: find_None_iff)
  then obtain p where p: "find (\<lambda>p. keyword_field (fst p) = Some f) (rev ps) = Some p" by blast
  then have "p \<in> set ps" "fst p = k" using find_SomeD [OF p] assms(4) by auto
  then have "p = (k, q, v)" using assms(1,2) by (auto simp: distinct_map inj_on_def)
  then show ?thesis using p by simp
qed

lemma keyword_field_inv: "keyword_field k = Some f \<Longrightarrow> (f, k @ ''='') \<in> set known_auth_keywords"
  by (auto simp: keyword_field_def dest: find_SomeD)

text \<open>What the parser finds of a parameter.\<close>

lemma digest_header_field:
  fixes ps r
  defines "h \<equiv> digest_header ps"
  assumes c: "carries ps kvs" "(k, v) \<in> set kvs" and kf: "keyword_field k = Some f"
  shows "vbytes (get_digest f (parse_authorization_header \<lparr>vptr = h @ r, vlen = int (length h)\<rparr>)) = v"
proof -
  have ok: "\<forall>p \<in> set ps. param_ok p" and d: "distinct (map fst ps)" using c(1) by (auto simp: carries_def list_all_iff)
  obtain q where q: "(k, q, v) \<in> set ps" using c by (fastforce simp: carries_def)
  have one: "k' = k" if "keyword_field k' = Some f" for k'
  proof -
    have "(f, k' @ ''='') \<in> set known_auth_keywords" "(f, k @ ''='') \<in> set known_auth_keywords"
      using that kf keyword_field_inv by blast+
    moreover have "distinct (map fst known_auth_keywords)" by (simp add: known_auth_keywords_def)
    ultimately show ?thesis by (metis append_same_eq eq_key_imp_eq_value)
  qed
  have "ps \<noteq> []" using q by auto
  from parse_auth_render [OF ok _ this, of "[]" f r digest0] find_distinct [OF d q kf one] show ?thesis
    by (simp add: parse_authorization_header_def h_def digest_header_def)
qed

lemma digest_header_fields:
  fixes ps r
  defines "h \<equiv> digest_header ps"
  assumes "carries ps (digest_params user realm nonce uri nc cnonce response)"
  shows "vbytes (d_user (parse_authorization_header \<lparr>vptr = h @ r, vlen = int (length h)\<rparr>)) = user"
    "vbytes (d_nonce (parse_authorization_header \<lparr>vptr = h @ r, vlen = int (length h)\<rparr>)) = nonce"
    "vbytes (d_uri (parse_authorization_header \<lparr>vptr = h @ r, vlen = int (length h)\<rparr>)) = uri"
    "vbytes (d_qop (parse_authorization_header \<lparr>vptr = h @ r, vlen = int (length h)\<rparr>)) = ''auth''"
    "vbytes (d_nc (parse_authorization_header \<lparr>vptr = h @ r, vlen = int (length h)\<rparr>)) = nc"
    "vbytes (d_cnonce (parse_authorization_header \<lparr>vptr = h @ r, vlen = int (length h)\<rparr>)) = cnonce"
    "vbytes (d_resp (parse_authorization_header \<lparr>vptr = h @ r, vlen = int (length h)\<rparr>)) = response"
proof -
  note f = digest_header_field [OF assms(2), folded h_def, unfolded digest_params_def]
  note kf = keyword_field_def known_auth_keywords_def
  show "vbytes (d_user (parse_authorization_header \<lparr>vptr = h @ r, vlen = int (length h)\<rparr>)) = user"
    using f [of "''username''" user A_user r] by (simp add: kf)
  show "vbytes (d_nonce (parse_authorization_header \<lparr>vptr = h @ r, vlen = int (length h)\<rparr>)) = nonce"
    using f [of "''nonce''" nonce A_nonce r] by (simp add: kf)
  show "vbytes (d_uri (parse_authorization_header \<lparr>vptr = h @ r, vlen = int (length h)\<rparr>)) = uri"
    using f [of "''uri''" uri A_uri r] by (simp add: kf)
  show "vbytes (d_qop (parse_authorization_header \<lparr>vptr = h @ r, vlen = int (length h)\<rparr>)) = ''auth''"
    using f [of "''qop''" "''auth''" A_qop r] by (simp add: kf)
  show "vbytes (d_nc (parse_authorization_header \<lparr>vptr = h @ r, vlen = int (length h)\<rparr>)) = nc"
    using f [of "''nc''" nc A_nc r] by (simp add: kf)
  show "vbytes (d_cnonce (parse_authorization_header \<lparr>vptr = h @ r, vlen = int (length h)\<rparr>)) = cnonce"
    using f [of "''cnonce''" cnonce A_cnonce r] by (simp add: kf)
  show "vbytes (d_resp (parse_authorization_header \<lparr>vptr = h @ r, vlen = int (length h)\<rparr>)) = response"
    using f [of "''response''" response A_resp r] by (simp add: kf)
qed

lemma digest_word: "my_strncasecmp (''Digest '' @ x) ''Digest '' 7 = 0"
  using my_strncasecmp_prefix2 [of "''Digest ''" "''Digest '' @ x"] by (simp add: numeral_eq_Suc)

lemma digest_scheme: "my_strncasecmp (digest_header ps @ r) ''Digest '' 7 = 0"
  unfolding digest_header_def append_assoc by (rule digest_word)

lemma auth_param_long: "param_ok p \<Longrightarrow> 2 \<le> length (auth_param_text p)"
  by (cases p) (auto simp: Suc_le_eq)

lemma render_auth_long: "list_all param_ok ps \<Longrightarrow> 4 * length ps \<le> length (render_auth ps) + 2"
proof (induction ps rule: render_auth.induct)
  case (2 p)
  then show ?case using auth_param_long [of p] by simp
next
  case (3 p p2 ps)
  then show ?case using auth_param_long [of p] by simp
qed simp

lemma digest_header_length:
  assumes "carries ps (digest_params user realm nonce uri nc cnonce response)"
  shows "20 < int (length (digest_header ps))" "int (length (digest_header ps)) < 2 ^ 31"
proof -
  let ?kvs = "digest_params user realm nonce uri nc cnonce response"
  have "set ?kvs \<subseteq> (\<lambda>(k, q, v). (k, v)) ` set ps" using assms by (simp add: carries_def)
  then have "card (set ?kvs) \<le> card ((\<lambda>(k, q, v). (k, v)) ` set ps)" by (intro card_mono) auto
  also have "\<dots> \<le> length ps" by (metis card_image_le card_length finite_set le_trans)
  finally have "8 \<le> length ps" by (simp add: digest_params_def)
  then show "20 < int (length (digest_header ps))"
    using render_auth_long [of ps] assms by (simp add: carries_def digest_header_def)
  show "int (length (digest_header ps)) < 2 ^ 31" using assms by (simp add: carries_def)
qed

lemma vec_ok_len: "vec_ok v \<Longrightarrow> vbytes v = s \<Longrightarrow> vlen v = int (length s)"
  using vec_ok_length [of v] by (auto simp: vec_ok_def)

lemma take_append_NUL: "NUL \<notin> set s \<Longrightarrow> take (length s) (s @ [NUL]) = s"
  by simp

lemma authorize_new_line:
  fixes ps r
  defines "h \<equiv> digest_header ps"
  assumes p: "carries ps (digest_params user realm nonce uri nc cnonce response)"
    and ne: "\<forall>s \<in> set [nonce, uri, nc, cnonce]. s \<noteq> []"
    and n: "pw_name user" "pw_name realm" "length user + length realm < 200"
    and hx: "hex32 ha1"
    and c: "h_auth (c_ch c) = \<lparr>vptr = h @ r, vlen = int (length h)\<rparr>" "auth_realm ctx = Some realm"
  shows "authorize ctx c (htpasswd_line user realm ha1) =
    Some (response = hash_str (ha1 @ '':'' @ nonce @ '':'' @ nc @ '':'' @ cnonce @ '':auth:'' @
            hash_str (method_name (c_method c) @ '':'' @ uri)),
          c\<lparr>c_ch := (c_ch c)\<lparr>h_user := d_user (parse_authorization_header (h_auth (c_ch c)))\<rparr>\<rparr>)"
proof -
  define d where "d = parse_authorization_header \<lparr>vptr = h @ r, vlen = int (length h)\<rparr>"
  note len = digest_header_length [OF p, folded h_def]
  have dok: "digest_ok d" unfolding d_def by (rule parse_authorization_header_ok) (use len in simp)
  note fields = digest_header_fields [OF p, of r, folded h_def, folded d_def]
  have vok: "vec_ok (d_user d)" "vec_ok (d_uri d)" "vec_ok (d_nonce d)" "vec_ok (d_cnonce d)" "vec_ok (d_resp d)"
    "vec_ok (d_qop d)" "vec_ok (d_nc d)" using dok by (auto simp: digest_ok_def)
  note lens = vec_ok_len [OF vok(1) fields(1)] vec_ok_len [OF vok(2) fields(3)] vec_ok_len [OF vok(3) fields(2)]
    vec_ok_len [OF vok(4) fields(6)] vec_ok_len [OF vok(6) fields(4)] vec_ok_len [OF vok(7) fields(5)]
  obtain uv dv hv where l: "parse_htpasswd_line (htpasswd_line user realm ha1) = Some (uv, dv, hv)"
    "vbytes uv = user" "vlen uv = int (length user)" "vbytes dv = realm" "vlen dv = int (length realm)"
    "vbytes hv = ha1" "vlen hv = 32" "vec_ok hv"
    using parse_htpasswd_line_render [OF n(1,2) hx] by blast
  have lines: "fgets_lines 256 (htpasswd_line user realm ha1) = [htpasswd_line user realm ha1]"
  proof -
    have "LF \<notin> set (user @ '':'' @ realm @ '':'' @ take 32 ha1)"
      using n hx by (auto simp: pw_name_def hex32_def)
    moreover have "length (user @ '':'' @ realm @ '':'' @ take 32 ha1) + 1 < 256" using n(3) by simp
    ultimately have "fgets_lines 256 ((user @ '':'' @ realm @ '':'' @ take 32 ha1) @ LF # []) =
        [(user @ '':'' @ realm @ '':'' @ take 32 ha1) @ [LF]]"
      using fgets_lines_line by (metis fgets_lines_Nil)
    then show ?thesis by (simp add: htpasswd_line_def)
  qed
  have "vcmp (d_user d) uv" using l lens fields by (simp add: vcmp_bytes)
  moreover have "expected_response (c_method c) hv d =
      hash_str (ha1 @ '':'' @ nonce @ '':'' @ nc @ '':'' @ cnonce @ '':auth:'' @
            hash_str (method_name (c_method c) @ '':'' @ uri))"
  proof -
    have ne: "nonce \<noteq> []" "nc \<noteq> []" "cnonce \<noteq> []" "uri \<noteq> []" "method_name (c_method c) \<noteq> []"
      using ne by (simp_all, cases "c_method c", simp_all)
    have u: "colon_args 0 [vec_of (method_name (c_method c)), d_uri d] = method_name (c_method c) @ '':'' @ uri"
      using ne lens fields by simp
    have "colon_args 0 [hv, d_nonce d, d_nc d, d_cnonce d, d_qop d, vec_of (hash_str x)] =
        ha1 @ '':'' @ nonce @ '':'' @ nc @ '':'' @ cnonce @ '':auth:'' @ hash_str x" for x
    proof -
      have "hash_str x \<noteq> []" using length_hash_str [of x] by (metis list.size(3) zero_neq_numeral)
      then show ?thesis using ne lens fields l by simp
    qed
    then show ?thesis by (simp only: expected_response_def u)
  qed
  moreover have "check_password (c_method c) hv d = Some (vbytes (d_resp d) = expected_response (c_method c) hv d)"
    by (rule check_password_response [OF l(8) dok])
  ultimately have "auth_lines realm (c_method c) d [htpasswd_line user realm ha1] =
      Some (response = hash_str (ha1 @ '':'' @ nonce @ '':'' @ nc @ '':'' @ cnonce @ '':auth:'' @
            hash_str (method_name (c_method c) @ '':'' @ uri)))"
    using l fields(7) by simp
  then show ?thesis
    using c len(1) lines digest_scheme [of ps r, folded h_def]
    by (simp add: authorize_def d_def)
qed

lemma edit_passwords_new:
  assumes "fs fname = None" "length fname + 4 < FILENAME_MAX" "NUL \<notin> set fname"
    and "edit_text domain user pass [] = Some out"
  shows "\<exists>fs'. edit_passwords fs fname domain user pass = Some fs' \<and> fs' fname = Some out"
proof -
  have "cstr (snd (my_snprintf FILENAME_MAX (fname @ ''.tmp''))) = fname @ ''.tmp''"
    using assms(2,3) cstr_append_NUL [of "fname @ ''.tmp''" "[]"] by (simp add: my_snprintf_fits)
  then show ?thesis using assms(1,4) by (simp add: edit_passwords_def)
qed

section \<open>Properties\<close>

text \<open>C5: digest authentication end to end, with the password file that \<open>edit_passwords\<close> writes. After it has written a
  new user to a new file, a request is accepted exactly if its response is the one that RFC 2617 computes for
  \<open>qop=auth\<close> from user, realm, password, method, URI and nonces. The Authorization header carries the eight
  parameters of the RFC in any order, with any others among them and none twice, each value quoted or, when it
  has no space, comma or quote in it, unquoted as the RFC has \<open>qop\<close> and \<open>nc\<close>. User and realm are not empty,
  have no colon and no line end, and are shorter than 200 bytes together (a line of the file has to fit the buffer
  of 256 bytes); nonces, count and URI are not empty, and neither is the password. The parameter names are in lower
  case.\<close>

theorem digest_authorization:
  assumes "carries ps (digest_params user realm nonce uri nc cnonce response)"
    and "\<forall>s \<in> set [nonce, uri, nc, cnonce]. s \<noteq> []"
    and "pw_name user" "pw_name realm" "length user + length realm < 200" "pass \<noteq> []" "length pass < 2 ^ 31"
    and "fs fname = None" "length fname + 4 < FILENAME_MAX" "NUL \<notin> set fname"
    and "h_auth (c_ch c) = vec_of (digest_header ps)" "auth_realm ctx = Some realm"
  shows "\<exists>fs' file. edit_passwords fs fname realm user pass = Some fs' \<and> fs' fname = Some file \<and>
    map_option fst (authorize ctx c file) =
      Some (response = rfc2617_response user realm pass (method_name (c_method c)) uri nonce nc cnonce)"
proof -
  let ?ha1 = "hash_str (user @ '':'' @ realm @ '':'' @ pass)"
  have e: "edit_text realm user pass [] = Some (htpasswd_line user realm ?ha1)"
    by (rule edit_text_new) (use assms in \<open>auto simp: pw_name_def\<close>)
  obtain fs' where fs': "edit_passwords fs fname realm user pass = Some fs'"
      "fs' fname = Some (htpasswd_line user realm ?ha1)"
    using edit_passwords_new [where fs = fs and fname = fname, OF assms(8-10) e] by blast
  have "authorize ctx c (htpasswd_line user realm ?ha1) = Some (response = hash_str (?ha1 @ '':'' @ nonce @ '':'' @ nc @
      '':'' @ cnonce @ '':auth:'' @ hash_str (method_name (c_method c) @ '':'' @ uri)),
      c\<lparr>c_ch := (c_ch c)\<lparr>h_user := d_user (parse_authorization_header (h_auth (c_ch c)))\<rparr>\<rparr>)"
    by (rule authorize_new_line [where r = "[]", OF assms(1-5) hex32_hash]) (use assms in \<open>simp_all add: vec_of_def\<close>)
  then show ?thesis using fs' by (auto simp: rfc2617_response_def)
qed

text \<open>A header as a browser sends it.\<close>

definition demo_params :: "string \<Rightarrow> auth_param list" where
  "demo_params response =
     [(''username'', True, ''joe''), (''realm'', True, ''my site''), (''nonce'', True, ''17''), (''uri'', True, ''/a''),
      (''algorithm'', False, ''MD5''), (''response'', True, response), (''qop'', False, ''auth''),
      (''nc'', False, ''00000001''), (''cnonce'', True, ''x, y'')]"

definition demo_conn :: conn where
  "demo_conn = (new_conn 1024 ''127.0.0.1'' 4711 80 5 0)
     \<lparr>c_ch := headers0\<lparr>h_auth := vec_of (digest_header (demo_params
        (rfc2617_response ''joe'' ''my site'' ''pw'' ''GET'' ''/a'' ''17'' ''00000001'' ''x, y'')))\<rparr>\<rparr>"

theorem digest_authorization_witness:
  "\<exists>fs' file. edit_passwords (\<lambda>_. None) ''p'' ''my site'' ''joe'' ''pw'' = Some fs' \<and> fs' ''p'' = Some file \<and>
    map_option fst (authorize (zero_ctx\<lparr>auth_realm := Some ''my site''\<rparr>) demo_conn file) = Some True"
proof -
  let ?r = "rfc2617_response ''joe'' ''my site'' ''pw'' ''GET'' ''/a'' ''17'' ''00000001'' ''x, y''"
  have "DQ \<notin> set ?r" "length ?r = 32" using hex32_hash unfolding rfc2617_response_def hex32_def by auto
  then have "carries (demo_params ?r) (digest_params ''joe'' ''my site'' ''17'' ''/a'' ''00000001'' ''x, y'' ?r)"
    by (simp add: carries_def demo_params_def digest_params_def digest_header_def)
  then show ?thesis
    using digest_authorization [of "demo_params ?r" "''joe''" "''my site''" "''17''" "''/a''" "''00000001''" "''x, y''" ?r "''pw''"
        "\<lambda>_. None" "''p''" demo_conn "zero_ctx\<lparr>auth_realm := Some ''my site''\<rparr>"]
    by (simp add: pw_name_def demo_conn_def new_conn_def FILENAME_MAX_def)
qed

end
