(* ===== verification/Mime.thy ===== *)
theory Mime
  imports Types Passwd
begin

text \<open>
  \<open>mime_type.c\<close> of shttpd, and the registration function of \<open>shttpd.c\<close>: the built-in table, the
  lookup by file extension, and the reader of a mime-types file with the buffers it reuses.
\<close>

section \<open>Lookup\<close>

definition default_mime_types :: "(string \<times> string) list" where
  "default_mime_types =
    [(''html'', ''text/html''), (''htm'', ''text/html''), (''txt'', ''text/plain''),
     (''css'', ''text/css''), (''ico'', ''image/x-icon''), (''gif'', ''image/gif''),
     (''jpg'', ''image/jpeg''), (''jpeg'', ''image/jpeg''), (''png'', ''image/png''),
     (''svg'', ''image/svg+xml''), (''torrent'', ''application/x-bittorrent''),
     (''wav'', ''audio/x-wav''), (''mp3'', ''audio/x-mp3''), (''mid'', ''audio/mid''),
     (''m3u'', ''audio/x-mpegurl''), (''ram'', ''audio/x-pn-realaudio''),
     (''ra'', ''audio/x-pn-realaudio''), (''doc'', ''application/msword''),
     (''exe'', ''application/octet-stream''), (''zip'', ''application/x-zip-compressed''),
     (''xls'', ''application/excel''), (''tgz'', ''application/x-tar-gz''),
     (''tar.gz'', ''application/x-tar-gz''), (''tar'', ''application/x-tar''),
     (''gz'', ''application/x-gunzip''), (''arj'', ''application/x-arj-compressed''),
     (''rar'', ''application/x-arj-compressed''), (''rtf'', ''application/rtf''),
     (''pdf'', ''application/pdf''), (''mpg'', ''video/mpeg''), (''mpeg'', ''video/mpeg''),
     (''asf'', ''video/x-ms-asf''), (''avi'', ''video/x-msvideo''), (''bmp'', ''image/bmp'')]"

text \<open>The test of both loops: \<open>s = uri + len - ext_len\<close> lies behind \<open>uri\<close>, follows a dot, and
  compares equal.\<close>

definition ext_match :: "string \<Rightarrow> int \<Rightarrow> string \<Rightarrow> bool" where
  "ext_match uri len ext =
    (let k = len - int (length ext)
     in 0 < k \<and> chat uri (nat (k - 1)) = CHR ''.'' \<and>
        my_strncasecmp ext (drop (nat k) uri) (length ext) = 0)"

definition get_mime_type :: "shttpd_ctx \<Rightarrow> string \<Rightarrow> int \<Rightarrow> string" where
  "get_mime_type ctx uri len =
    (case find (\<lambda>(ext, mime). ext_match uri len ext) (mime_types ctx) of
       Some (ext, mime) \<Rightarrow> mime
     | None \<Rightarrow>
         (case find (\<lambda>(ext, mime). ext_match uri len ext) default_mime_types of
            Some (ext, mime) \<Rightarrow> mime
          | None \<Rightarrow> ''text/plain''))"

text \<open>Allocation does not fail here; the program exits where it does.\<close>

definition shttpd_add_mime_type :: "shttpd_ctx \<Rightarrow> string \<Rightarrow> string \<Rightarrow> shttpd_ctx" where
  "shttpd_add_mime_type ctx ext mime = ctx\<lparr>mime_types := mime_types ctx @ [(ext, mime)]\<rparr>"

lemma ext_match_iff:
  assumes "NUL \<notin> set ext" "ext \<noteq> []" "len \<le> int (length uri)"
  shows "ext_match uri len ext \<longleftrightarrow>
    (\<exists>b e. take (nat len) uri = b @ CHR ''.'' # e \<and> map tolower e = map tolower ext)"
proof -
  let ?k = "nat len - length ext"
  have c: "my_strncasecmp ext (drop ?k uri) (length ext) = 0 \<longleftrightarrow>
      map tolower ext = map tolower (take (length ext) (drop ?k uri))"
    by (rule my_strncasecmp_prefix [OF assms(1,2)])
  show ?thesis
  proof
    assume m: "ext_match uri len ext"
    then have k: "0 < len - int (length ext)" "chat uri (?k - 1) = CHR ''.''"
      "my_strncasecmp ext (drop ?k uri) (length ext) = 0"
      by (auto simp: ext_match_def Let_def nat_diff_distrib)
    have kl: "?k - 1 < length uri" "Suc (?k - 1) = ?k" "?k + length ext = nat len" using k assms(3) by auto
    have "take ?k uri = take (?k - 1) uri @ [CHR ''.'']"
      using kl k(2) by (metis chat_def take_Suc_conv_app_nth)
    moreover have "take (nat len) uri = take ?k uri @ take (length ext) (drop ?k uri)"
      by (metis kl(3) take_add)
    ultimately have "take (nat len) uri = take (?k - 1) uri @ CHR ''.'' # take (length ext) (drop ?k uri)" by simp
    moreover have "map tolower (take (length ext) (drop ?k uri)) = map tolower ext" using c k(3) by simp
    ultimately show "\<exists>b e. take (nat len) uri = b @ CHR ''.'' # e \<and> map tolower e = map tolower ext" by blast
  next
    assume "\<exists>b e. take (nat len) uri = b @ CHR ''.'' # e \<and> map tolower e = map tolower ext"
    then obtain b e where t: "take (nat len) uri = b @ CHR ''.'' # e" "map tolower e = map tolower ext" by blast
    have le: "length e = length ext" using t(2) by (metis length_map)
    have ll: "nat len = length b + 1 + length e" using arg_cong [OF t(1), of length] assms(3) by simp
    have u: "uri = b @ CHR ''.'' # e @ drop (nat len) uri"
      by (metis append_Cons append_assoc append_take_drop_id t(1))
    have k: "?k = length b + 1" using ll le by simp
    have d: "drop ?k uri = e @ drop (nat len) uri" unfolding k by (subst u) simp
    have "chat uri (length b) = CHR ''.''" by (subst u) (simp add: chat_def)
    moreover have "my_strncasecmp ext (drop ?k uri) (length ext) = 0" using c t(2) d le by simp
    moreover have "0 < len - int (length ext)" using ll le by simp
    ultimately show "ext_match uri len ext" using k
      by (simp add: ext_match_def Let_def nat_diff_distrib)
  qed
qed

section \<open>The mime-types file\<close>

text \<open>\<open>buf\<close>: the whole array \<open>line\<close>; \<open>i\<close>: the offset of \<open>s\<close>; \<open>ext\<close>: what the array of that name
  holds, \<open>None\<close> before it is first written. \<open>sscanf\<close> returns \<open>EOF\<close>, which is true, when only
  blanks are left. A read outside the array or of an unwritten one is \<open>None\<close>. The offset grows
  by \<open>strlen(mime)\<close>.\<close>

function ext_loop ::
  "char list \<Rightarrow> nat \<Rightarrow> string \<Rightarrow> string option \<Rightarrow> shttpd_ctx \<Rightarrow> (shttpd_ctx \<times> string option) option" where
  "ext_loop buf i mime ext ctx =
     (if length buf \<le> i \<or> mime = [] then None
      else if buf ! i = NUL \<or> buf ! i = LF then Some (ctx, ext)
      else case (case scan_word (length buf) (cstr (drop i buf)) of Some (w, r) \<Rightarrow> Some w | None \<Rightarrow> ext) of
             None \<Rightarrow> None
           | Some e \<Rightarrow> ext_loop buf (i + length mime) mime (Some e) (shttpd_add_mime_type ctx e mime))"
  by pat_completeness auto
termination
  by (relation "measure (\<lambda>(buf, i, m, e, c). length buf - i)") (auto simp: diff_less_mono2)

declare ext_loop.simps [simp del]

text \<open>The loop over the lines; every \<open>fgets\<close> leaves the rest of the array as it was.\<close>

fun mime_lines ::
  "char list \<Rightarrow> string option \<Rightarrow> string option \<Rightarrow> shttpd_ctx \<Rightarrow> string list \<Rightarrow> shttpd_ctx option" where
  "mime_lines buf mime ext ctx [] = Some ctx"
| "mime_lines buf mime ext ctx (l # ls) =
     (let buf1 = overwrite buf 0 (l @ [NUL])
      in if chd l = CHR ''#'' \<or> chd l = LF then mime_lines buf1 mime ext ctx ls
         else let mime1 = (case scan_word (length l) l of Some (w, r) \<Rightarrow> Some w | None \<Rightarrow> mime)
              in case mime1 of
                   None \<Rightarrow> None
                 | Some m \<Rightarrow>
                     (case ext_loop buf1 (length m) m ext ctx of
                        None \<Rightarrow> None
                      | Some (ctx1, ext1) \<Rightarrow> mime_lines buf1 mime1 ext1 ctx1 ls))"

text \<open>\<open>stack\<close> is what the uninitialised array holds; the file can be opened.\<close>

definition set_mime_types :: "char list \<Rightarrow> shttpd_ctx \<Rightarrow> string \<Rightarrow> shttpd_ctx option" where
  "set_mime_types stack ctx file = mime_lines stack None None ctx (fgets_lines 512 file)"

text \<open>The entries present before stay in front.\<close>

lemma ext_loop_extends:
  "ext_loop buf i mime ext ctx = Some (ctx', ext') \<Longrightarrow> \<exists>es. mime_types ctx' = mime_types ctx @ es"
proof (induction buf i mime ext ctx rule: ext_loop.induct)
  case (1 buf i mime ext ctx)
  show ?case
  proof (cases "(length buf \<le> i \<or> mime = []) \<or> (buf ! i = NUL \<or> buf ! i = LF)")
    case True
    then show ?thesis using 1(2) by (subst (asm) ext_loop.simps) (auto split: if_splits)
  next
    case False
    then have nf: "\<not> (length buf \<le> i \<or> mime = [])" "\<not> (buf ! i = NUL \<or> buf ! i = LF)" by auto
    define w where "w = (case scan_word (length buf) (cstr (drop i buf)) of Some (w, r) \<Rightarrow> Some w | None \<Rightarrow> ext)"
    obtain e where e: "w = Some e"
      using 1(2) nf by (subst (asm) ext_loop.simps) (auto simp: w_def [symmetric] split: option.splits)
    have "ext_loop buf (i + length mime) mime (Some e) (shttpd_add_mime_type ctx e mime) = Some (ctx', ext')"
      using 1(2) nf e by (subst (asm) ext_loop.simps) (simp add: w_def [symmetric])
    from 1(1) [OF nf e [unfolded w_def] this] show ?thesis by (auto simp: shttpd_add_mime_type_def)
  qed
qed

lemma mime_lines_extends:
  "mime_lines buf mime ext ctx ls = Some ctx' \<Longrightarrow> \<exists>es. mime_types ctx' = mime_types ctx @ es"
proof (induction ls arbitrary: buf mime ext ctx)
  case (Cons l ls)
  then show ?case
    by (auto simp: Let_def split: if_splits option.splits dest!: Cons.IH ext_loop_extends)
qed simp

text \<open>With a line \<open>type ext ext\<close> every step is as long as the type, so extensions are skipped, and the
  offset can pass the end of the line into what an earlier line left in the array.\<close>

lemma mime_file_skips:
  "map_option mime_types (set_mime_types (replicate 512 NUL) zero_ctx (''text/html html htm'' @ [LF])) =
   Some [(''html'', ''text/html'')]"
  by code_simp

lemma mime_file_stale:
  "map_option mime_types (set_mime_types (replicate 512 NUL) zero_ctx
     (''text/html  html    htm'' @ [LF] @ ''a/bcdefg x'' @ [LF])) =
   Some [(''html'', ''text/html''), (''htm'', ''text/html''), (''x'', ''a/bcdefg''), (''htm'', ''a/bcdefg'')]"
  by code_simp

section \<open>Properties\<close>

lemma default_exts: "\<forall>(ext, m) \<in> set default_mime_types. NUL \<notin> set ext \<and> ext \<noteq> []"
  by (simp add: default_mime_types_def)

text \<open>C35: the MIME type of a URI is that of the first entry, custom entries before the built-in ones, whose
  extension follows some dot of the URI to its end, case ignored; it is text/plain if there is none.\<close>

theorem get_mime_type_first:
  assumes "\<forall>(ext, m) \<in> set (mime_types ctx). NUL \<notin> set ext \<and> ext \<noteq> []"
  shows "get_mime_type ctx uri (int (length uri)) =
    (case find (\<lambda>(ext, m). \<exists>b e. uri = b @ CHR ''.'' # e \<and> map tolower e = map tolower ext)
        (mime_types ctx @ default_mime_types) of
       Some (ext, m) \<Rightarrow> m | None \<Rightarrow> ''text/plain'')"
proof -
  let ?P = "\<lambda>(ext, m :: string). \<exists>b e. uri = b @ CHR ''.'' # e \<and> map tolower e = map tolower ext"
  let ?Q = "\<lambda>(ext, m :: string). ext_match uri (int (length uri)) ext"
  have eq: "find ?Q xs = find ?P xs" if "\<forall>(ext, m) \<in> set xs. NUL \<notin> set ext \<and> ext \<noteq> []" for xs
    by (rule find_cong_set) (use that ext_match_iff [of _ "int (length uri)" uri] in fastforce)
  have "get_mime_type ctx uri (int (length uri)) =
      (case find ?Q (mime_types ctx @ default_mime_types) of Some (ext, m) \<Rightarrow> m | None \<Rightarrow> ''text/plain'')"
    by (simp add: get_mime_type_def find_append split: option.splits)
  also have "find ?Q (mime_types ctx @ default_mime_types) = find ?P (mime_types ctx @ default_mime_types)"
    by (rule eq) (use assms default_exts in auto)
  finally show ?thesis .
qed

theorem get_mime_type_first_witness:
  "get_mime_type (zero_ctx\<lparr>mime_types := [(''foo'', ''a/b'')]\<rparr>) ''/x.tar.Gz'' (int (length ''/x.tar.Gz'')) =
    (case find (\<lambda>(ext, m). \<exists>b e. ''/x.tar.Gz'' = b @ CHR ''.'' # e \<and> map tolower e = map tolower ext)
        (mime_types (zero_ctx\<lparr>mime_types := [(''foo'', ''a/b'')]\<rparr>) @ default_mime_types) of
       Some (ext, m) \<Rightarrow> m | None \<Rightarrow> ''text/plain'')"
  by (rule get_mime_type_first) simp

end
