(* ===== verification/Http.thy ===== *)
theory Http
  imports Types
begin

text \<open>
  The parsing routines of \<open>shttpd.c\<close>: the end of a header block (\<open>get_headers_len\<close>), dates
  (\<open>montoi\<close>, \<open>date_to_epoch\<close>), header lines (\<open>parse_headers\<close>) and the request method
  (\<open>set_request_method\<close>). \<open>mktime\<close> and the daylight-saving flag of \<open>localtime\<close> are parameters.
\<close>

section \<open>The end of the header block\<close>

definition bad_char :: "char \<Rightarrow> bool" where
  "bad_char c \<longleftrightarrow> \<not> isprint c \<and> c \<noteq> CR \<and> c \<noteq> LF \<and> code c < 128"

text \<open>The bytes from \<open>s\<close> on, and \<open>s - buf\<close>. The loop stops before the last byte.\<close>

fun hdr_scan :: "char list \<Rightarrow> nat \<Rightarrow> int" where
  "hdr_scan (x # y # r) i =
     (if bad_char x then -1
      else if x = LF \<and> y = LF then int i + 2
      else if x = LF \<and> r \<noteq> [] \<and> y = CR \<and> chd r = LF then int i + 3
      else hdr_scan (y # r) (i + 1))"
| "hdr_scan s i = 0"

definition get_headers_len :: "char list \<Rightarrow> int" where
  "get_headers_len buf = hdr_scan buf 0"

text \<open>An empty line ends at offset \<open>n\<close>.\<close>

definition ends_block :: "char list \<Rightarrow> nat \<Rightarrow> bool" where
  "ends_block b n \<longleftrightarrow> n \<le> length b \<and>
     (\<exists>p. take n b = p @ [LF, LF] \<or> take n b = p @ [LF, CR, LF])"

fun starts_end :: "char list \<Rightarrow> nat option" where
  "starts_end (x # y # r) =
     (if x = LF \<and> y = LF then Some 2
      else if x = LF \<and> r \<noteq> [] \<and> y = CR \<and> chd r = LF then Some 3 else None)"
| "starts_end s = None"

lemma hdr_scan_step:
  "hdr_scan (x # y # r) i = (if bad_char x then -1 else
     case starts_end (x # y # r) of Some k \<Rightarrow> int i + int k | None \<Rightarrow> hdr_scan (y # r) (i + 1))"
  by simp

lemma hdr_scan_cases:
  "(hdr_scan b i = -1 \<and> (\<exists>j < length b. bad_char (b ! j) \<and> (\<forall>l < j. starts_end (drop l b) = None))) \<or>
   (hdr_scan b i = 0 \<and> (\<forall>l < length b. starts_end (drop l b) = None)) \<or>
   (\<exists>j k. hdr_scan b i = int (i + j + k) \<and> starts_end (drop j b) = Some k \<and> j + k \<le> length b \<and> 2 \<le> k \<and>
      (\<forall>l \<le> j. \<not> bad_char (b ! l)) \<and> (\<forall>l < j. starts_end (drop l b) = None))"
proof (induction b i rule: hdr_scan.induct)
  case (1 x y r i)
  show ?case
  proof (cases "bad_char x")
    case True
    then show ?thesis by auto
  next
    case nb: False
    show ?thesis
    proof (cases "starts_end (x # y # r)")
      case (Some k)
      then have "hdr_scan (x # y # r) i = int (i + 0 + k)" "2 \<le> k" "k \<le> length (x # y # r)"
        using nb by (auto split: if_splits simp: Suc_le_eq)
      then show ?thesis using Some nb by (intro disjI2) (rule exI [of _ 0], rule exI [of _ k], simp)
    next
      case None
      then have eq: "hdr_scan (x # y # r) i = hdr_scan (y # r) (i + 1)"
        and IH: "\<not> bad_char x" "\<not> (x = LF \<and> y = LF)" "\<not> (x = LF \<and> r \<noteq> [] \<and> y = CR \<and> chd r = LF)"
        using nb by (auto split: if_splits)
      have all: "(\<forall>l < Suc j. starts_end (drop l (x # y # r)) = None) \<longleftrightarrow>
          (\<forall>l < j. starts_end (drop l (y # r)) = None)" for j
        using None by (metis drop0 drop_Suc_Cons less_Suc_eq_0_disj not0_implies_Suc Suc_less_eq)
      from 1(1) [OF IH] show ?thesis
      proof (elim disjE exE conjE)
        fix j assume "hdr_scan (y # r) (i + 1) = - 1" "j < length (y # r)" "bad_char ((y # r) ! j)"
          "\<forall>l<j. starts_end (drop l (y # r)) = None"
        then have "Suc j < length (x # y # r) \<and> bad_char ((x # y # r) ! Suc j)"
          "\<forall>l < Suc j. starts_end (drop l (x # y # r)) = None" "hdr_scan (x # y # r) i = - 1"
          using all eq by auto
        then show ?thesis by blast
      next
        assume "hdr_scan (y # r) (i + 1) = 0" "\<forall>l<length (y # r). starts_end (drop l (y # r)) = None"
        then show ?thesis using all [of "length (y # r)"] eq by simp
      next
        fix j k
        assume h: "hdr_scan (y # r) (i + 1) = int (i + 1 + j + k)" "starts_end (drop j (y # r)) = Some k"
          "j + k \<le> length (y # r)" "2 \<le> k" "\<forall>l\<le>j. \<not> bad_char ((y # r) ! l)"
          "\<forall>l<j. starts_end (drop l (y # r)) = None"
        have "\<forall>l \<le> Suc j. \<not> bad_char ((x # y # r) ! l)"
          using h(5) nb by (metis Suc_le_mono nth_Cons_0 nth_Cons_Suc not0_implies_Suc)
        then show ?thesis using h all [of j] eq
          by (intro disjI2) (rule exI [of _ "Suc j"], rule exI [of _ k], simp)
      qed
    qed
  qed
qed auto

lemma starts_end_ends:
  assumes "starts_end (drop j b) = Some k"
  shows "ends_block b (j + k)"
proof -
  obtain x y r where d: "drop j b = x # y # r" using assms by (cases "drop j b" rule: starts_end.cases) auto
  have t: "take (j + k) b = take j b @ take k (x # y # r)" by (simp add: take_add d)
  have "length (drop j b) = length (x # y # r)" using d by simp
  then have l: "length b = j + length (x # y # r)" by (metis add_diff_inverse_nat d diff_is_0_eq'
      drop_all length_0_conv length_drop linorder_not_less list.discI nat_less_le)
  show ?thesis
    using assms d t l by (cases r) (auto simp: ends_block_def split: if_splits)
qed

lemma ends_starts_end:
  assumes "ends_block b n"
  shows "\<exists>j k. n = j + k \<and> starts_end (drop j b) = Some k"
proof -
  obtain p where n: "n \<le> length b" and p: "take n b = p @ [LF, LF] \<or> take n b = p @ [LF, CR, LF]"
    using assms by (auto simp: ends_block_def)
  from p show ?thesis
  proof
    assume t: "take n b = p @ [LF, LF]"
    then have "b = p @ [LF, LF] @ drop n b" by (metis append.assoc append_take_drop_id)
    then have "drop (length p) b = LF # LF # drop n b" by (metis append_Cons append_Nil append_eq_conv_conj)
    moreover have "n = length p + 2" using arg_cong [OF t, of length] n by simp
    ultimately show ?thesis by (intro exI [of _ "length p"] exI [of _ 2]) simp
  next
    assume t: "take n b = p @ [LF, CR, LF]"
    then have "b = p @ [LF, CR, LF] @ drop n b" by (metis append.assoc append_take_drop_id)
    then have "drop (length p) b = LF # CR # LF # drop n b" by (metis append_Cons append_Nil append_eq_conv_conj)
    moreover have "n = length p + 3" using arg_cong [OF t, of length] n by simp
    ultimately show ?thesis by (intro exI [of _ "length p"] exI [of _ 3]) simp
  qed
qed

lemma get_headers_len_pos:
  assumes "0 < get_headers_len b"
  shows "ends_block b (nat (get_headers_len b))"
    "\<forall>n < nat (get_headers_len b). ends_block b n \<longrightarrow> False"
    "nat (get_headers_len b) \<le> length b"
proof -
  obtain j k where jk: "get_headers_len b = int (j + k)" "starts_end (drop j b) = Some k" "j + k \<le> length b"
    "\<forall>l < j. starts_end (drop l b) = None"
    using hdr_scan_cases [of b 0] assms by (auto simp: get_headers_len_def)
  show "ends_block b (nat (get_headers_len b))"
    using starts_end_ends [OF jk(2)] by (simp only: jk(1) nat_int)
  show "nat (get_headers_len b) \<le> length b" using jk by simp
  show "\<forall>n < nat (get_headers_len b). ends_block b n \<longrightarrow> False"
  proof (intro allI impI)
    fix n assume n: "n < nat (get_headers_len b)" "ends_block b n"
    then obtain j' k' where j': "n = j' + k'" "starts_end (drop j' b) = Some k'"
      using ends_starts_end by blast
    have "\<not> j' < j" using j' jk by auto
    moreover have "j' = j \<Longrightarrow> k' = k" using j' jk by simp
    moreover have "j < j' \<Longrightarrow> False"
    proof -
      assume "j < j'"
      have k: "k = 2 \<or> k = 3" "k' = 2 \<or> k' = 3"
        using jk(2) j'(2) by (cases "drop j b" rule: starts_end.cases; cases "drop j' b" rule: starts_end.cases;
            auto split: if_splits)+
      have "j' + k' < j + k" using n jk j' by simp
      then show False using k \<open>j < j'\<close> by arith
    qed
    ultimately show False using n jk j' by force
  qed
qed

lemma get_headers_len_zero:
  "get_headers_len b = 0 \<Longrightarrow> \<not> ends_block b n"
proof
  assume z: "get_headers_len b = 0" and e: "ends_block b n"
  then have none: "\<forall>l < length b. starts_end (drop l b) = None"
    using hdr_scan_cases [of b 0] by (auto simp: get_headers_len_def)
  obtain j k where "starts_end (drop j b) = Some k" using ends_starts_end [OF e] by blast
  then show False using none by (cases "j < length b") auto
qed

lemma get_headers_len_cases:
  "get_headers_len b = -1 \<or> get_headers_len b = 0 \<or> 2 \<le> get_headers_len b"
  using hdr_scan_cases [of b 0] by (auto simp: get_headers_len_def)


section \<open>Dates\<close>

definition month_names :: "string list" where
  "month_names = [''Jan'', ''Feb'', ''Mar'', ''Apr'', ''May'', ''Jun'',
     ''Jul'', ''Aug'', ''Sep'', ''Oct'', ''Nov'', ''Dec'']"

fun index_of :: "string list \<Rightarrow> string \<Rightarrow> nat \<Rightarrow> int" where
  "index_of [] s i = -1"
| "index_of (x # xs) s i = (if s = x then int i else index_of xs s (i + 1))"

definition montoi :: "string \<Rightarrow> int" where
  "montoi s = index_of month_names s 0"

record tm =
  tm_sec :: int
  tm_min :: int
  tm_hour :: int
  tm_mday :: int
  tm_mon :: int
  tm_year :: int
  tm_isdst :: int

text \<open>The conversion specifications of the four accepted date formats.\<close>

definition date_formats :: "scan_dir list list" where
  "date_formats =
    [[SInt, SLit CHR ''/'', SStr 3, SLit CHR ''/'', SInt, SSpace, SInt, SLit CHR '':'', SInt, SLit CHR '':'', SInt],
     [SInt, SSpace, SStr 3, SSpace, SInt, SSpace, SInt, SLit CHR '':'', SInt, SLit CHR '':'', SInt],
     [SSkip 3, SLit CHR '','', SSpace, SInt, SSpace, SStr 3, SSpace, SInt, SSpace, SInt, SLit CHR '':'', SInt,
        SLit CHR '':'', SInt],
     [SInt, SLit CHR ''-'', SStr 3, SLit CHR ''-'', SInt, SSpace, SInt, SLit CHR '':'', SInt, SLit CHR '':'', SInt]]"

fun first_match :: "scan_dir list list \<Rightarrow> string \<Rightarrow> scan_val list option" where
  "first_match [] s = None"
| "first_match (f # fs) s = (let v = sscanf f s in if length v = 6 then Some v else first_match fs s)"

text \<open>\<open>mktime\<close> is the conversion of the C library, \<open>isdst\<close> the flag of the current local time.\<close>

definition date_to_epoch :: "(tm \<Rightarrow> int) \<Rightarrow> int \<Rightarrow> string \<Rightarrow> int" where
  "date_to_epoch mktime isdst s =
    (let tm0 = \<lparr>tm_sec = 0, tm_min = 0, tm_hour = 0, tm_mday = 0, tm_mon = 0, tm_year = 0, tm_isdst = 0\<rparr>;
         tm1 = (case first_match date_formats s of
           Some [VInt mday, VStr mon, VInt year, VInt hour, VInt mi, VInt sec] \<Rightarrow>
             (let month = montoi mon
              in if month \<noteq> -1
                 then tm0\<lparr>tm_mday := mday, tm_mon := month, tm_year := year, tm_hour := hour,
                        tm_min := mi, tm_sec := sec\<rparr>
                 else tm0)
         | _ \<Rightarrow> tm0);
         tm2 = (if 1900 < tm_year tm1 then tm1\<lparr>tm_year := tm_year tm1 - 1900\<rparr>
                else if tm_year tm1 < 70 then tm1\<lparr>tm_year := tm_year tm1 + 100\<rparr>
                else tm1)
     in mktime (tm2\<lparr>tm_isdst := isdst\<rparr>))"

section \<open>Header lines\<close>

datatype hdr_type = HDR_DATE | HDR_INT | HDR_STRING

datatype hdr_field = Cl | Ct | Useragent | Ims | Auth | Referer | Cookie | Location | Status | Range
  | Connection | Transenc

definition http_headers :: "(hdr_type \<times> hdr_field \<times> string) list" where
  "http_headers =
    [(HDR_INT, Cl, ''Content-Length: ''), (HDR_STRING, Ct, ''Content-Type: ''),
     (HDR_STRING, Useragent, ''User-Agent: ''), (HDR_DATE, Ims, ''If-Modified-Since: ''),
     (HDR_STRING, Auth, ''Authorization: ''), (HDR_STRING, Referer, ''Referer: ''),
     (HDR_STRING, Cookie, ''Cookie: ''), (HDR_STRING, Location, ''Location: ''),
     (HDR_INT, Status, ''Status: ''), (HDR_STRING, Range, ''Range: ''),
     (HDR_STRING, Connection, ''Connection: ''), (HDR_STRING, Transenc, ''Transfer-Encoding: '')]"

fun put_vec :: "hdr_field \<Rightarrow> vec \<Rightarrow> headers \<Rightarrow> headers" where
  "put_vec Ct v h = h\<lparr>h_ct := v\<rparr>"
| "put_vec Useragent v h = h\<lparr>h_useragent := v\<rparr>"
| "put_vec Auth v h = h\<lparr>h_auth := v\<rparr>"
| "put_vec Referer v h = h\<lparr>h_referer := v\<rparr>"
| "put_vec Cookie v h = h\<lparr>h_cookie := v\<rparr>"
| "put_vec Location v h = h\<lparr>h_location := v\<rparr>"
| "put_vec Range v h = h\<lparr>h_range := v\<rparr>"
| "put_vec Connection v h = h\<lparr>h_connection := v\<rparr>"
| "put_vec Transenc v h = h\<lparr>h_transenc := v\<rparr>"
| "put_vec _ v h = h"

fun put_int :: "hdr_field \<Rightarrow> u64 \<Rightarrow> headers \<Rightarrow> headers" where
  "put_int Cl v h = h\<lparr>h_cl := v\<rparr>"
| "put_int Status v h = h\<lparr>h_status := v\<rparr>"
| "put_int _ v h = h"

definition known_header :: "char list \<Rightarrow> nat \<Rightarrow> (hdr_type \<times> hdr_field \<times> string) option" where
  "known_header m len =
     find (\<lambda>(ty, f, name). length name < len \<and> my_strncasecmp m name (length name) = 0) http_headers"

text \<open>The value of one header: \<open>m\<close> is the memory from the line on, \<open>p\<close> the length of the line.\<close>

definition store_header ::
  "(string \<Rightarrow> int) \<Rightarrow> hdr_type \<times> hdr_field \<times> string \<Rightarrow> char list \<Rightarrow> nat \<Rightarrow> headers \<Rightarrow> headers" where
  "store_header to_epoch h m p ph =
     (case h of (ty, f, name) \<Rightarrow>
        let s = drop (length name) m
        in (case ty of
             HDR_STRING \<Rightarrow>
               let l = int p - int (length name)
               in put_vec f \<lparr>vptr = s, vlen = (if chat m (p - 1) = CR \<and> 0 < l then l - 1 else l)\<rparr> ph
           | HDR_INT \<Rightarrow> put_int f (fst (strtoul (cstr s))) ph
           | HDR_DATE \<Rightarrow> ph\<lparr>h_ims := to_epoch (cstr s)\<rparr>))"

text \<open>\<open>m\<close>: the memory from \<open>s\<close> on; \<open>len\<close>: \<open>e - s\<close>, not positive once the loop ends.\<close>

fun parse_headers :: "(string \<Rightarrow> int) \<Rightarrow> char list \<Rightarrow> nat \<Rightarrow> headers \<Rightarrow> headers" where
  "parse_headers to_epoch m len ph =
     (if len = 0 then ph
      else let p = length (takeWhile (\<lambda>c. c \<noteq> LF) (take len m));
               ph' = (case known_header m len of None \<Rightarrow> ph | Some h \<Rightarrow> store_header to_epoch h m p ph)
           in parse_headers to_epoch (drop (p + 1) m) (len - (p + 1)) ph')"

declare parse_headers.simps [simp del]

text \<open>One line of a header block.\<close>

lemma parse_headers_line:
  assumes "LF \<notin> set line"
  shows "parse_headers te (line @ LF # m) (length line + 1 + n) ph =
    parse_headers te m n
      (case known_header (line @ LF # m) (length line + 1 + n) of
         None \<Rightarrow> ph | Some h \<Rightarrow> store_header te h (line @ LF # m) (length line) ph)"
proof -
  have "takeWhile (\<lambda>c. c \<noteq> LF) (take (length line + 1 + n) (line @ LF # m)) = line"
    using assms by (simp add: takeWhile_neq_app)
  then show ?thesis by (subst parse_headers.simps) (simp add: Let_def)
qed

lemma parse_headers_0 [simp]: "parse_headers te m 0 ph = ph"
  by (subst parse_headers.simps) simp

text \<open>Header lines as a client writes them.\<close>

definition hdr_name :: "string \<Rightarrow> bool" where
  "hdr_name n \<longleftrightarrow> n \<noteq> [] \<and> set n \<inter> {NUL, CR, LF, CHR '':''} = {}"

definition hdr_value :: "string \<Rightarrow> bool" where
  "hdr_value v \<longleftrightarrow> set v \<inter> {NUL, CR, LF} = {}"

definition render_line :: "string \<times> string \<Rightarrow> string" where
  "render_line p = fst p @ '': '' @ snd p @ crlf"

definition render_headers :: "(string \<times> string) list \<Rightarrow> string" where
  "render_headers hs = concat (map render_line hs)"

definition ci_eq :: "string \<Rightarrow> string \<Rightarrow> bool" where
  "ci_eq a b \<longleftrightarrow> map tolower a = map tolower b"

lemma tolower_colon: "tolower c = CHR '':'' \<longleftrightarrow> c = CHR '':''"
proof
  assume t: "tolower c = CHR '':''"
  show "c = CHR '':''"
  proof (cases "isupper c")
    case True
    then have "code (tolower c) = code c + 32" "65 \<le> code c" by (auto simp: tolower_def isupper_def)
    then show ?thesis using t by simp
  qed (use t in \<open>simp add: tolower_def\<close>)
qed (simp add: tolower_def isupper_def)

lemma tolower_colon_self: "tolower CHR '':'' = CHR '':''"
  by (simp add: tolower_def isupper_def)

lemma colon_tolower: "CHR '':'' = tolower c \<longleftrightarrow> c = CHR '':''"
  using tolower_colon [of c] by auto

lemma ci_prefix_name:
  assumes "CHR '':'' \<notin> set a" "CHR '':'' \<notin> set n"
  shows "map tolower (a @ '': '') = map tolower (take (length (a @ '': '')) (n @ '': '' @ r)) \<longleftrightarrow> ci_eq a n"
  using assms
proof (induction a arbitrary: n)
  case Nil
  then show ?case by (cases n) (auto simp: ci_eq_def tolower_colon_self colon_tolower)
next
  case (Cons x a)
  show ?case
  proof (cases n)
    case Nil
    then have "tolower x \<noteq> tolower CHR '':''"
      using Cons.prems tolower_colon by (auto simp: tolower_def isupper_def)
    then show ?thesis using Nil by (auto simp: ci_eq_def)
  next
    case (Cons y n')
    then show ?thesis using Cons.IH [of n'] Cons.prems by (auto simp: ci_eq_def)
  qed
qed

definition table_names :: "string list" where
  "table_names = [''Content-Length'', ''Content-Type'', ''User-Agent'', ''If-Modified-Since'',
     ''Authorization'', ''Referer'', ''Cookie'', ''Location'', ''Status'', ''Range'', ''Connection'',
     ''Transfer-Encoding'']"

lemma http_headers_names:
  "http_headers = map2 (\<lambda>(ty, f) n. (ty, f, n @ '': ''))
     [(HDR_INT, Cl), (HDR_STRING, Ct), (HDR_STRING, Useragent), (HDR_DATE, Ims), (HDR_STRING, Auth),
      (HDR_STRING, Referer), (HDR_STRING, Cookie), (HDR_STRING, Location), (HDR_INT, Status),
      (HDR_STRING, Range), (HDR_STRING, Connection), (HDR_STRING, Transenc)] table_names"
  by (simp add: http_headers_def table_names_def)

lemma table_names_ok: "n \<in> set table_names \<Longrightarrow> hdr_name n"
  by (auto simp: table_names_def hdr_name_def)

lemma http_headers_shape:
  "h \<in> set http_headers \<Longrightarrow> \<exists>ty f n. h = (ty, f, n @ '': '') \<and> n \<in> set table_names"
  by (auto simp: http_headers_names dest: set_zip_rightD)

text \<open>The name a table entry stands for, and the entry of a field.\<close>

definition entry_of :: "string \<Rightarrow> (hdr_type \<times> hdr_field \<times> string) option" where
  "entry_of n = find (\<lambda>(ty, f, name). ci_eq name (n @ '': '')) http_headers"

lemma ci_eq_len: "ci_eq a b \<Longrightarrow> length a = length b"
  unfolding ci_eq_def by (metis length_map)

lemma ci_eq_app: "ci_eq (a @ x) (b @ x) \<longleftrightarrow> ci_eq a b"
  by (simp add: ci_eq_def)

lemma known_header_entry:
  assumes "hdr_name n" "length n + 2 < k"
  shows "known_header (n @ '': '' @ r) k = entry_of n"
proof -
  have "(length name < k \<and> my_strncasecmp (n @ '': '' @ r) name (length name) = 0) \<longleftrightarrow> ci_eq name (n @ '': '')"
    if h: "(ty, f, name) \<in> set http_headers" for ty f name
  proof -
    obtain t where t: "name = t @ '': ''" "t \<in> set table_names" using http_headers_shape [OF h] by auto
    have ok: "hdr_name t" using table_names_ok t by blast
    have "my_strncasecmp (n @ '': '' @ r) name (length name) = 0 \<longleftrightarrow>
      map tolower (t @ '': '') = map tolower (take (length (t @ '': '')) (n @ '': '' @ r))"
      unfolding t by (rule my_strncasecmp_prefix2) (use ok in \<open>auto simp: hdr_name_def\<close>)
    also have "\<dots> \<longleftrightarrow> ci_eq t n"
      by (rule ci_prefix_name) (use ok assms(1) in \<open>auto simp: hdr_name_def\<close>)
    finally show ?thesis using assms(2) ci_eq_len [of t n] by (auto simp: t ci_eq_app)
  qed
  then show ?thesis unfolding known_header_def entry_of_def by (intro find_cong_set) auto
qed

lemma entry_of_len: "entry_of n = Some (ty, f, name) \<Longrightarrow> length name = length n + 2"
  unfolding entry_of_def by (auto simp: find_Some_iff dest!: ci_eq_len)

definition field_of :: "string \<Rightarrow> hdr_field option" where
  "field_of n = map_option (\<lambda>(ty, f, name). f) (entry_of n)"

fun get_vec :: "hdr_field \<Rightarrow> headers \<Rightarrow> vec" where
  "get_vec Ct h = h_ct h"
| "get_vec Useragent h = h_useragent h"
| "get_vec Auth h = h_auth h"
| "get_vec Referer h = h_referer h"
| "get_vec Cookie h = h_cookie h"
| "get_vec Location h = h_location h"
| "get_vec Range h = h_range h"
| "get_vec Connection h = h_connection h"
| "get_vec Transenc h = h_transenc h"
| "get_vec _ h = vnull"

definition string_field :: "hdr_field \<Rightarrow> bool" where
  "string_field f \<longleftrightarrow> f \<notin> {Cl, Status, Ims}"

lemma get_put_vec: "string_field f \<Longrightarrow> get_vec f (put_vec g v h) = (if g = f then v else get_vec f h)"
  by (cases f; cases g; simp add: string_field_def)

lemma get_put_int [simp]: "get_vec f (put_int g v h) = get_vec f h"
  by (cases f; cases g; simp)

lemma get_vec_ims [simp]: "get_vec f (h\<lparr>h_ims := x\<rparr>) = get_vec f h"
  by (cases f; simp)

lemma cl_put_vec [simp]: "h_cl (put_vec g v h) = h_cl h"
  by (cases g; simp)

lemma cl_put_int: "h_cl (put_int g v h) = (if g = Cl then v else h_cl h)"
  by (cases g; simp)

lemma entry_types:
  "entry_of n = Some (ty, f, name) \<Longrightarrow>
   (ty = HDR_STRING \<longleftrightarrow> string_field f) \<and> (f = Cl \<longrightarrow> ty = HDR_INT) \<and> (f = Ims \<longleftrightarrow> ty = HDR_DATE)"
  unfolding entry_of_def by (auto simp: find_Some_iff http_headers_def string_field_def nth_Cons' split: if_splits)

lemma parse_headers_render_line:
  assumes "hdr_name n" "hdr_value v"
  shows "parse_headers te (render_line (n, v) @ m) (length (render_line (n, v)) + k) ph =
    parse_headers te m k (case entry_of n of None \<Rightarrow> ph
      | Some h \<Rightarrow> store_header te h (n @ '': '' @ v @ [CR] @ LF # m) (length n + length v + 3) ph)"
proof -
  let ?line = "n @ '': '' @ v @ [CR]"
  have "LF \<notin> set ?line" using assms by (auto simp: hdr_name_def hdr_value_def)
  from parse_headers_line [OF this, of te m k ph]
  have "parse_headers te (?line @ LF # m) (length ?line + 1 + k) ph = parse_headers te m k
      (case known_header (?line @ LF # m) (length ?line + 1 + k) of None \<Rightarrow> ph
        | Some h \<Rightarrow> store_header te h (?line @ LF # m) (length ?line) ph)" .
  moreover have "known_header (n @ '': '' @ (v @ [CR] @ LF # m)) (length ?line + 1 + k) = entry_of n"
    by (rule known_header_entry [OF assms(1)]) simp
  moreover have "length ?line = length n + length v + 3" "?line @ LF # m = n @ '': '' @ v @ [CR] @ LF # m"
    by simp_all
  ultimately show ?thesis
    by (simp add: render_line_def add.commute numeral_eq_Suc split: option.split)
qed

lemma store_header_string:
  assumes "entry_of n = Some (HDR_STRING, f, name)"
  shows "vbytes (get_vec g (store_header te (HDR_STRING, f, name) (n @ '': '' @ v @ [CR] @ LF # m)
      (length n + length v + 3) ph)) = (if g = f then v else vbytes (get_vec g ph))"
proof -
  have l: "length name = length n + 2" by (rule entry_of_len [OF assms])
  have f: "string_field f" using entry_types [OF assms] by simp
  have c: "chat (n @ '': '' @ v @ [CR] @ LF # m) (length n + length v + 3 - 1) = CR"
    by (simp add: chat_def nth_append)
  show ?thesis
  proof (cases "string_field g")
    case True
    then show ?thesis using l f c by (auto simp: store_header_def Let_def get_put_vec vbytes_def)
  next
    case False
    then show ?thesis using f by (cases g; cases f) (auto simp: string_field_def store_header_def Let_def)
  qed
qed

lemma parse_headers_render:
  assumes "\<forall>p \<in> set hs. hdr_name (fst p) \<and> hdr_value (snd p)" "string_field f"
  shows "vbytes (get_vec f (parse_headers te (render_headers hs @ r) (length (render_headers hs)) ph)) =
    (case find (\<lambda>p. field_of (fst p) = Some f) (rev hs) of
       None \<Rightarrow> vbytes (get_vec f ph) | Some p \<Rightarrow> snd p)"
  using assms(1)
proof (induction hs arbitrary: ph)
  case (Cons p hs)
  obtain n v where p: "p = (n, v)" by (cases p)
  have ok: "hdr_name n" "hdr_value v" using Cons.prems p by auto
  let ?m = "render_headers hs @ r"
  define ph' where "ph' = (case entry_of n of None \<Rightarrow> ph
      | Some h \<Rightarrow> store_header te h (n @ '': '' @ v @ [CR] @ LF # ?m) (length n + length v + 3) ph)"
  have step: "parse_headers te (render_headers (p # hs) @ r) (length (render_headers (p # hs))) ph =
      parse_headers te ?m (length (render_headers hs)) ph'"
    using parse_headers_render_line [OF ok, of te ?m "length (render_headers hs)" ph]
    by (simp add: p render_headers_def ph'_def)
  have "vbytes (get_vec f ph') = (if field_of n = Some f then v else vbytes (get_vec f ph))"
  proof (cases "entry_of n")
    case None
    then show ?thesis by (simp add: ph'_def field_of_def)
  next
    case (Some h)
    obtain ty g name where h: "h = (ty, g, name)" by (cases h)
    show ?thesis
    proof (cases ty)
      case HDR_STRING
      have "entry_of n = Some (HDR_STRING, g, name)" using Some h HDR_STRING by simp
      from store_header_string [OF this, of f te v ?m ph] this show ?thesis
        by (auto simp: ph'_def field_of_def)
    next
      case HDR_INT
      then have "g \<noteq> f" using entry_types [of n ty g name] Some h assms(2) by auto
      then show ?thesis using Some h HDR_INT by (simp add: ph'_def field_of_def store_header_def Let_def)
    next
      case HDR_DATE
      then have "g \<noteq> f" using entry_types [of n ty g name] Some h assms(2) by auto
      then show ?thesis using Some h HDR_DATE by (simp add: ph'_def field_of_def store_header_def Let_def)
    qed
  qed
  then show ?case using Cons step by (simp add: p find_append split: option.splits)
qed (simp add: render_headers_def)

lemma strtoul_dec_crlf:
  "k < 2 ^ 64 \<Longrightarrow> fst (strtoul (cstr (dec k @ [CR] @ LF # m))) = of_nat k"
proof -
  assume k: "k < 2 ^ 64"
  have d: "NUL \<notin> set (dec k)" using dec_digits [of k] by (auto simp: list_all_iff isdigit_def)
  then have "cstr (dec k @ [CR] @ LF # m) = dec k @ CR # LF # cstr m"
    by (simp add: cstr_def takeWhile_append)
  moreover have "\<not> isdigit (chd (CR # LF # cstr m))" by (simp add: isdigit_def)
  ultimately show ?thesis using strtoul_dec [OF k] by simp
qed

text \<open>The content length is the number of the last such header.\<close>

lemma parse_headers_content_length:
  assumes "\<forall>p \<in> set hs. hdr_name (fst p) \<and> hdr_value (snd p)"
    and "\<forall>p \<in> set hs. field_of (fst p) = Some Cl \<longrightarrow> (\<exists>k < 2 ^ 64. snd p = dec k)"
  shows "h_cl (parse_headers te (render_headers hs @ r) (length (render_headers hs)) ph) =
    (case find (\<lambda>p. field_of (fst p) = Some Cl) (rev hs) of
       None \<Rightarrow> h_cl ph | Some p \<Rightarrow> of_nat (digits_val (snd p)))"
  using assms
proof (induction hs arbitrary: ph)
  case (Cons p hs)
  obtain n v where p: "p = (n, v)" by (cases p)
  have ok: "hdr_name n" "hdr_value v" using Cons.prems p by auto
  let ?m = "render_headers hs @ r"
  define ph' where "ph' = (case entry_of n of None \<Rightarrow> ph
      | Some h \<Rightarrow> store_header te h (n @ '': '' @ v @ [CR] @ LF # ?m) (length n + length v + 3) ph)"
  have step: "parse_headers te (render_headers (p # hs) @ r) (length (render_headers (p # hs))) ph =
      parse_headers te ?m (length (render_headers hs)) ph'"
    using parse_headers_render_line [OF ok, of te ?m "length (render_headers hs)" ph]
    by (simp add: p render_headers_def ph'_def)
  have "h_cl ph' = (if field_of n = Some Cl then of_nat (digits_val v) else h_cl ph)"
  proof (cases "entry_of n")
    case None
    then show ?thesis by (simp add: ph'_def field_of_def)
  next
    case (Some h)
    obtain ty g name where h: "h = (ty, g, name)" by (cases h)
    have l: "length name = length n + 2" using entry_of_len [of n ty g name] Some h by simp
    show ?thesis
    proof (cases "g = Cl")
      case True
      then obtain k where k: "k < 2 ^ 64" "v = dec k"
        using Cons.prems(2) p Some h by (auto simp: field_of_def)
      have "ty = HDR_INT" using entry_types [of n ty g name] Some h True by auto
      then show ?thesis using True Some h l k strtoul_dec_crlf [OF k(1), of ?m]
        by (simp add: ph'_def field_of_def store_header_def Let_def cl_put_int)
    next
      case False
      then show ?thesis using Some h
        by (cases ty) (simp_all add: ph'_def field_of_def store_header_def Let_def cl_put_int)
    qed
  qed
  then show ?case using Cons step by (simp add: p find_append split: option.splits)
qed (simp add: render_headers_def)

section \<open>The request method\<close>

text \<open>\<open>memcmp\<close> with the known names in turn; \<open>None\<close> is the return value 1. The assertion that at
  least \<open>MIN_REQ_LEN\<close> bytes are buffered is the caller's.\<close>

definition set_request_method :: "char list \<Rightarrow> http_method option" where
  "set_request_method buf =
     map_option fst (find (\<lambda>(m, name). take (length name) buf = name) known_http_methods)"

section \<open>The block of a whole request\<close>

text \<open>The empty line at the end of the block adds nothing.\<close>

lemma known_header_short: "len \<le> 7 \<Longrightarrow> known_header m len = None"
  by (simp add: known_header_def http_headers_def)

lemma parse_headers_end:
  assumes "\<forall>p \<in> set hs. hdr_name (fst p) \<and> hdr_value (snd p)"
  shows "parse_headers te (render_headers hs @ crlf @ r) (length (render_headers hs) + 2) ph =
    parse_headers te (render_headers hs @ crlf @ r) (length (render_headers hs)) ph"
  using assms
proof (induction hs arbitrary: ph)
  case Nil
  have "parse_headers te ([CR] @ LF # r) (length [CR] + 1 + 0) ph = parse_headers te r 0 ph"
    by (subst parse_headers_line) (simp_all add: known_header_short)
  then show ?case by (simp add: render_headers_def numeral_2_eq_2)
next
  case (Cons p hs)
  obtain n v where p: "p = (n, v)" by (cases p)
  have ok: "hdr_name n" "hdr_value v" "\<forall>p \<in> set hs. hdr_name (fst p) \<and> hdr_value (snd p)" using Cons.prems p by auto
  have r: "render_headers (p # hs) = render_line (n, v) @ render_headers hs" by (simp add: render_headers_def p)
  have "parse_headers te (render_line (n, v) @ (render_headers hs @ crlf @ r)) (length (render_line (n, v)) + (length (render_headers hs) + 2)) ph =
      parse_headers te (render_line (n, v) @ (render_headers hs @ crlf @ r)) (length (render_line (n, v)) + length (render_headers hs)) ph"
    unfolding parse_headers_render_line [OF ok(1,2)] by (rule Cons.IH [OF ok(3)])
  then show ?case by (simp only: r append_assoc length_append add.assoc)
qed

text \<open>Lines without control characters, none of them empty: the end of the block is found.\<close>

definition text_line :: "string \<Rightarrow> bool" where
  "text_line l \<longleftrightarrow> l \<noteq> [] \<and> (\<forall>c \<in> set l. \<not> bad_char c \<and> c \<noteq> LF \<and> c \<noteq> CR)"

lemma hdr_scan_skip:
  "\<forall>x \<in> set l. x \<noteq> LF \<and> \<not> bad_char x \<Longrightarrow> hdr_scan (l @ y # r) i = hdr_scan (y # r) (i + length l)"
proof (induction l arbitrary: i)
  case (Cons x l)
  obtain z t where z: "l @ y # r = z # t" by (cases l) auto
  have "hdr_scan (x # z # t) i = hdr_scan (z # t) (i + 1)" using Cons.prems by simp
  then show ?case using Cons z [symmetric] by simp
qed simp

lemma hdr_scan_line:
  assumes "text_line l"
  shows "hdr_scan (l @ crlf @ r) i = hdr_scan (LF # r) (i + length l + 1)"
proof -
  have "\<forall>x \<in> set (l @ [CR]). x \<noteq> LF \<and> \<not> bad_char x" using assms by (auto simp: text_line_def bad_char_def)
  from hdr_scan_skip [OF this, of LF r i] show ?thesis by simp
qed

lemma hdr_scan_block:
  assumes "list_all text_line ls" "ls \<noteq> []"
  shows "hdr_scan (concat (map (\<lambda>l. l @ crlf) ls) @ crlf @ r) i =
    int (i + length (concat (map (\<lambda>l. l @ crlf) ls)) + 2)"
  using assms
proof (induction ls arbitrary: i)
  case (Cons l ls)
  have l: "text_line l" using Cons.prems by simp
  have b: "\<not> bad_char LF" by (simp add: bad_char_def)
  show ?case
  proof (cases ls)
    case Nil
    then show ?thesis using hdr_scan_line [OF l, of "crlf @ r" i] b by simp
  next
    case (Cons k ks)
    obtain x t where x: "k = x # t" "x \<noteq> LF" "x \<noteq> CR" using Cons Cons.prems by (cases k) (auto simp: text_line_def)
    let ?r = "concat (map (\<lambda>l. l @ crlf) ls) @ crlf @ r"
    have "hdr_scan (l @ crlf @ ?r) i = hdr_scan (LF # ?r) (i + length l + 1)" by (rule hdr_scan_line [OF l])
    also have "\<dots> = hdr_scan ?r (i + length l + 2)" using Cons x b by simp
    also have "\<dots> = int (i + length l + 2 + length (concat (map (\<lambda>l. l @ crlf) ls)) + 2)"
      by (rule Cons.IH) (use Cons Cons.prems in auto)
    finally show ?thesis by simp
  qed
qed simp

section \<open>Properties\<close>

text \<open>C24: the length of the header block is 0 only if no empty line is there yet; a positive length is
  the end of the first empty line, inside the buffer; the only other result is -1, and then the buffer
  has a control character.\<close>

theorem get_headers_len_spec:
  "(get_headers_len b = 0 \<longrightarrow> (\<forall>n. \<not> ends_block b n)) \<and>
   (0 < get_headers_len b \<longrightarrow> nat (get_headers_len b) \<le> length b \<and> ends_block b (nat (get_headers_len b)) \<and>
      (\<forall>n < nat (get_headers_len b). \<not> ends_block b n)) \<and>
   (get_headers_len b < 0 \<longrightarrow> get_headers_len b = -1 \<and> (\<exists>c \<in> set b. bad_char c))"
  using get_headers_len_zero [of b] get_headers_len_pos [of b] get_headers_len_cases [of b] hdr_scan_cases [of b 0]
  by (auto simp: get_headers_len_def)

theorem get_headers_len_spec_witness:
  "get_headers_len (''a'' @ crlf @ crlf @ ''b'') = 5 \<and> ends_block (''a'' @ crlf @ crlf @ ''b'') 5 \<and>
   \<not> ends_block (''a'' @ crlf @ crlf @ ''b'') 4"
proof -
  have "get_headers_len (''a'' @ crlf @ crlf @ ''b'') = 5"
    by (simp add: get_headers_len_def bad_char_def isprint_def)
  then show ?thesis using get_headers_len_spec [of "''a'' @ crlf @ crlf @ ''b''"] by simp
qed

text \<open>C25: parsing a block of header lines stores, for every text header the server knows, the value of the
  last line with that name in any case, and leaves the old value where there is no such line.\<close>

theorem parse_headers_last_value:
  assumes "\<forall>p \<in> set hs. hdr_name (fst p) \<and> hdr_value (snd p)" "string_field f"
  shows "vbytes (get_vec f (parse_headers te (render_headers hs @ r) (length (render_headers hs)) ph)) =
    (case find (\<lambda>p. field_of (fst p) = Some f) (rev hs) of
       None \<Rightarrow> vbytes (get_vec f ph) | Some p \<Rightarrow> snd p)"
  by (rule parse_headers_render [OF assms])

theorem parse_headers_last_value_witness:
  "vbytes (get_vec Cookie (parse_headers (\<lambda>s. 0) (render_headers [(''Host'', ''h''), (''cOOkie'', ''a'')] @ crlf)
      (length (render_headers [(''Host'', ''h''), (''cOOkie'', ''a'')])) headers0)) =
    (case find (\<lambda>p. field_of (fst p) = Some Cookie) (rev [(''Host'', ''h''), (''cOOkie'', ''a'')]) of
       None \<Rightarrow> vbytes (get_vec Cookie headers0) | Some p \<Rightarrow> snd p)"
  by (rule parse_headers_last_value) (simp_all add: hdr_name_def hdr_value_def string_field_def)

end
