(* ===== verification/Files.thy ===== *)
theory Files
  imports Streams Mime Http
begin

text \<open>
  The I/O classes of shttpd: \<open>io_file.c\<close>, \<open>io_dir.c\<close>, \<open>io_cgi.c\<close>, \<open>io_socket.c\<close> and \<open>io_ssl.c\<close>.
  A read method stores its bytes at the free end of the buffer of its stream and returns the
  number that the caller adds to the mark.
\<close>

section \<open>Storing what was read\<close>

text \<open>A read of more bytes than the buffer has room for would write behind it.\<close>

definition store :: "side \<Rightarrow> char list \<Rightarrow> conn \<Rightarrow> conn option" where
  "store sd d c =
     (let i = sio (strm sd c)
      in if length d \<le> io_room i
         then Some (upd_strm sd (\<lambda>s. s\<lparr>sio := i\<lparr>io_buf := overwrite (io_buf i) (io_head i) d\<rparr>\<rparr>) c)
         else None)"

section \<open>Files\<close>

definition read_fd :: "('w \<Rightarrow> int \<Rightarrow> nat \<Rightarrow> rd \<times> 'w) \<Rightarrow> side \<Rightarrow> nat \<Rightarrow> conn \<Rightarrow> 'w \<Rightarrow> (int \<times> conn \<times> 'w) option" where
  "read_fd rdf sd len c w =
     (let fd = ch_fd (chan (strm sd c))
      in if fd = -1 then None
         else let (r, w1) = rdf w fd len
              in map_option (\<lambda>c1. (rd_len r, c1, w1)) (store sd (rd_bytes r) c))"

definition read_file :: "'w os \<Rightarrow> side \<Rightarrow> nat \<Rightarrow> conn \<Rightarrow> 'w \<Rightarrow> (int \<times> conn \<times> 'w) option" where
  "read_file S = read_fd (os_read S)"

definition read_socket :: "'w os \<Rightarrow> side \<Rightarrow> nat \<Rightarrow> conn \<Rightarrow> 'w \<Rightarrow> (int \<times> conn \<times> 'w) option" where
  "read_socket S = read_fd (os_recv S)"

definition write_socket :: "'w os \<Rightarrow> side \<Rightarrow> char list \<Rightarrow> conn \<Rightarrow> 'w \<Rightarrow> (int \<times> conn \<times> 'w) option" where
  "write_socket S sd d c w =
     (let fd = ch_fd (chan (strm sd c))
      in if fd = -1 then None
         else let (r, w1) = os_send S w fd d in Some (wr_len r, c, w1))"

text \<open>A file that is uploaded: the reply is sent when the write fails or when the remote stream has
  brought as many bytes as the request headers had.\<close>

definition put_done_text :: "int \<Rightarrow> nat \<Rightarrow> string" where
  "put_done_text status sz =
     ''HTTP/1.1 '' @ dec_int status @ '' OK'' @ crlf @ ''Content-Length: '' @ dec sz @ crlf @
     ''Connection: close'' @ crlf @ crlf"

definition write_file :: "'w os \<Rightarrow> char list \<Rightarrow> conn \<Rightarrow> 'w \<Rightarrow> (int \<times> conn \<times> 'w) option" where
  "write_file S d c w =
     (let fd = ch_fd (chan (c_loc c))
      in if fd = -1 then None
         else let (r, w1) = os_write S w fd d; n = wr_len r
              in if n \<le> 0 \<or> word_of_int (headers_len (c_rem c)) \<le> io_total (sio (c_rem c))
                 then map_option (\<lambda>(c1, w2). (n, c1, w2))
                        (stop_stream S Loc
                          (c\<lparr>c_loc := put_reply (put_done_text (c_status c) (os_fsize S w1 fd)) (c_loc c)\<rparr>) w1)
                 else Some (n, c, w1))"

text \<open>\<open>sscanf(s, "bytes=%lu-%lu")\<close>: whether the input ends before the first conversion (the
  result is then \<open>EOF\<close>, and not zero).\<close>

definition range_format :: "scan_dir list" where
  "range_format = map SLit ''bytes='' @ [SULong, SLit CHR ''-'', SULong]"

fun scan_eof :: "scan_dir list \<Rightarrow> string \<Rightarrow> bool" where
  "scan_eof (SLit x # f) s = (case s of [] \<Rightarrow> True | y # r \<Rightarrow> x = y \<and> scan_eof f r)"
| "scan_eof f s = (dropWhile isspace s = [])"

definition http_date_fmt :: string where
  "http_date_fmt = ''%a, %d %b %Y %H:%M:%S GMT''"

definition file_reply_text ::
  "int \<Rightarrow> string \<Rightarrow> string \<Rightarrow> string \<Rightarrow> string \<Rightarrow> string \<Rightarrow> u64 \<Rightarrow> string \<Rightarrow> string" where
  "file_reply_text status msg date lm etag mime cl rtext =
     ''HTTP/1.1 '' @ dec_int status @ '' '' @ msg @ crlf @ ''Date: '' @ date @ crlf @
     ''Last-Modified: '' @ lm @ crlf @ ''Etag: '' @ [DQ] @ etag @ [DQ] @ crlf @
     ''Content-Type: '' @ mime @ crlf @ ''Content-Length: '' @ dec (unat cl) @ crlf @
     ''Connection: close'' @ crlf @ rtext @ crlf"

text \<open>The range: status, the text of the reply header, and the length of the content.\<close>

definition range_text :: "u64 \<Rightarrow> u64 \<Rightarrow> nat \<Rightarrow> string" where
  "range_text r1 cl sz =
     cstr (snd (my_snprintf 64
       (''Content-Range: bytes '' @ dec (unat r1) @ ''-'' @ dec (unat (r1 + cl - 1)) @ ''/'' @ dec sz @ crlf)))"

datatype range_req = No_range | Bad_range | Range_from u64 | Range_of u64 u64

definition scan_range :: "vec \<Rightarrow> range_req" where
  "scan_range v =
     (if vlen v \<le> 0 then No_range
      else case sscanf range_format (cstr (vptr v)) of
             [VULong r1, VULong r2] \<Rightarrow> Range_of r1 r2
           | [VULong r1] \<Rightarrow> Range_from r1
           | _ \<Rightarrow> if scan_eof range_format (cstr (vptr v)) then Bad_range else No_range)"

definition get_file :: "'w os \<Rightarrow> shttpd_ctx \<Rightarrow> stat \<Rightarrow> conn \<Rightarrow> 'w \<Rightarrow> (conn \<times> 'w) option" where
  "get_file S ctx st c w =
    (let uri = str_of (c_uri c);
         mime = (case mime_type c of None \<Rightarrow> get_mime_type ctx uri (int (length uri)) | Some m \<Rightarrow> m);
         sz = (of_nat (st_size st) :: u64);
         rr = scan_range (h_range (c_ch c));
         rng = (case rr of
             No_range \<Rightarrow> Some (200, sz, [], ''OK'', w)
           | Bad_range \<Rightarrow> None
           | Range_from r1 \<Rightarrow>
               Some (206, sz - r1, range_text r1 (sz - r1) (st_size st), ''Partial Content'',
                     os_seek S w (ch_fd (chan (c_loc c))) r1)
           | Range_of r1 r2 \<Rightarrow>
               Some (206, r2 - r1 + 1, range_text r1 (r2 - r1 + 1) (st_size st), ''Partial Content'',
                     os_seek S w (ch_fd (chan (c_loc c))) r1))
     in case rng of
          None \<Rightarrow> None
        | Some (status, cl, rtext, msg, w1) \<Rightarrow>
            let etag = cstr (snd (my_snprintf 64
                  (hexs (unat (word_of_int (st_mtime st) :: u64)) @ ''.'' @ hexs (st_size st))));
                l = put_reply (file_reply_text status msg (os_date S http_date_fmt (os_now S w))
                      (os_date S http_date_fmt (st_mtime st)) etag mime cl rtext) (c_loc c);
                l1 = flag_on (or FLAG_R FLAG_ALWAYS_READY) (l\<lparr>content_len := cl, io_cls := Some IO_FILE\<rparr>);
                c1 = c\<lparr>mime_type := Some mime, c_status := status, c_loc := l1\<rparr>
            in if c_method c = METHOD_HEAD then stop_stream S Loc c1 w1 else Some (c1, w1))"

section \<open>Directories\<close>

function put_dir_loop :: "'w os \<Rightarrow> string \<Rightarrow> string \<Rightarrow> 'w \<Rightarrow> (int \<times> 'w) option" where
  "put_dir_loop S path s w =
     (case strchr s CHR ''/'' of
        None \<Rightarrow> Some (1, w)
      | Some p \<Rightarrow>
          let dir = take (length path - length p) path
          in if FILENAME_MAX \<le> length dir then None
             else let (ok, w1) = (if os_stat S w dir = None then os_mkdir S w dir else (True, w))
                  in if \<not> ok then Some (-1, w1)
                     else if tl p = [] then Some (0, w1)
                     else put_dir_loop S path (tl p) w1)"
  by pat_completeness auto

lemma strchr_rest: "strchr s c = Some p \<Longrightarrow> p = dropWhile (\<lambda>x. x \<noteq> c) s \<and> p \<noteq> []"
  by (auto simp: strchr_def split: list.splits)

lemma strchr_length: "strchr s c = Some p \<Longrightarrow> p \<noteq> [] \<and> length p \<le> length s"
  using strchr_rest [of s c p] length_dropWhile_le [of "\<lambda>x. x \<noteq> c" s] by metis

termination put_dir_loop
proof (relation "measure (\<lambda>(S, path, s, w). length s)")
  fix S :: "'w os" and path s w p and x :: "bool \<times> 'w" and ok w1 dir
  assume "strchr s CHR ''/'' = Some p"
  then have "p \<noteq> []" "length p \<le> length s" using strchr_length by auto
  then show "((S, path, tl p, w1), S, path, s, w) \<in> measure (\<lambda>(S, path, s, w). length s)"
    by (cases p) auto
qed simp

declare put_dir_loop.simps [simp del]

definition put_dir :: "'w os \<Rightarrow> string \<Rightarrow> 'w \<Rightarrow> (int \<times> 'w) option" where
  "put_dir S path w = put_dir_loop S path (drop 2 path) w"

definition dir_line_max :: nat where "dir_line_max = 4608"

definition dir_size_text :: "'w os \<Rightarrow> stat \<Rightarrow> string" where
  "dir_size_text S st =
     (if st_dir st then ''&lt;DIR&gt;''
      else if st_size st < 1024 then dec (st_size st)
      else if st_size st < 1024 * 1024 then dec (st_size st div 1024 + 1) @ ''k''
      else os_size_m S (st_size st))"

definition dir_line :: "'w os \<Rightarrow> string \<Rightarrow> string \<Rightarrow> stat \<Rightarrow> string" where
  "dir_line S uri name st =
     ''<tr><td><a href='' @ [DQ] @ uri @ name @ [DQ] @ ''>'' @ name @ (if st_dir st then ''/'' else []) @
     ''</a></td><td>&nbsp;'' @ os_date S ''%d-%b-%Y %H:%M'' (st_mtime st) @
     ''</td><td>&nbsp;&nbsp;'' @ dir_size_text S st @ ''</td></tr>'' @ [LF]"

text \<open>The do-while loop over the entries. \<open>st\<close> is the variable of that name: a failed \<open>stat\<close> leaves
  the value of the entry before, and there is none for the first. The result is the text, the
  entries left, and whether the end was reached.\<close>

fun dir_loop ::
  "'w os \<Rightarrow> 'w \<Rightarrow> string \<Rightarrow> string \<Rightarrow> stat option \<Rightarrow> nat \<Rightarrow> string list \<Rightarrow> (string \<times> string list \<times> bool) option" where
  "dir_loop S w path uri st len [] = (if len < dir_line_max then Some ([], [], False) else Some ([], [], True))"
| "dir_loop S w path uri st len (d # ds) =
     (if len < dir_line_max then Some ([], d # ds, False)
      else if d = ''.'' \<or> d = HTPASSWD then dir_loop S w path uri st len ds
      else case (case os_stat S w (cstr (snd (my_snprintf FILENAME_MAX (path @ d)))) of
                   Some s1 \<Rightarrow> Some s1 | None \<Rightarrow> st) of
             None \<Rightarrow> None
           | Some s1 \<Rightarrow>
               let line = take (dir_line_max - 1) (dir_line S uri d s1)
               in map_option (\<lambda>(t, r, e). (line @ t, r, e))
                    (dir_loop S w path uri (Some s1) (len - length line) ds))"

definition read_dir :: "'w os \<Rightarrow> nat \<Rightarrow> conn \<Rightarrow> 'w \<Rightarrow> (int \<times> conn \<times> 'w) option" where
  "read_dir S len c w =
     (case (ch_dirp (chan (c_loc c)), c_uri c) of
        (Some ds, Some (u # us)) \<Rightarrow>
          (case dir_loop S w (str_of (ch_path (chan (c_loc c)))) (u # us) None len ds of
             None \<Rightarrow> None
           | Some (t, rest, e) \<Rightarrow>
               let l = (c_loc c)\<lparr>chan := (chan (c_loc c))\<lparr>ch_dirp := Some rest\<rparr>\<rparr>;
                   c1 = c\<lparr>c_loc := (if e then flag_on FLAG_CLOSED l else l)\<rparr>
               in map_option (\<lambda>c2. (int (length t), c2, w)) (store Loc t c1))
      | _ \<Rightarrow> None)"

definition dir_head_text :: "string \<Rightarrow> string" where
  "dir_head_text uri =
     ''HTTP/1.1 200 OK'' @ crlf @ ''Content-Type: text/html; charset=utf-8'' @ crlf @ crlf @
     ''<html><head><title>Index of '' @ uri @ ''</title>'' @
     ''<style>th {text-align: left;}</style></head><body><h1>Index of '' @ uri @
     ''</h1><pre><table cellpadding='' @ [DQ] @ ''0'' @ [DQ] @
     ''><tr><th>Name</th><th>Modified</th><th>Size</th></tr><tr><td colspan='' @ [DQ] @ ''3'' @ [DQ] @
     ''><hr></td></tr>''"

definition get_dir :: "'w os \<Rightarrow> shttpd_ctx \<Rightarrow> conn \<Rightarrow> 'w \<Rightarrow> (conn \<times> 'w) option" where
  "get_dir S ctx c w =
     (case os_opendir S w (str_of (ch_path (chan (c_loc c)))) of
        None \<Rightarrow> send_server_error S ctx 500 ''Cannot open directory'' c w
      | Some ds \<Rightarrow> do {
          let l0 = c_loc c;
          let l = put_reply (dir_head_text (str_of (c_uri c)))
                    (l0\<lparr>chan := (chan l0)\<lparr>ch_dirp := Some ds\<rparr>\<rparr>);
          ri \<leftarrow> io_clear (sio (c_rem c));
          Some (c\<lparr>c_loc := flag_on (or FLAG_R FLAG_ALWAYS_READY)
                    (l\<lparr>headers_len := headers_len l0, io_cls := Some IO_DIR\<rparr>),
                 c_rem := (c_rem c)\<lparr>sio := ri\<rparr>, c_status := 200\<rparr>, w)
        })"


section \<open>CGI programs\<close>

definition CGI_REPLY :: string where
  "CGI_REPLY = ''HTTP/1.1     OK'' @ crlf"

definition do_cgi :: "conn \<Rightarrow> conn option" where
  "do_cgi c =
     (let l = c_loc c; n = length CGI_REPLY
      in if io_size (sio l) \<le> n then None
         else Some (c\<lparr>c_loc := l\<lparr>sio := (sio l)\<lparr>io_buf := overwrite (io_buf (sio l)) 0 CGI_REPLY,
                      io_head := n, io_tail := n, io_total := of_nat n\<rparr>,
                    io_cls := Some IO_CGI,
                    sflags := (if c_method c = METHOD_POST then setf FLAG_R FLAG_W else FLAG_R)\<rparr>\<rparr>))"

definition write_cgi :: "'w os \<Rightarrow> char list \<Rightarrow> conn \<Rightarrow> 'w \<Rightarrow> (int \<times> conn \<times> 'w) option" where
  "write_cgi S d c w =
     (if flagged (c_loc c) FLAG_W then write_socket S Loc d c w else None)"

text \<open>Number conversion to \<open>size_t\<close>.\<close>

definition to_size :: "int \<Rightarrow> nat" where
  "to_size n = nat (n mod 2 ^ 64)"

text \<open>\<open>"%3d"\<close>, cut to the three bytes that are copied.\<close>

definition status3 :: "int \<Rightarrow> string" where
  "status3 n = (let d = dec_int n in take 3 (replicate (3 - length d) CHR '' '' @ d))"

text \<open>The headers of the program are complete: the status line is filled in.\<close>

definition cgi_headers_done :: "(string \<Rightarrow> int) \<Rightarrow> nat \<Rightarrow> conn \<Rightarrow> conn option" where
  "cgi_headers_done te hl c =
     (let l = c_loc c; i = sio l;
          parsed = parse_headers te (io_buf i) hl headers0;
          s0 = sint (ucast (h_status parsed) :: u32);
          s1 = (if 0 < vlen (h_location parsed) then 302 else s0);
          s2 = (if s1 = 0 then 200 else s1)
      in if io_total i < of_nat hl then None
         else Some (c\<lparr>c_status := s2,
                c_loc := flag_on FLAG_HEADERS_PARSED
                  (l\<lparr>content_len := h_cl parsed,
                     sio := i\<lparr>io_buf := overwrite (io_buf i) 9 (status3 s2),
                             io_total := io_total i - of_nat hl, io_tail := 0\<rparr>\<rparr>)\<rparr>))"

definition read_cgi :: "'w os \<Rightarrow> shttpd_ctx \<Rightarrow> nat \<Rightarrow> conn \<Rightarrow> 'w \<Rightarrow> (int \<times> conn \<times> 'w) option" where
  "read_cgi S ctx len c w =
     (if \<not> flagged (c_loc c) FLAG_R then None
      else let c0 = c\<lparr>c_loc := flag_off FLAG_DONT_CLOSE (c_loc c)\<rparr>
      in case read_socket S Loc len c0 w of
           None \<Rightarrow> None
         | Some (n, c1, w1) \<Rightarrow>
             if flagged (c_loc c1) FLAG_HEADERS_PARSED then Some (n, c1, w1)
             else if n \<le> 0 \<and> os_errno S w1 \<noteq> EWOULDBLOCK
             then map_option (\<lambda>(c2, w2). (n, c2, w2)) (send_server_error S ctx 500 ''Error running CGI'' c1 w1)
             else do {
               let l = flag_on FLAG_DONT_CLOSE (c_loc c1);
               i \<leftarrow> io_inc_head (sio l) (to_size n);
               let hl = get_headers_len (take (io_head i) (io_buf i));
               let c2 = c1\<lparr>c_loc := l\<lparr>sio := i, headers_len := hl\<rparr>\<rparr>;
               if hl < 0 then
                 map_option (\<lambda>(c3, w3). (0, c3, w3))
                   (send_server_error S ctx 500 ''Bad headers sent''
                      (c2\<lparr>c_loc := flag_off FLAG_DONT_CLOSE (c_loc c2)\<rparr>) w1)
               else if hl = 0 then
                 Some (0, c2\<lparr>c_loc := (c_loc c2)\<lparr>sio := i\<lparr>io_tail := io_head i\<rparr>\<rparr>\<rparr>, w1)
               else map_option (\<lambda>c3. (0, c3, w1)) (cgi_headers_done (os_mktime S) (nat hl) c2)
             })"

section \<open>SSL sockets\<close>

text \<open>The second component of \<open>os_ssl_accept\<close> says whether the library wants to be called again.\<close>

definition ssl_handshake :: "'w os \<Rightarrow> side \<Rightarrow> conn \<Rightarrow> 'w \<Rightarrow> conn \<times> 'w" where
  "ssl_handshake S sd c w =
     (let (n, wants, w1) = os_ssl_accept S w (ch_fd (chan (strm sd c)))
      in if n = 0
         then ((if wants then c else upd_strm sd (flag_on FLAG_CLOSED) c), w1)
         else (upd_strm sd (flag_on FLAG_SSL_ACCEPTED) c, w1))"

definition read_ssl :: "'w os \<Rightarrow> side \<Rightarrow> nat \<Rightarrow> conn \<Rightarrow> 'w \<Rightarrow> (int \<times> conn \<times> 'w) option" where
  "read_ssl S sd len c w =
     (let (c1, w1) = (if flagged (strm sd c) FLAG_SSL_ACCEPTED then (c, w) else ssl_handshake S sd c w)
      in if flagged (strm sd c1) FLAG_SSL_ACCEPTED
         then let (r, w2) = os_ssl_read S w1 (ch_fd (chan (strm sd c1))) len
              in map_option (\<lambda>c2. (rd_len r, c2, w2)) (store sd (rd_bytes r) c1)
         else Some (0, c1, w1))"

definition write_ssl :: "'w os \<Rightarrow> side \<Rightarrow> char list \<Rightarrow> conn \<Rightarrow> 'w \<Rightarrow> (int \<times> conn \<times> 'w) option" where
  "write_ssl S sd d c w =
     (let (r, w1) = os_ssl_write S w (ch_fd (chan (strm sd c))) d in Some (wr_len r, c, w1))"

end
