(* ===== verification/CgiEnv.thy ===== *)
theory CgiEnv
  imports Files "HOL-Library.Sublist"
begin

text \<open>
  \<open>cgi.c\<close> of shttpd: the environment block of a CGI program (\<open>addenv\<close>,
  \<open>add_http_headers_to_env\<close>, \<open>prepare_environment\<close>) and \<open>run_cgi\<close>. The block is an array of
  4096 bytes filled up to \<open>len\<close>, with an array of 64 pointers (offsets) into it. Creating the
  socket pair and the process is one call of the environment.
\<close>

section \<open>The block\<close>

record env_block =
  eb_buf :: "char list"
  eb_len :: int
  eb_vars :: "nat list"

text \<open>\<open>out\<close> is the full formatted text. The text is stored in any case, the variable only counts
  when it fits whole and a slot is left.\<close>

definition addenv :: "string \<Rightarrow> env_block \<Rightarrow> env_block option" where
  "addenv out b =
     (let space = int ENV_MAX - eb_len b - 2
      in if space < 0 then None
         else let n = int (length out); k = nat (eb_len b);
                  stored = (if space = 0 then [] else take (nat space - 1) out @ [NUL]);
                  b1 = b\<lparr>eb_buf := overwrite (eb_buf b) k stored\<rparr>
              in Some (if 0 < n \<and> n < space \<and> length (eb_vars b) < CGI_ENV_VARS - 2
                       then b1\<lparr>eb_vars := eb_vars b @ [k], eb_len := eb_len b + n + 1\<rparr> else b1))"

definition env_name :: "string \<Rightarrow> string" where
  "env_name s = map (\<lambda>c. toupper (if c = CHR ''-'' then CHR ''_'' else c)) s"

text \<open>One header line of length \<open>p\<close> at \<open>m\<close>: the variable it becomes, or nothing.\<close>

definition env_entry :: "char list \<Rightarrow> nat \<Rightarrow> string option" where
  "env_entry m p =
     (let line = take p m; v = length (takeWhile (\<lambda>c. c \<noteq> CHR '':'') line)
      in if v < p \<and> 0 < v \<and> v + 2 < p
         then let val = drop (v + 2) line
              in Some (''HTTP_'' @ env_name (take v line) @ ''='' @
                   (if chat m (p - 1) = CR then butlast val else val))
         else None)"

function add_http_headers_to_env :: "char list \<Rightarrow> int \<Rightarrow> env_block \<Rightarrow> env_block option" where
  "add_http_headers_to_env m len b =
     (if len \<le> 0 then Some b
      else let p = length (takeWhile (\<lambda>c. c \<noteq> LF) (take (nat len) m));
               space = int ENV_MAX - eb_len b - 7
           in if space < 0 then None
              else let b1 = (case (if int p < space then env_entry m p else None) of
                       None \<Rightarrow> b
                     | Some e \<Rightarrow>
                         b\<lparr>eb_buf := overwrite (eb_buf b) (nat (eb_len b)) (e @ [NUL]),
                           eb_len := eb_len b + int (length e) + 1,
                           eb_vars := (if length (eb_vars b) < CGI_ENV_VARS - 1
                                       then eb_vars b @ [nat (eb_len b)] else eb_vars b)\<rparr>)
                   in add_http_headers_to_env (drop (p + 1) m) (len - (int p + 1)) b1)"
  by pat_completeness auto
termination
  by (relation "measure (\<lambda>(m, len, b). nat len)") (auto simp: Let_def)

declare add_http_headers_to_env.simps [simp del]

section \<open>The variables\<close>

definition opt_env :: "string \<Rightarrow> string option \<Rightarrow> string list" where
  "opt_env name v = (case v of None \<Rightarrow> [] | Some s \<Rightarrow> [name @ s])"

text \<open>The arguments of the \<open>addenv\<close> calls in their order. \<open>prog + strlen(document_root)\<close> may be
  behind the end of \<open>prog\<close>, which is \<open>None\<close>.\<close>

definition env_texts :: "'w os \<Rightarrow> shttpd_ctx \<Rightarrow> conn \<Rightarrow> string \<Rightarrow> string list option" where
  "env_texts S ctx c prog =
    (let h = c_ch c; root = str_of (document_root ctx)
     in if length prog < length root then None
        else Some (
     [''GATEWAY_INTERFACE=CGI/1.1'', ''SERVER_PROTOCOL=HTTP/1.1'', ''REDIRECT_STATUS=200'',
      ''SERVER_PORT='' @ dec_int (loc_port c), ''SERVER_NAME='' @ str_of (auth_realm ctx),
      ''SERVER_ROOT='' @ root, ''DOCUMENT_ROOT='' @ root,
      ''REQUEST_METHOD='' @ method_name (c_method c), ''REMOTE_ADDR='' @ c_addr c,
      ''REMOTE_PORT='' @ dec (c_port c mod 2 ^ 16), ''REQUEST_URI='' @ str_of (c_uri c),
      ''SCRIPT_NAME='' @ drop (length root) prog, ''SCRIPT_FILENAME='' @ prog,
      ''PATH_TRANSLATED='' @ prog] @
     (if 0 < vlen (h_ct h) then [''CONTENT_TYPE='' @ vbytes (h_ct h)] else []) @
     opt_env ''QUERY_STRING='' (c_query c) @ opt_env ''PATH_INFO=/'' (path_info c) @
     (if 0 < h_cl h then [''CONTENT_LENGTH='' @ dec (unat (h_cl h))] else []) @
     opt_env ''PATH='' (os_getenv S ''PATH'') @
     opt_env ''LD_LIBRARY_PATH='' (os_getenv S ''LD_LIBRARY_PATH'') @
     opt_env ''PERLLIB='' (os_getenv S ''PERLLIB'') @
     (if 0 < vlen (h_user h) then [''REMOTE_USER='' @ vbytes (h_user h), ''AUTH_TYPE=Digest''] else []) @
     map word_of (FOR_EACH_WORD (cgi_vars ctx))))"

fun add_all :: "string list \<Rightarrow> env_block \<Rightarrow> env_block option" where
  "add_all [] b = Some b"
| "add_all (t # ts) b = (case addenv t b of None \<Rightarrow> None | Some b1 \<Rightarrow> add_all ts b1)"

text \<open>The request memory behind \<open>c_headers\<close> holds the headers. The terminating null pointer takes a
  slot; its place in \<open>vars\<close> is the end of the list here. The three assertions end the function.\<close>

definition prepare_environment :: "'w os \<Rightarrow> shttpd_ctx \<Rightarrow> conn \<Rightarrow> string \<Rightarrow> char list \<Rightarrow> env_block option" where
  "prepare_environment S ctx c prog stack =
    (case (c_request c, env_texts S ctx c prog) of
       (Some req, Some ts) \<Rightarrow>
         (case add_all ts \<lparr>eb_buf = stack, eb_len = 0, eb_vars = []\<rparr> of
            None \<Rightarrow> None
          | Some b1 \<Rightarrow>
              (case add_http_headers_to_env (drop (c_headers c) req)
                      (headers_len (c_rem c) - int (c_headers c)) b1 of
                 None \<Rightarrow> None
               | Some b2 \<Rightarrow>
                   if CGI_ENV_VARS \<le> length (eb_vars b2) + 1 \<or> int ENV_MAX \<le> eb_len b2 + 1 then None
                   else Some (b2\<lparr>eb_buf := (eb_buf b2)[nat (eb_len b2) := NUL], eb_len := eb_len b2 + 1\<rparr>)))
     | _ \<Rightarrow> None)"

text \<open>The strings the program finds in its environment.\<close>

definition env_strings :: "env_block \<Rightarrow> string list" where
  "env_strings b = map (\<lambda>k. cstr (drop k (eb_buf b))) (eb_vars b)"

text \<open>The directory of the program: the path up to its last separator, or the whole path.\<close>

definition prog_dir :: "string \<Rightarrow> string" where
  "prog_dir prog =
     (let d = take (FILENAME_MAX - 1) prog;
          e = length (dropWhile (\<lambda>c. c \<noteq> CHR ''/'') (rev (tl d)))
      in if e = 0 then d else take e d)"

definition run_cgi :: "'w os \<Rightarrow> shttpd_ctx \<Rightarrow> char list \<Rightarrow> string \<Rightarrow> conn \<Rightarrow> 'w \<Rightarrow> (int \<times> conn \<times> 'w) option" where
  "run_cgi S ctx stack prog c w =
     (case prepare_environment S ctx c prog stack of
        None \<Rightarrow> None
      | Some b \<Rightarrow>
          let (sock, w1) = os_spawn S w prog (env_strings b) (prog_dir prog)
          in Some (if sock = -1 then (-1, c, w1)
                   else (0, c\<lparr>c_loc := (c_loc c)\<lparr>chan := (chan (c_loc c))\<lparr>ch_fd := sock\<rparr>\<rparr>\<rparr>, w1)))"

section \<open>What the block holds\<close>

text \<open>The variables are stored one after the other, in order, inside the array.\<close>

definition eb_ok :: "env_block \<Rightarrow> string list \<Rightarrow> bool" where
  "eb_ok b ts \<longleftrightarrow> length (eb_buf b) = ENV_MAX \<and> 0 \<le> eb_len b \<and> eb_len b \<le> int ENV_MAX \<and>
     take (nat (eb_len b)) (eb_buf b) = concat (map (\<lambda>t. t @ [NUL]) ts) \<and>
     eb_vars b = map (\<lambda>i. length (concat (map (\<lambda>t. t @ [NUL]) (take i ts)))) [0..<length ts]"

lemma eb_ok_empty: "length stack = ENV_MAX \<Longrightarrow> eb_ok \<lparr>eb_buf = stack, eb_len = 0, eb_vars = []\<rparr> []"
  by (simp add: eb_ok_def)

lemma eb_ok_len: "eb_ok b ts \<Longrightarrow> nat (eb_len b) = length (concat (map (\<lambda>t. t @ [NUL]) ts))"
  by (metis eb_ok_def length_take min.absorb2 nat_int nat_le_iff)

lemma eb_ok_append:
  assumes "eb_ok b ts" "eb_len b + int (length t) + 1 \<le> int ENV_MAX"
    and "length buf = ENV_MAX" "take (nat (eb_len b) + (length t + 1)) buf = take (nat (eb_len b)) (eb_buf b) @ t @ [NUL]"
  shows "eb_ok \<lparr>eb_buf = buf, eb_len = eb_len b + int (length t) + 1, eb_vars = eb_vars b @ [nat (eb_len b)]\<rparr> (ts @ [t])"
proof -
  have l: "nat (eb_len b) = length (concat (map (\<lambda>t. t @ [NUL]) ts))" by (rule eb_ok_len [OF assms(1)])
  have z: "0 \<le> eb_len b" using assms(1) by (simp add: eb_ok_def)
  have "nat (eb_len b + int (length t) + 1) = nat (eb_len b) + (length t + 1)" using z by simp
  then show ?thesis using assms l z by (simp add: eb_ok_def)
qed

lemma eb_ok_update [simp]:
  "eb_ok (b\<lparr>eb_buf := x, eb_vars := vs, eb_len := n\<rparr>) ts = eb_ok \<lparr>eb_buf = x, eb_len = n, eb_vars = vs\<rparr> ts"
  "eb_ok (b\<lparr>eb_buf := x, eb_len := n, eb_vars := vs\<rparr>) ts = eb_ok \<lparr>eb_buf = x, eb_len = n, eb_vars = vs\<rparr> ts"
  by (simp_all add: eb_ok_def)

lemma eb_ok_same:
  assumes "eb_ok b ts" "length buf = ENV_MAX" "take (nat (eb_len b)) buf = take (nat (eb_len b)) (eb_buf b)"
  shows "eb_ok (b\<lparr>eb_buf := buf\<rparr>) ts"
  using assms by (simp add: eb_ok_def)

text \<open>The bytes that strings take, each with its end.\<close>

definition env_size :: "string list \<Rightarrow> nat" where
  "env_size ts = length (concat (map (\<lambda>t. t @ [NUL]) ts))"

lemma env_size_append [simp]: "env_size (ts @ us) = env_size ts + env_size us"
  by (simp add: env_size_def)

lemma env_size_simps [simp]: "env_size [] = 0" "env_size (t # ts) = length t + 1 + env_size ts"
  by (simp_all add: env_size_def)

lemma eb_ok_size: "eb_ok b ts \<Longrightarrow> eb_len b = int (env_size ts)"
proof -
  assume ok: "eb_ok b ts"
  then have "0 \<le> eb_len b" by (simp add: eb_ok_def)
  then show ?thesis using eb_ok_len [OF ok] by (simp add: env_size_def)
qed

lemma eb_ok_nvars: "eb_ok b ts \<Longrightarrow> length (eb_vars b) = length ts"
  by (simp add: eb_ok_def)

section \<open>What is stored, on lists of strings\<close>

text \<open>The variables of the server: one that does not fit is left out.\<close>

definition fits_var :: "string list \<Rightarrow> string \<Rightarrow> bool" where
  "fits_var acc t \<longleftrightarrow> t \<noteq> [] \<and> env_size acc + length t + 2 < ENV_MAX \<and> length acc < CGI_ENV_VARS - 2"

fun fill_vars :: "string list \<Rightarrow> string list \<Rightarrow> string list" where
  "fill_vars acc [] = acc"
| "fill_vars acc (t # ts) = fill_vars (if fits_var acc t then acc @ [t] else acc) ts"

text \<open>The lines of the headers, with their length and the variable they stand for, if any: fewer than seven free
  bytes at any line end the program, and one that does not fit is left out.\<close>

fun fill_headers :: "string list \<Rightarrow> (nat \<times> string option) list \<Rightarrow> string list option" where
  "fill_headers acc [] = Some acc"
| "fill_headers acc ((p, e) # ls) =
     (if ENV_MAX < env_size acc + 7 then None
      else fill_headers
        (case e of None \<Rightarrow> acc | Some t \<Rightarrow> if env_size acc + p + 7 < ENV_MAX then acc @ [t] else acc) ls)"

definition env_spec :: "string list \<Rightarrow> (nat \<times> string option) list \<Rightarrow> string list option" where
  "env_spec ts ls =
     (case fill_headers (fill_vars [] ts) ls of
        None \<Rightarrow> None
      | Some acc \<Rightarrow> if length acc < CGI_ENV_VARS - 1 then Some acc else None)"

lemma addenv_exact:
  fixes t :: string
  assumes ok: "eb_ok b acc" and room: "env_size acc + 2 \<le> ENV_MAX"
  defines "acc' \<equiv> (if fits_var acc t then acc @ [t] else acc)"
  shows "\<exists>b'. addenv t b = Some b' \<and> eb_ok b' acc' \<and> env_size acc' + 2 \<le> ENV_MAX"
proof -
  define space where "space = int ENV_MAX - eb_len b - 2"
  define k where "k = nat (eb_len b)"
  define stored where "stored = (if space = 0 then [] else take (nat space - 1) t @ [NUL])"
  have len: "length (eb_buf b) = ENV_MAX" "0 \<le> eb_len b" "int k = eb_len b" "k = env_size acc"
    "length (eb_vars b) = length acc"
    using ok eb_ok_size [OF ok] by (auto simp: eb_ok_def k_def)
  have sp: "0 \<le> space" using room len by (simp add: space_def)
  have kl: "k + length stored \<le> ENV_MAX" using sp len by (auto simp: stored_def space_def)
  let ?b1 = "b\<lparr>eb_buf := overwrite (eb_buf b) k stored\<rparr>"
  have fit: "0 < int (length t) \<and> int (length t) < space \<and> length (eb_vars b) < CGI_ENV_VARS - 2 \<longleftrightarrow> fits_var acc t"
    using len by (auto simp: fits_var_def space_def)
  have b': "addenv t b = Some (if fits_var acc t then ?b1\<lparr>eb_vars := eb_vars b @ [k], eb_len := eb_len b + int (length t) + 1\<rparr> else ?b1)"
    unfolding addenv_def Let_def space_def [symmetric] k_def [symmetric] stored_def [symmetric] fit using sp by simp
  show ?thesis
  proof (cases "fits_var acc t")
    case True
    then have t: "int (length t) < space" "t \<noteq> []" using fit by auto
    then have st: "stored = t @ [NUL]" by (auto simp: stored_def)
    have "eb_ok \<lparr>eb_buf = overwrite (eb_buf b) k stored, eb_len = eb_len b + int (length t) + 1,
        eb_vars = eb_vars b @ [nat (eb_len b)]\<rparr> (acc @ [t])"
    proof (rule eb_ok_append [OF ok])
      show "eb_len b + int (length t) + 1 \<le> int ENV_MAX" using t by (simp add: space_def)
      show "length (overwrite (eb_buf b) k stored) = ENV_MAX" using kl len by simp
      show "take (nat (eb_len b) + (length t + 1)) (overwrite (eb_buf b) k stored) = take (nat (eb_len b)) (eb_buf b) @ t @ [NUL]"
        using take_overwrite_all [of k "eb_buf b" stored] kl len st by (simp add: k_def)
    qed
    then show ?thesis using True b' by (simp add: acc'_def k_def fits_var_def)
  next
    case False
    have "eb_ok ?b1 acc"
      by (rule eb_ok_same [OF ok]) (use kl len in \<open>auto simp: take_overwrite k_def\<close>)
    then show ?thesis using False b' room by (simp add: acc'_def)
  qed
qed

lemma add_all_exact:
  assumes "eb_ok b acc" "env_size acc + 2 \<le> ENV_MAX"
  shows "\<exists>b'. add_all ts b = Some b' \<and> eb_ok b' (fill_vars acc ts) \<and> env_size (fill_vars acc ts) + 2 \<le> ENV_MAX"
  using assms
proof (induction ts arbitrary: b acc)
  case (Cons t ts)
  from addenv_exact [OF Cons.prems, of t] show ?case using Cons.IH by fastforce
qed simp

lemma env_entry_length: "env_entry m p = Some e \<Longrightarrow> length e \<le> p + 4"
  by (auto simp: env_entry_def Let_def env_name_def split: if_splits)

text \<open>The variables that the header lines stand for.\<close>

function header_entries :: "char list \<Rightarrow> nat \<Rightarrow> string list" where
  "header_entries m len =
     (if len = 0 then []
      else let p = length (takeWhile (\<lambda>c. c \<noteq> LF) (take len m))
           in (case env_entry m p of None \<Rightarrow> [] | Some e \<Rightarrow> [e]) @ header_entries (drop (p + 1) m) (len - (p + 1)))"
  by pat_completeness auto
termination
  by (relation "measure snd") auto

declare header_entries.simps [simp del]

text \<open>The lines, each with its length.\<close>

function header_lines :: "char list \<Rightarrow> nat \<Rightarrow> (nat \<times> string option) list" where
  "header_lines m len =
     (if len = 0 then []
      else let p = length (takeWhile (\<lambda>c. c \<noteq> LF) (take len m))
           in (p, env_entry m p) # header_lines (drop (p + 1) m) (len - (p + 1)))"
  by pat_completeness auto
termination
  by (relation "measure snd") auto

declare header_lines.simps [simp del]

definition line_vars :: "(nat \<times> string option) list \<Rightarrow> string list" where
  "line_vars ls = concat (map (\<lambda>(p, e). case e of None \<Rightarrow> [] | Some t \<Rightarrow> [t]) ls)"

lemma line_vars_lines: "line_vars (header_lines m len) = header_entries m len"
proof (induction m len rule: header_lines.induct)
  case (1 m len)
  then show ?case
    by (cases "len = 0"; subst header_lines.simps; subst header_entries.simps)
      (auto simp: line_vars_def Let_def split: option.splits)
qed

lemma fill_headers_grow: "fill_headers acc ls = Some acc' \<Longrightarrow> length acc \<le> length acc'"
  by (induction acc ls rule: fill_headers.induct) (fastforce split: if_splits option.splits)+

lemma add_headers_grow:
  "add_http_headers_to_env m len b = Some b' \<Longrightarrow> length (eb_vars b) \<le> length (eb_vars b')"
proof (induction m len b rule: add_http_headers_to_env.induct)
  case (1 m len b)
  then show ?case
    by (subst (asm) (2) add_http_headers_to_env.simps)
      (fastforce simp: Let_def split: if_splits option.splits)
qed

text \<open>One line.\<close>

definition add_line :: "nat \<Rightarrow> string option \<Rightarrow> env_block \<Rightarrow> env_block" where
  "add_line p e b =
     (case (if int p < int ENV_MAX - eb_len b - 7 then e else None) of
        None \<Rightarrow> b
      | Some t \<Rightarrow>
          b\<lparr>eb_buf := overwrite (eb_buf b) (nat (eb_len b)) (t @ [NUL]), eb_len := eb_len b + int (length t) + 1,
            eb_vars := (if length (eb_vars b) < CGI_ENV_VARS - 1 then eb_vars b @ [nat (eb_len b)] else eb_vars b)\<rparr>)"

lemma add_headers_step:
  fixes m :: "char list"
  assumes "0 < len"
  defines "p \<equiv> length (takeWhile (\<lambda>c. c \<noteq> LF) (take (nat len) m))"
  shows "add_http_headers_to_env m len b =
      (if int ENV_MAX < eb_len b + 7 then None
       else add_http_headers_to_env (drop (p + 1) m) (len - (int p + 1)) (add_line p (env_entry m p) b))"
    "header_lines m (nat len) = (p, env_entry m p) # header_lines (drop (p + 1) m) (nat (len - (int p + 1)))"
proof -
  show "add_http_headers_to_env m len b =
      (if int ENV_MAX < eb_len b + 7 then None
       else add_http_headers_to_env (drop (p + 1) m) (len - (int p + 1)) (add_line p (env_entry m p) b))"
    using assms(1) by (subst add_http_headers_to_env.simps) (simp add: Let_def p_def [symmetric] add_line_def [symmetric])
  have n: "nat (len - (int p + 1)) = nat len - (p + 1)" by linarith
  show "header_lines m (nat len) = (p, env_entry m p) # header_lines (drop (p + 1) m) (nat (len - (int p + 1)))"
    unfolding n using assms(1) by (subst header_lines.simps) (simp add: Let_def p_def)
qed

lemma add_line_exact:
  fixes m :: "char list" and p :: nat and e :: "string option"
  assumes ok: "eb_ok b acc" and v: "length acc < CGI_ENV_VARS - 1" and e: "e = env_entry m p"
    and room: "env_size acc + 7 \<le> ENV_MAX"
  defines "acc' \<equiv> (case e of None \<Rightarrow> acc | Some t \<Rightarrow> if env_size acc + p + 7 < ENV_MAX then acc @ [t] else acc)"
  shows "eb_ok (add_line p e b) acc' \<and> env_size acc' + 2 \<le> ENV_MAX"
proof (cases "e \<noteq> None \<and> env_size acc + p + 7 < ENV_MAX")
  case False
  then have "acc' = acc" "add_line p e b = b"
    using eb_ok_size [OF ok] by (auto simp: acc'_def add_line_def split: option.splits)
  then show ?thesis using ok room by simp
next
  case True
  then obtain t where t: "e = Some t" by blast
  have el: "length t \<le> p + 4" using env_entry_length [of m p t] t e by simp
  have len: "length (eb_buf b) = ENV_MAX" "eb_len b = int (env_size acc)" "length (eb_vars b) = length acc"
    using ok eb_ok_size [OF ok] by (auto simp: eb_ok_def)
  have kl: "nat (eb_len b) + length (t @ [NUL]) \<le> length (eb_buf b)" using True el len by simp
  have "eb_ok \<lparr>eb_buf = overwrite (eb_buf b) (nat (eb_len b)) (t @ [NUL]), eb_len = eb_len b + int (length t) + 1,
      eb_vars = eb_vars b @ [nat (eb_len b)]\<rparr> (acc @ [t])"
  proof (rule eb_ok_append [OF ok])
    show "eb_len b + int (length t) + 1 \<le> int ENV_MAX" using kl len by simp
    show "length (overwrite (eb_buf b) (nat (eb_len b)) (t @ [NUL])) = ENV_MAX" using kl len by simp
    show "take (nat (eb_len b) + (length t + 1)) (overwrite (eb_buf b) (nat (eb_len b)) (t @ [NUL])) =
        take (nat (eb_len b)) (eb_buf b) @ t @ [NUL]"
      using take_overwrite_all [of "nat (eb_len b)" "eb_buf b" "t @ [NUL]"] kl by simp
  qed
  then show ?thesis using True t v len el by (auto simp: acc'_def add_line_def)
qed

lemma add_headers_exact:
  "eb_ok b acc \<Longrightarrow> env_size acc + 2 \<le> ENV_MAX \<Longrightarrow>
   (case fill_headers acc (header_lines m (nat len)) of
      Some acc' \<Rightarrow> if length acc' < CGI_ENV_VARS - 1
        then \<exists>b'. add_http_headers_to_env m len b = Some b' \<and> eb_ok b' acc' \<and> env_size acc' + 2 \<le> ENV_MAX
        else \<forall>b'. add_http_headers_to_env m len b = Some b' \<longrightarrow> CGI_ENV_VARS - 1 \<le> length (eb_vars b')
    | None \<Rightarrow> \<forall>b'. add_http_headers_to_env m len b = Some b' \<longrightarrow> CGI_ENV_VARS - 1 \<le> length (eb_vars b'))"
proof (induction m len b arbitrary: acc rule: add_http_headers_to_env.induct)
  case (1 m len b)
  show ?case
  proof (cases "0 < len")
    case False
    then have "header_lines m (nat len) = []" by (subst header_lines.simps) simp
    moreover have "add_http_headers_to_env m len b = Some b"
      using False by (subst add_http_headers_to_env.simps) simp
    ultimately show ?thesis using 1(2,3) eb_ok_nvars [OF 1(2)] by auto
  next
    case True
    define p where "p = length (takeWhile (\<lambda>c. c \<noteq> LF) (take (nat len) m))"
    define e where "e = env_entry m p"
    note step = add_headers_step [OF True, of m, folded p_def, folded e_def]
    have size: "eb_len b = int (env_size acc)" "length (eb_vars b) = length acc"
      using eb_ok_size [OF 1(2)] eb_ok_nvars [OF 1(2)] by simp_all
    show ?thesis
    proof (cases "CGI_ENV_VARS - 1 \<le> length acc")
      case full: True
      then have "\<forall>b'. add_http_headers_to_env m len b = Some b' \<longrightarrow> CGI_ENV_VARS - 1 \<le> length (eb_vars b')"
        using add_headers_grow [of m len b] size(2) by fastforce
      then show ?thesis using full fill_headers_grow [of acc "header_lines m (nat len)"]
        by (fastforce split: option.splits)
    next
      case slot: False
      show ?thesis
      proof (cases "ENV_MAX < env_size acc + 7")
        case abort: True
        then show ?thesis by (simp add: step size)
      next
        case room: False
        define acc' where "acc' = (case e of None \<Rightarrow> acc | Some t \<Rightarrow> if env_size acc + p + 7 < ENV_MAX then acc @ [t] else acc)"
        have "env_size acc + 7 \<le> ENV_MAX" "length acc < CGI_ENV_VARS - 1" using room slot by auto
        then have ok: "eb_ok (add_line p e b) acc'" "env_size acc' + 2 \<le> ENV_MAX"
          using add_line_exact [OF 1(2) _ e_def] by (simp_all add: acc'_def)
        have al: "add_line p e b = (case (if int p < int ENV_MAX - eb_len b - 7 then env_entry m p else None) of
            None \<Rightarrow> b
          | Some t \<Rightarrow> b\<lparr>eb_buf := overwrite (eb_buf b) (nat (eb_len b)) (t @ [NUL]), eb_len := eb_len b + int (length t) + 1,
              eb_vars := (if length (eb_vars b) < CGI_ENV_VARS - 1 then eb_vars b @ [nat (eb_len b)] else eb_vars b)\<rparr>)"
          by (simp add: add_line_def e_def)
        have "\<not> len \<le> 0" "\<not> int ENV_MAX - eb_len b - 7 < 0" using True room size by auto
        from 1(1) [OF this(1) p_def refl this(2) al ok]
        have ih: "case fill_headers acc' (header_lines (drop (p + 1) m) (nat (len - (int p + 1)))) of
            Some acc' \<Rightarrow> if length acc' < CGI_ENV_VARS - 1
              then \<exists>b'. add_http_headers_to_env (drop (p + 1) m) (len - (int p + 1)) (add_line p e b) = Some b' \<and>
                eb_ok b' acc' \<and> env_size acc' + 2 \<le> ENV_MAX
              else \<forall>b'. add_http_headers_to_env (drop (p + 1) m) (len - (int p + 1)) (add_line p e b) = Some b' \<longrightarrow>
                CGI_ENV_VARS - 1 \<le> length (eb_vars b')
          | None \<Rightarrow> \<forall>b'. add_http_headers_to_env (drop (p + 1) m) (len - (int p + 1)) (add_line p e b) = Some b' \<longrightarrow>
              CGI_ENV_VARS - 1 \<le> length (eb_vars b')" .
        have "fill_headers acc (header_lines m (nat len)) = fill_headers acc' (header_lines (drop (p + 1) m) (nat (len - (int p + 1))))"
          using room by (simp add: step(2) acc'_def)
        moreover have "add_http_headers_to_env m len b = add_http_headers_to_env (drop (p + 1) m) (len - (int p + 1)) (add_line p e b)"
          using room size(1) by (simp add: step(1))
        ultimately show ?thesis using ih by presburger
      qed
    qed
  qed
qed

text \<open>The program finds exactly these strings.\<close>

lemma env_strings_ok:
  assumes "eb_ok b ts" "\<forall>t \<in> set ts. NUL \<notin> set t"
  shows "env_strings b = ts"
proof (rule nth_equalityI)
  show l: "length (env_strings b) = length ts" using assms by (simp add: env_strings_def eb_ok_def)
  fix i assume "i < length (env_strings b)"
  then have i: "i < length ts" using l by simp
  let ?f = "\<lambda>ts. concat (map (\<lambda>t. t @ [NUL]) ts)"
  have "?f ts = ?f (take i ts) @ (ts ! i @ NUL # ?f (drop (Suc i) ts))"
    using arg_cong [OF id_take_nth_drop [OF i], of ?f] by simp
  moreover have "take (length (?f ts)) (eb_buf b) = ?f ts"
    using assms(1) eb_ok_len [OF assms(1)] by (simp add: eb_ok_def)
  ultimately have "eb_buf b = ?f (take i ts) @ (ts ! i @ NUL # (?f (drop (Suc i) ts) @ drop (length (?f ts)) (eb_buf b)))"
    using append_take_drop_id [of "length (?f ts)" "eb_buf b"] by (metis append.assoc append_Cons)
  then have "drop (length (?f (take i ts))) (eb_buf b) = ts ! i @ NUL # (?f (drop (Suc i) ts) @ drop (length (?f ts)) (eb_buf b))"
    by (metis append_eq_conv_conj)
  moreover have "eb_vars b ! i = length (?f (take i ts))" using assms(1) i by (simp add: eb_ok_def)
  moreover have "NUL \<notin> set (ts ! i)" using assms(2) i by simp
  ultimately show "env_strings b ! i = ts ! i" using i assms(1) by (simp add: env_strings_def eb_ok_def)
qed

text \<open>The assertion of the header loop fails once fewer than seven bytes are left, and a variable
  can leave that few.\<close>

lemma add_headers_abort:
  "int ENV_MAX < eb_len b + 7 \<Longrightarrow> 0 < len \<Longrightarrow> add_http_headers_to_env m len b = None"
  by (subst add_http_headers_to_env.simps) (simp add: Let_def)

section \<open>Properties\<close>

lemma NUL_toupper: "NUL = toupper c \<longleftrightarrow> c = NUL"
proof -
  have "toupper c \<noteq> NUL" if "islower c"
  proof -
    have "code (toupper c) = (code c - 32) mod 256" using that by (simp add: toupper_def)
    moreover have "97 \<le> code c" "code c \<le> 122" using that by (simp_all add: islower_def)
    ultimately have "code (toupper c) = code c - 32" "0 < code c - 32" by simp_all
    then have "0 < code (toupper c)" by simp
    then show ?thesis by auto
  qed
  then show ?thesis by (cases "islower c") (auto simp: toupper_def islower_def)
qed

lemma env_name_NUL: "NUL \<notin> set s \<Longrightarrow> NUL \<notin> set (env_name s)"
proof
  assume n: "NUL \<notin> set s" and "NUL \<in> set (env_name s)"
  then obtain c where c: "c \<in> set s" "NUL = toupper (if c = CHR ''-'' then CHR ''_'' else c)"
    unfolding env_name_def by (auto simp only: set_map)
  then show False using n by (auto simp only: NUL_toupper split: if_splits)
qed

lemma env_entry_NUL:
  assumes "NUL \<notin> set (take p m)" "env_entry m p = Some e"
  shows "NUL \<notin> set e"
proof -
  define line where "line = take p m"
  define v where "v = length (takeWhile (\<lambda>c. c \<noteq> CHR '':'') line)"
  define val where "val = (if chat m (p - 1) = CR then butlast (drop (v + 2) line) else drop (v + 2) line)"
  have "e = ''HTTP_'' @ env_name (take v line) @ ''='' @ val"
    using assms(2) by (simp add: env_entry_def Let_def line_def v_def val_def split: if_splits)
  moreover have "NUL \<notin> set (env_name (take v line))"
    using assms(1) in_set_takeD [of NUL v line] by (intro env_name_NUL) (auto simp only: line_def)
  moreover have "NUL \<notin> set val"
    using assms(1) in_set_dropD [of NUL "v + 2" line] in_set_butlastD [of NUL "drop (v + 2) line"]
    by (auto simp only: val_def line_def split: if_splits)
  ultimately show ?thesis by simp
qed

lemma header_entries_NUL: "NUL \<notin> set (take len m) \<Longrightarrow> e \<in> set (header_entries m len) \<Longrightarrow> NUL \<notin> set e"
proof (induction m len rule: header_entries.induct)
  case (1 m len)
  define p where "p = length (takeWhile (\<lambda>c. c \<noteq> LF) (take len m))"
  have l: "len \<noteq> 0" using 1(3) by (subst (asm) header_entries.simps) (auto split: if_splits)
  have "p \<le> length (take len m)" unfolding p_def by (rule length_takeWhile_le)
  then have "p \<le> len" by simp
  then have "take p m = take p (take len m)" by (simp add: min_def)
  then have t: "NUL \<notin> set (take p m)" using 1(2) in_set_takeD by metis
  have "take (len - (p + 1)) (drop (p + 1) m) = drop (p + 1) (take len m)" by (simp add: drop_take)
  then have d: "NUL \<notin> set (take (len - (p + 1)) (drop (p + 1) m))" using 1(2) in_set_dropD by metis
  have "header_entries m len = (case env_entry m p of None \<Rightarrow> [] | Some e \<Rightarrow> [e]) @ header_entries (drop (p + 1) m) (len - (p + 1))"
    using l by (subst header_entries.simps) (simp add: Let_def p_def)
  then show ?case
    using 1(1) [OF l p_def d] 1(3) env_entry_NUL [OF t] by (auto split: option.splits)
qed

lemma env_strings_end: "eb_ok b ts \<Longrightarrow> eb_ok (b\<lparr>eb_buf := (eb_buf b)[nat (eb_len b) := NUL]\<rparr>) ts"
  by (simp add: eb_ok_def)

text \<open>What is stored is whole strings of the texts and of the header lines, and it is all of them when there
  is room.\<close>

lemma fill_vars_set: "set (fill_vars acc ts) \<subseteq> set acc \<union> set ts"
  by (induction acc ts rule: fill_vars.induct) auto

lemma fill_headers_set: "fill_headers acc ls = Some acc' \<Longrightarrow> set acc' \<subseteq> set acc \<union> set (line_vars ls)"
  by (induction acc ls rule: fill_headers.induct) (fastforce simp: line_vars_def split: if_splits option.splits)+

lemma fill_vars_all:
  "[] \<notin> set ts \<Longrightarrow> env_size (acc @ ts) + 2 \<le> ENV_MAX \<Longrightarrow> length (acc @ ts) \<le> CGI_ENV_VARS - 2 \<Longrightarrow>
   fill_vars acc ts = acc @ ts"
  by (induction acc ts rule: fill_vars.induct) (auto simp: fits_var_def)

lemma fill_headers_all:
  "\<forall>(p, e) \<in> set ls. \<forall>t. e = Some t \<longrightarrow> p + 3 \<le> length t \<Longrightarrow> env_size (acc @ line_vars ls) + 7 \<le> ENV_MAX \<Longrightarrow>
   fill_headers acc ls = Some (acc @ line_vars ls)"
  by (induction acc ls rule: fill_headers.induct) (auto simp: line_vars_def split: option.splits)

lemma env_entry_length_ge: "env_entry m p = Some e \<Longrightarrow> p \<le> length m \<Longrightarrow> p + 3 \<le> length e"
  by (auto simp: env_entry_def Let_def env_name_def min_def split: if_splits)

lemma header_lines_length: "(p, Some t) \<in> set (header_lines m len) \<Longrightarrow> p + 3 \<le> length t"
proof (induction m len rule: header_lines.induct)
  case (1 m len)
  define q where "q = length (takeWhile (\<lambda>c. c \<noteq> LF) (take len m))"
  have "q \<le> length (take len m)" unfolding q_def by (rule length_takeWhile_le)
  then have q: "q \<le> length m" by simp
  have l: "len \<noteq> 0" using 1(2) by (subst (asm) header_lines.simps) (auto split: if_splits)
  then have "header_lines m len = (q, env_entry m q) # header_lines (drop (q + 1) m) (len - (q + 1))"
    by (subst header_lines.simps) (simp add: Let_def q_def)
  then show ?case using 1(2) 1(1) [OF l q_def] env_entry_length_ge [OF _ q] by auto
qed

lemma prepare_environment_exact:
  assumes st: "length stack = ENV_MAX" and req: "c_request c = Some req" and ts: "env_texts S ctx c prog = Some ts"
  defines "ls \<equiv> header_lines (drop (c_headers c) req) (nat (headers_len (c_rem c)) - c_headers c)"
  shows "case env_spec ts ls of
      None \<Rightarrow> prepare_environment S ctx c prog stack = None
    | Some acc \<Rightarrow> \<exists>b. prepare_environment S ctx c prog stack = Some b \<and> eb_ok (b\<lparr>eb_len := int (env_size acc)\<rparr>) acc"
proof -
  let ?m = "drop (c_headers c) req" and ?n = "headers_len (c_rem c) - int (c_headers c)"
  have "nat ?n = nat (headers_len (c_rem c)) - c_headers c" by simp
  then have n: "ls = header_lines ?m (nat ?n)" by (simp only: ls_def)
  obtain b1 where b1: "add_all ts \<lparr>eb_buf = stack, eb_len = 0, eb_vars = []\<rparr> = Some b1" "eb_ok b1 (fill_vars [] ts)"
    "env_size (fill_vars [] ts) + 2 \<le> ENV_MAX"
    using add_all_exact [OF eb_ok_empty [OF st], of ts] by (auto simp: ENV_MAX_def)
  note h = add_headers_exact [OF b1(2,3), of ?m ?n, folded n]
  have p: "prepare_environment S ctx c prog stack = (case add_http_headers_to_env ?m ?n b1 of None \<Rightarrow> None
      | Some b2 \<Rightarrow> if CGI_ENV_VARS \<le> length (eb_vars b2) + 1 \<or> int ENV_MAX \<le> eb_len b2 + 1 then None
          else Some (b2\<lparr>eb_buf := (eb_buf b2)[nat (eb_len b2) := NUL], eb_len := eb_len b2 + 1\<rparr>))"
    using req ts b1(1) by (simp add: prepare_environment_def)
  show ?thesis
  proof (cases "env_spec ts ls")
    case None
    then have "\<forall>b'. add_http_headers_to_env ?m ?n b1 = Some b' \<longrightarrow> CGI_ENV_VARS - 1 \<le> length (eb_vars b')"
      using h by (auto simp: env_spec_def split: option.splits if_splits)
    then show ?thesis using None by (auto simp: p CGI_ENV_VARS_def split: option.splits)
  next
    case (Some acc)
    then obtain b2 where b2: "add_http_headers_to_env ?m ?n b1 = Some b2" "eb_ok b2 acc" "env_size acc + 2 \<le> ENV_MAX"
      "length acc < CGI_ENV_VARS - 1"
      using h by (auto simp: env_spec_def split: option.splits if_splits)
    have z: "eb_len b2 = int (env_size acc)" by (rule eb_ok_size [OF b2(2)])
    show ?thesis using Some b2 eb_ok_nvars [OF b2(2)] z env_strings_end [OF b2(2)]
      by (simp add: p) (simp add: eb_ok_def)
  qed
qed

text \<open>C29: when the array of the block has its 4096 bytes and no variable, text or header, has a NUL in it,
  the environment of the program is the one that \<open>env_spec\<close> says: of the server's variables, in their
  order, each that is not empty, fits whole and finds one of the first 62 slots; then one variable for each
  header line that has a colon, a name and a value and fits whole. There is no environment, the program of the
  server stops in an assertion, exactly when fewer than seven bytes are free at the begin of a header line or
  all 63 slots are taken. Nothing is written behind the array, and when the variables of both kinds are at most
  62 and leave seven bytes free, the program finds all of them.\<close>

theorem cgi_environment:
  assumes "length stack = ENV_MAX"
    and "c_request c = Some req" "env_texts S ctx c prog = Some ts"
    and "\<forall>t \<in> set ts. NUL \<notin> set t"
    and "NUL \<notin> set (take (nat (headers_len (c_rem c)) - c_headers c) (drop (c_headers c) req))"
  shows "map_option env_strings (prepare_environment S ctx c prog stack) =
      env_spec ts (header_lines (drop (c_headers c) req) (nat (headers_len (c_rem c)) - c_headers c)) \<and>
    pred_option (\<lambda>b. length (eb_buf b) = ENV_MAX) (prepare_environment S ctx c prog stack) \<and>
    (let us = header_entries (drop (c_headers c) req) (nat (headers_len (c_rem c)) - c_headers c)
     in [] \<notin> set ts \<and> env_size (ts @ us) + 7 \<le> ENV_MAX \<and> length (ts @ us) \<le> CGI_ENV_VARS - 2 \<longrightarrow>
        map_option env_strings (prepare_environment S ctx c prog stack) = Some (ts @ us))"
proof -
  let ?ls = "header_lines (drop (c_headers c) req) (nat (headers_len (c_rem c)) - c_headers c)"
  note ex = prepare_environment_exact [OF assms(1-3)]
  have nul: "\<forall>t \<in> set acc. NUL \<notin> set t" if "env_spec ts ?ls = Some acc" for acc
  proof -
    have "set acc \<subseteq> set ts \<union> set (line_vars ?ls)"
      using that fill_headers_set [of "fill_vars [] ts" ?ls] fill_vars_set [of "[]" ts]
      by (fastforce simp: env_spec_def split: option.splits if_splits)
    then show ?thesis using assms(4) header_entries_NUL [OF assms(5)] by (auto simp: line_vars_lines)
  qed
  have one: "map_option env_strings (prepare_environment S ctx c prog stack) = env_spec ts ?ls \<and>
    pred_option (\<lambda>b. length (eb_buf b) = ENV_MAX) (prepare_environment S ctx c prog stack)"
  proof (cases "env_spec ts ?ls")
    case (Some acc)
    then obtain b where b: "prepare_environment S ctx c prog stack = Some b" "eb_ok (b\<lparr>eb_len := int (env_size acc)\<rparr>) acc"
      using ex by auto
    show ?thesis using env_strings_ok [OF b(2) nul [OF Some]] b Some by (simp add: env_strings_def eb_ok_def)
  qed (use ex in simp)
  have "env_spec ts ?ls = Some (ts @ us)" if "us = line_vars ?ls" "[] \<notin> set ts" "env_size (ts @ us) + 7 \<le> ENV_MAX"
    "length (ts @ us) \<le> CGI_ENV_VARS - 2" for us
  proof -
    have "\<forall>(p, e) \<in> set ?ls. \<forall>t. e = Some t \<longrightarrow> p + 3 \<le> length t" using header_lines_length by blast
    moreover have "fill_vars [] ts = ts" using that fill_vars_all [of ts "[]"] by simp
    ultimately show ?thesis
      using that fill_headers_all [of ?ls ts] by (simp add: env_spec_def CGI_ENV_VARS_def)
  qed
  then show ?thesis using one by (simp add: Let_def line_vars_lines)
qed

definition demo_cgi :: conn where
  "demo_cgi = (new_conn 16 ''1.2.3.4'' 4711 80 5 0)
     \<lparr>c_request := Some (''GET /c HTTP/1.0'' @ [NUL, NUL] @ crlf @ [NUL]), c_headers := 17,
      c_uri := Some ''/c'', c_rem := (stream0 16)\<lparr>headers_len := 17\<rparr>\<rparr>"

definition demo_ctx :: shttpd_ctx where
  "demo_ctx = zero_ctx\<lparr>document_root := Some ''/w'', auth_realm := Some ''r''\<rparr>"

definition demo_texts :: "string list" where
  "demo_texts = [''GATEWAY_INTERFACE=CGI/1.1'', ''SERVER_PROTOCOL=HTTP/1.1'', ''REDIRECT_STATUS=200'',
     ''SERVER_PORT=80'', ''SERVER_NAME=r'', ''SERVER_ROOT=/w'', ''DOCUMENT_ROOT=/w'', ''REQUEST_METHOD=GET'',
     ''REMOTE_ADDR=1.2.3.4'', ''REMOTE_PORT=4711'', ''REQUEST_URI=/c'', ''SCRIPT_NAME=/c'',
     ''SCRIPT_FILENAME=/w/c'', ''PATH_TRANSLATED=/w/c'']"

lemma demo_env_texts: "env_texts (null_os :: unit os) demo_ctx demo_cgi ''/w/c'' = Some demo_texts"
proof -
  have d: "dec 80 = ''80''" "dec 4711 = ''4711''"
    by (simp_all add: dec.simps digit_char_def char_of_def bit_Suc_0_iff)
  show ?thesis
    by (simp add: env_texts_def demo_ctx_def demo_cgi_def new_conn_def demo_texts_def headers0_def null_os_def
        zero_ctx_def FOR_EACH_WORD_def opt_env_def dec_int_def d Let_def)
qed

theorem cgi_environment_witness:
  "map_option env_strings (prepare_environment (null_os :: unit os) demo_ctx demo_cgi ''/w/c'' (replicate ENV_MAX NUL)) =
    Some demo_texts"
proof -
  let ?req = "the (c_request demo_cgi)"
  have req: "c_request demo_cgi = Some ?req" "headers_len (c_rem demo_cgi) = 17" "c_headers demo_cgi = 17"
    by (simp_all add: demo_cgi_def)
  have n: "\<forall>t \<in> set demo_texts. NUL \<notin> set t" by (simp add: demo_texts_def)
  have us: "header_entries (drop 17 ?req) 0 = []" by (subst header_entries.simps) simp
  have "[] \<notin> set demo_texts \<and> env_size demo_texts + 7 \<le> ENV_MAX \<and> length demo_texts \<le> CGI_ENV_VARS - 2"
    by (simp add: demo_texts_def ENV_MAX_def CGI_ENV_VARS_def)
  then show ?thesis
    using cgi_environment [OF length_replicate req(1) demo_env_texts n, THEN conjunct2, THEN conjunct2]
    by (simp only: req(2,3) Let_def us append_Nil2 nat_numeral diff_self_eq_0 take_0 list.set
        empty_iff not_False_eq_True simp_thms)
qed

end
