(* ===== verification/Ssi.thy ===== *)
theory Ssi
  imports Streams
begin

text \<open>
  \<open>io_ssi.c\<close> of shttpd: server-side includes. The reader is a state machine over the characters of
  nested files; it passes text, collects what may be a directive in a buffer of 512 bytes, and
  runs the directives. The output goes to a piece of memory \<open>mem\<close> of which \<open>n\<close> bytes are filled.
  \<open>None\<close> is an access outside an array, a null dereference, a failed assertion or \<open>abort\<close>.
\<close>

section \<open>Memory and nested files\<close>

definition CMDBUFSIZ :: nat where "CMDBUFSIZ = 512"
definition NEST_MAX :: nat where "NEST_MAX = 6"

definition ssi_tag :: string where "ssi_tag = ''<!--#''"

definition wr_mem :: "char list \<Rightarrow> nat \<Rightarrow> char list \<Rightarrow> char list option" where
  "wr_mem mem i d = (if i + length d \<le> length mem then Some (overwrite mem i d) else None)"

abbreviation cur :: "ssi \<Rightarrow> ssi_inc" where
  "cur s \<equiv> ssi_incs s ! ssi_nest s"

definition set_cur :: "ssi_inc \<Rightarrow> ssi \<Rightarrow> ssi" where
  "set_cur inc s = s\<lparr>ssi_incs := (ssi_incs s)[ssi_nest s := inc]\<rparr>"

definition ssi_inc0 :: ssi_inc where
  "ssi_inc0 = \<lparr>ssi_state = SSI_PASS, ssi_cond = SSI_GO, ssi_fp = None,
     ssi_buf = replicate CMDBUFSIZ NUL, ssi_nbuf = 0, ssi_pipe = None\<rparr>"

section \<open>Registered functions\<close>

definition shttpd_register_ssi_func :: "string \<Rightarrow> nat \<Rightarrow> nat \<Rightarrow> shttpd_ctx \<Rightarrow> shttpd_ctx" where
  "shttpd_register_ssi_func name f data ctx =
     ctx\<lparr>ssi_funcs := ssi_funcs ctx @ [(my_strdup name, f, data)]\<rparr>"

definition free_ssi_funcs :: "shttpd_ctx \<Rightarrow> shttpd_ctx" where
  "free_ssi_funcs ctx = ctx\<lparr>ssi_funcs := []\<rparr>"

definition find_ssi_func :: "shttpd_ctx \<Rightarrow> string \<Rightarrow> (string \<times> nat \<times> nat) option" where
  "find_ssi_func ctx name = find (\<lambda>(nm, f, d). name = nm) (ssi_funcs ctx)"

text \<open>The output and the flags of a registered function; nothing for an unknown name.\<close>

definition call :: "'w os \<Rightarrow> shttpd_ctx \<Rightarrow> string \<Rightarrow> nat \<Rightarrow> 'w \<Rightarrow> char list \<times> u32 \<times> 'w" where
  "call S ctx name len w =
     (case find_ssi_func ctx name of
        None \<Rightarrow> ([], 0, w)
      | Some (nm, f, d) \<Rightarrow>
          let (r, w1) = os_callback S f \<lparr>cb_state = 0, cb_data = d, cb_room = len, cb_input = [], cb_flags = 0\<rparr> w
          in (cb_output r, cb_flags' r, w1))"

text \<open>There is no output buffer: a function that writes would dereference null.\<close>

definition evaluate :: "'w os \<Rightarrow> shttpd_ctx \<Rightarrow> string \<Rightarrow> 'w \<Rightarrow> (bool \<times> 'w) option" where
  "evaluate S ctx name w =
     (let (out, fl, w1) = call S ctx name 0 w
      in if out \<noteq> [] then None else Some (has fl SHTTPD_SSI_EVAL_TRUE, w1))"

section \<open>Directives\<close>

definition pass :: "ssi_inc \<Rightarrow> char list \<Rightarrow> nat \<Rightarrow> (ssi_inc \<times> char list \<times> nat) option" where
  "pass inc mem n =
     (case (if ssi_cond inc = SSI_GO
            then map_option (\<lambda>m. (m, n + ssi_nbuf inc)) (wr_mem mem n (take (ssi_nbuf inc) (ssi_buf inc)))
            else Some (mem, n)) of
        None \<Rightarrow> None
      | Some (mem1, n1) \<Rightarrow> Some (inc\<lparr>ssi_nbuf := 0, ssi_state := SSI_PASS\<rparr>, mem1, n1))"

text \<open>The file name of an include: the base for its kind and the decoded text up to the quote.\<close>

definition path_base :: "shttpd_ctx \<Rightarrow> string \<Rightarrow> nat \<Rightarrow> string" where
  "path_base ctx uri kind =
     (if kind = 6
      then let d = take (FILENAME_MAX - 1) (str_of (document_root ctx) @ ''/'' @ uri)
           in take (length (dropWhile (\<lambda>c. c \<noteq> CHR ''/'') (rev (tl d)))) d
      else if kind = 9 then take (FILENAME_MAX - 1) (str_of (document_root ctx) @ ''/'')
      else [])"

definition get_path :: "shttpd_ctx \<Rightarrow> string \<Rightarrow> char list \<Rightarrow> nat \<Rightarrow> string option option" where
  "get_path ctx uri src src_len =
     (case find (\<lambda>v. length v < src_len \<and> take (length v) src = v)
             [[DQ], ''file='' @ [DQ], ''virtual='' @ [DQ]] of
        None \<Rightarrow> Some None
      | Some v \<Rightarrow>
          let s1 = drop (length v) src; l1 = src_len - length v
          in case memchr s1 DQ l1 of
               None \<Rightarrow> Some None
             | Some q \<Rightarrow>
                 let base = path_base ctx uri (length v)
                 in map_option (\<lambda>(k, d). Some (base @ cstr d))
                      (url_decode s1 q (int FILENAME_MAX - int (length base))))"

definition do_include :: "'w os \<Rightarrow> shttpd_ctx \<Rightarrow> string \<Rightarrow> ssi \<Rightarrow> 'w \<Rightarrow> ssi option" where
  "do_include S ctx uri s w =
     (let inc = cur s
      in if ssi_nbuf inc < 13 then None
         else if ssi_cond inc = SSI_STOP then Some s
         else if NEST_MAX - 1 \<le> ssi_nest s then Some s
         else case get_path ctx uri (drop 13 (ssi_buf inc)) (ssi_nbuf inc - 13) of
                None \<Rightarrow> None
              | Some None \<Rightarrow> Some s
              | Some (Some name) \<Rightarrow>
                  (case os_file S w name of
                     None \<Rightarrow> Some s
                   | Some text \<Rightarrow>
                       let k = ssi_nest s + 1
                       in Some (s\<lparr>ssi_nest := k,
                            ssi_incs := (ssi_incs s)[k := (ssi_incs s ! k)
                              \<lparr>ssi_fp := Some text, ssi_nbuf := 0, ssi_cond := SSI_GO\<rparr>]\<rparr>)))"

text \<open>The bytes from the end of the directive to its last word become NUL; the result is the
  offset of its attributes. Both searches may leave the array.\<close>

definition trim_spaces :: "ssi_inc \<Rightarrow> (ssi_inc \<times> nat) option" where
  "trim_spaces inc =
     (let nb = ssi_nbuf inc; b = ssi_buf inc;
          k = length (takeWhile isspace (rev (take (nb - 2) b)));
          b1 = overwrite b (nb - 2 - k) (replicate (k + 1) NUL);
          o1 = length (takeWhile (\<lambda>c. \<not> isspace c) b1);
          o2 = o1 + length (takeWhile isspace (drop o1 b1))
      in if nb < 2 \<or> k = nb - 2 \<or> length b1 \<le> o2 then None
         else Some (inc\<lparr>ssi_buf := b1\<rparr>, o2))"

definition attr_of :: "ssi_inc \<Rightarrow> nat \<Rightarrow> string" where
  "attr_of inc i = cstr (drop i (ssi_buf inc))"

definition do_if :: "'w os \<Rightarrow> shttpd_ctx \<Rightarrow> ssi \<Rightarrow> 'w \<Rightarrow> (ssi \<times> 'w) option" where
  "do_if S ctx s w = do {
     (inc, i) \<leftarrow> trim_spaces (cur s);
     (b, w1) \<leftarrow> evaluate S ctx (attr_of inc i) w;
     Some (set_cur (inc\<lparr>ssi_cond := (if b then SSI_GO else SSI_STOP)\<rparr>) s, w1)
   }"

definition do_elif :: "'w os \<Rightarrow> shttpd_ctx \<Rightarrow> ssi \<Rightarrow> 'w \<Rightarrow> (ssi \<times> 'w) option" where
  "do_elif S ctx s w = do {
     (inc, i) \<leftarrow> trim_spaces (cur s);
     (b, w1) \<leftarrow> (if ssi_cond inc = SSI_STOP then evaluate S ctx (attr_of inc i) w else Some (False, w));
     Some (set_cur (inc\<lparr>ssi_cond := (if b then SSI_GO else SSI_STOP)\<rparr>) s, w1)
   }"

definition do_endif :: "ssi \<Rightarrow> ssi" where
  "do_endif s = set_cur ((cur s)\<lparr>ssi_cond := SSI_GO\<rparr>) s"

definition do_else :: "ssi \<Rightarrow> ssi" where
  "do_else s = set_cur ((cur s)\<lparr>ssi_cond := (if ssi_cond (cur s) = SSI_GO then SSI_STOP else SSI_GO)\<rparr>) s"

text \<open>The output is written at \<open>off\<close>; \<open>len\<close> bytes are offered there.\<close>

definition do_call2 ::
  "'w os \<Rightarrow> shttpd_ctx \<Rightarrow> ssi \<Rightarrow> char list \<Rightarrow> nat \<Rightarrow> nat \<Rightarrow> nat \<Rightarrow> 'w \<Rightarrow> (ssi \<times> char list \<times> nat \<times> 'w) option" where
  "do_call2 S ctx s mem off len n w =
     (let inc = cur s; (out, fl, w1) = call S ctx (cstr (ssi_buf inc)) len w
      in map_option (\<lambda>m. (if has fl SHTTPD_END_OF_OUTPUT then set_cur (inc\<lparr>ssi_state := SSI_PASS\<rparr>) s else s,
                          m, n + length out, w1))
           (wr_mem mem off out))"

definition do_call ::
  "'w os \<Rightarrow> shttpd_ctx \<Rightarrow> ssi \<Rightarrow> char list \<Rightarrow> nat \<Rightarrow> nat \<Rightarrow> nat \<Rightarrow> 'w \<Rightarrow> (ssi \<times> char list \<times> nat \<times> 'w) option" where
  "do_call S ctx s mem off len n w = do {
     (inc, i) \<leftarrow> trim_spaces (cur s);
     if ssi_cond inc = SSI_GO
     then do_call2 S ctx
            (set_cur (inc\<lparr>ssi_buf := overwrite (ssi_buf inc) 0 (attr_of inc i @ [NUL]), ssi_state := SSI_CALL\<rparr>) s)
            mem off len n w
     else Some (set_cur inc s, mem, n, w)
   }"

definition do_exec2 :: "ssi \<Rightarrow> char list \<Rightarrow> nat \<Rightarrow> nat \<Rightarrow> nat \<Rightarrow> (ssi \<times> char list \<times> nat) option" where
  "do_exec2 s mem off len n =
     (let inc = cur s
      in case ssi_pipe inc of
           None \<Rightarrow> None
         | Some p \<Rightarrow>
             let d = take len p;
                 inc1 = (if length p < len then inc\<lparr>ssi_state := SSI_PASS, ssi_pipe := None\<rparr>
                         else inc\<lparr>ssi_pipe := Some (drop len p)\<rparr>)
             in map_option (\<lambda>m. (set_cur inc1 s, m, n + length d)) (wr_mem mem off d))"

definition do_exec ::
  "'w os \<Rightarrow> ssi \<Rightarrow> char list \<Rightarrow> nat \<Rightarrow> nat \<Rightarrow> nat \<Rightarrow> 'w \<Rightarrow> (ssi \<times> char list \<times> nat) option" where
  "do_exec S s mem off len n w = do {
     (inc, i) \<leftarrow> trim_spaces (cur s);
     let p = attr_of inc i;
     if ssi_cond inc = SSI_STOP then Some (set_cur inc s, mem, n)
     else case (if chd p = DQ then strchr (tl p) DQ else None) of
            None \<Rightarrow> Some (set_cur inc s, mem, n)
          | Some e \<Rightarrow>
              (case url_decode (drop (i + 1) (ssi_buf inc)) (length (tl p) - length e) (int CMDBUFSIZ) of
                 None \<Rightarrow> None
               | Some (k, d) \<Rightarrow>
                   if k = 0 then Some (set_cur inc s, mem, n)
                   else case os_popen S w (cstr d) of
                          None \<Rightarrow> Some (set_cur (inc\<lparr>ssi_pipe := None\<rparr>) s, mem, n)
                        | Some text \<Rightarrow>
                            do_exec2 (set_cur (inc\<lparr>ssi_pipe := Some text, ssi_state := SSI_EXEC\<rparr>) s) mem off len n)
   }"

datatype ssi_cmd = C_include | C_if | C_elif | C_else | C_endif | C_call | C_exec

definition known_ssi_commands :: "(string \<times> ssi_cmd) list" where
  "known_ssi_commands =
    [(''include '', C_include), (''if '', C_if), (''elif '', C_elif), (''else'', C_else),
     (''endif'', C_endif), (''call '', C_call), (''exec '', C_exec)]"

text \<open>\<open>nbuf\<close> is reset in the entry of the level that held the directive.\<close>

definition reset_nbuf :: "nat \<Rightarrow> ssi \<Rightarrow> ssi" where
  "reset_nbuf k s = s\<lparr>ssi_incs := (ssi_incs s)[k := (ssi_incs s ! k)\<lparr>ssi_nbuf := 0\<rparr>]\<rparr>"

definition run_cmd ::
  "'w os \<Rightarrow> shttpd_ctx \<Rightarrow> string \<Rightarrow> ssi_cmd option \<Rightarrow> ssi \<Rightarrow> char list \<Rightarrow> nat \<Rightarrow> nat \<Rightarrow> 'w \<Rightarrow>
     (ssi \<times> char list \<times> nat \<times> 'w) option" where
  "run_cmd S ctx uri cmd s mem len n w =
     (case cmd of
        Some C_include \<Rightarrow> map_option (\<lambda>s1. (s1, mem, n, w)) (do_include S ctx uri s w)
      | Some C_if \<Rightarrow> map_option (\<lambda>(s1, w1). (s1, mem, n, w1)) (do_if S ctx s w)
      | Some C_elif \<Rightarrow> map_option (\<lambda>(s1, w1). (s1, mem, n, w1)) (do_elif S ctx s w)
      | Some C_else \<Rightarrow> Some (do_else s, mem, n, w)
      | Some C_endif \<Rightarrow> Some (do_endif s, mem, n, w)
      | Some C_call \<Rightarrow> do_call S ctx s mem n len n w
      | Some C_exec \<Rightarrow> map_option (\<lambda>(s1, m1, n1). (s1, m1, n1, w)) (do_exec S s mem n len n w)
      | None \<Rightarrow> map_option (\<lambda>(inc1, m1, n1). (set_cur inc1 s, m1, n1, w)) (pass (cur s) mem n))"

definition do_command ::
  "'w os \<Rightarrow> shttpd_ctx \<Rightarrow> string \<Rightarrow> ssi \<Rightarrow> char list \<Rightarrow> nat \<Rightarrow> nat \<Rightarrow> 'w \<Rightarrow>
     (ssi \<times> char list \<times> nat \<times> 'w) option" where
  "do_command S ctx uri s mem len n w =
     (let inc = cur s
      in if len = 0 \<or> len < ssi_nbuf inc then None
         else let s1 = set_cur (inc\<lparr>ssi_state := SSI_PASS\<rparr>) s;
                  cmd = map_option snd (find (\<lambda>(name, c). 5 + length name < ssi_nbuf inc \<and>
                          take (length name) (drop 5 (ssi_buf inc)) = name) known_ssi_commands)
              in map_option (\<lambda>(s2, m2, n2, w2). (reset_nbuf (ssi_nest s) s2, m2, n2, w2))
                   (run_cmd S ctx uri cmd s1 mem len n w))"


section \<open>What a directive leaves of the open files\<close>

definition fp_of :: "ssi \<Rightarrow> nat \<Rightarrow> string option" where
  "fp_of s i = ssi_fp (ssi_incs s ! i)"

text \<open>The levels up to the current one keep their files, and at most one level is opened.\<close>

definition same_files :: "ssi \<Rightarrow> ssi \<Rightarrow> bool" where
  "same_files s t \<longleftrightarrow> length (ssi_incs t) = length (ssi_incs s) \<and> ssi_nest s \<le> ssi_nest t \<and>
     (ssi_nest t = ssi_nest s \<or> ssi_nest t = ssi_nest s + 1 \<and> ssi_nest t < NEST_MAX) \<and>
     (\<forall>i \<le> ssi_nest s. i < length (ssi_incs s) \<longrightarrow> fp_of t i = fp_of s i)"

lemma same_files_refl: "same_files s s"
  by (simp add: same_files_def)

lemma same_files_set_cur:
  "ssi_fp inc = ssi_fp (cur s) \<Longrightarrow> same_files s (set_cur inc s)"
  by (auto simp: same_files_def set_cur_def fp_of_def nth_upd)

lemma same_files_reset: "same_files s t \<Longrightarrow> same_files s (reset_nbuf k t)"
  by (auto simp: same_files_def reset_nbuf_def fp_of_def nth_upd)

lemma cur_set_cur: "ssi_nest s < length (ssi_incs s) \<Longrightarrow> cur (set_cur inc s) = inc"
  by (simp add: set_cur_def)

lemma nest_set_cur [simp]: "ssi_nest (set_cur inc s) = ssi_nest s" "length (ssi_incs (set_cur inc s)) = length (ssi_incs s)"
  by (simp_all add: set_cur_def)

lemma same_files_trans_cur:
  assumes "ssi_fp inc = ssi_fp (cur s)" "same_files (set_cur inc s) t"
  shows "same_files s t"
  using assms by (auto simp: same_files_def set_cur_def fp_of_def nth_upd split: if_splits)

lemmas same_files_cur = same_files_trans_cur [rotated]

lemma trim_spaces_fp: "trim_spaces inc = Some (inc', i) \<Longrightarrow> ssi_fp inc' = ssi_fp inc"
  by (auto simp: trim_spaces_def Let_def split: if_splits)

lemma do_include_files: "do_include S ctx uri s w = Some t \<Longrightarrow> same_files s t"
  by (auto simp: do_include_def Let_def same_files_def fp_of_def NEST_MAX_def nth_upd
      split: if_splits option.splits)

lemma do_call2_files:
  "do_call2 S ctx s mem off len n w = Some (t, m, n1, w1) \<Longrightarrow> same_files s t"
  by (auto simp: do_call2_def Let_def same_files_refl intro: same_files_set_cur split: prod.splits if_splits)

lemma do_exec2_files: "do_exec2 s mem off len n = Some (t, m, n1) \<Longrightarrow> same_files s t"
  by (auto simp: do_exec2_def Let_def intro!: same_files_set_cur split: option.splits if_splits)

lemma do_call_files:
  "do_call S ctx s mem off len n w = Some (t, m, n1, w1) \<Longrightarrow> same_files s t"
  by (auto simp: do_call_def bind_eq_Some_conv split: if_splits dest!: trim_spaces_fp do_call2_files
      intro: same_files_set_cur elim!: same_files_cur)

lemma do_exec_files: "do_exec S s mem off len n w = Some (t, m, n1) \<Longrightarrow> same_files s t"
  by (auto simp: do_exec_def bind_eq_Some_conv Let_def split: if_splits option.splits prod.splits
      dest!: trim_spaces_fp do_exec2_files intro: same_files_set_cur elim!: same_files_cur)

lemma pass_fp: "pass inc mem n = Some (inc', m, n') \<Longrightarrow> ssi_fp inc' = ssi_fp inc"
  by (auto simp: pass_def split: option.splits)

lemma run_cmd_files:
  "run_cmd S ctx uri cmd s mem len n w = Some (t, m, n1, w1) \<Longrightarrow> same_files s t"
  by (auto simp: run_cmd_def do_if_def do_elif_def do_else_def do_endif_def bind_eq_Some_conv
      split: option.splits ssi_cmd.splits if_splits prod.splits
      dest: do_include_files do_call_files do_exec_files dest!: trim_spaces_fp pass_fp intro!: same_files_set_cur)

lemma do_command_files:
  assumes "do_command S ctx uri s mem len n w = Some (t, m, n1, w1)"
  shows "same_files s t"
proof -
  let ?s1 = "set_cur ((cur s)\<lparr>ssi_state := SSI_PASS\<rparr>) s"
  obtain cmd t1 where "run_cmd S ctx uri cmd ?s1 mem len n w = Some (t1, m, n1, w1)" "t = reset_nbuf (ssi_nest s) t1"
    using assms by (auto simp: do_command_def Let_def split: if_splits)
  then have "same_files ?s1 t" by (auto dest: run_cmd_files intro: same_files_reset)
  then show ?thesis by (rule same_files_trans_cur [rotated]) simp
qed

section \<open>Reading\<close>

text \<open>The two bytes before the end of the buffered text; for fewer than two the comparison reads the
  file pointer in front of the array, which holds no dash.\<close>

definition ends_dashes :: "ssi_inc \<Rightarrow> bool" where
  "ends_dashes inc \<longleftrightarrow> 2 \<le> ssi_nbuf inc \<and> take 2 (drop (ssi_nbuf inc - 2) (ssi_buf inc)) = ''--''"

definition push_char :: "char \<Rightarrow> ssi_inc \<Rightarrow> ssi_inc" where
  "push_char ch inc = inc\<lparr>ssi_buf := (ssi_buf inc)[ssi_nbuf inc := ch], ssi_nbuf := ssi_nbuf inc + 1\<rparr>"

text \<open>One character: \<open>s\<close> is the state after \<open>fgetc\<close>.\<close>

definition ssi_char ::
  "'w os \<Rightarrow> shttpd_ctx \<Rightarrow> string \<Rightarrow> char \<Rightarrow> ssi \<Rightarrow> char list \<Rightarrow> nat \<Rightarrow> nat \<Rightarrow> 'w \<Rightarrow>
     (ssi \<times> char list \<times> nat \<times> 'w) option" where
  "ssi_char S ctx uri ch s mem n len w =
     (let inc = cur s
      in case ssi_state inc of
           SSI_PASS \<Rightarrow>
             if ch = CHR ''<''
             then Some (set_cur ((push_char ch (inc\<lparr>ssi_nbuf := 0\<rparr>))\<lparr>ssi_state := SSI_BUF\<rparr>) s, mem, n, w)
             else if ssi_cond inc = SSI_GO
             then map_option (\<lambda>m. (s, m, n + 1, w)) (wr_mem mem n [ch])
             else Some (s, mem, n, w)
         | SSI_BUF \<Rightarrow>
             if CMDBUFSIZ - 1 \<le> ssi_nbuf inc
             then map_option (\<lambda>(i1, m, n1). (set_cur i1 s, m, n1, w)) (pass inc mem n)
             else if ch = CHR ''>'' \<and> ends_dashes inc
             then do_command S ctx uri s mem (len - n) n w
             else let i1 = push_char ch inc
                  in if ssi_nbuf i1 \<le> length ssi_tag \<and> take (ssi_nbuf i1) (ssi_buf i1) \<noteq> take (ssi_nbuf i1) ssi_tag
                     then map_option (\<lambda>(i2, m, n1). (set_cur i2 s, m, n1, w)) (pass i1 mem n)
                     else Some (set_cur i1 s, mem, n, w)
         | _ \<Rightarrow> None)"

text \<open>The size of the text left at each open level; a closed level counts nothing.\<close>

definition lev :: "ssi \<Rightarrow> nat \<Rightarrow> nat" where
  "lev s i = (if i \<le> ssi_nest s then Suc (length (str_of (fp_of s i))) else 0)"

text \<open>The calls before the loop, for a level that is in the middle of a function or a program.\<close>

definition resume ::
  "'w os \<Rightarrow> shttpd_ctx \<Rightarrow> ssi \<Rightarrow> char list \<Rightarrow> nat \<Rightarrow> nat \<Rightarrow> 'w \<Rightarrow> (ssi \<times> char list \<times> nat \<times> 'w) option" where
  "resume S ctx s mem n len w =
     (case ssi_state (cur s) of
        SSI_CALL \<Rightarrow> do_call2 S ctx s mem 0 len n w
      | SSI_EXEC \<Rightarrow> map_option (\<lambda>(s1, m1, n1). (s1, m1, n1, w)) (do_exec2 s mem 0 len n)
      | _ \<Rightarrow> Some (s, mem, n, w))"

definition set_fp :: "string option \<Rightarrow> ssi \<Rightarrow> ssi" where
  "set_fp f s = set_cur ((cur s)\<lparr>ssi_fp := f\<rparr>) s"

definition pop :: "ssi \<Rightarrow> ssi" where
  "pop s = (set_fp None s)\<lparr>ssi_nest := ssi_nest s - 1\<rparr>"

function ssi_loop ::
  "'w os \<Rightarrow> shttpd_ctx \<Rightarrow> string \<Rightarrow> ssi \<Rightarrow> char list \<Rightarrow> nat \<Rightarrow> nat \<Rightarrow> 'w \<Rightarrow>
     (ssi \<times> char list \<times> nat \<times> 'w) option" where
  "ssi_loop S ctx uri s mem n len w =
     (if NEST_MAX \<le> ssi_nest s \<or> length (ssi_incs s) \<noteq> NEST_MAX then None
      else if len \<le> n + ssi_nbuf (cur s) then Some (s, mem, n, w)
      else case ssi_fp (cur s) of
             None \<Rightarrow> None
           | Some [] \<Rightarrow>
               if ssi_nest s = 0 then Some (s, mem, n, w)
               else (case resume S ctx (pop s) mem n len w of
                       None \<Rightarrow> None
                     | Some (s1, m1, n1, w1) \<Rightarrow>
                         if same_files (pop s) s1 \<and> ssi_nest s1 = ssi_nest (pop s)
                         then ssi_loop S ctx uri s1 m1 n1 len w1 else None)
           | Some (ch # r) \<Rightarrow>
               (case ssi_char S ctx uri ch (set_fp (Some r) s) mem n len w of
                  None \<Rightarrow> None
                | Some (s1, m1, n1, w1) \<Rightarrow>
                    if same_files (set_fp (Some r) s) s1
                    then ssi_loop S ctx uri s1 m1 n1 len w1 else None))"
  by pat_completeness auto

lemma lev_char:
  assumes "ssi_nest s < NEST_MAX" "length (ssi_incs s) = NEST_MAX" "ssi_fp (cur s) = Some (ch # r)"
    and "same_files (set_fp (Some r) s) t"
  shows "lev t (ssi_nest s) < lev s (ssi_nest s)" "\<forall>i < ssi_nest s. lev t i = lev s i"
  using assms by (auto simp: lev_def same_files_def set_fp_def set_cur_def fp_of_def nth_upd)

lemma lev_pop:
  assumes "ssi_nest s < NEST_MAX" "length (ssi_incs s) = NEST_MAX" "ssi_nest s \<noteq> 0"
    and "same_files (pop s) t" "ssi_nest t = ssi_nest (pop s)"
  shows "lev t (ssi_nest s) < lev s (ssi_nest s)" "\<forall>i < ssi_nest s. lev t i = lev s i"
  using assms by (auto simp: lev_def same_files_def pop_def set_fp_def set_cur_def fp_of_def nth_upd)

definition ssi_rel :: "(ssi \<times> ssi) set" where
  "ssi_rel = measures [\<lambda>s. lev s 0, \<lambda>s. lev s 1, \<lambda>s. lev s 2, \<lambda>s. lev s 3, \<lambda>s. lev s 4, \<lambda>s. lev s 5]"

lemma wf_ssi_rel: "wf ssi_rel"
  by (simp add: ssi_rel_def)

lemma lev_rel:
  assumes "k < NEST_MAX" "lev t k < lev s k" "\<forall>i < k. lev t i = lev s i"
  shows "(t, s) \<in> ssi_rel"
proof -
  have "k = 0 \<or> k = 1 \<or> k = 2 \<or> k = 3 \<or> k = 4 \<or> k = 5" using assms(1) unfolding NEST_MAX_def by linarith
  then show ?thesis using assms(2,3) unfolding ssi_rel_def by (elim disjE) simp_all
qed

lemma char_rel:
  assumes "ssi_nest s < NEST_MAX" "length (ssi_incs s) = NEST_MAX" "ssi_fp (cur s) = Some (ch # r)"
    and "same_files (set_fp (Some r) s) t"
  shows "(t, s) \<in> ssi_rel"
  by (rule lev_rel [OF assms(1) lev_char [OF assms]])

lemma pop_rel:
  assumes "ssi_nest s < NEST_MAX" "length (ssi_incs s) = NEST_MAX" "ssi_nest s \<noteq> 0"
    and "same_files (pop s) t" "ssi_nest t = ssi_nest (pop s)"
  shows "(t, s) \<in> ssi_rel"
  by (rule lev_rel [OF assms(1) lev_pop [OF assms]])

termination ssi_loop
  by (relation "inv_image ssi_rel (\<lambda>(S, ctx, uri, s, mem, n, len, w). s)")
    (auto simp: wf_ssi_rel intro: char_rel pop_rel)

declare ssi_loop.simps [simp del]


text \<open>The guards of the recursion always hold.\<close>

lemma ssi_char_files:
  "ssi_char S ctx uri ch s mem n len w = Some (t, m, n1, w1) \<Longrightarrow> same_files s t"
  by (auto simp: ssi_char_def Let_def push_char_def same_files_refl split: ssi_state.splits if_splits
      dest: do_command_files dest!: pass_fp intro!: same_files_set_cur)

lemma resume_files:
  "resume S ctx s mem n len w = Some (t, m, n1, w1) \<Longrightarrow> same_files s t \<and> ssi_nest t = ssi_nest s"
  by (auto simp: resume_def same_files_refl do_call2_def do_exec2_def Let_def split: ssi_state.splits prod.splits if_splits option.splits
      intro!: same_files_set_cur)

lemma ssi_loop_stop: "ssi_nest s < NEST_MAX \<Longrightarrow> length (ssi_incs s) = NEST_MAX \<Longrightarrow> len \<le> n + ssi_nbuf (cur s) \<Longrightarrow>
  ssi_loop S ctx uri s mem n len w = Some (s, mem, n, w)"
  by (subst ssi_loop.simps) simp

lemma ssi_loop_char:
  assumes "ssi_nest s < NEST_MAX" "length (ssi_incs s) = NEST_MAX" "n + ssi_nbuf (cur s) < len"
    and "ssi_fp (cur s) = Some (ch # r)"
  shows "ssi_loop S ctx uri s mem n len w =
    (case ssi_char S ctx uri ch (set_fp (Some r) s) mem n len w of
       None \<Rightarrow> None | Some (s1, m1, n1, w1) \<Rightarrow> ssi_loop S ctx uri s1 m1 n1 len w1)"
  using assms by (subst ssi_loop.simps) (auto split: option.splits dest: ssi_char_files)

lemma ssi_loop_eof:
  assumes "ssi_nest s < NEST_MAX" "length (ssi_incs s) = NEST_MAX" "n + ssi_nbuf (cur s) < len"
    and "ssi_fp (cur s) = Some []"
  shows "ssi_loop S ctx uri s mem n len w =
    (if ssi_nest s = 0 then Some (s, mem, n, w)
     else case resume S ctx (pop s) mem n len w of
       None \<Rightarrow> None | Some (s1, m1, n1, w1) \<Rightarrow> ssi_loop S ctx uri s1 m1 n1 len w1)"
  using assms by (subst ssi_loop.simps) (auto split: option.splits dest: resume_files)

section \<open>The class\<close>

definition read_ssi :: "'w os \<Rightarrow> shttpd_ctx \<Rightarrow> nat \<Rightarrow> conn \<Rightarrow> 'w \<Rightarrow> (int \<times> conn \<times> 'w) option" where
  "read_ssi S ctx len c w =
     (let i = sio (c_loc c); mem = take len (drop (io_head i) (io_buf i)); uri = str_of (c_uri c)
      in case c_ssi c of
           None \<Rightarrow> None
         | Some s \<Rightarrow>
             (case resume S ctx s mem 0 len w of
                None \<Rightarrow> None
              | Some (s1, m1, n1, w1) \<Rightarrow>
                  map_option (\<lambda>(s2, m2, n2, w2).
                    (int n2, c\<lparr>c_ssi := Some s2,
                       c_loc := (c_loc c)\<lparr>sio := i\<lparr>io_buf := overwrite (io_buf i) (io_head i) m2\<rparr>\<rparr>\<rparr>, w2))
                    (ssi_loop S ctx uri s1 m1 n1 len w1)))"

definition ssi_head_text :: "string \<Rightarrow> string" where
  "ssi_head_text date =
     ''HTTP/1.1 200 OK'' @ crlf @ ''Date: '' @ date @ crlf @ ''Content-Type: text/html'' @ crlf @
     ''Connection: close'' @ crlf @ crlf"

text \<open>\<open>calloc\<close> succeeds.\<close>

definition do_ssi :: "'w os \<Rightarrow> conn \<Rightarrow> 'w \<Rightarrow> (conn \<times> 'w) option" where
  "do_ssi S c w =
     (let l = put_reply (ssi_head_text (os_date S ''%a, %d %b %Y %H:%M:%S GMT'' (os_now S w))) (c_loc c);
          c1 = c\<lparr>c_status := 200,
                 c_loc := flag_on (or FLAG_R FLAG_ALWAYS_READY) (l\<lparr>io_cls := Some IO_SSI\<rparr>)\<rparr>
      in if c_method c = METHOD_HEAD then stop_stream S Loc c1 w
         else let s0 = \<lparr>ssi_nest = 0, ssi_incs = replicate NEST_MAX ssi_inc0\<rparr>;
                  s1 = set_cur (ssi_inc0\<lparr>ssi_fp := os_fdopen S w (ch_fd (chan (c_loc c)))\<rparr>) s0
              in Some (c1\<lparr>c_ssi := Some s1\<rparr>, w))"

text \<open>A HEAD request for such a file stops the stream before its state exists.\<close>

lemma do_ssi_head: "c_method c = METHOD_HEAD \<Longrightarrow> c_ssi c = None \<Longrightarrow> do_ssi S c w = None"
  by (simp add: do_ssi_def stop_stream_def io_close_def)

section \<open>Plain text\<close>

definition ssi_ok :: "ssi \<Rightarrow> bool" where
  "ssi_ok s \<longleftrightarrow> ssi_nest s < NEST_MAX \<and> length (ssi_incs s) = NEST_MAX \<and>
     (\<forall>i < NEST_MAX. length (ssi_buf (ssi_incs s ! i)) = CMDBUFSIZ \<and> ssi_nbuf (ssi_incs s ! i) < CMDBUFSIZ)"

lemma set_cur_cur [simp]: "ssi_nest s < length (ssi_incs s) \<Longrightarrow> set_cur (cur s) s = s"
  by (simp add: set_cur_def)

lemma set_cur_set_cur [simp]: "set_cur a (set_cur b s) = set_cur a s"
  by (simp add: set_cur_def)

lemma fp_same: "ssi_fp x = f \<Longrightarrow> x\<lparr>ssi_fp := f\<rparr> = x"
  by (cases x) auto

text \<open>Text without a tag is copied, or dropped behind a false condition.\<close>

lemma ssi_text_run:
  assumes "ssi_nest s < NEST_MAX" "length (ssi_incs s) = NEST_MAX"
    and "ssi_state (cur s) = SSI_PASS" "ssi_nbuf (cur s) = 0"
    and "CHR ''<'' \<notin> set t" "ssi_fp (cur s) = Some (t @ r)" "n + length t \<le> len" "n < len \<or> t = []"
    and "len \<le> length mem"
  shows "ssi_loop S ctx uri s mem n len w =
    (if ssi_cond (cur s) = SSI_GO
     then ssi_loop S ctx uri (set_fp (Some r) s) (overwrite mem n t) (n + length t) len w
     else ssi_loop S ctx uri (set_fp (Some r) s) mem n len w)"
  using assms
proof (induction t arbitrary: s mem n)
  case Nil
  then have "set_fp (Some r) s = s" by (simp add: set_fp_def fp_same)
  then show ?case by simp
next
  case (Cons ch t)
  let ?s = "set_fp (Some (t @ r)) s"
  have c: "ssi_incs ?s ! ssi_nest s = (cur s)\<lparr>ssi_fp := Some (t @ r)\<rparr>" "ssi_nest ?s = ssi_nest s" "length (ssi_incs ?s) = NEST_MAX"
    using Cons.prems(1,2) by (simp_all add: set_fp_def set_cur_def)
  have ff: "set_fp (Some r) ?s = set_fp (Some r) s"
    using Cons.prems(1,2) by (simp add: set_fp_def set_cur_def)
  have n: "n < len" using Cons.prems(8) by simp
  have nl: "ch \<noteq> CHR ''<''" using Cons.prems(5) by auto
  have step: "ssi_loop S ctx uri s mem n len w =
      (case ssi_char S ctx uri ch ?s mem n len w of
       None \<Rightarrow> None | Some (s1, m1, n1, w1) \<Rightarrow> ssi_loop S ctx uri s1 m1 n1 len w1)"
    using Cons.prems n by (intro ssi_loop_char) simp_all
  show ?case
  proof (cases "ssi_cond (cur s) = SSI_GO")
    case True
    have "ssi_char S ctx uri ch ?s mem n len w = Some (?s, overwrite mem n [ch], n + 1, w)"
      using Cons.prems True n nl by (simp add: ssi_char_def Let_def c wr_mem_def)
    then have "ssi_loop S ctx uri s mem n len w = ssi_loop S ctx uri ?s (overwrite mem n [ch]) (n + 1) len w"
      using step by simp
    moreover have "ssi_loop S ctx uri ?s (overwrite mem n [ch]) (n + 1) len w =
        ssi_loop S ctx uri (set_fp (Some r) ?s) (overwrite (overwrite mem n [ch]) (n + 1) t) (n + 1 + length t) len w"
    proof (cases "t = []")
      case True
      then show ?thesis using ff by simp
    next
      case t: False
      then have "n + 1 < len" using Cons.prems(7) by (cases t) auto
      then show ?thesis
        using Cons.IH [of ?s "n + 1" "overwrite mem n [ch]"] Cons.prems n True by (auto simp: c)
    qed
    moreover have "overwrite (overwrite mem n [ch]) (n + 1) t = overwrite mem n (ch # t)"
      using Cons.prems n by (simp add: overwrite_def take_Suc_conv_app_nth drop_Suc min_def add.commute)
    ultimately show ?thesis using True ff by simp
  next
    case False
    have "ssi_char S ctx uri ch ?s mem n len w = Some (?s, mem, n, w)"
      using Cons.prems False nl by (simp add: ssi_char_def Let_def c)
    then have "ssi_loop S ctx uri s mem n len w = ssi_loop S ctx uri ?s mem n len w"
      using step by simp
    moreover have "ssi_loop S ctx uri ?s mem n len w = ssi_loop S ctx uri (set_fp (Some r) ?s) mem n len w"
    proof (cases "t = []")
      case True
      then show ?thesis using ff by simp
    next
      case t: False
      then show ?thesis using Cons.IH [of ?s n mem] Cons.prems n False by (auto simp: c)
    qed
    ultimately show ?thesis using False ff by simp
  qed
qed


section \<open>Collecting a directive\<close>

lemma push_buf:
  assumes "take k b = p" "k = length p" "k < length b"
  shows "take (Suc k) (b[k := ch]) = p @ [ch]"
  using assms by (simp add: take_Suc_conv_app_nth)

lemma overwrite_push:
  assumes "k < length b"
  shows "overwrite (b[k := ch]) (Suc k) t = overwrite b k (ch # t)"
  using assms by (simp add: overwrite_def take_Suc_conv_app_nth)

lemma nth_set_cur: "ssi_nest s < length (ssi_incs s) \<Longrightarrow> ssi_incs (set_cur x s) ! ssi_nest s = x"
  by (simp add: set_cur_def)

lemma same_inc: "ssi_nbuf i = k \<Longrightarrow> ssi_fp i = f \<Longrightarrow> i\<lparr>ssi_nbuf := k, ssi_fp := f\<rparr> = i"
  by (cases i) auto

lemma ssi_buf_run:
  assumes "ssi_nest s < NEST_MAX" "length (ssi_incs s) = NEST_MAX"
    and "ssi_state (cur s) = SSI_BUF" "length (ssi_buf (cur s)) = CMDBUFSIZ"
    and "take (ssi_nbuf (cur s)) (ssi_buf (cur s)) = p" "ssi_nbuf (cur s) = length p"
    and "CHR ''>'' \<notin> set t" "ssi_fp (cur s) = Some (t @ r)"
    and "length p + length t < CMDBUFSIZ" "n + length p + length t < len"
    and "take 5 (p @ t) = take (length p + length t) ssi_tag"
  shows "ssi_loop S ctx uri s mem n len w =
    ssi_loop S ctx uri (set_cur ((cur s)\<lparr>ssi_buf := overwrite (ssi_buf (cur s)) (length p) t,
        ssi_nbuf := length p + length t, ssi_fp := Some r\<rparr>) s) mem n len w"
  using assms
proof (induction t arbitrary: s p)
  case Nil
  then show ?case by (simp add: same_inc)
next
  case (Cons ch t)
  let ?s = "set_fp (Some (t @ r)) s"
  let ?i1 = "(cur s)\<lparr>ssi_fp := Some (t @ r), ssi_buf := (ssi_buf (cur s))[length p := ch], ssi_nbuf := length p + 1\<rparr>"
  have c: "ssi_incs ?s ! ssi_nest s = (cur s)\<lparr>ssi_fp := Some (t @ r)\<rparr>" "ssi_nest ?s = ssi_nest s"
    using Cons.prems(1,2) by (simp_all add: set_fp_def set_cur_def)
  have b: "take (length p) (ssi_buf (cur s)) = p" "length p < length (ssi_buf (cur s))"
    using Cons.prems by simp_all
  have pb: "take (Suc (length p)) ((ssi_buf (cur s))[length p := ch]) = p @ [ch]"
    using push_buf [OF b(1) refl b(2)] .
  have tag: "length p + 1 \<le> 5 \<Longrightarrow> p @ [ch] = take (length p + 1) ssi_tag"
  proof -
    assume l: "length p + 1 \<le> 5"
    have "p @ [ch] = take (length p + 1) (take 5 (p @ ch # t))" using l by (simp add: min_def)
    also have "\<dots> = take (length p + 1) (take (length p + length (ch # t)) ssi_tag)"
      by (simp only: Cons.prems(11))
    also have "\<dots> = take (length p + 1) ssi_tag" by (simp add: min_def)
    finally show ?thesis .
  qed
  have nc: "ch \<noteq> CHR ''>''" using Cons.prems(7) by auto
  have ch: "ssi_char S ctx uri ch ?s mem n len w = Some (set_cur ?i1 s, mem, n, w)"
    using Cons.prems nc pb tag
    by (auto simp: ssi_char_def Let_def nth_set_cur push_char_def ssi_tag_def set_fp_def)
  have "ssi_loop S ctx uri s mem n len w = (case ssi_char S ctx uri ch ?s mem n len w of
       None \<Rightarrow> None | Some (s1, m1, n1, w1) \<Rightarrow> ssi_loop S ctx uri s1 m1 n1 len w1)"
    by (rule ssi_loop_char) (use Cons.prems in simp_all)
  then have step: "ssi_loop S ctx uri s mem n len w = ssi_loop S ctx uri (set_cur ?i1 s) mem n len w"
    by (simp only: ch option.case prod.case)
  have ci: "cur (set_cur ?i1 s) = ?i1" using Cons.prems(1,2) by (simp add: set_cur_def)
  have "ssi_loop S ctx uri (set_cur ?i1 s) mem n len w =
      ssi_loop S ctx uri (set_cur ((cur (set_cur ?i1 s))\<lparr>ssi_buf := overwrite (ssi_buf (cur (set_cur ?i1 s))) (length (p @ [ch])) t,
        ssi_nbuf := length (p @ [ch]) + length t, ssi_fp := Some r\<rparr>) (set_cur ?i1 s)) mem n len w"
    by (rule Cons.IH) (use Cons.prems pb in \<open>simp_all add: nth_set_cur\<close>)
  also have "\<dots> = ssi_loop S ctx uri (set_cur ((cur s)\<lparr>ssi_buf := overwrite (ssi_buf (cur s)) (length p) (ch # t),
        ssi_nbuf := length p + length (ch # t), ssi_fp := Some r\<rparr>) s) mem n len w"
    using b(2) Cons.prems(1,2) by (simp add: nth_set_cur overwrite_push)
  finally show ?case using step by simp
qed

end
