(* ===== verification/Log.thy ===== *)
theory Log
  imports Sys
begin

text \<open>
  \<open>log.c\<close> of shttpd: the lines of the error log and of the access log (combined log format).
\<close>

text \<open>\<open>elog\<close>: the line in the error log, and whether the process exits.\<close>

definition E_FATAL :: u32 where "E_FATAL = 1"
definition E_LOG :: u32 where "E_LOG = 2"

definition elog_text :: "string \<Rightarrow> conn option \<Rightarrow> string \<Rightarrow> string" where
  "elog_text date c msg =
     (let addr = (case c of None \<Rightarrow> ''-'' | Some k \<Rightarrow> c_addr k);
          req = (case c of None \<Rightarrow> ''-'' | Some k \<Rightarrow> (case c_request k of None \<Rightarrow> ''-'' | Some r \<Rightarrow> cstr r));
          head = take (URI_MAX - 1) (''['' @ date @ ''] [error] [client '' @ addr @ ''] '' @ [DQ] @ req @ [DQ] @ '' '')
      in take (URI_MAX - 1) (head @ msg))"

definition elog :: "'w os \<Rightarrow> shttpd_ctx \<Rightarrow> u32 \<Rightarrow> conn option \<Rightarrow> string \<Rightarrow> 'w \<Rightarrow> bool \<times> 'w" where
  "elog S ctx fl c msg w =
     (let date = os_date S ''%a %b %d %H:%M:%S %Y'' (os_now S w);
          w1 = (if c \<noteq> None \<and> error_log ctx \<noteq> None \<and> has fl (or E_FATAL E_LOG)
                then os_log S w (elog_text date c msg) else w)
      in (has fl E_FATAL, w1))"

text \<open>\<open>%+05d\<close>.\<close>

definition signed5 :: "int \<Rightarrow> string" where
  "signed5 n = (let d = dec (nat \<bar>n\<bar>)
     in (if n < 0 then ''-'' else ''+'') @ replicate (4 - length d) CHR ''0'' @ d)"

definition or_dash :: "vec \<Rightarrow> string" where
  "or_dash v = (if vlen v = 0 then ''-'' else vbytes v)"

definition quoted_or_dash :: "vec \<Rightarrow> string" where
  "quoted_or_dash v = (if vlen v = 0 then ''-'' else [DQ] @ vbytes v @ [DQ])"

definition access_text :: "string \<Rightarrow> int \<Rightarrow> conn \<Rightarrow> string" where
  "access_text date tz c =
     take (URI_MAX - 1)
      (c_addr c @ '' - '' @ or_dash (h_user (c_ch c)) @ '' ['' @ date @ '' '' @ signed5 tz @ ''] '' @ [DQ] @
       (case c_request c of None \<Rightarrow> ''-'' | Some r \<Rightarrow> cstr r) @ [DQ] @ '' '' @ dec_int (c_status c) @ '' '' @
       dec (unat (io_total (sio (c_loc c)))) @ '' '' @ quoted_or_dash (h_referer (c_ch c)) @ '' '' @
       quoted_or_dash (h_useragent (c_ch c)))"

text \<open>\<open>tz_offset\<close> is 0 in this version.\<close>

definition log_access :: "'w os \<Rightarrow> conn \<Rightarrow> 'w \<Rightarrow> 'w" where
  "log_access S c w = os_log S w (access_text (os_date S ''%d/%b/%Y:%H:%M:%S'' (os_now S w)) 0 c)"

lemma access_text_bounded: "length (access_text date tz c) < URI_MAX"
  by (simp add: access_text_def URI_MAX_def)

lemma elog_text_bounded: "length (elog_text date c msg) < URI_MAX"
  by (simp add: elog_text_def Let_def URI_MAX_def)

end
