(* ===== verification/Server.thy ===== *)
theory Server
  imports CgiEnv Ssi Auth Log
begin

text \<open>
  \<open>shttpd.c\<close>: deciding what a parsed request is for (\<open>decide_what_to_do\<close> and its branches).
\<close>

section \<open>Paths\<close>

text \<open>The first index file that exists: the new path, its status, and the word of the list.\<close>

fun find_index :: "'w os \<Rightarrow> 'w \<Rightarrow> string \<Rightarrow> (string \<times> nat) list \<Rightarrow> (string \<times> stat \<times> string \<times> nat) option" where
  "find_index S w path [] = None"
| "find_index S w path ((s, len) # ws) =
     (let buf = cstr (snd (my_snprintf FILENAME_MAX (path @ ''/'' @ take len s)))
      in case os_stat S w buf of
           Some st \<Rightarrow> Some (buf, st, s, len)
         | None \<Rightarrow> find_index S w path ws)"

definition find_index_file ::
  "'w os \<Rightarrow> shttpd_ctx \<Rightarrow> conn \<Rightarrow> string \<Rightarrow> nat \<Rightarrow> 'w \<Rightarrow> (conn \<times> string \<times> stat) option" where
  "find_index_file S ctx c path maxpath w =
     (case find_index S w path (FOR_EACH_WORD (index_files ctx)) of
        None \<Rightarrow> None
      | Some (buf, st, s, len) \<Rightarrow>
          Some (c\<lparr>mime_type := Some (get_mime_type ctx s (int len))\<rparr>, cstr (my_strlcpy buf maxpath), st))"

text \<open>\<open>get_path_info\<close>: \<open>k\<close> runs from the end of the path down to \<open>e\<close>.\<close>

fun path_info_at :: "'w os \<Rightarrow> 'w \<Rightarrow> string \<Rightarrow> nat \<Rightarrow> nat \<Rightarrow> (string \<times> string \<times> stat) option" where
  "path_info_at S w path e 0 = None"
| "path_info_at S w path e (Suc k) =
     (if Suc k \<le> e then None
      else if chat path (Suc k) = CHR ''/'' then
        (case os_stat S w (take (Suc k) path) of
           Some st \<Rightarrow> if \<not> st_dir st then Some (take (Suc k) path, drop (Suc k + 1) path, st)
                      else path_info_at S w path e k
         | None \<Rightarrow> path_info_at S w path e k)
      else path_info_at S w path e k)"

definition get_path_info ::
  "'w os \<Rightarrow> shttpd_ctx \<Rightarrow> conn \<Rightarrow> string \<Rightarrow> 'w \<Rightarrow> (conn \<times> string \<times> stat) option" where
  "get_path_info S ctx c path w =
     (case os_stat S w path of
        Some st \<Rightarrow> Some (c, path, st)
      | None \<Rightarrow>
          map_option (\<lambda>(p, info, st). (c\<lparr>path_info := Some info\<rparr>, p, st))
            (path_info_at S w path (length (str_of (document_root ctx)) + 2) (length path)))"

section \<open>Deciding what to do\<close>

definition auth_request_text :: "shttpd_ctx \<Rightarrow> int \<Rightarrow> string" where
  "auth_request_text ctx now =
     cstr (snd (my_snprintf 512
       (''Unauthorized'' @ crlf @ ''WWW-Authenticate: Digest qop='' @ [DQ] @ ''auth'' @ [DQ] @ '', realm='' @ [DQ] @
        str_of (auth_realm ctx) @ [DQ] @ '', nonce='' @ [DQ] @ dec (unat (word_of_int now :: u64)) @ [DQ])))"

definition send_authorization_request :: "'w os \<Rightarrow> shttpd_ctx \<Rightarrow> conn \<Rightarrow> 'w \<Rightarrow> (conn \<times> 'w) option" where
  "send_authorization_request S ctx c w =
     send_server_error S ctx 401 (auth_request_text ctx (os_now S w)) c w"

text \<open>PUT, once authorised.\<close>

definition put_request :: "'w os \<Rightarrow> shttpd_ctx \<Rightarrow> string \<Rightarrow> conn \<Rightarrow> 'w \<Rightarrow> (conn \<times> 'w) option" where
  "put_request S ctx path c w =
     (let c1 = c\<lparr>c_status := (if os_stat S w path \<noteq> None then 200 else 201)\<rparr>
      in if 0 < vlen (h_range (c_ch c1)) then send_server_error S ctx 501 ''PUT Range Not Implemented'' c1 w
         else case put_dir S path w of
                None \<Rightarrow> None
              | Some (rc, w1) \<Rightarrow>
                  if rc = 0 then send_server_error S ctx 200 ''OK'' c1 w1
                  else if rc = -1 then send_server_error S ctx 500 ''PUT Directory Error'' c1 w1
                  else if content_len (c_rem c1) = 0 then send_server_error S ctx 411 ''Length Required'' c1 w1
                  else let (fd, w2) = os_open S w1 path True;
                           c2 = c1\<lparr>c_loc := (c_loc c1)\<lparr>chan := (chan (c_loc c1))\<lparr>ch_fd := fd\<rparr>\<rparr>\<rparr>
                       in if fd = -1 then send_server_error S ctx 500 ''PUT Error'' c2 w2
                          else Some (c2\<lparr>c_loc := flag_on (or FLAG_W FLAG_ALWAYS_READY)
                                          ((c_loc c2)\<lparr>io_cls := Some IO_FILE\<rparr>)\<rparr>, w2))"

definition delete_request :: "'w os \<Rightarrow> shttpd_ctx \<Rightarrow> string \<Rightarrow> conn \<Rightarrow> 'w \<Rightarrow> (conn \<times> 'w) option" where
  "delete_request S ctx path c w =
     (let (ok, w1) = os_remove S w path
      in if ok then send_server_error S ctx 200 ''OK'' c w1
         else send_server_error S ctx 500 ''DELETE Error'' c w1)"

text \<open>Opening a file for reading as the local channel.\<close>

definition open_local :: "'w os \<Rightarrow> string \<Rightarrow> conn \<Rightarrow> 'w \<Rightarrow> int \<times> conn \<times> 'w" where
  "open_local S path c w =
     (let (fd, w1) = os_open S w path False
      in (fd, c\<lparr>c_loc := (c_loc c)\<lparr>chan := (chan (c_loc c))\<lparr>ch_fd := fd\<rparr>\<rparr>\<rparr>, w1))"

text \<open>The file named by the path: CGI program, include file, or plain file.\<close>

definition serve_file :: "'w os \<Rightarrow> shttpd_ctx \<Rightarrow> string \<Rightarrow> stat \<Rightarrow> conn \<Rightarrow> 'w \<Rightarrow> (conn \<times> 'w) option" where
  "serve_file S ctx path st c w =
     (if match_extension path (cgi_extensions ctx) then
        (if c_method c \<noteq> METHOD_POST \<and> c_method c \<noteq> METHOD_GET
         then send_server_error S ctx 501 ''Bad method '' c w
         else case run_cgi S ctx (os_stack S) path c w of
                None \<Rightarrow> None
              | Some (r, c1, w1) \<Rightarrow>
                  if r = -1 then send_server_error S ctx 500 ''Cannot exec CGI'' c1 w1
                  else map_option (\<lambda>c2. (c2, w1)) (do_cgi c1))
      else if match_extension path (ssi_extensions ctx) then
        (let (fd, c1, w1) = open_local S path c w
         in if fd = -1 then send_server_error S ctx 500 ''SSI open error'' c1 w1 else do_ssi S c1 w1)
      else if h_ims (c_ch c) \<noteq> 0 \<and> st_mtime st \<le> h_ims (c_ch c)
      then send_server_error S ctx 304 ''Not Modified'' c w
      else let (fd, c1, w1) = open_local S path c w
           in if fd \<noteq> -1 then get_file S ctx st c1 w1
              else send_server_error S ctx 500 ''Internal Error'' c1 w1)"

definition get_request :: "'w os \<Rightarrow> shttpd_ctx \<Rightarrow> string \<Rightarrow> conn \<Rightarrow> 'w \<Rightarrow> (conn \<times> 'w) option" where
  "get_request S ctx path0 c0 w =
     (case get_path_info S ctx c0 path0 w of
        None \<Rightarrow> send_server_error S ctx 404 ''Not Found'' c0 w
      | Some (c, path, st) \<Rightarrow>
          if st_dir st \<and> chat path (length path - 1) \<noteq> CHR ''/''
          then send_server_error S ctx 301
                 (cstr (snd (my_snprintf 1024
                    (''Moved Permanently'' @ crlf @ ''Location: '' @ str_of (c_uri c) @ ''/'')))) c w
          else let idx = (if st_dir st then find_index_file S ctx c path (URI_MAX - 1) w else None)
               in if st_dir st \<and> idx = None \<and> dirlist ctx = 0
                  then send_server_error S ctx 403 ''Directory Listing Denied'' c w
                  else let (c1, path1, st1) = (case idx of Some r \<Rightarrow> r | None \<Rightarrow> (c, path, st))
                       in if st_dir st1 \<and> dirlist ctx \<noteq> 0
                          then get_dir S ctx
                                 (c1\<lparr>c_loc := (c_loc c1)\<lparr>chan := (chan (c_loc c1))\<lparr>ch_path := Some path1\<rparr>\<rparr>\<rparr>) w
                          else if st_dir st1 \<and> dirlist ctx = 0
                          then send_server_error S ctx 403 ''Directory listing denied'' c1 w
                          else serve_file S ctx path1 st1 c1 w)"

text \<open>The query is cut off, the URI decoded and cleaned in place; the result is the new URI and the
  bytes that can be read from it on.\<close>

definition split_query :: "string \<Rightarrow> string \<times> string option" where
  "split_query uri = (takeWhile (\<lambda>c. c \<noteq> CHR ''?'') uri, map_option tl (strchr uri CHR ''?''))"

definition clean_uri :: "char list \<Rightarrow> string \<Rightarrow> (string \<times> char list) option" where
  "clean_uri heap uri0 =
     (let u = fst (split_query uri0);
          block = overwrite (uri0 @ [NUL]) (length u) [NUL]
      in case url_decode (block @ heap) (length u) (int (length u) + 1) of
           None \<Rightarrow> None
         | Some (k, d) \<Rightarrow>
             let b1 = overwrite block 0 d; u1 = remove_double_dots (cstr d)
             in Some (u1, overwrite b1 0 (u1 @ [NUL]) @ heap))"

definition file_path :: "shttpd_ctx \<Rightarrow> string \<Rightarrow> string" where
  "file_path ctx uri =
     (case is_alias (ctx_aliases ctx) uri of
        None \<Rightarrow> cstr (snd (my_snprintf URI_MAX (str_of (document_root ctx) @ uri)))
      | Some (a_uri, a_path) \<Rightarrow> cstr (snd (my_snprintf URI_MAX (a_path @ drop (length a_uri) uri))))"

definition dispatch :: "'w os \<Rightarrow> shttpd_ctx \<Rightarrow> char list \<Rightarrow> string \<Rightarrow> conn \<Rightarrow> 'w \<Rightarrow> (conn \<times> 'w) option" where
  "dispatch S ctx uri_mem path c w =
     (case is_registered_uri (registered_uris ctx) uri_mem of
        None \<Rightarrow> None
      | Some (Some (pat, f, d)) \<Rightarrow> Some (setup_embedded_stream f d c, w)
      | Some None \<Rightarrow>
          if strstr path HTPASSWD then send_server_error S ctx 403 ''Forbidden'' c w
          else do {
            (ok, c1, w1) \<leftarrow> (if c_method c = METHOD_PUT \<or> c_method c = METHOD_DELETE
                        then (if put_auth_file ctx = None then Some (False, c, w)
                              else is_authorized_for_put S ctx c w)
                        else Some (True, c, w));
            if \<not> ok then send_authorization_request S ctx c1 w1
            else if c_method c1 = METHOD_PUT then put_request S ctx path c1 w1
            else if c_method c1 = METHOD_DELETE then delete_request S ctx path c1 w1
            else get_request S ctx path c1 w1
          })"

definition decide_what_to_do :: "'w os \<Rightarrow> shttpd_ctx \<Rightarrow> conn \<Rightarrow> 'w \<Rightarrow> (conn \<times> 'w) option" where
  "decide_what_to_do S ctx c w =
     (let uri0 = str_of (c_uri c)
      in case clean_uri (os_heap S) uri0 of
           None \<Rightarrow> None
         | Some (uri, mem) \<Rightarrow>
             let c1 = c\<lparr>c_query := snd (split_query uri0), c_uri := Some uri\<rparr>
             in if URI_MAX \<le> length uri + length (str_of (document_root ctx))
                then send_server_error S ctx 400 ''URI is too long'' c1 w
                else let path = file_path ctx uri
                     in case check_authorization S ctx c1 path w of
                          None \<Rightarrow> None
                        | Some (False, c2, w2) \<Rightarrow> send_authorization_request S ctx c2 w2
                        | Some (True, c2, w2) \<Rightarrow> dispatch S ctx mem path c2 w2)"

end
