(* ===== verification/Request.thy ===== *)
theory Request
  imports Server
begin

text \<open>
  \<open>parse_http_request\<close> of \<open>shttpd.c\<close>. The copy of the request is kept as memory of \<open>req_len + 1\<close>
  bytes; the headers and the parts of the request line are offsets in it. \<open>None\<close> is a failed
  assertion or a null pointer that is read.
\<close>

section \<open>The request line\<close>

definition MIN_REQ :: int where "MIN_REQ = int MIN_REQ_LEN"

text \<open>The line ends at its first newline: that byte and a carriage return before it become NUL.
  The second component is the offset of the headers.\<close>

definition cut_line :: "char list \<Rightarrow> (char list \<times> nat) option" where
  "cut_line req =
     (let h = length (takeWhile (\<lambda>c. c \<noteq> LF) req)
      in if length req \<le> h then None
         else let r1 = (if 0 < h \<and> req ! (h - 1) = CR then req[h - 1 := NUL] else req)
              in Some (r1[h := NUL], h + 1))"

text \<open>Offsets of the URI, its end, and the version, in the first \<open>e\<close> bytes.\<close>

definition line_parts :: "char list \<Rightarrow> nat \<times> nat \<times> nat" where
  "line_parts m =
     (let p0 = length (takeWhile (\<lambda>c. c \<noteq> CHR '' '') m);
          p1 = p0 + length (takeWhile (\<lambda>c. c = CHR '' '') (drop p0 m));
          p2 = p1 + length (takeWhile (\<lambda>c. \<not> isspace c) (drop p1 m));
          p3 = p2 + length (takeWhile (\<lambda>c. c = CHR '' '') (drop p2 m))
      in (p1, p2, p3))"

text \<open>\<open>HTTP/<major>.<minor>\<close>: the connection with the numbers read so far, and the error if any.\<close>

definition parse_version :: "string \<Rightarrow> conn \<Rightarrow> conn \<times> (int \<times> string) option" where
  "parse_version s c =
     (if \<not> prefixb ''HTTP/'' s then (c, Some (400, ''Bad HTTP version''))
      else let p = drop 5 s; (ma, k) = strtoul p; c1 = c\<lparr>major_version := ma\<rparr>
           in if k = 0 \<or> chat p k \<noteq> CHR ''.'' then (c1, Some (400, ''Bad HTTP major version''))
              else let q = drop (k + 1) p; (mi, l) = strtoul q; c2 = c1\<lparr>minor_version := mi\<rparr>
                   in if l = 0 \<or> chat q l \<noteq> NUL then (c2, Some (400, ''Bad HTTP minor version''))
                      else if 1 < ma \<or> ma = 1 \<and> 1 < mi then (c2, Some (505, ''HTTP version not supported''))
                      else (c2, None))"

section \<open>The whole request\<close>

text \<open>The method and the copy of the request, or an error reply.\<close>

definition start_request :: "'w os \<Rightarrow> shttpd_ctx \<Rightarrow> int \<Rightarrow> conn \<Rightarrow> 'w \<Rightarrow> (conn \<times> 'w) option" where
  "start_request S ctx req_len c w =
     (let i = sio (c_rem c)
      in if req_len < MIN_REQ then send_server_error S ctx 400 ''Bad request'' c w
         else if io_head i < MIN_REQ_LEN then None
         else case set_request_method (io_buf i) of
                None \<Rightarrow> send_server_error S ctx 501 ''Method Not Implemented'' c w
              | Some m \<Rightarrow>
                  Some (c\<lparr>c_method := m, c_request := Some (my_strlcpy (io_buf i) (nat req_len + 1))\<rparr>, w))"

text \<open>The headers, once the line is accepted: counters, content length, and the decision.\<close>

definition accept_request ::
  "'w os \<Rightarrow> shttpd_ctx \<Rightarrow> nat \<Rightarrow> string \<Rightarrow> char list \<Rightarrow> nat \<Rightarrow> conn \<Rightarrow> 'w \<Rightarrow> (conn \<times> 'w) option" where
  "accept_request S ctx req_len uri m hdr c w =
     (let ch = parse_headers (os_mktime S) (drop hdr m) (req_len - hdr) (c_ch c);
          i = sio (c_rem c)
      in if io_total i < of_nat req_len then None
         else do {
           i1 \<leftarrow> io_inc_tail (i\<lparr>io_total := io_total i - of_nat req_len\<rparr>) req_len;
           decide_what_to_do S ctx
             (c\<lparr>c_uri := Some uri, c_ch := ch, c_rem := (c_rem c)\<lparr>sio := i1, content_len := h_cl ch\<rparr>\<rparr>) w
         })"

definition parse_request_line ::
  "'w os \<Rightarrow> shttpd_ctx \<Rightarrow> nat \<Rightarrow> char list \<Rightarrow> conn \<Rightarrow> 'w \<Rightarrow> (conn \<times> 'w) option" where
  "parse_request_line S ctx req_len req c w =
     (case cut_line (take req_len req) of
        None \<Rightarrow> None
      | Some (m0, hdr) \<Rightarrow>
          let m = m0 @ drop req_len req; (p1, p2, p3) = line_parts m0;
              (c1, e) = parse_version (cstr (drop p3 m))
                          (c\<lparr>c_rem := flag_on FLAG_HEADERS_PARSED (c_rem c), c_request := Some m, c_headers := hdr\<rparr>)
          in case e of
               Some (st, reason) \<Rightarrow> send_server_error S ctx st reason c1 w
             | None \<Rightarrow>
                 if p2 - p1 = 0 then send_server_error S ctx 400 ''Bad URI'' c1 w
                 else accept_request S ctx req_len (my_strndup (drop p1 m) (p2 - p1)) m hdr c1 w)"

definition parse_http_request :: "'w os \<Rightarrow> shttpd_ctx \<Rightarrow> conn \<Rightarrow> 'w \<Rightarrow> (conn \<times> 'w) option" where
  "parse_http_request S ctx c w =
     (let i = sio (c_rem c); req_len = get_headers_len (take (io_head i) (io_buf i));
          c0 = c\<lparr>c_rem := (c_rem c)\<lparr>headers_len := req_len\<rparr>\<rparr>
      in if req_len = 0 then do {
           room \<leftarrow> io_space_len i;
           if room = 0 then send_server_error S ctx 400 ''Request is too big'' c0 w else Some (c0, w)
         }
         else do {
           (c1, w1) \<leftarrow> start_request S ctx req_len c0 w;
           if flagged (c_loc c1) FLAG_CLOSED then Some (c1, w1)
           else if req_len < 0 then None
           else case c_request c1 of
                  None \<Rightarrow> None
                | Some req \<Rightarrow> parse_request_line S ctx (nat req_len) req c1 w1
         })"

section \<open>A request as a client writes it\<close>

definition request_line :: "http_method \<Rightarrow> string \<Rightarrow> nat \<Rightarrow> string" where
  "request_line m uri v = method_name m @ '' '' @ uri @ '' HTTP/1.'' @ dec v"

definition request_text :: "http_method \<Rightarrow> string \<Rightarrow> nat \<Rightarrow> (string \<times> string) list \<Rightarrow> string" where
  "request_text m uri v hs = request_line m uri v @ crlf @ render_headers hs @ crlf"

definition uri_ok :: "string \<Rightarrow> bool" where
  "uri_ok uri \<longleftrightarrow> uri \<noteq> [] \<and> (\<forall>c \<in> set uri. \<not> bad_char c \<and> \<not> isspace c)"

definition header_ok :: "string \<times> string \<Rightarrow> bool" where
  "header_ok p \<longleftrightarrow> hdr_name (fst p) \<and> hdr_value (snd p) \<and> (\<forall>c \<in> set (fst p) \<union> set (snd p). \<not> bad_char c)"

lemma isspace_LF: "isspace LF" "isspace CR" "isspace CHR '' ''" by (simp_all add: isspace_def)

lemma method_chars: "c \<in> set (method_name m) \<Longrightarrow> \<not> bad_char c \<and> c \<noteq> CHR '' '' \<and> c \<noteq> LF \<and> c \<noteq> CR \<and> c \<noteq> NUL"
  by (cases m) (auto simp: bad_char_def isprint_def)

lemma dec_version: "v \<le> 1 \<Longrightarrow> dec v = [digit_char v]"
  by (subst dec.simps) simp

lemma digit_char_01: "digit_char 0 = CHR ''0''" "digit_char (Suc 0) = CHR ''1''"
  by (simp_all add: digit_char_def char_of_def bit_Suc_0_iff)

lemma version_char: "v \<le> 1 \<Longrightarrow> digit_char v = CHR ''0'' \<or> digit_char v = CHR ''1''"
  by (cases v) (auto simp: digit_char_01)

lemma request_line_text:
  assumes "uri_ok uri" "v \<le> 1"
  shows "text_line (request_line m uri v)"
proof -
  have "\<not> bad_char c \<and> c \<noteq> LF \<and> c \<noteq> CR" if "c \<in> set uri" for c
    using assms(1) that isspace_LF by (auto simp: uri_ok_def)
  then show ?thesis
    using method_chars [of _ m] version_char [OF assms(2)]
    by (auto simp: text_line_def request_line_def dec_version [OF assms(2)] bad_char_def isprint_def)
qed

lemma header_text: "header_ok p \<Longrightarrow> text_line (fst p @ '': '' @ snd p)"
  by (auto simp: header_ok_def text_line_def hdr_name_def hdr_value_def bad_char_def isprint_def)

lemma request_lines:
  "request_text m uri v hs =
    concat (map (\<lambda>l. l @ crlf) (request_line m uri v # map (\<lambda>p. fst p @ '': '' @ snd p) hs)) @ crlf"
proof -
  have "render_line = (\<lambda>p. (fst p @ '': '' @ snd p) @ crlf)" by (rule ext) (simp add: render_line_def)
  then show ?thesis by (simp add: request_text_def render_headers_def comp_def)
qed

lemma get_headers_len_request:
  assumes "uri_ok uri" "v \<le> 1" "list_all header_ok hs"
  shows "get_headers_len (request_text m uri v hs @ body) = int (length (request_text m uri v hs))"
proof -
  let ?ls = "request_line m uri v # map (\<lambda>p. fst p @ '': '' @ snd p) hs"
  have "list_all text_line ?ls"
    using request_line_text [OF assms(1,2)] assms(3) header_text by (auto simp: list_all_iff)
  from hdr_scan_block [OF this, of body 0] show ?thesis
    unfolding get_headers_len_def request_lines by simp
qed

lemma request_no_NUL:
  assumes "uri_ok uri" "v \<le> 1" "list_all header_ok hs"
  shows "NUL \<notin> set (request_text m uri v hs)"
proof -
  have b: "bad_char NUL" by (simp add: bad_char_def isprint_def)
  have "NUL \<notin> set (request_line m uri v)"
    using request_line_text [OF assms(1,2)] b unfolding text_line_def by blast
  moreover have "NUL \<notin> set (fst p @ '': '' @ snd p)" if "p \<in> set hs" for p
    using header_text [of p] assms(3) that b unfolding text_line_def list_all_iff by blast
  ultimately show ?thesis unfolding request_lines by auto
qed

lemma my_strlcpy_prefix: "NUL \<notin> set a \<Longrightarrow> my_strlcpy (a @ r) (length a + 1) = a @ [NUL]"
  by (induction a) (auto, cases r, auto)

lemma my_strndup_prefix: "NUL \<notin> set a \<Longrightarrow> my_strndup (a @ r) (length a) = a"
  using my_strlcpy_prefix [of a r] by (simp add: my_strndup_def)

lemma set_request_method_text: "set_request_method (method_name m @ '' '' @ r) = Some m"
  by (cases m) (simp_all add: set_request_method_def known_http_methods_def)

section \<open>Its parts are found\<close>

lemma cut_line_text:
  assumes "text_line l"
  shows "cut_line (l @ crlf @ r) = Some (l @ [NUL, NUL] @ r, length l + 2)"
proof -
  have "takeWhile (\<lambda>c. c \<noteq> LF) (l @ crlf @ r) = l @ [CR]"
    using takeWhile_neq_app [of LF "l @ [CR]" r] assms by (auto simp: text_line_def)
  then show ?thesis by (simp add: cut_line_def Let_def nth_append list_update_append)
qed

lemma line_parts_text:
  assumes "uri_ok uri"
  shows "line_parts (method_name m @ '' '' @ uri @ '' H'' @ r) =
    (length (method_name m) + 1, length (method_name m) + 1 + length uri, length (method_name m) + 1 + length uri + 1)"
proof -
  let ?m = "method_name m" and ?u = "uri @ '' H'' @ r"
  obtain x t where x: "uri = x # t" "\<not> isspace x" using assms by (cases uri) (auto simp: uri_ok_def)
  then have xs: "x \<noteq> CHR '' ''" using isspace_LF by auto
  have p0: "length (takeWhile (\<lambda>c. c \<noteq> CHR '' '') (?m @ '' '' @ ?u)) = length ?m"
    using takeWhile_neq_app [of "CHR '' ''" ?m ?u] method_chars [of _ m] by auto
  have d1: "drop (length ?m) (?m @ '' '' @ ?u) = CHR '' '' # ?u" by simp
  have s1: "takeWhile (\<lambda>c. c = CHR '' '') (CHR '' '' # ?u) = [CHR '' '']" using x(1) xs by simp
  have d2: "drop (length ?m + 1) (?m @ '' '' @ ?u) = ?u" by simp
  have s2: "takeWhile (\<lambda>c. \<not> isspace c) ?u = uri"
    using assms isspace_LF by (auto simp: uri_ok_def takeWhile_append2)
  have d3: "drop (length ?m + 1 + length uri) (?m @ '' '' @ ?u) = '' H'' @ r" by simp
  have e: "length '' '' = 1" by simp_all
  have s3: "takeWhile (\<lambda>c. c = CHR '' '') ('' H'' @ r) = [CHR '' '']" by simp
  show ?thesis
    unfolding line_parts_def Let_def p0 d1 s1 e d2 s2 d3 s3 by (rule refl)
qed

lemma parse_version_text:
  assumes "v \<le> 1"
  shows "parse_version (''HTTP/1.'' @ dec v) c = (c\<lparr>major_version := 1, minor_version := of_nat v\<rparr>, None)"
proof -
  have d: "dec (Suc 0) = ''1''" by (simp add: dec_version digit_char_01)
  have ma: "strtoul (''1.'' @ dec v) = (1, 1)"
    using strtoul_dec [of 1 "''.'' @ dec v"] by (simp add: d isdigit_def)
  have mi: "strtoul (dec v) = (of_nat v, 1)"
    using strtoul_dec [of v "[]"] assms by (simp add: dec_version)
  have w: "of_nat v \<le> (1 :: u64)" using assms by (cases v) auto
  have "drop 5 (''HTTP/1.'' @ dec v) = ''1.'' @ dec v" by simp
  then show ?thesis using ma mi w
    by (simp add: parse_version_def Let_def dec_version [OF assms] prod.case_eq_if)
qed

lemma parse_request_line_text:
  fixes m :: http_method
  assumes u: "uri_ok uri" and v: "v \<le> 1" and hs: "list_all header_ok hs"
  defines "t \<equiv> request_text m uri v hs"
  shows "parse_request_line S ctx (length t) (t @ [NUL]) c w =
    accept_request S ctx (length t) uri (request_line m uri v @ [NUL, NUL] @ render_headers hs @ crlf @ [NUL])
      (length (request_line m uri v) + 2)
      (c\<lparr>c_rem := flag_on FLAG_HEADERS_PARSED (c_rem c),
         c_request := Some (request_line m uri v @ [NUL, NUL] @ render_headers hs @ crlf @ [NUL]),
         c_headers := length (request_line m uri v) + 2, major_version := 1, minor_version := of_nat v\<rparr>) w"
proof -
  let ?l = "request_line m uri v" and ?r = "render_headers hs @ crlf" and ?n = "length (method_name m)"
  have "take (length t) (t @ [NUL]) = ?l @ crlf @ ?r" by (simp only: take_append) (simp add: t_def request_text_def)
  then have c: "cut_line (take (length t) (t @ [NUL])) = Some (?l @ [NUL, NUL] @ ?r, length ?l + 2)"
    using cut_line_text [OF request_line_text [OF u v], of m ?r] by (simp only:)
  have m0: "?l @ [NUL, NUL] @ ?r = method_name m @ '' '' @ uri @ '' H'' @ (''TTP/1.'' @ dec v @ [NUL, NUL] @ ?r)"
    by (simp add: request_line_def)
  have p: "line_parts (?l @ [NUL, NUL] @ ?r) = (?n + 1, ?n + 1 + length uri, ?n + 1 + length uri + 1)"
    unfolding m0 by (rule line_parts_text [OF u])
  have m: "(?l @ [NUL, NUL] @ ?r) @ [NUL] = (method_name m @ '' '' @ uri @ '' '') @ (''HTTP/1.'' @ dec v @ NUL # (NUL # ?r @ [NUL]))"
    by (simp add: request_line_def)
  have "drop (?n + 1 + length uri + 1) ((?l @ [NUL, NUL] @ ?r) @ [NUL]) = ''HTTP/1.'' @ dec v @ NUL # (NUL # ?r @ [NUL])"
    unfolding m by simp
  moreover have "NUL \<notin> set (''HTTP/1.'' @ dec v)" using version_char [OF v] by (auto simp: dec_version [OF v])
  ultimately have s: "cstr (drop (?n + 1 + length uri + 1) ((?l @ [NUL, NUL] @ ?r) @ [NUL])) = ''HTTP/1.'' @ dec v"
    using cstr_append_NUL [of "''HTTP/1.'' @ dec v" "NUL # ?r @ [NUL]"] by simp
  have "drop (?n + 1) ((?l @ [NUL, NUL] @ ?r) @ [NUL]) = uri @ ('' '' @ ''HTTP/1.'' @ dec v @ NUL # (NUL # ?r @ [NUL]))"
    unfolding m by simp
  moreover have "NUL \<notin> set uri" using u by (auto simp: uri_ok_def bad_char_def isprint_def)
  ultimately have d: "my_strndup (drop (?n + 1) ((?l @ [NUL, NUL] @ ?r) @ [NUL])) (?n + 1 + length uri - (?n + 1)) = uri"
    using my_strndup_prefix by simp
  have e: "(t @ [NUL]) = t @ [NUL]" "drop (length t) (t @ [NUL]) = [NUL]" by simp_all
  have z: "?n + 1 + length uri - (?n + 1) \<noteq> 0" using u by (simp add: uri_ok_def)
  show ?thesis
    unfolding parse_request_line_def c option.case prod.case Let_def e(2) p s parse_version_text [OF v]
    using z d by (simp del: append_assoc) simp
qed

text \<open>What the parser leaves alone.\<close>

definition same_link :: "conn \<Rightarrow> conn \<Rightarrow> bool" where
  "same_link c c' \<longleftrightarrow> io_cls (c_rem c') = io_cls (c_rem c) \<and> chan (c_rem c') = chan (c_rem c) \<and>
     flagged (c_rem c') FLAG_CLOSED = flagged (c_rem c) FLAG_CLOSED \<and>
     io_size (sio (c_rem c')) = io_size (sio (c_rem c)) \<and> c_ssi c' = c_ssi c \<and> mime_type c' = mime_type c"

lemma request_parsed:
  assumes "uri_ok uri" "v \<le> 1" "list_all header_ok hs"
    and i: "io_ok (sio (c_rem c))" "io_tail (sio (c_rem c)) = 0"
      "io_content (sio (c_rem c)) = request_text m uri v hs @ body"
      "io_total (sio (c_rem c)) = of_nat (length (request_text m uri v hs @ body))"
    and "\<not> flagged (c_loc c) FLAG_CLOSED"
  shows "\<exists>c'. parse_http_request S ctx c w = decide_what_to_do S ctx c' w \<and>
    c_method c' = m \<and> c_uri c' = Some uri \<and> major_version c' = 1 \<and> minor_version c' = of_nat v \<and>
    c_ch c' = parse_headers (os_mktime S) (render_headers hs @ crlf @ [NUL]) (length (render_headers hs)) (c_ch c) \<and>
    content_len (c_rem c') = h_cl (c_ch c') \<and> flagged (c_rem c') FLAG_HEADERS_PARSED \<and> c_loc c' = c_loc c \<and>
    io_ok (sio (c_rem c')) \<and> io_content (sio (c_rem c')) = body \<and> io_total (sio (c_rem c')) = of_nat (length body) \<and>
    same_link c c'"
proof -
  define t where "t = request_text m uri v hs"
  let ?l = "request_line m uri v" and ?r = "render_headers hs @ crlf @ [NUL]"
  let ?i = "sio (c_rem c)"
  have n: "NUL \<notin> set t" unfolding t_def by (rule request_no_NUL [OF assms(1-3)])
  have b0: "take (io_head ?i) (io_buf ?i) = t @ body" using i by (simp add: t_def io_content_def)
  moreover have "io_head ?i \<le> length (io_buf ?i)" using i(1) by (simp add: io_ok_def)
  ultimately have buf: "take (io_head ?i) (io_buf ?i) = t @ body" "io_head ?i = length (t @ body)"
    by (simp, metis length_append length_take min.absorb2)
  then obtain q where q: "io_buf ?i = t @ q" by (metis append.assoc append_take_drop_id)
  have hl: "get_headers_len (take (io_head ?i) (io_buf ?i)) = int (length t)"
    unfolding buf(1) t_def by (rule get_headers_len_request [OF assms(1-3)])
  have long: "16 \<le> length t"
    using assms(1) by (cases m) (auto simp: t_def request_text_def request_line_def uri_ok_def dec_version [OF assms(2)] Suc_le_eq)
  then have tne: "t \<noteq> []" by auto
  define c0 where "c0 = c\<lparr>c_rem := (c_rem c)\<lparr>headers_len := int (length t)\<rparr>\<rparr>"
  define c1 where "c1 = c0\<lparr>c_method := m, c_request := Some (t @ [NUL])\<rparr>"
  have sm: "set_request_method (io_buf ?i) = Some m"
    using set_request_method_text [of m] by (simp add: q t_def request_text_def request_line_def)
  have start: "start_request S ctx (int (length t)) c0 w = Some (c1, w)"
    using long buf(2) sm my_strlcpy_prefix [OF n, of q]
    by (simp add: start_request_def c0_def c1_def MIN_REQ_def MIN_REQ_LEN_def q)
  define c2 where "c2 = c1\<lparr>c_rem := flag_on FLAG_HEADERS_PARSED (c_rem c1), c_request := Some (?l @ [NUL, NUL] @ ?r),
      c_headers := length ?l + 2, major_version := 1, minor_version := of_nat v\<rparr>"
  have acc: "parse_http_request S ctx c w = accept_request S ctx (length t) uri (?l @ [NUL, NUL] @ ?r) (length ?l + 2) c2 w"
    using start hl long tne assms(8) parse_request_line_text [OF assms(1-3), where S = S and ctx = ctx and m = m and c = c1 and w = w]
    unfolding parse_http_request_def Let_def c0_def [symmetric] hl t_def [symmetric] c2_def
    by (simp add: c1_def c0_def)
  have k: "length t - (length ?l + 2) = length (render_headers hs) + 2" by (simp add: t_def request_text_def)
  have d: "drop (length ?l + 2) (?l @ [NUL, NUL] @ ?r) = ?r" by simp
  have hv: "\<forall>p \<in> set hs. hdr_name (fst p) \<and> hdr_value (snd p)" using assms(3) by (auto simp: list_all_iff header_ok_def)
  define ch where "ch = parse_headers (os_mktime S) ?r (length (render_headers hs)) (c_ch c)"
  have ph: "parse_headers (os_mktime S) (drop (length ?l + 2) (?l @ [NUL, NUL] @ ?r)) (length t - (length ?l + 2)) (c_ch c2) = ch"
    unfolding d k using parse_headers_end [OF hv, where r = "[NUL]"] by (simp add: ch_def c2_def c1_def c0_def)
  have sz: "length (t @ body) < 2 ^ 63" using i(1) buf(2) by (simp add: io_ok_def)
  have total: "io_total ?i = of_nat (length t + length body)" using i(4) by (simp add: t_def)
  have ua: "unat (of_nat (length t + length body) :: u64) = length t + length body" "unat (of_nat (length t) :: u64) = length t"
    using sz by (simp_all only: unsigned_of_nat) (simp_all add: take_bit_nat_eq_self)
  have tot: "\<not> io_total ?i < of_nat (length t)" "io_total ?i - of_nat (length t) = of_nat (length body)"
    unfolding total word_less_nat_alt ua by simp_all
  let ?j = "?i\<lparr>io_total := io_total ?i - of_nat (length t)\<rparr>"
  have "io_ok ?j" "io_content ?j = t @ body" using i by (simp_all add: io_ok_def io_content_def t_def)
  then obtain j where j: "io_inc_tail ?j (length t) = Some j" "io_ok j" "io_content j = body" "io_total j = of_nat (length body)"
    "io_size j = io_size ?i"
    using io_inc_tail_ok [of ?j "length t"] tot(2) by auto
  define c3 where "c3 = c2\<lparr>c_uri := Some uri, c_ch := ch, c_rem := (c_rem c2)\<lparr>sio := j, content_len := h_cl ch\<rparr>\<rparr>"
  have "sio (c_rem c2) = ?i" by (simp add: c2_def c1_def c0_def)
  then have "accept_request S ctx (length t) uri (?l @ [NUL, NUL] @ ?r) (length ?l + 2) c2 w = decide_what_to_do S ctx c3 w"
    using tot(1) j(1) unfolding accept_request_def ph Let_def c3_def by simp
  then show ?thesis using acc j
    by (intro exI [of _ c3])
      (simp add: c3_def c2_def c1_def c0_def ch_def same_link_def has_setf, simp add: has_def flag_bits)
qed

text \<open>C4: a request that is complete in the buffer, with any of the five methods, any URI without white
  space, HTTP 1.0 or 1.1 and any well-formed headers, is understood as it was meant: the server decides on
  exactly that method and URI with exactly those headers, and what is left in the buffer and in the byte
  counter is the body.\<close>

theorem parse_http_request_text:
  assumes "uri_ok uri" "v \<le> 1" "list_all header_ok hs"
    and i: "io_ok (sio (c_rem c))" "io_tail (sio (c_rem c)) = 0"
      "io_content (sio (c_rem c)) = request_text m uri v hs @ body"
      "io_total (sio (c_rem c)) = of_nat (length (request_text m uri v hs @ body))"
    and "\<not> flagged (c_loc c) FLAG_CLOSED"
  shows "\<exists>c'. parse_http_request S ctx c w = decide_what_to_do S ctx c' w \<and>
    c_method c' = m \<and> c_uri c' = Some uri \<and> major_version c' = 1 \<and> minor_version c' = of_nat v \<and>
    c_ch c' = parse_headers (os_mktime S) (render_headers hs @ crlf @ [NUL]) (length (render_headers hs)) (c_ch c) \<and>
    content_len (c_rem c') = h_cl (c_ch c') \<and> flagged (c_rem c') FLAG_HEADERS_PARSED \<and> c_loc c' = c_loc c \<and>
    io_ok (sio (c_rem c')) \<and> io_content (sio (c_rem c')) = body \<and> io_total (sio (c_rem c')) = of_nat (length body)"
  using request_parsed [OF assms, of S ctx w] by blast

definition request_conn :: "string \<Rightarrow> conn" where
  "request_conn d = (let c = new_conn (length d) ''127.0.0.1'' 4711 80 5 0 in
     c\<lparr>c_rem := (c_rem c)\<lparr>sio := (sio (c_rem c))\<lparr>io_buf := d, io_head := length d, io_total := of_nat (length d)\<rparr>\<rparr>\<rparr>)"

theorem parse_http_request_text_witness:
  "\<exists>c'. parse_http_request null_os zero_ctx
       (request_conn (request_text METHOD_PUT ''/a'' 1 [(''Host'', ''h'')] @ ''xy'')) () =
       decide_what_to_do null_os zero_ctx c' () \<and>
     c_method c' = METHOD_PUT \<and> c_uri c' = Some ''/a'' \<and> io_content (sio (c_rem c')) = ''xy''"
proof -
  let ?d = "request_text METHOD_PUT ''/a'' 1 [(''Host'', ''h'')] @ ''xy''"
  have u: "uri_ok ''/a''" by (simp add: uri_ok_def bad_char_def isspace_def isprint_def)
  have h: "list_all header_ok [(''Host'', ''h'')]"
    by (simp add: header_ok_def hdr_name_def hdr_value_def bad_char_def isspace_def isprint_def)
  have l: "length (request_text METHOD_PUT ''/a'' (Suc 0) [(''Host'', ''h'')]) < 1000"
    by (simp add: request_text_def request_line_def dec_version render_headers_def render_line_def)
  have i: "io_ok (sio (c_rem (request_conn ?d)))" "io_tail (sio (c_rem (request_conn ?d))) = 0"
    "io_content (sio (c_rem (request_conn ?d))) = ?d" "io_total (sio (c_rem (request_conn ?d))) = of_nat (length ?d)"
    "\<not> flagged (c_loc (request_conn ?d)) FLAG_CLOSED"
    using l by (simp_all add: request_conn_def new_conn_def stream0_def io_new_def io_ok_def io_content_def has_def Let_def)
  from parse_http_request_text [OF u _ h i, of null_os zero_ctx "()"] show ?thesis by auto
qed

end
