(* ===== verification/Exchange.thy ===== *)
theory Exchange
  imports Request
begin

text \<open>
  Moving data between the two streams of a connection (\<open>read_stream\<close>, \<open>write_stream\<close>) and ending
  it (\<open>disconnect\<close>), from \<open>shttpd.c\<close>. \<open>None\<close> is a failed assertion, a null pointer that is called, or
  a read that does not fit its buffer.
\<close>

section \<open>The methods of the I/O classes\<close>

definition io_read :: "'w os \<Rightarrow> shttpd_ctx \<Rightarrow> side \<Rightarrow> io_class \<Rightarrow> nat \<Rightarrow> conn \<Rightarrow> 'w \<Rightarrow> (int \<times> conn \<times> 'w) option" where
  "io_read S ctx sd k len c w =
     (case k of
        IO_FILE \<Rightarrow> read_file S sd len c w
      | IO_SOCKET \<Rightarrow> read_socket S sd len c w
      | IO_SSL \<Rightarrow> read_ssl S sd len c w
      | IO_CGI \<Rightarrow> read_cgi S ctx len c w
      | IO_DIR \<Rightarrow> read_dir S len c w
      | IO_EMBEDDED \<Rightarrow> map_option (\<lambda>(c1, w1). (0, c1, w1)) (do_embedded S c w)
      | IO_SSI \<Rightarrow> read_ssi S ctx len c w)"

definition has_write :: "io_class \<Rightarrow> bool" where
  "has_write k \<longleftrightarrow> k \<noteq> IO_DIR \<and> k \<noteq> IO_SSI"

definition io_write :: "'w os \<Rightarrow> side \<Rightarrow> io_class \<Rightarrow> char list \<Rightarrow> conn \<Rightarrow> 'w \<Rightarrow> (int \<times> conn \<times> 'w) option" where
  "io_write S sd k d c w =
     (case k of
        IO_FILE \<Rightarrow> write_file S d c w
      | IO_SOCKET \<Rightarrow> write_socket S sd d c w
      | IO_SSL \<Rightarrow> write_ssl S sd d c w
      | IO_CGI \<Rightarrow> write_cgi S d c w
      | IO_EMBEDDED \<Rightarrow> map_option (\<lambda>(c1, w1). (0, c1, w1)) (do_embedded S c w)
      | _ \<Rightarrow> None)"

section \<open>Reading\<close>

text \<open>Conversion of a \<open>size_t\<close> value to \<open>int\<close>.\<close>

definition c_int :: "nat \<Rightarrow> int" where
  "c_int n = sint (of_nat n :: u32)"

lemma c_int_small [simp]: "n < 2 ^ 31 \<Longrightarrow> c_int n = int n"
  by (simp add: c_int_def signed_of_nat signed_take_bit_int_eq_self)

lemma c_int_unat: "c_int (unat (x :: u64)) = sint (ucast x :: u32)"
  by (simp only: c_int_def of_nat_unat)

text \<open>How much to ask for: never more than the content length leaves, as an \<open>int\<close>.\<close>

definition read_len :: "stream \<Rightarrow> int \<Rightarrow> int" where
  "read_len s len =
     (if 0 < content_len s \<and> content_len s < io_total (sio s) + word_of_int len
      then sint (ucast (content_len s - io_total (sio s)) :: u32) else len)"

text \<open>What follows the read: the mark moves, or the stream is stopped.\<close>

definition after_read :: "'w os \<Rightarrow> side \<Rightarrow> int \<Rightarrow> conn \<Rightarrow> 'w \<Rightarrow> (conn \<times> 'w) option" where
  "after_read S sd n c w =
     (if 0 < n then
        map_option (\<lambda>i. (upd_strm sd (\<lambda>s. s\<lparr>sio := i\<rparr>) c, w)) (io_inc_head (sio (strm sd c)) (nat n))
      else if n = -1 \<and> try_again S w then Some (c, w)
      else if \<not> flagged (strm sd c) FLAG_DONT_CLOSE then stop_stream S sd c w
      else Some (c, w))"

definition check_done :: "'w os \<Rightarrow> side \<Rightarrow> conn \<Rightarrow> 'w \<Rightarrow> (conn \<times> 'w) option" where
  "check_done S sd c w =
     (if 0 < content_len (strm sd c) \<and> sd = Loc then
        (if content_len (c_loc c) < io_total (sio (c_loc c)) then None
         else if io_total (sio (c_loc c)) = content_len (c_loc c) then stop_stream S sd c w
         else Some (c, w))
      else Some (c, w))"

text \<open>\<open>rd\<close> is the read method of the stream.\<close>

definition read_with ::
  "'w os \<Rightarrow> side \<Rightarrow> (nat \<Rightarrow> conn \<Rightarrow> 'w \<Rightarrow> (int \<times> conn \<times> 'w) option) \<Rightarrow> conn \<Rightarrow> 'w \<Rightarrow> (conn \<times> 'w) option" where
  "read_with S sd rd c w = do {
     room \<leftarrow> io_space_len (sio (strm sd c));
     if c_int room \<le> 0 then None else do {
       (n, c1, w1) \<leftarrow> rd (to_size (read_len (strm sd c) (c_int room))) c w;
       (c2, w2) \<leftarrow> after_read S sd n (upd_strm sd (\<lambda>s. s\<lparr>nread_last := n\<rparr>) c1) w1;
       (c3, w3) \<leftarrow> check_done S sd c2 w2;
       Some (c3\<lparr>expire_time := os_now S w3 + EXPIRE_TIME\<rparr>, w3)
     }
   }"

definition read_stream :: "'w os \<Rightarrow> shttpd_ctx \<Rightarrow> side \<Rightarrow> conn \<Rightarrow> 'w \<Rightarrow> (conn \<times> 'w) option" where
  "read_stream S ctx sd c w =
     (case io_cls (strm sd c) of None \<Rightarrow> None | Some k \<Rightarrow> read_with S sd (io_read S ctx sd k) c w)"

section \<open>Writing\<close>

fun other :: "side \<Rightarrow> side" where
  "other Loc = Rem"
| "other Rem = Loc"

text \<open>\<open>to\<close> is the stream written to; the data is in the buffer of the other one.\<close>

definition after_write :: "'w os \<Rightarrow> side \<Rightarrow> int \<Rightarrow> conn \<Rightarrow> 'w \<Rightarrow> (conn \<times> 'w) option" where
  "after_write S to n c w =
     (if 0 < n then
        map_option (\<lambda>i. (upd_strm (other to) (\<lambda>s. s\<lparr>sio := i\<rparr>) c, w))
          (io_inc_tail (sio (strm (other to) c)) (nat n))
      else if n = -1 \<and> try_again S w then Some (c, w)
      else if \<not> flagged (strm to c) FLAG_DONT_CLOSE then stop_stream S to c w
      else Some (c, w))"

text \<open>\<open>wr\<close> is the write method of the stream \<open>to\<close>.\<close>

definition write_with ::
  "'w os \<Rightarrow> side \<Rightarrow> (char list \<Rightarrow> conn \<Rightarrow> 'w \<Rightarrow> (int \<times> conn \<times> 'w) option) \<Rightarrow> conn \<Rightarrow> 'w \<Rightarrow> (conn \<times> 'w) option" where
  "write_with S to wr c w = do {
     len \<leftarrow> io_data_len (sio (strm (other to) c));
     if c_int len \<le> 0 then None else do {
       (n, c1, w1) \<leftarrow> wr (take (nat (c_int len)) (io_content (sio (strm (other to) c)))) c w;
       after_write S to n (c1\<lparr>expire_time := os_now S w1 + EXPIRE_TIME\<rparr>) w1
     }
   }"

definition write_stream :: "'w os \<Rightarrow> side \<Rightarrow> conn \<Rightarrow> 'w \<Rightarrow> (conn \<times> 'w) option" where
  "write_stream S to c w =
     (case io_cls (strm to c) of None \<Rightarrow> None | Some k \<Rightarrow> write_with S to (io_write S to k) c w)"

section \<open>Ending a connection\<close>

datatype outcome = Exits | Freed | Kept conn

text \<open>The state a kept connection would start its next request from.\<close>

definition next_request :: "conn \<Rightarrow> conn option" where
  "next_request c = do {
     ri \<leftarrow> io_clear (sio (c_rem c));
     li \<leftarrow> io_clear (sio (c_loc c));
     Some (c\<lparr>c_loc := (c_loc c)\<lparr>io_cls := None, sflags := 0, sio := li\<rparr>,
            c_rem := (c_rem c)\<lparr>sflags := 0, sio := ri\<rparr>,
            c_query := None, c_request := None, c_uri := None, path_info := None,
            mime_type := None, c_ch := headers0\<rparr>)
   }"

definition wants_keep_alive :: "conn \<Rightarrow> bool" where
  "wants_keep_alive c \<longleftrightarrow> 10 \<le> vlen (h_connection (c_ch c)) \<and>
     my_strncasecmp ''keep-alive'' (vptr (h_connection (c_ch c))) 10 = 0"

text \<open>The code sets \<open>dont_close\<close> from the header and then to 0.\<close>

definition dont_close :: "conn \<Rightarrow> bool" where
  "dont_close c = (let d = wants_keep_alive c in False)"

definition disconnect :: "'w os \<Rightarrow> shttpd_ctx \<Rightarrow> conn \<Rightarrow> 'w \<Rightarrow> (outcome \<times> shttpd_ctx \<times> 'w) option" where
  "disconnect S ctx c w =
     (let w0 = (if access_log ctx \<noteq> None then log_access S c w else w)
      in if inetd_mode ctx \<noteq> 0 then Some (Exits, ctx, w0)
         else do {
           (c1, w1) \<leftarrow> (case io_cls (c_loc c) of None \<Rightarrow> Some (c, w0) | Some k \<Rightarrow> io_close S Loc k c w0);
           if dont_close c1 then map_option (\<lambda>c2. (Kept c2, ctx, w1)) (next_request c1)
           else do {
             (c2, w2) \<leftarrow> (case io_cls (c_rem c1) of None \<Rightarrow> Some (c1, w1) | Some k \<Rightarrow> io_close S Rem k c1 w1);
             if nactive ctx - 1 < 0 then None
             else Some (Freed, ctx\<lparr>nactive := nactive ctx - 1\<rparr>, w2)
           }
         })"

section \<open>What a channel promises\<close>

text \<open>A stream with a content length has not read past it yet, and sizes fit an \<open>int\<close>.\<close>

definition within :: "stream \<Rightarrow> bool" where
  "within s \<longleftrightarrow> content_len s = 0 \<or> io_total (sio s) \<le> content_len s \<and> content_len s < 2 ^ 63"

definition small :: "conn \<Rightarrow> bool" where
  "small c \<longleftrightarrow> io_size (sio (c_loc c)) < 2 ^ 31 \<and> io_size (sio (c_rem c)) < 2 ^ 31"

definition io_inv :: "conn \<Rightarrow> bool" where
  "io_inv c \<longleftrightarrow> conn_wf c \<and> small c \<and> within (c_loc c) \<and>
     (io_cls (c_loc c) = Some IO_EMBEDDED \<longrightarrow> content_len (c_loc c) = 0)"

lemma conn_wf_nread [simp]: "conn_wf (upd_strm sd (\<lambda>s. s\<lparr>nread_last := n\<rparr>) c) = conn_wf c"
proof -
  have "loc_ok (upd_strm sd (\<lambda>s. s\<lparr>nread_last := n\<rparr>) c) = loc_ok c" by (rule loc_ok_cong) (cases sd; simp)+
  then show ?thesis by (cases sd) (auto simp: conn_wf_def conn_ok_def rem_ok_def)
qed

lemma conn_wf_expire [simp]: "conn_wf (c\<lparr>expire_time := t\<rparr>) = conn_wf c"
proof -
  have "loc_ok (c\<lparr>expire_time := t\<rparr>) = loc_ok c" by (rule loc_ok_cong) simp_all
  then show ?thesis by (simp add: conn_wf_def rem_ok_def)
qed

lemma io_inv_nread [simp]: "io_inv (upd_strm sd (\<lambda>s. s\<lparr>nread_last := n\<rparr>) c) = io_inv c"
  unfolding io_inv_def conn_wf_nread by (cases sd) (auto simp: small_def within_def)

lemma io_inv_expire [simp]: "io_inv (c\<lparr>expire_time := t\<rparr>) = io_inv c"
  unfolding io_inv_def conn_wf_expire by (auto simp: small_def)

text \<open>Stopping a stream keeps the invariant.\<close>

lemma stop_stream_inv:
  assumes "cb_ok S" "io_inv c"
  shows "\<exists>c' w'. stop_stream S sd c w = Some (c', w') \<and> io_inv c' \<and> frame c' = frame c \<and>
    io_cls (strm sd c') = None \<and> flagged (strm sd c') FLAG_CLOSED"
proof -
  have wf: "conn_wf c" using assms(2) by (simp add: io_inv_def)
  obtain c' w' where r: "stop_stream S sd c w = Some (c', w')" "conn_wf c'" "io_cls (strm sd c') = None"
    "flagged (strm sd c') FLAG_CLOSED"
    using stop_stream_ok [OF assms(1) wf] by blast
  have f: "frame c' = frame c" by (rule stop_stream_frame [OF r(1)])
  have rem: "io_cls (c_rem c) \<in> {None, Some IO_SOCKET, Some IO_SSL}" using wf by (simp add: conn_wf_def rem_ok_def)
  have "within (c_loc c')"
  proof (cases "sd = Loc \<and> io_cls (c_loc c) = Some IO_EMBEDDED")
    case True
    then show ?thesis using assms(2) f by (auto simp: io_inv_def within_def frame_def)
  next
    case False
    then have "io_cls (strm sd c) \<noteq> Some IO_EMBEDDED" using rem by (cases sd) auto
    from stop_stream_sio [OF r(1) this] show ?thesis using assms(2) f by (auto simp: io_inv_def within_def frame_def)
  qed
  moreover have "io_cls (c_loc c') = Some IO_EMBEDDED \<longrightarrow> content_len (c_loc c') = 0"
  proof (cases sd)
    case Loc
    then show ?thesis using r(3) by simp
  next
    case Rem
    then show ?thesis using stop_rem_loc [of S c w c' w'] r(1) rem assms(2) by (simp add: io_inv_def)
  qed
  moreover have "small c'" using assms(2) f by (simp add: io_inv_def small_def frame_def)
  ultimately show ?thesis using r f by (auto simp: io_inv_def)
qed

text \<open>How far a read may go.\<close>

lemma read_len_eq:
  assumes "within s" "0 < len" "len < 2 ^ 31"
  shows "read_len s len =
    (if 0 < content_len s then min len (int (unat (content_len s) - unat (io_total (sio s)))) else len)"
proof (cases "0 < content_len s")
  case False
  then show ?thesis by (simp add: read_len_def)
next
  case True
  let ?t = "io_total (sio s)" and ?c = "content_len s"
  have l: "unat (word_of_int len :: u64) = nat len"
  proof -
    have "(word_of_int len :: u64) = of_nat (nat len)" using assms by simp
    then show ?thesis using assms by (simp only: unsigned_of_nat) (simp add: take_bit_nat_eq_self)
  qed
  have w: "unat ?t \<le> unat ?c" "unat ?c < 2 ^ 63"
    using assms(1) True by (auto simp: within_def word_le_nat_alt word_less_nat_alt)
  have sum: "unat (?t + word_of_int len) = unat ?t + nat len"
    using iffD1 [OF unat_add_lem, of ?t "word_of_int len"] w assms l by simp
  have diff: "unat (?c - ?t) = unat ?c - unat ?t" using w(1) by (simp add: unat_sub word_le_nat_alt)
  show ?thesis
  proof (cases "?c < ?t + word_of_int len")
    case lt: True
    then have d: "unat (?c - ?t) < nat len" using sum diff w(1) by (simp add: word_less_nat_alt)
    have "nat len < 2 ^ 31" using assms(2,3) by (simp add: nat_less_iff)
    with d have "c_int (unat (?c - ?t)) = int (unat (?c - ?t))" by (intro c_int_small) (rule less_trans)
    then have "sint (ucast (?c - ?t) :: u32) = int (unat ?c - unat ?t)"
      by (simp only: c_int_unat [symmetric] diff)
    then have "read_len s len = int (unat ?c - unat ?t)" using True lt by (simp only: read_len_def simp_thms if_True)
    moreover have "unat ?c - unat ?t < nat len" using d diff by simp
    then have "int (unat ?c - unat ?t) < len" by linarith
    ultimately show ?thesis using True by (simp only: if_True min_absorb2 [OF less_imp_le])
  next
    case ge: False
    then have "nat len \<le> unat ?c - unat ?t" using sum by (simp add: word_less_nat_alt)
    then have "len \<le> int (unat ?c - unat ?t)" by linarith
    moreover have "read_len s len = len" using ge by (simp add: read_len_def)
    ultimately show ?thesis using True by (simp only: if_True min_absorb1)
  qed
qed

lemma read_len_within:
  assumes "within s" "0 < len" "len < 2 ^ 31"
  shows "0 \<le> read_len s len" "read_len s len \<le> len"
    "0 < content_len s \<Longrightarrow> unat (io_total (sio s)) + nat (read_len s len) \<le> unat (content_len s)"
proof -
  have n: "t + nat (min len (int (k - t))) \<le> k" if "t \<le> k" for t k :: nat
    using that by (auto simp: min_def)
  have "0 < content_len s \<Longrightarrow> unat (io_total (sio s)) \<le> unat (content_len s)"
    using assms(1) by (auto simp: within_def word_le_nat_alt)
  then show "0 < content_len s \<Longrightarrow> unat (io_total (sio s)) + nat (read_len s len) \<le> unat (content_len s)"
    unfolding read_len_eq [OF assms] using n by (simp only: if_True)
qed (use assms(2) in \<open>auto simp: read_len_eq [OF assms]\<close>)

text \<open>What a read method promises on side \<open>sd\<close>: what it reports it has stored behind the mark, no more
  than was asked for, and it leaves the connection well formed.\<close>

definition stored :: "side \<Rightarrow> nat \<Rightarrow> int \<Rightarrow> conn \<Rightarrow> conn \<Rightarrow> bool" where
  "stored sd len n c c' \<longleftrightarrow>
     (\<exists>d. int (length d) = n \<and> length d \<le> len \<and> content_len (strm sd c') = content_len (strm sd c) \<and>
        sio (strm sd c') = (sio (strm sd c))
          \<lparr>io_buf := overwrite (io_buf (sio (strm sd c))) (io_head (sio (strm sd c))) d\<rparr>)"

lemma stop_stream_within:
  assumes "cb_ok S" "io_inv c" "within (strm sd c)"
  shows "\<exists>c' w'. stop_stream S sd c w = Some (c', w') \<and> io_inv c' \<and> within (strm sd c')"
proof -
  obtain c' w' where r: "stop_stream S sd c w = Some (c', w')" "io_inv c'" "frame c' = frame c"
    using stop_stream_inv [OF assms(1,2)] by blast
  have "within (strm sd c')"
  proof (cases sd)
    case Loc
    then show ?thesis using r(2) by (simp add: io_inv_def)
  next
    case Rem
    have "io_cls (strm sd c) \<noteq> Some IO_EMBEDDED" using assms(2) Rem by (auto simp: io_inv_def conn_wf_def rem_ok_def)
    from stop_stream_sio [OF r(1) this] r(3) show ?thesis
      using assms(3) Rem by (simp add: within_def frame_def)
  qed
  then show ?thesis using r by blast
qed

lemma after_read_none:
  assumes "cb_ok S" "io_inv c" "within (strm sd c)" "\<not> 0 < n"
  shows "\<exists>c' w'. after_read S sd n c w = Some (c', w') \<and> io_inv c' \<and> within (strm sd c')"
  using stop_stream_within [OF assms(1-3)] assms by (simp add: after_read_def)

lemma check_done_ok:
  assumes "cb_ok S" "io_inv c" "within (strm sd c)"
  shows "\<exists>c' w'. check_done S sd c w = Some (c', w') \<and> io_inv c' \<and> within (strm sd c')"
  using stop_stream_within [OF assms] assms(2,3) by (auto simp: check_done_def within_def not_less)

text \<open>Moving the mark over what was stored.\<close>

lemma io_inc_head_stored:
  assumes "io_ok i" "length d \<le> io_room i"
  shows "io_inc_head (i\<lparr>io_buf := overwrite (io_buf i) (io_head i) d\<rparr>) (length d) =
    Some (i\<lparr>io_buf := overwrite (io_buf i) (io_head i) d, io_head := io_head i + length d,
            io_total := io_total i + of_nat (length d)\<rparr>)"
  using assms by (auto simp: io_inc_head_def io_ok_def io_room_def Let_def)

lemma total_le:
  fixes t c :: u64
  assumes "unat t + k \<le> unat c"
  shows "t + of_nat k \<le> c"
proof -
  have "unat (t + of_nat k) = (unat t + k) mod 2 ^ 64"
    by (simp add: unat_word_ariths unsigned_of_nat take_bit_eq_mod mod_add_right_eq)
  also have "\<dots> \<le> unat t + k" by (rule mod_less_eq_dividend)
  finally show ?thesis using assms by (simp add: word_le_nat_alt)
qed

lemma io_inv_sio:
  assumes "io_inv c" "io_ok j" "io_size j = io_size (sio (strm sd c))" "within ((strm sd c)\<lparr>sio := j\<rparr>)"
  shows "io_inv (upd_strm sd (\<lambda>s. s\<lparr>sio := j\<rparr>) c)" (is "io_inv ?c")
proof -
  have "loc_ok ?c = loc_ok c" by (rule loc_ok_cong) (cases sd; simp)+
  moreover have "rem_ok ?c = rem_ok c" by (cases sd) (simp_all add: rem_ok_def)
  moreover have "conn_ok ?c" using assms(1,2) by (intro conn_ok_upd_strm) (auto simp: io_inv_def conn_wf_def)
  ultimately have "conn_wf ?c" using assms(1) by (simp add: io_inv_def conn_wf_def)
  then show ?thesis using assms by (cases sd) (auto simp: io_inv_def small_def)
qed

lemma after_read_stored:
  assumes "io_inv c0" "stored sd len n c0 c1"
    and "0 < content_len (strm sd c0) \<Longrightarrow> unat (io_total (sio (strm sd c0))) + len \<le> unat (content_len (strm sd c0))"
    and "0 < n \<and> len \<le> io_room (sio (strm sd c0))"
    and "io_inv c" "within (strm sd c)" "sio (strm sd c) = sio (strm sd c1)"
      "content_len (strm sd c) = content_len (strm sd c1)"
  shows "\<exists>c' w'. after_read S sd n c w = Some (c', w') \<and> io_inv c' \<and> within (strm sd c')"
proof -
  let ?i = "sio (strm sd c0)"
  obtain d where d: "int (length d) = n" "length d \<le> len" "content_len (strm sd c) = content_len (strm sd c0)"
    "sio (strm sd c) = ?i\<lparr>io_buf := overwrite (io_buf ?i) (io_head ?i) d\<rparr>"
    using assms(2,7,8) by (auto simp: stored_def)
  have ok: "io_ok ?i" using assms(1) by (auto simp: io_inv_def conn_wf_def conn_ok_strm)
  have room: "length d \<le> io_room ?i" using assms(4) d(2) by simp
  define j where "j = ?i\<lparr>io_buf := overwrite (io_buf ?i) (io_head ?i) d, io_head := io_head ?i + length d,
            io_total := io_total ?i + of_nat (length d)\<rparr>"
  have inc: "io_inc_head (sio (strm sd c)) (nat n) = Some j"
    using io_inc_head_stored [OF ok room] d(1) by (auto simp: d(4) j_def)
  have "io_head ?i + length d \<le> io_size ?i" "io_head ?i + length d \<le> length (io_buf ?i)"
    using ok room by (auto simp: io_ok_def io_room_def)
  then have jok: "io_ok j" using ok by (simp add: j_def io_ok_def length_overwrite)
  let ?c = "upd_strm sd (\<lambda>s. s\<lparr>sio := j\<rparr>) c"
  have "within (strm sd ?c)"
  proof (cases "content_len (strm sd c) = 0")
    case True
    then show ?thesis by (simp add: within_def)
  next
    case False
    then have "unat (io_total ?i) + length d \<le> unat (content_len (strm sd c))"
      using assms(3) d(2,3) by (simp add: word_neq_0_conv)
    moreover have "content_len (strm sd c) < 2 ^ 63" using assms(6) False by (simp add: within_def)
    ultimately have "io_total ?i + of_nat (length d) \<le> content_len (strm sd c)"
      by (intro total_le)
    then show ?thesis using False assms(6) by (simp add: within_def j_def)
  qed
  then show ?thesis using inc assms(4) io_inv_sio [OF assms(5) jok, of sd]
    by (simp add: after_read_def) (simp add: d(4) j_def)
qed

locale channel_read =
  fixes sd :: side and rd :: "nat \<Rightarrow> conn \<Rightarrow> 'w \<Rightarrow> (int \<times> conn \<times> 'w) option" and ready :: "conn \<Rightarrow> bool"
  assumes rd_ok: "io_inv c \<Longrightarrow> ready c \<Longrightarrow> within (strm sd c) \<Longrightarrow> len \<le> io_room (sio (strm sd c)) \<Longrightarrow>
      \<exists>n c' w'. rd len c w = Some (n, c', w') \<and> io_inv c' \<and> within (strm sd c') \<and> -1 \<le> n \<and>
        (0 < n \<longrightarrow> stored sd len n c c')"
begin

text \<open>A read that has room never fails an assertion and never leaves the buffer, and the stream stays
  within its content length.\<close>

lemma read_with_ok:
  assumes "cb_ok S" "io_inv c" "ready c" "within (strm sd c)" "0 < io_room (sio (strm sd c))"
  shows "\<exists>c' w'. read_with S sd rd c w = Some (c', w') \<and> io_inv c' \<and> within (strm sd c')"
proof -
  let ?s = "strm sd c"
  define len where "len = read_len ?s (int (io_room (sio ?s)))"
  have ok: "io_ok (sio ?s)" using assms(2) by (auto simp: io_inv_def conn_wf_def conn_ok_strm)
  have small: "io_room (sio ?s) < 2 ^ 31"
    using assms(2) by (cases sd) (auto simp: io_inv_def small_def io_room_def)
  have len: "0 \<le> len" "len \<le> int (io_room (sio ?s))"
    "0 < content_len ?s \<Longrightarrow> unat (io_total (sio ?s)) + nat len \<le> unat (content_len ?s)"
    using read_len_within [OF assms(4), of "int (io_room (sio ?s))"] assms(5) small unfolding len_def by auto
  have size: "to_size len = nat len" using len small by (simp add: to_size_def)
  obtain n c1 w1 where r: "rd (nat len) c w = Some (n, c1, w1)" "io_inv c1" "within (strm sd c1)" "-1 \<le> n"
    "0 < n \<Longrightarrow> stored sd (nat len) n c c1"
    using rd_ok [OF assms(2,3,4), of "nat len" w] len by (auto simp: nat_le_iff)
  define c1' where "c1' = upd_strm sd (\<lambda>s. s\<lparr>nread_last := n\<rparr>) c1"
  have c1': "io_inv c1'" "within (strm sd c1')" "sio (strm sd c1') = sio (strm sd c1)"
    "content_len (strm sd c1') = content_len (strm sd c1)"
    using r by (auto simp: c1'_def within_def)
  have "\<exists>c2 w2. after_read S sd n c1' w1 = Some (c2, w2) \<and> io_inv c2 \<and> within (strm sd c2)"
  proof (cases "0 < n")
    case True
    then have st: "stored sd (nat len) n c c1" by (rule r(5))
    from after_read_stored [OF assms(2) st len(3) _ c1'(1,2,3,4)] show ?thesis
      using True len(2) by (simp add: nat_le_iff)
  next
    case False
    then show ?thesis using after_read_none [OF assms(1) c1'(1,2)] by blast
  qed
  then obtain c2 w2 where c2: "after_read S sd n c1' w1 = Some (c2, w2)" "io_inv c2" "within (strm sd c2)" by blast
  obtain c3 w3 where c3: "check_done S sd c2 w2 = Some (c3, w3)" "io_inv c3" "within (strm sd c3)"
    using check_done_ok [OF assms(1) c2(2,3)] by blast
  show ?thesis using assms(5) small r(1) c2(1) c3
    by (simp add: read_with_def io_len_ok(1) [OF ok] len_def [symmetric] size c1'_def [symmetric])
      (cases sd; simp)
qed

end

section \<open>The read methods keep the promise\<close>

lemma io_inv_io_ok: "io_inv c \<Longrightarrow> io_ok (sio (strm sd c))"
  by (auto simp: io_inv_def conn_wf_def conn_ok_strm)

lemma stored_ok:
  assumes "io_inv c" "within (strm sd c)" "length d \<le> len" "len \<le> io_room (sio (strm sd c))"
  shows "\<exists>c'. store sd d c = Some c' \<and> io_inv c' \<and> within (strm sd c') \<and> stored sd len (int (length d)) c c'"
proof -
  let ?i = "sio (strm sd c)"
  let ?j = "?i\<lparr>io_buf := overwrite (io_buf ?i) (io_head ?i) d\<rparr>"
  have "io_head ?i + length d \<le> length (io_buf ?i)"
    using assms io_inv_io_ok [OF assms(1), of sd] by (auto simp: io_ok_def io_room_def)
  then have "io_ok ?j" using io_inv_io_ok [OF assms(1), of sd] by (simp add: io_ok_def)
  moreover have "within ((strm sd c)\<lparr>sio := ?j\<rparr>)" using assms(2) by (simp add: within_def)
  ultimately show ?thesis using assms io_inv_sio [of c ?j sd] by (auto simp: store_def stored_def Let_def)
qed

lemma read_fd_ok:
  assumes "io_inv c" "within (strm sd c)" "len \<le> io_room (sio (strm sd c))" "ch_fd (chan (strm sd c)) \<noteq> -1"
    and "\<forall>w fd n. length (rd_bytes (fst (rdf w fd n))) \<le> n"
  shows "\<exists>n c' w'. read_fd rdf sd len c w = Some (n, c', w') \<and> io_inv c' \<and> within (strm sd c') \<and> -1 \<le> n \<and>
    (0 < n \<longrightarrow> stored sd len n c c')"
proof -
  obtain r w1 where r: "rdf w (ch_fd (chan (strm sd c))) len = (r, w1)" by fastforce
  have "length (rd_bytes r) \<le> len" using assms(5) [rule_format, of w "ch_fd (chan (strm sd c))" len] r by simp
  from stored_ok [OF assms(1,2) this assms(3)] show ?thesis
    using assms(4) r by (cases r) (auto simp: read_fd_def Let_def)
qed

text \<open>Files, sockets and SSL sockets, and the user's callbacks.\<close>

definition has_cls :: "side \<Rightarrow> io_class \<Rightarrow> 'w os \<Rightarrow> conn \<Rightarrow> bool" where
  "has_cls sd k S c \<longleftrightarrow> os_ok S \<and> io_cls (strm sd c) = Some k"

lemma fd_ok: "io_inv c \<Longrightarrow> ch_fd (chan (c_rem c)) \<noteq> -1"
  "io_inv c \<Longrightarrow> io_cls (c_loc c) = Some IO_FILE \<Longrightarrow> ch_fd (chan (c_loc c)) \<noteq> -1"
  by (auto simp: io_inv_def conn_wf_def loc_ok_def rem_ok_def)

interpretation rd_file: channel_read Loc "read_file S Loc" "has_cls Loc IO_FILE S" for S :: "'w os"
  by unfold_locales (unfold read_file_def, rule read_fd_ok, auto simp: has_cls_def os_ok_def rw_ok_def fd_ok)

interpretation rd_socket: channel_read Rem "read_socket S Rem" "has_cls Rem IO_SOCKET S" for S :: "'w os"
  by unfold_locales (unfold read_socket_def, rule read_fd_ok, auto simp: has_cls_def os_ok_def rw_ok_def fd_ok)

lemma io_inv_flags:
  assumes "io_inv c" "chan (f (strm sd c)) = chan (strm sd c)" "io_cls (f (strm sd c)) = io_cls (strm sd c)"
    "sio (f (strm sd c)) = sio (strm sd c)" "content_len (f (strm sd c)) = content_len (strm sd c)"
  shows "io_inv (upd_strm sd f c)"
proof -
  have "loc_ok (upd_strm sd f c) = loc_ok c" by (rule loc_ok_cong) (use assms in \<open>cases sd; simp\<close>)+
  then show ?thesis using assms by (cases sd) (auto simp: io_inv_def conn_wf_def conn_ok_def rem_ok_def small_def within_def)
qed

lemma ssl_handshake_ok:
  assumes "ssl_handshake S sd c w = (c', w')" "io_inv c"
  shows "io_inv c' \<and> sio (strm sd c') = sio (strm sd c) \<and> content_len (strm sd c') = content_len (strm sd c)"
  using assms by (auto simp: ssl_handshake_def Let_def io_inv_flags split: prod.splits if_splits)

lemma read_ssl_ok:
  assumes "io_inv c" "within (strm sd c)" "len \<le> io_room (sio (strm sd c))"
    and rd: "\<forall>w fd n. length (rd_bytes (fst (os_ssl_read S w fd n))) \<le> n"
  shows "\<exists>n c' w'. read_ssl S sd len c w = Some (n, c', w') \<and> io_inv c' \<and> within (strm sd c') \<and> -1 \<le> n \<and>
    (0 < n \<longrightarrow> stored sd len n c c')"
proof -
  define p where "p = (if flagged (strm sd c) FLAG_SSL_ACCEPTED then (c, w) else ssl_handshake S sd c w)"
  obtain c1 w1 where p1: "p = (c1, w1)" by (cases p)
  then have c1: "io_inv c1" "sio (strm sd c1) = sio (strm sd c)" "content_len (strm sd c1) = content_len (strm sd c)"
    using ssl_handshake_ok [of S sd c w c1 w1] assms(1) by (auto simp: p_def split: if_splits)
  then have "within (strm sd c1)" using assms(2) by (simp add: within_def)
  obtain r w2 where r: "os_ssl_read S w1 (ch_fd (chan (strm sd c1))) len = (r, w2)" by fastforce
  have "length (rd_bytes r) \<le> len" using rd [rule_format, of w1 "ch_fd (chan (strm sd c1))" len] r by simp
  from stored_ok [OF c1(1) \<open>within (strm sd c1)\<close> this] assms(3) show ?thesis
    using c1 \<open>within (strm sd c1)\<close> r p1 by (cases r) (auto simp: read_ssl_def p_def [symmetric] stored_def)
qed

interpretation rd_ssl: channel_read Rem "read_ssl S Rem" "has_cls Rem IO_SSL S" for S :: "'w os"
  by unfold_locales (rule read_ssl_ok, auto simp: has_cls_def os_ok_def rw_ok_def)

text \<open>A callback leaves the connection as it is but for the buffers and the state of the channel.\<close>

lemma do_embedded_ok:
  assumes "cb_ok S" "io_inv c" "io_cls (c_loc c) = Some IO_EMBEDDED"
  shows "\<exists>c' w'. do_embedded S c w = Some (c', w') \<and> io_inv c'"
proof -
  obtain c' w' where r: "do_embedded S c w = Some (c', w')" "conn_ok c'" "io_cls (c_loc c') = io_cls (c_loc c)"
    "io_cls (c_rem c') = io_cls (c_rem c)" "chan (c_rem c') = chan (c_rem c)"
    using call_user_ok [OF assms(1), of c] assms(2) unfolding do_embedded_def io_inv_def conn_wf_def by metis
  have "frame c' = frame c" using r(1) call_user_frame by (auto simp: do_embedded_def)
  then show ?thesis using r assms(2,3)
    by (auto simp: io_inv_def conn_wf_def loc_ok_def rem_ok_def small_def within_def frame_def)
qed

interpretation rd_emb: channel_read Loc "\<lambda>len c w. map_option (\<lambda>(c1, w1). (0, c1, w1)) (do_embedded S c w)"
    "has_cls Loc IO_EMBEDDED S" for S :: "'w os"
proof
  fix c len and w :: 'w
  assume "io_inv c" "has_cls Loc IO_EMBEDDED S c"
  then obtain c' w' where "do_embedded S c w = Some (c', w')" "io_inv c'"
    using do_embedded_ok [of S c w] by (auto simp: has_cls_def os_ok_def)
  then show "\<exists>n c' w'. map_option (\<lambda>(c1, w1). (0, c1, w1)) (do_embedded S c w) = Some (n, c', w') \<and> io_inv c' \<and>
      within (strm Loc c') \<and> -1 \<le> n \<and> (0 < n \<longrightarrow> stored Loc len n c c')"
    by (simp add: io_inv_def)
qed

text \<open>Every read of these classes, by the dispatch on the class.\<close>

definition plain_cls :: "side \<Rightarrow> io_class set" where
  "plain_cls sd = (case sd of Loc \<Rightarrow> {IO_FILE, IO_EMBEDDED} | Rem \<Rightarrow> {IO_SOCKET, IO_SSL})"

lemma read_stream_ok:
  assumes "os_ok S" "io_inv c" "io_cls (strm sd c) = Some k" "k \<in> plain_cls sd"
    and "within (strm sd c)" "0 < io_room (sio (strm sd c))"
  shows "\<exists>c' w'. read_stream S ctx sd c w = Some (c', w') \<and> io_inv c' \<and> within (strm sd c')"
proof -
  have cb: "cb_ok S" and h: "has_cls sd k S c" using assms by (auto simp: os_ok_def has_cls_def)
  have e: "read_stream S ctx sd c w = read_with S sd (io_read S ctx sd k) c w" by (simp add: read_stream_def assms(3))
  consider "sd = Loc" "k = IO_FILE" | "sd = Loc" "k = IO_EMBEDDED" | "sd = Rem" "k = IO_SOCKET" | "sd = Rem" "k = IO_SSL"
    using assms(4) by (cases sd) (auto simp: plain_cls_def)
  then show ?thesis
    unfolding e io_read_def [abs_def]
    using rd_file.read_with_ok [OF cb assms(2), of S] rd_emb.read_with_ok [OF cb assms(2), of S]
      rd_socket.read_with_ok [OF cb assms(2), of S] rd_ssl.read_with_ok [OF cb assms(2), of S] h assms(5,6)
    by cases simp_all
qed

lemma stop_stream_rem:
  assumes "cb_ok S" "io_inv c" "within (c_rem c)"
  shows "\<exists>c' w'. stop_stream S sd c w = Some (c', w') \<and> io_inv c' \<and> within (c_rem c')"
proof -
  obtain c' w' where r: "stop_stream S sd c w = Some (c', w')" "io_inv c'" "frame c' = frame c"
    using stop_stream_inv [OF assms(1,2)] by blast
  have "io_total (sio (c_rem c')) = io_total (sio (c_rem c))" by (rule stop_stream_total [OF r(1)])
  then show ?thesis using r assms(3) by (simp add: within_def frame_def)
qed

lemma io_inc_tail_total: "io_inc_tail i n = Some j \<Longrightarrow> io_total j = io_total i"
  by (auto simp: io_inc_tail_def Let_def split: if_splits)

lemma after_write_ok:
  assumes "cb_ok S" "io_inv c" "within (c_rem c)"
    and "0 < n \<Longrightarrow> n \<le> int (length (io_content (sio (strm (other to) c))))"
  shows "\<exists>c' w'. after_write S to n c w = Some (c', w') \<and> io_inv c' \<and> within (c_rem c')"
proof (cases "0 < n")
  case False
  then show ?thesis using stop_stream_rem [OF assms(1-3)] assms by (simp add: after_write_def)
next
  case True
  let ?i = "sio (strm (other to) c)"
  obtain j where j: "io_inc_tail ?i (nat n) = Some j" "io_ok j" "io_total j = io_total ?i" "io_size j = io_size ?i"
    using io_inc_tail_ok [of ?i "nat n"] io_inv_io_ok [OF assms(2), of "other to"] assms(4) True
    by (auto simp: nat_le_iff)
  have "within ((strm (other to) c)\<lparr>sio := j\<rparr>)"
    using assms(2,3) j(3) by (cases to) (auto simp: within_def io_inv_def)
  then have "io_inv (upd_strm (other to) (\<lambda>s. s\<lparr>sio := j\<rparr>) c)" by (rule io_inv_sio [OF assms(2) j(2,4)])
  moreover have "within (c_rem (upd_strm (other to) (\<lambda>s. s\<lparr>sio := j\<rparr>) c))"
    using assms(3) j(3) by (cases to) (auto simp: within_def)
  ultimately show ?thesis using True j(1) by (simp add: after_write_def)
qed

section \<open>What a write method promises\<close>

text \<open>\<open>d\<close> is what the other stream holds; a positive result is a number of its bytes that were taken, and
  the other buffer is as it was.\<close>

locale channel_write =
  fixes to :: side and wr :: "char list \<Rightarrow> conn \<Rightarrow> 'w \<Rightarrow> (int \<times> conn \<times> 'w) option" and ready :: "conn \<Rightarrow> bool"
  assumes wr_ok: "io_inv c \<Longrightarrow> ready c \<Longrightarrow> within (c_rem c) \<Longrightarrow> d = io_content (sio (strm (other to) c)) \<Longrightarrow>
      \<exists>n c' w'. wr d c w = Some (n, c', w') \<and> io_inv c' \<and> within (c_rem c') \<and> n \<le> int (length d) \<and>
        (0 < n \<longrightarrow> sio (strm (other to) c') = sio (strm (other to) c))"
begin

text \<open>A write of a buffer that is not empty removes from it what was taken, without a failed assertion.\<close>

lemma write_with_ok:
  assumes "cb_ok S" "io_inv c" "ready c" "within (c_rem c)" "io_content (sio (strm (other to) c)) \<noteq> []"
  shows "\<exists>c' w'. write_with S to wr c w = Some (c', w') \<and> io_inv c' \<and> within (c_rem c')"
proof -
  let ?i = "sio (strm (other to) c)"
  have ok: "io_ok ?i" by (rule io_inv_io_ok [OF assms(2)])
  have small: "length (io_content ?i) < 2 ^ 31"
    using ok assms(2) by (cases to) (auto simp: io_ok_def io_content_def io_inv_def small_def)
  obtain n c1 w1 where r: "wr (io_content ?i) c w = Some (n, c1, w1)" "io_inv c1" "within (c_rem c1)"
    "n \<le> int (length (io_content ?i))" "0 < n \<Longrightarrow> sio (strm (other to) c1) = ?i"
    using wr_ok [OF assms(2-4) refl] by blast
  define c2 where "c2 = c1\<lparr>expire_time := os_now S w1 + EXPIRE_TIME\<rparr>"
  have c2: "io_inv c2" "within (c_rem c2)" "sio (strm (other to) c2) = sio (strm (other to) c1)"
    using r(2,3) by (simp_all add: c2_def) (cases to; simp)
  have "\<exists>c' w'. after_write S to n c2 w1 = Some (c', w') \<and> io_inv c' \<and> within (c_rem c')"
    by (rule after_write_ok [OF assms(1) c2(1,2)]) (use r(4,5) c2(3) in simp)
  then show ?thesis using assms(5) small r(1)
    by (simp add: write_with_def io_len_ok(2) [OF ok] c2_def [symmetric])
qed

end

section \<open>The write methods keep the promise\<close>

lemma write_socket_ok:
  assumes "os_ok S" "io_inv c"
  shows "\<exists>n w'. write_socket S Rem d c w = Some (n, c, w') \<and> n \<le> int (length d)"
proof -
  obtain r w1 where r: "os_send S w (ch_fd (chan (c_rem c))) d = (r, w1)" by fastforce
  have "wr_len r \<le> int (length d)"
    using assms(1) r by (simp add: os_ok_def rw_ok_def) (metis fst_conv)
  then show ?thesis using r fd_ok(1) [OF assms(2)] by (simp add: write_socket_def)
qed

interpretation wr_socket: channel_write Rem "write_socket S Rem" "has_cls Rem IO_SOCKET S" for S :: "'w os"
  by unfold_locales (use write_socket_ok in \<open>fastforce simp: has_cls_def\<close>)

lemma write_ssl_ok:
  assumes "os_ok S"
  shows "\<exists>n w'. write_ssl S sd d c w = Some (n, c, w') \<and> n \<le> int (length d)"
proof -
  obtain r w1 where r: "os_ssl_write S w (ch_fd (chan (strm sd c))) d = (r, w1)" by fastforce
  have "wr_len r \<le> int (length d)"
    using assms(1) r by (simp add: os_ok_def rw_ok_def) (metis fst_conv)
  then show ?thesis using r by (simp add: write_ssl_def)
qed

interpretation wr_ssl: channel_write Rem "write_ssl S Rem" "has_cls Rem IO_SSL S" for S :: "'w os"
  by unfold_locales (use write_ssl_ok in \<open>fastforce simp: has_cls_def\<close>)

lemma do_embedded_rem: "do_embedded S c w = Some (c', w') \<Longrightarrow> within (c_rem c) \<Longrightarrow> within (c_rem c')"
  by (auto simp: do_embedded_def call_user_def within_def Let_def dest: io_inc_tail_total
      split: Option.bind_splits if_splits prod.splits)

interpretation wr_emb: channel_write Loc "\<lambda>d c w. map_option (\<lambda>(c1, w1). (0, c1, w1)) (do_embedded S c w)"
    "has_cls Loc IO_EMBEDDED S" for S :: "'w os"
proof
  fix c d and w :: 'w
  assume "io_inv c" "has_cls Loc IO_EMBEDDED S c" "within (c_rem c)"
  then obtain c' w' where "do_embedded S c w = Some (c', w')" "io_inv c'" "within (c_rem c')"
    using do_embedded_ok [of S c w] do_embedded_rem [of S c w] by (auto simp: has_cls_def os_ok_def)
  then show "\<exists>n c' w'. map_option (\<lambda>(c1, w1). (0, c1, w1)) (do_embedded S c w) = Some (n, c', w') \<and> io_inv c' \<and>
      within (c_rem c') \<and> n \<le> int (length d) \<and> (0 < n \<longrightarrow> sio (strm (other Loc) c') = sio (strm (other Loc) c))"
    by simp
qed

text \<open>An uploaded file: its reply goes to an empty local buffer.\<close>

lemma write_file_ok:
  assumes "os_ok S" "io_inv c" "io_cls (c_loc c) = Some IO_FILE" "io_tail (sio (c_loc c)) = 0" "within (c_rem c)"
  shows "\<exists>n c' w'. write_file S d c w = Some (n, c', w') \<and> io_inv c' \<and> within (c_rem c') \<and> n \<le> int (length d) \<and>
    sio (c_rem c') = sio (c_rem c)"
proof -
  let ?fd = "ch_fd (chan (c_loc c))"
  obtain r w1 where r: "os_write S w ?fd d = (r, w1)" by fastforce
  have len: "wr_len r \<le> int (length d)"
    using assms(1) r by (simp add: os_ok_def rw_ok_def) (metis fst_conv)
  define l where "l = put_reply (put_done_text (c_status c) (os_fsize S w1 ?fd)) (c_loc c)"
  define c1 where "c1 = c\<lparr>c_loc := l\<rparr>"
  have ok: "io_ok (sio (c_loc c))" using assms(2) by (simp add: io_inv_def conn_wf_def conn_ok_def)
  have l: "io_ok (sio l)" "io_size (sio l) = io_size (sio (c_loc c))" "io_total (sio l) = io_total (sio (c_loc c))"
      "content_len l = content_len (c_loc c)" "io_cls l = Some IO_FILE" "chan l = chan (c_loc c)"
    using put_reply_ok [OF ok assms(4) refl] assms(3)
    by (simp_all add: l_def) (simp_all add: put_reply_def split: prod.splits)
  have "loc_ok c1 = loc_ok c" by (rule loc_ok_cong) (use l assms(3) in \<open>simp_all add: c1_def\<close>)
  then have c1: "io_inv c1" using assms(2) l
    by (simp add: c1_def io_inv_def conn_wf_def conn_ok_def rem_ok_def small_def within_def)
  obtain c2 w2 where s: "stop_stream S Loc c1 w1 = Some (c2, w2)" "io_inv c2" "within (c_rem c2)"
    using stop_stream_rem [of S c1 Loc w1] c1 assms(1,5) by (auto simp: os_ok_def c1_def)
  have "sio (c_rem c2) = sio (c_rem c)"
    using stop_stream_sio(2) [OF s(1)] l(5) by (simp add: c1_def)
  then show ?thesis using r len s fd_ok(2) [OF assms(2,3)] assms(2,5)
    by (simp add: write_file_def l_def [symmetric] c1_def [symmetric] Let_def)
qed

interpretation wr_file: channel_write Loc "write_file S"
    "\<lambda>c. has_cls Loc IO_FILE S c \<and> io_tail (sio (c_loc c)) = 0" for S :: "'w os"
  by unfold_locales (use write_file_ok in \<open>fastforce simp: has_cls_def\<close>)

text \<open>Every write of these classes, by the dispatch on the class.\<close>

lemma write_stream_ok:
  assumes "os_ok S" "io_inv c" "io_cls (strm to c) = Some k" "k \<in> plain_cls to"
    and "within (c_rem c)" "io_content (sio (strm (other to) c)) \<noteq> []"
    and "k = IO_FILE \<Longrightarrow> io_tail (sio (c_loc c)) = 0"
  shows "\<exists>c' w'. write_stream S to c w = Some (c', w') \<and> io_inv c' \<and> within (c_rem c')"
proof -
  have cb: "cb_ok S" and h: "has_cls to k S c" using assms by (auto simp: os_ok_def has_cls_def)
  have e: "write_stream S to c w = write_with S to (io_write S to k) c w" by (simp add: write_stream_def assms(3))
  consider "to = Loc" "k = IO_FILE" | "to = Loc" "k = IO_EMBEDDED" | "to = Rem" "k = IO_SOCKET" | "to = Rem" "k = IO_SSL"
    using assms(4) by (cases to) (auto simp: plain_cls_def)
  then show ?thesis
    unfolding e io_write_def [abs_def]
    using wr_file.write_with_ok [OF cb assms(2), of S] wr_emb.write_with_ok [OF cb assms(2), of S]
      wr_socket.write_with_ok [OF cb assms(2), of S] wr_ssl.write_with_ok [OF cb assms(2), of S] h assms(5-7)
    by cases simp_all
qed

end
