(* ===== verification/Config.thy ===== *)
theory Config
  imports Mime
begin

text \<open>
  \<open>config.c\<close> of shttpd: the table of options, and the three passes (defaults, configuration file,
  command line) over the temporary values that end in the calls of the setters. The program exits on
  a bad option or file; that is the left side of the sum. The build is the Unix one with CGI, SSI
  and SSL.
\<close>

section \<open>Options\<close>

datatype opt_field = F_document_root | F_index_files | F_ports | F_dirlist | F_cgi_extensions
  | F_cgi_interpreter | F_cgi_vars | F_ssi_extensions | F_auth_realm | F_access_log | F_error_log
  | F_mime_file | F_global_passwd_file | F_ssl_ctx | F_put_auth_file | F_aliases | F_io_buf_size
  | F_inetd_mode | F_uid

datatype setter = Set_int | Set_str | Set_log_file | Set_mime | Set_ssl

record opt =
  opt_sw :: char
  opt_name :: string
  opt_setter :: setter
  opt_field :: opt_field
  opt_def :: "string option"

definition mk_opt :: "char \<Rightarrow> string \<Rightarrow> setter \<Rightarrow> opt_field \<Rightarrow> string option \<Rightarrow> opt" where
  "mk_opt sw name s f d = \<lparr>opt_sw = sw, opt_name = name, opt_setter = s, opt_field = f, opt_def = d\<rparr>"

definition options :: "opt list" where
  "options =
    [mk_opt CHR ''d'' ''document_root'' Set_str F_document_root None,
     mk_opt CHR ''i'' ''index_files'' Set_str F_index_files
       (Some ''index.html index.htm index.php index.cgi''),
     mk_opt CHR ''p'' ''listen_ports'' Set_str F_ports (Some ''80''),
     mk_opt CHR ''D'' ''list_directories'' Set_int F_dirlist (Some ''1''),
     mk_opt CHR ''c'' ''cgi_extensions'' Set_str F_cgi_extensions (Some ''.cgi .pl .php''),
     mk_opt CHR ''C'' ''cgi_interpreter'' Set_str F_cgi_interpreter None,
     mk_opt CHR ''V'' ''cgi_envvar'' Set_str F_cgi_vars None,
     mk_opt CHR ''S'' ''ssi_extensions'' Set_str F_ssi_extensions (Some ''.shtml .shtm''),
     mk_opt CHR ''N'' ''auth_realm'' Set_str F_auth_realm (Some ''mydomain.com''),
     mk_opt CHR ''l'' ''access_log'' Set_log_file F_access_log None,
     mk_opt CHR ''e'' ''error_log'' Set_log_file F_error_log None,
     mk_opt CHR ''m'' ''mime_types'' Set_mime F_mime_file None,
     mk_opt CHR ''P'' ''global_htpasswd'' Set_str F_global_passwd_file None,
     mk_opt CHR ''s'' ''ssl_certificate'' Set_ssl F_ssl_ctx None,
     mk_opt CHR ''U'' ''put_auth'' Set_str F_put_auth_file None,
     mk_opt CHR ''a'' ''aliases'' Set_str F_aliases None,
     mk_opt CHR ''b'' ''io_buf_size'' Set_int F_io_buf_size (Some ''16384''),
     mk_opt CHR ''I'' ''inetd_mode'' Set_int F_inetd_mode None,
     mk_opt CHR ''u'' ''runtime_uid'' Set_str F_uid None]"

text \<open>The index of the first option with the switch \<open>sw\<close> (none is NUL) or the name.\<close>

fun find_opt :: "opt list \<Rightarrow> char \<Rightarrow> string option \<Rightarrow> nat \<Rightarrow> nat option" where
  "find_opt [] sw name i = None"
| "find_opt (o1 # os) sw name i =
     (if sw = opt_sw o1 \<or> name = Some (opt_name o1) then Some i else find_opt os sw name (i + 1))"

definition find_option :: "char \<Rightarrow> string option \<Rightarrow> nat option" where
  "find_option sw name = find_opt options sw name 0"

type_synonym tmpvars = "string option list"

definition set_option :: "nat \<Rightarrow> string \<Rightarrow> tmpvars \<Rightarrow> tmpvars" where
  "set_option i val tv = tv[i := Some (my_strdup val)]"

section \<open>Setters\<close>

text \<open>What the setters ask the system: whether a log file opens, the mime file and the stack it is
  read over, and what the SSL library says to a certificate file (the message of the failure).\<close>

record cfg_env =
  env_log :: "string \<Rightarrow> bool"
  env_file :: "string \<Rightarrow> string option"
  env_stack :: "char list"
  env_ssl :: "string \<Rightarrow> string option"
  env_cwd :: string
  env_time :: int

fun set_str :: "opt_field \<Rightarrow> string \<Rightarrow> shttpd_ctx \<Rightarrow> shttpd_ctx" where
  "set_str F_document_root v c = c\<lparr>document_root := Some (my_strdup v)\<rparr>"
| "set_str F_index_files v c = c\<lparr>index_files := Some (my_strdup v)\<rparr>"
| "set_str F_ports v c = c\<lparr>ctx_ports := Some (my_strdup v)\<rparr>"
| "set_str F_cgi_extensions v c = c\<lparr>cgi_extensions := Some (my_strdup v)\<rparr>"
| "set_str F_cgi_interpreter v c = c\<lparr>cgi_interpreter := Some (my_strdup v)\<rparr>"
| "set_str F_cgi_vars v c = c\<lparr>cgi_vars := Some (my_strdup v)\<rparr>"
| "set_str F_ssi_extensions v c = c\<lparr>ssi_extensions := Some (my_strdup v)\<rparr>"
| "set_str F_auth_realm v c = c\<lparr>auth_realm := Some (my_strdup v)\<rparr>"
| "set_str F_global_passwd_file v c = c\<lparr>global_passwd_file := Some (my_strdup v)\<rparr>"
| "set_str F_put_auth_file v c = c\<lparr>put_auth_file := Some (my_strdup v)\<rparr>"
| "set_str F_aliases v c = c\<lparr>ctx_aliases := Some (my_strdup v)\<rparr>"
| "set_str F_uid v c = c\<lparr>ctx_uid := Some (my_strdup v)\<rparr>"
| "set_str _ v c = c"

fun set_int :: "opt_field \<Rightarrow> string \<Rightarrow> shttpd_ctx \<Rightarrow> shttpd_ctx" where
  "set_int F_dirlist v c = c\<lparr>dirlist := atoi v\<rparr>"
| "set_int F_io_buf_size v c = c\<lparr>io_buf_size := atoi v\<rparr>"
| "set_int F_inetd_mode v c = c\<lparr>inetd_mode := atoi v\<rparr>"
| "set_int _ v c = c"

definition set_log_file :: "cfg_env \<Rightarrow> opt_field \<Rightarrow> string \<Rightarrow> shttpd_ctx \<Rightarrow> string + shttpd_ctx" where
  "set_log_file E f v c =
     (if \<not> env_log E v then Inl (''cannot open log file '' @ v)
      else Inr (if f = F_access_log then c\<lparr>access_log := Some v\<rparr> else c\<lparr>error_log := Some v\<rparr>))"

definition set_ssl :: "cfg_env \<Rightarrow> string \<Rightarrow> shttpd_ctx \<Rightarrow> string + shttpd_ctx" where
  "set_ssl E pem c = (case env_ssl E pem of Some msg \<Rightarrow> Inl msg | None \<Rightarrow> Inr (c\<lparr>ssl_ctx := True\<rparr>))"

definition set_mime :: "cfg_env \<Rightarrow> string \<Rightarrow> shttpd_ctx \<Rightarrow> string + shttpd_ctx" where
  "set_mime E path c =
     (case env_file E path of
        None \<Rightarrow> Inl (''set_mime_types: fopen('' @ path @ '')'')
      | Some file \<Rightarrow>
          (case set_mime_types (env_stack E) c file of
             None \<Rightarrow> Inl ''undefined behaviour'' | Some c1 \<Rightarrow> Inr c1))"

definition call_setter :: "cfg_env \<Rightarrow> opt \<Rightarrow> string \<Rightarrow> shttpd_ctx \<Rightarrow> string + shttpd_ctx" where
  "call_setter E o1 v c =
     (case opt_setter o1 of
        Set_int \<Rightarrow> Inr (set_int (opt_field o1) v c)
      | Set_str \<Rightarrow> Inr (set_str (opt_field o1) v c)
      | Set_log_file \<Rightarrow> set_log_file E (opt_field o1) v c
      | Set_mime \<Rightarrow> set_mime E v c
      | Set_ssl \<Rightarrow> set_ssl E v c)"

section \<open>The three passes\<close>

definition defaults_pass :: "tmpvars \<Rightarrow> tmpvars" where
  "defaults_pass tv = map2 (\<lambda>o1 v. if v = None then opt_def o1 else v) options tv"

text \<open>A line of the configuration file: the last byte is cut off, then a word and a value that ends
  at a hash sign are scanned.\<close>

definition config_line :: "string \<Rightarrow> tmpvars \<Rightarrow> string + tmpvars" where
  "config_line line tv =
     (if chd line = CHR ''#'' \<or> chd line = LF then Inr tv
      else case sscanf [SStr 4096, SSpace, SNot [CHR ''#'', LF]] (butlast line) of
             [VStr var, VStr val] \<Rightarrow>
               (case find_option NUL (Some var) of
                  None \<Rightarrow> Inl (''set_option: unknown variable ['' @ var @ '']'')
                | Some i \<Rightarrow> Inr (set_option i val tv))
           | _ \<Rightarrow> Inl (''init_ctx: bad line: ['' @ butlast line @ '']''))"

fun config_lines :: "string list \<Rightarrow> tmpvars \<Rightarrow> string + tmpvars" where
  "config_lines [] tv = Inr tv"
| "config_lines (l # ls) tv = (case config_line l tv of Inl e \<Rightarrow> Inl e | Inr tv1 \<Rightarrow> config_lines ls tv1)"

definition config_pass :: "cfg_env \<Rightarrow> string option \<Rightarrow> tmpvars \<Rightarrow> string + tmpvars" where
  "config_pass E config_file tv =
     (case (case config_file of None \<Rightarrow> None | Some f \<Rightarrow> env_file E f) of
        None \<Rightarrow> Inr tv
      | Some text \<Rightarrow> config_lines (fgets_lines FILENAME_MAX text) tv)"

text \<open>The arguments after the program name; \<open>usage\<close> exits.\<close>

fun args_pass :: "string list \<Rightarrow> tmpvars \<Rightarrow> string + tmpvars" where
  "args_pass [] tv = Inr tv"
| "args_pass (a # as) tv =
     (if chd a \<noteq> CHR ''-'' then Inr tv
      else case find_option (chat a 1) None of
             None \<Rightarrow> Inl ''usage''
           | Some i \<Rightarrow>
               if chat a 2 \<noteq> NUL then args_pass as (set_option i (drop 2 a) tv)
               else (case as of [] \<Rightarrow> Inl ''usage'' | v # as' \<Rightarrow> args_pass as' (set_option i v tv)))"

fun setters_pass :: "cfg_env \<Rightarrow> (opt \<times> string option) list \<Rightarrow> shttpd_ctx \<Rightarrow> string + shttpd_ctx" where
  "setters_pass E [] c = Inr c"
| "setters_pass E ((o1, None) # os) c = setters_pass E os c"
| "setters_pass E ((o1, Some v) # os) c =
     (case call_setter E o1 v c of Inl e \<Rightarrow> Inl e | Inr c1 \<Rightarrow> setters_pass E os c1)"

definition initialize_context ::
  "cfg_env \<Rightarrow> string option \<Rightarrow> string list \<Rightarrow> tmpvars \<Rightarrow> string + shttpd_ctx" where
  "initialize_context E config_file argv tv =
     (let c = zero_ctx\<lparr>start_time := env_time E\<rparr>
      in case config_pass E config_file (defaults_pass tv) of
           Inl e \<Rightarrow> Inl e
         | Inr tv2 \<Rightarrow>
             (case args_pass (tl argv) tv2 of
                Inl e \<Rightarrow> Inl e
              | Inr tv3 \<Rightarrow>
                  (case setters_pass E (zip options tv3) c of
                     Inl e \<Rightarrow> Inl e
                   | Inr c1 \<Rightarrow> Inr (if document_root c1 = None
                                   then c1\<lparr>document_root := Some (my_strdup (env_cwd E))\<rparr> else c1))))"

definition no_vars :: tmpvars where
  "no_vars = replicate (length options) None"

definition init_from_argc_argv :: "cfg_env \<Rightarrow> string option \<Rightarrow> string list \<Rightarrow> string + shttpd_ctx" where
  "init_from_argc_argv E config_file argv = initialize_context E config_file argv no_vars"

text \<open>The name-value arguments of \<open>shttpd_init\<close>.\<close>

fun init_opts :: "(string \<times> string) list \<Rightarrow> tmpvars \<Rightarrow> string + tmpvars" where
  "init_opts [] tv = Inr tv"
| "init_opts ((name, val) # os) tv =
     (case find_option NUL (Some name) of
        None \<Rightarrow> Inl (''shttpd_init: unknown variable ['' @ name @ '']'')
      | Some i \<Rightarrow> init_opts os (set_option i val tv))"

definition shttpd_init :: "cfg_env \<Rightarrow> string option \<Rightarrow> (string \<times> string) list \<Rightarrow> string + shttpd_ctx" where
  "shttpd_init E config_file os =
     (case init_opts os no_vars of
        Inl e \<Rightarrow> Inl e
      | Inr tv \<Rightarrow> initialize_context E config_file [] tv)"


section \<open>Finding options\<close>

lemma length_options [simp]: "length options = 19"
  by (simp add: options_def)

lemma options_sw: "o1 \<in> set options \<Longrightarrow> opt_sw o1 \<noteq> NUL"
  by (auto simp: options_def mk_opt_def)

lemma options_distinct: "distinct (map opt_name options)" "distinct (map opt_field options)"
  "distinct (map opt_sw options)"
  by (simp_all add: options_def mk_opt_def)

lemma find_opt_name:
  "\<forall>o1 \<in> set os. opt_sw o1 \<noteq> NUL \<Longrightarrow> find_opt os NUL (Some n) k = Some j \<Longrightarrow>
   k \<le> j \<and> j - k < length os \<and> opt_name (os ! (j - k)) = n"
proof (induction os arbitrary: k)
  case (Cons o1 os)
  show ?case
  proof (cases "opt_name o1 = n")
    case True
    then show ?thesis using Cons.prems by auto
  next
    case False
    then have "find_opt os NUL (Some n) (k + 1) = Some j" using Cons.prems by auto
    from Cons.IH [OF _ this] have "k + 1 \<le> j \<and> j - (k + 1) < length os \<and> opt_name (os ! (j - (k + 1))) = n"
      using Cons.prems by simp
    then show ?thesis by (auto simp: nth_Cons' Suc_diff_Suc)
  qed
qed simp

lemma find_opt_none:
  "find_opt os NUL (Some n) k = None \<Longrightarrow> n \<notin> opt_name ` set os"
  by (induction os arbitrary: k) (auto split: if_splits)

lemma find_option_name:
  assumes "find_option NUL (Some n) = Some j"
  shows "j < 19" "opt_name (options ! j) = n"
  using find_opt_name [of options n 0 j] assms options_sw by (auto simp: find_option_def)

lemma find_option_index:
  assumes "i < 19"
  shows "find_option NUL (Some (opt_name (options ! i))) = Some i"
proof (cases "find_option NUL (Some (opt_name (options ! i)))")
  case None
  then show ?thesis using assms find_opt_none [of options "opt_name (options ! i)" 0] nth_mem [of i options]
    by (auto simp: find_option_def)
next
  case (Some j)
  then have "j < 19" "opt_name (options ! j) = opt_name (options ! i)" using find_option_name by auto
  then have "j = i" using assms options_distinct(1) nth_eq_iff_index_eq [of "map opt_name options" j i] by auto
  then show ?thesis using Some by simp
qed

section \<open>What the setters leave\<close>

fun get_str :: "opt_field \<Rightarrow> shttpd_ctx \<Rightarrow> string option" where
  "get_str F_document_root c = document_root c"
| "get_str F_index_files c = index_files c"
| "get_str F_ports c = ctx_ports c"
| "get_str F_cgi_extensions c = cgi_extensions c"
| "get_str F_cgi_interpreter c = cgi_interpreter c"
| "get_str F_cgi_vars c = cgi_vars c"
| "get_str F_ssi_extensions c = ssi_extensions c"
| "get_str F_auth_realm c = auth_realm c"
| "get_str F_global_passwd_file c = global_passwd_file c"
| "get_str F_put_auth_file c = put_auth_file c"
| "get_str F_aliases c = ctx_aliases c"
| "get_str F_uid c = ctx_uid c"
| "get_str _ c = None"

definition str_field :: "opt_field \<Rightarrow> bool" where
  "str_field f \<longleftrightarrow> f \<notin> {F_dirlist, F_access_log, F_error_log, F_mime_file, F_ssl_ctx, F_io_buf_size, F_inetd_mode}"

lemma get_set_str: "str_field f \<Longrightarrow> get_str f (set_str g v c) = (if g = f then Some (my_strdup v) else get_str f c)"
  by (cases f; cases g; simp add: str_field_def)

lemma get_set_int [simp]: "get_str f (set_int g v c) = get_str f c"
  by (cases f; cases g; simp)

lemma get_str_other [simp]:
  "get_str f (c\<lparr>access_log := x\<rparr>) = get_str f c" "get_str f (c\<lparr>error_log := x\<rparr>) = get_str f c"
  "get_str f (c\<lparr>ssl_ctx := b\<rparr>) = get_str f c" "get_str f (c\<lparr>mime_types := m\<rparr>) = get_str f c"
  "get_str f (c\<lparr>start_time := t\<rparr>) = get_str f c"
  by (cases f; simp)+

lemma get_add_mime [simp]: "get_str f (shttpd_add_mime_type c e m) = get_str f c"
  by (simp add: shttpd_add_mime_type_def)

lemma ext_loop_get: "ext_loop buf i mime ext ctx = Some (ctx', ext') \<Longrightarrow> get_str f ctx' = get_str f ctx"
proof (induction buf i mime ext ctx rule: ext_loop.induct)
  case (1 buf i mime ext ctx)
  show ?case
  proof (cases "(length buf \<le> i \<or> mime = []) \<or> (buf ! i = NUL \<or> buf ! i = LF)")
    case True
    then show ?thesis using 1(2) by (subst (asm) ext_loop.simps) (auto split: if_splits)
  next
    case False
    then have nf: "\<not> (length buf \<le> i \<or> mime = [])" "\<not> (buf ! i = NUL \<or> buf ! i = LF)" by auto
    define w where "w = (case scan_word (length buf) (cstr (drop i buf)) of Some (w, r) \<Rightarrow> Some w | None \<Rightarrow> ext)"
    obtain e where e: "w = Some e"
      using 1(2) nf by (subst (asm) ext_loop.simps) (auto simp: w_def [symmetric] split: option.splits)
    have "ext_loop buf (i + length mime) mime (Some e) (shttpd_add_mime_type ctx e mime) = Some (ctx', ext')"
      using 1(2) nf e by (subst (asm) ext_loop.simps) (simp add: w_def [symmetric])
    from 1(1) [OF nf e [unfolded w_def] this] show ?thesis by simp
  qed
qed

lemma mime_lines_get: "mime_lines buf mime ext ctx ls = Some ctx' \<Longrightarrow> get_str f ctx' = get_str f ctx"
proof (induction ls arbitrary: buf mime ext ctx)
  case (Cons l ls)
  then show ?case
    by (auto simp: Let_def split: if_splits option.splits dest!: Cons.IH dest: ext_loop_get [where f = f])
qed simp

lemma call_setter_get:
  assumes "call_setter E o1 v c = Inr c'" "str_field f"
  shows "get_str f c' = (if opt_setter o1 = Set_str \<and> opt_field o1 = f then Some (my_strdup v) else get_str f c)"
  using assms
  by (cases "opt_setter o1")
    (auto simp: call_setter_def get_set_str set_log_file_def set_mime_def set_mime_types_def set_ssl_def
      split: if_splits option.splits dest: mime_lines_get)

lemma setters_get:
  assumes "setters_pass E os c = Inr c'" "str_field f"
  shows "get_str f c' =
    (case find (\<lambda>(o1, v). opt_setter o1 = Set_str \<and> opt_field o1 = f \<and> v \<noteq> None) (rev os) of
       Some (o1, Some v) \<Rightarrow> Some (my_strdup v) | _ \<Rightarrow> get_str f c)"
  using assms(1)
proof (induction E os c rule: setters_pass.induct)
  case (2 E o1 os c)
  then show ?case by (simp add: find_append split: option.splits)
next
  case (3 E o1 v os c)
  then obtain c1 where c1: "call_setter E o1 v c = Inr c1" "setters_pass E os c1 = Inr c'"
    by (auto split: sum.splits)
  note IH = 3(1) [OF c1(1) c1(2)]
  have "find (\<lambda>(o1, v). opt_setter o1 = Set_str \<and> opt_field o1 = f \<and> v \<noteq> None) (rev os) \<noteq> Some (a, None)" for a
    by (auto dest: find_SomeD)
  then show ?case using call_setter_get [OF c1(1) assms(2)] IH
    by (auto simp: find_append split: option.splits)
qed simp


lemma document_root_set:
  "initialize_context E cf argv tv = Inr c \<Longrightarrow> document_root c \<noteq> None"
  by (auto simp: initialize_context_def Let_def split: sum.splits if_splits)

section \<open>Precedence\<close>

lemma init_opts_nth:
  assumes "init_opts os tv = Inr tv'" "length tv = 19" "i < 19"
  shows "tv' ! i = (case map_of (rev os) (opt_name (options ! i)) of Some v \<Rightarrow> Some (my_strdup v) | None \<Rightarrow> tv ! i)
    \<and> length tv' = 19"
  using assms(1,2)
proof (induction os tv rule: init_opts.induct)
  case (2 name val os tv)
  then obtain j where j: "find_option NUL (Some name) = Some j" "init_opts os (set_option j val tv) = Inr tv'"
    by (auto split: option.splits)
  note IH = 2(1) [OF j]
  have jn: "j < 19" "opt_name (options ! j) = name" using find_option_name j(1) by auto
  have ji: "j = i \<longleftrightarrow> name = opt_name (options ! i)"
  proof
    show "j = i \<Longrightarrow> name = opt_name (options ! i)" using jn(2) by simp
  next
    assume "name = opt_name (options ! i)"
    then have "find_option NUL (Some name) = Some i" using find_option_index [OF assms(3)] by simp
    then show "j = i" using j(1) by simp
  qed
  have l: "length (set_option j val tv) = 19" using 2(3) by (simp add: set_option_def)
  have IH': "tv' ! i = (case map_of (rev os) (opt_name (options ! i)) of Some v \<Rightarrow> Some (my_strdup v)
      | None \<Rightarrow> set_option j val tv ! i) \<and> length tv' = 19"
    by (rule IH [OF l])
  have s: "set_option j val tv ! i = (if name = opt_name (options ! i) then Some (my_strdup val) else tv ! i)"
    using ji 2(3) assms(3) by (auto simp: set_option_def)
  have m: "map_of (rev ((name, val) # os)) (opt_name (options ! i)) =
      (case map_of (rev os) (opt_name (options ! i)) of Some v \<Rightarrow> Some v
      | None \<Rightarrow> if name = opt_name (options ! i) then Some val else None)"
    by (auto simp: map_add_def split: option.splits)
  show ?case using IH' unfolding m s by (simp split: option.splits)
qed simp

lemma length_defaults [simp]: "length (defaults_pass tv) = min 19 (length tv)"
  by (simp add: defaults_pass_def)

lemma defaults_nth: "length tv = 19 \<Longrightarrow> i < 19 \<Longrightarrow>
  defaults_pass tv ! i = (case tv ! i of None \<Rightarrow> opt_def (options ! i) | Some v \<Rightarrow> Some v)"
  by (auto simp: defaults_pass_def split: option.splits)

lemma find_zip:
  fixes tv :: tmpvars
  assumes "length tv = 19" "i < 19" "opt_setter (options ! i) = Set_str"
  shows "find (\<lambda>(o1, v). opt_setter o1 = Set_str \<and> opt_field o1 = opt_field (options ! i) \<and> v \<noteq> None) (rev (zip options tv)) =
    (case tv ! i of None \<Rightarrow> None | Some v \<Rightarrow> Some (options ! i, Some v))"
proof -
  let ?P = "\<lambda>(o1, v :: string option). opt_setter o1 = Set_str \<and> opt_field o1 = opt_field (options ! i) \<and> v \<noteq> None"
  have uniq: "x \<in> set (zip options tv) \<Longrightarrow> ?P x \<Longrightarrow> x = (options ! i, tv ! i)" for x :: "opt \<times> string option"
  proof -
    assume "x \<in> set (zip options tv)" and P: "?P x"
    then obtain j where j: "j < 19" "x = (options ! j, tv ! j)" using assms(1) by (auto simp: set_zip)
    then have "opt_field (options ! j) = opt_field (options ! i)" using P by simp
    then have "j = i" using j(1) assms(2) options_distinct(2) nth_eq_iff_index_eq [of "map opt_field options" j i] by auto
    then show ?thesis using j by simp
  qed
  have mem: "(options ! i, tv ! i) \<in> set (zip options tv)"
    using assms by (auto simp: set_zip)
  show ?thesis
  proof (cases "tv ! i")
    case None
    have "\<not> ?P x" if "x \<in> set (rev (zip options tv))" for x :: "opt \<times> string option"
      using uniq [of x] that None by auto
    then have "find ?P (rev (zip options tv)) = None" by (auto simp only: find_None_iff)
    then show ?thesis using None by simp
  next
    case (Some v)
    then have "?P (options ! i, tv ! i)" using assms by simp
    then have "find ?P (rev (zip options tv)) \<noteq> None" using mem by (auto simp only: find_None_iff set_rev)
    then obtain y where y: "find ?P (rev (zip options tv)) = Some y" by blast
    then have "?P y" "y \<in> set (rev (zip options tv))" using find_SomeD by fast+
    then have "y = (options ! i, tv ! i)" using uniq [of y] by simp
    then show ?thesis using y Some by simp
  qed
qed

lemma str_options: "i < 19 \<Longrightarrow> opt_setter (options ! i) = Set_str \<Longrightarrow> str_field (opt_field (options ! i))"
proof -
  assume "i < 19" "opt_setter (options ! i) = Set_str"
  moreover have "\<forall>o1 \<in> set options. opt_setter o1 = Set_str \<longrightarrow> str_field (opt_field o1)"
    by (simp add: options_def mk_opt_def str_field_def)
  ultimately show ?thesis using nth_mem [of i options] by auto
qed

lemma get_str_zero: "get_str f zero_ctx = None"
  by (cases f; simp add: zero_ctx_def)

text \<open>The pairs that the configuration file stands for: a line that is not a comment has a name and a value.\<close>

definition line_pairs :: "string \<Rightarrow> (string \<times> string) list" where
  "line_pairs line =
     (if chd line = CHR ''#'' \<or> chd line = LF then []
      else case sscanf [SStr 4096, SSpace, SNot [CHR ''#'', LF]] (butlast line) of
             [VStr var, VStr val] \<Rightarrow> [(var, val)]
           | _ \<Rightarrow> [])"

definition file_pairs :: "cfg_env \<Rightarrow> string option \<Rightarrow> (string \<times> string) list" where
  "file_pairs E config_file =
     (case (case config_file of None \<Rightarrow> None | Some f \<Rightarrow> env_file E f) of
        None \<Rightarrow> []
      | Some text \<Rightarrow> concat (map line_pairs (fgets_lines FILENAME_MAX text)))"

lemma init_opts_append:
  "init_opts (as @ bs) tv = (case init_opts as tv of Inl e \<Rightarrow> Inl e | Inr tv1 \<Rightarrow> init_opts bs tv1)"
  by (induction as tv rule: init_opts.induct) (auto split: option.splits)

lemma config_line_pairs: "config_line line tv = Inr tv' \<Longrightarrow> init_opts (line_pairs line) tv = Inr tv'"
  by (auto simp: config_line_def line_pairs_def split: if_splits list.splits scan_val.splits option.splits)

lemma config_lines_pairs: "config_lines ls tv = Inr tv' \<Longrightarrow> init_opts (concat (map line_pairs ls)) tv = Inr tv'"
  by (induction ls tv rule: config_lines.induct)
    (auto simp: init_opts_append split: sum.splits dest!: config_line_pairs)

lemma config_pass_pairs: "config_pass E cf tv = Inr tv' \<Longrightarrow> init_opts (file_pairs E cf) tv = Inr tv'"
  by (auto simp: config_pass_def file_pairs_def split: option.splits dest: config_lines_pairs)

text \<open>The last pair for a name wins, then the default; the document root is the working directory when it has neither.\<close>

definition opt_value :: "cfg_env \<Rightarrow> (string \<times> string) list \<Rightarrow> opt \<Rightarrow> string option" where
  "opt_value E kvs o1 =
     (case map_of (rev kvs) (opt_name o1) of
        Some v \<Rightarrow> Some (my_strdup (my_strdup v))
      | None \<Rightarrow>
          (case opt_def o1 of
             Some d \<Rightarrow> Some (my_strdup d)
           | None \<Rightarrow> if opt_field o1 = F_document_root then Some (my_strdup (env_cwd E)) else None))"

lemma init_value:
  assumes "shttpd_init E cf os = Inr c" "i < 19" "opt_setter (options ! i) = Set_str"
  shows "get_str (opt_field (options ! i)) c = opt_value E (os @ file_pairs E cf) (options ! i)"
proof -
  let ?f = "opt_field (options ! i)"
  obtain tv tv2 c1 where tv: "init_opts os no_vars = Inr tv" and tv2: "config_pass E cf (defaults_pass tv) = Inr tv2"
    and c1: "setters_pass E (zip options tv2) (zero_ctx\<lparr>start_time := env_time E\<rparr>) = Inr c1"
    and c: "c = (if document_root c1 = None then c1\<lparr>document_root := Some (my_strdup (env_cwd E))\<rparr> else c1)"
    using assms(1) by (auto simp: shttpd_init_def initialize_context_def Let_def split: sum.splits)
  have sf: "str_field ?f" using str_options assms by blast
  have nv: "length no_vars = 19" "no_vars ! i = None" using assms(2) by (auto simp: no_vars_def)
  note t = init_opts_nth [OF tv nv(1) assms(2)]
  have "length (defaults_pass tv) = 19" using t by simp
  note t2 = init_opts_nth [OF config_pass_pairs [OF tv2] this assms(2)]
  have v: "tv2 ! i = (case map_of (rev (os @ file_pairs E cf)) (opt_name (options ! i)) of
      Some v \<Rightarrow> Some (my_strdup v) | None \<Rightarrow> opt_def (options ! i))"
    using t t2 nv assms(2) by (auto simp: defaults_nth map_add_def split: option.splits)
  have g: "get_str ?f c1 = (case tv2 ! i of None \<Rightarrow> None | Some v \<Rightarrow> Some (my_strdup v))"
    unfolding setters_get [OF c1 sf]
    by (subst find_zip) (use t2 assms in \<open>auto simp: get_str_zero split: option.splits\<close>)
  have "get_str ?f c = (if ?f = F_document_root \<and> get_str ?f c1 = None then Some (my_strdup (env_cwd E)) else get_str ?f c1)"
    using c by (cases ?f; simp)
  then show ?thesis unfolding g v opt_value_def by (auto split: option.splits)
qed

section \<open>Properties\<close>


definition demo_env :: cfg_env where
  "demo_env = \<lparr>env_log = (\<lambda>f. True), env_file = (\<lambda>f. Some (''# site'' @ [LF] @ ''index_files c d'' @ [LF])), env_stack = [],
     env_ssl = (\<lambda>p. None), env_cwd = ''/srv'', env_time = 0\<rparr>"


end
