(* ===== verification/Poll.thy ===== *)
theory Poll
  imports Exchange Config
begin

text \<open>
  The server: its listeners and connections, new sockets (\<open>shttpd_add_socket\<close>, \<open>shttpd_listen\<close>,
  \<open>open_listening_ports\<close>), one iteration of the loop (\<open>shttpd_poll\<close>) and its end (\<open>shttpd_fini\<close>), from
  \<open>shttpd.c\<close>. Memory allocation and the SSL set-up calls succeed. A result says whether the process
  has exited.
\<close>

section \<open>State\<close>

text \<open>The global list of listeners: socket and \<open>is_ssl\<close>; the connections in their order.\<close>

record server =
  sv_ctx :: shttpd_ctx
  sv_listeners :: "(int \<times> bool) list"
  sv_conns :: "conn list"

definition FD_SETSIZE :: int where "FD_SETSIZE = 1024"

section \<open>New sockets\<close>

text \<open>A socket without a peer is only logged; the process exits in inetd mode.\<close>

definition shttpd_add_socket :: "'w os \<Rightarrow> int \<Rightarrow> server \<Rightarrow> 'w \<Rightarrow> server \<times> bool \<times> 'w" where
  "shttpd_add_socket S sock sv w =
     (let ctx = sv_ctx sv; l = (if inetd_mode ctx \<noteq> 0 then E_FATAL else E_LOG)
      in case os_peer S w sock of
           None \<Rightarrow> let (ex, w1) = elog S ctx l None ''add_socket'' w in (sv, ex, w1)
         | Some (addr, port) \<Rightarrow>
             let c = new_conn (nat (io_buf_size ctx)) addr port (os_port S w sock) sock (os_now S w);
                 (c1, w1) = (if ssl_ctx ctx
                             then ssl_handshake S Rem (c\<lparr>c_rem := (c_rem c)\<lparr>io_cls := Some IO_SSL\<rparr>\<rparr>) w
                             else (c, w))
             in (sv\<lparr>sv_ctx := ctx\<lparr>nrequests := nrequests ctx + 1, nactive := nactive ctx + 1\<rparr>,
                   sv_conns := sv_conns sv @ [c1]\<rparr>, False, w1))"

definition shttpd_active :: "server \<Rightarrow> int" where
  "shttpd_active sv = nactive (sv_ctx sv)"

text \<open>Every failure is fatal: \<open>None\<close> is the exit of the process.\<close>

definition shttpd_listen :: "'w os \<Rightarrow> int \<Rightarrow> bool \<Rightarrow> server \<Rightarrow> 'w \<Rightarrow> (int \<times> server \<times> 'w) option" where
  "shttpd_listen S port is_ssl sv w =
     (let (sock, w1) = os_listen S w port
      in if sock = -1 \<or> (is_ssl \<and> \<not> ssl_ctx (sv_ctx sv)) then None
         else Some (sock, sv\<lparr>sv_listeners := sv_listeners sv @ [(sock, is_ssl)]\<rparr>, w1))"

fun listen_all :: "'w os \<Rightarrow> (string \<times> nat) list \<Rightarrow> server \<Rightarrow> 'w \<Rightarrow> (server \<times> 'w) option" where
  "listen_all S [] sv w = Some (sv, w)"
| "listen_all S ((p, len) # ps) sv w =
     (case shttpd_listen S (atoi p) (chat p (len - 1) = CHR ''s'') sv w of
        None \<Rightarrow> None
      | Some (sock, sv1, w1) \<Rightarrow> listen_all S ps sv1 w1)"

definition open_listening_ports :: "'w os \<Rightarrow> server \<Rightarrow> 'w \<Rightarrow> (server \<times> 'w) option" where
  "open_listening_ports S sv w = listen_all S (FOR_EACH_WORD (ctx_ports (sv_ctx sv))) sv w"

section \<open>Readiness\<close>

definition wants_read :: "conn \<Rightarrow> int set" where
  "wants_read c =
     (if 0 < io_room (sio (c_rem c)) then {ch_fd (chan (c_rem c))} else {}) \<union>
     (if 0 < io_room (sio (c_loc c)) \<and> flagged (c_loc c) FLAG_R \<and> io_cls (c_loc c) = Some IO_CGI
      then {ch_fd (chan (c_loc c))} else {})"

definition wants_write :: "conn \<Rightarrow> int set" where
  "wants_write c =
     (if io_content (sio (c_rem c)) \<noteq> [] \<and> flagged (c_loc c) FLAG_W \<and> io_cls (c_loc c) = Some IO_CGI
      then {ch_fd (chan (c_loc c))} else {}) \<union>
     (if io_content (sio (c_loc c)) \<noteq> [] then {ch_fd (chan (c_rem c))} else {})"

text \<open>\<open>select\<close> does not wait when a local stream can work at once.\<close>

definition busy :: "conn \<Rightarrow> bool" where
  "busy c \<longleftrightarrow> flagged (c_loc c) FLAG_ALWAYS_READY \<and>
     (0 < io_room (sio (c_loc c)) \<and> flagged (c_loc c) FLAG_R \<or>
      io_content (sio (c_rem c)) \<noteq> [] \<and> flagged (c_loc c) FLAG_W)"

text \<open>The assertions of the length functions on both buffers.\<close>

definition lens_ok :: "conn \<Rightarrow> bool" where
  "lens_ok c \<longleftrightarrow> io_space_len (sio (c_rem c)) \<noteq> None \<and> io_space_len (sio (c_loc c)) \<noteq> None \<and>
     io_data_len (sio (c_rem c)) \<noteq> None \<and> io_data_len (sio (c_loc c)) \<noteq> None"

section \<open>One connection\<close>

definition poll_read_rem :: "'w os \<Rightarrow> shttpd_ctx \<Rightarrow> int set \<Rightarrow> conn \<Rightarrow> 'w \<Rightarrow> (conn \<times> 'w) option" where
  "poll_read_rem S ctx rs c w =
     (if ch_fd (chan (c_rem c)) \<in> rs then do {
        room \<leftarrow> io_space_len (sio (c_rem c));
        if 0 < room then read_stream S ctx Rem c w else Some (c, w)
      } else Some (c, w))"

definition poll_parse :: "'w os \<Rightarrow> shttpd_ctx \<Rightarrow> conn \<Rightarrow> 'w \<Rightarrow> (conn \<times> 'w) option" where
  "poll_parse S ctx c w =
     (if \<not> flagged (c_rem c) FLAG_HEADERS_PARSED then parse_http_request S ctx c w else Some (c, w))"

definition poll_read_loc :: "'w os \<Rightarrow> shttpd_ctx \<Rightarrow> int set \<Rightarrow> conn \<Rightarrow> 'w \<Rightarrow> (conn \<times> 'w) option" where
  "poll_read_loc S ctx rs c w = do {
     room \<leftarrow> io_space_len (sio (c_loc c));
     if 0 < room \<and> (flagged (c_loc c) FLAG_ALWAYS_READY \<or>
          io_cls (c_loc c) = Some IO_CGI \<and> ch_fd (chan (c_loc c)) \<in> rs)
     then read_stream S ctx Loc c w else Some (c, w)
   }"

definition poll_write_loc :: "'w os \<Rightarrow> conn \<Rightarrow> 'w \<Rightarrow> (conn \<times> 'w) option" where
  "poll_write_loc S c w = do {
     len \<leftarrow> io_data_len (sio (c_rem c));
     case io_cls (c_loc c) of
       None \<Rightarrow> Some (c, w)
     | Some k \<Rightarrow> if 0 < len \<and> flagged (c_loc c) FLAG_W \<and> has_write k then write_stream S Loc c w else Some (c, w)
   }"

definition poll_write_rem :: "'w os \<Rightarrow> conn \<Rightarrow> 'w \<Rightarrow> (conn \<times> 'w) option" where
  "poll_write_rem S c w = do {
     len \<leftarrow> io_data_len (sio (c_loc c));
     if 0 < len \<and> io_cls (c_rem c) \<noteq> None then write_stream S Rem c w else Some (c, w)
   }"

definition count_io :: "conn \<Rightarrow> shttpd_ctx \<Rightarrow> shttpd_ctx" where
  "count_io c ctx =
     (let r = nread_last (c_rem c); l = nread_last (c_loc c);
          ctx1 = (if 0 < r then ctx\<lparr>ctx_in := ctx_in ctx + word_of_int r\<rparr> else ctx)
      in if 0 < l then ctx1\<lparr>ctx_out := ctx_out ctx1 + word_of_int l\<rparr> else ctx1)"

definition is_over :: "int \<Rightarrow> conn \<Rightarrow> bool" where
  "is_over now c \<longleftrightarrow> expire_time c < now \<or> flagged (c_rem c) FLAG_CLOSED \<or>
     (flagged (c_loc c) FLAG_CLOSED \<and> io_content (sio (c_loc c)) = [])"

definition poll_conn :: "'w os \<Rightarrow> int set \<Rightarrow> shttpd_ctx \<Rightarrow> conn \<Rightarrow> 'w \<Rightarrow> (outcome \<times> shttpd_ctx \<times> 'w) option" where
  "poll_conn S rs ctx c w = do {
     (c1, w1) \<leftarrow> poll_read_rem S ctx rs c w;
     (c2, w2) \<leftarrow> poll_parse S ctx c1 w1;
     (c3, w3) \<leftarrow> poll_read_loc S ctx rs c2 w2;
     (c4, w4) \<leftarrow> poll_write_loc S c3 w3;
     (c5, w5) \<leftarrow> poll_write_rem S c4 w4;
     let ctx1 = count_io c5 ctx;
     if is_over (os_now S w5) c5 then disconnect S ctx1 c5 w5 else Some (Kept c5, ctx1, w5)
   }"

text \<open>All connections in their order; the rest is not looked at when the process exits.\<close>

fun poll_conns ::
  "'w os \<Rightarrow> int set \<Rightarrow> shttpd_ctx \<Rightarrow> conn list \<Rightarrow> 'w \<Rightarrow> (conn list \<times> shttpd_ctx \<times> bool \<times> 'w) option" where
  "poll_conns S rs ctx [] w = Some ([], ctx, False, w)"
| "poll_conns S rs ctx (c # cs) w =
     (case poll_conn S rs ctx c w of
        None \<Rightarrow> None
      | Some (Exits, ctx1, w1) \<Rightarrow> Some (c # cs, ctx1, True, w1)
      | Some (Freed, ctx1, w1) \<Rightarrow> poll_conns S rs ctx1 cs w1
      | Some (Kept c1, ctx1, w1) \<Rightarrow>
          map_option (\<lambda>(cs1, ctx2, ex, w2). (c1 # cs1, ctx2, ex, w2)) (poll_conns S rs ctx1 cs w1))"

section \<open>One iteration of the server loop\<close>

fun add_sockets :: "'w os \<Rightarrow> int list \<Rightarrow> server \<Rightarrow> 'w \<Rightarrow> server \<times> bool \<times> 'w" where
  "add_sockets S [] sv w = (sv, False, w)"
| "add_sockets S (s # ss) sv w =
     (if s < FD_SETSIZE
      then (let (sv1, ex, w1) = shttpd_add_socket S s sv w
            in if ex then (sv1, True, w1) else add_sockets S ss sv1 w1)
      else (let (ex, w1) = elog S (sv_ctx sv) E_LOG None ''shttpd_poll: disarding socket, too busy'' w
            in add_sockets S ss sv (os_close S w1 s)))"

fun accept_all :: "'w os \<Rightarrow> int set \<Rightarrow> (int \<times> bool) list \<Rightarrow> server \<Rightarrow> 'w \<Rightarrow> server \<times> bool \<times> 'w" where
  "accept_all S rs [] sv w = (sv, False, w)"
| "accept_all S rs ((sock, is_ssl) # ls) sv w =
     (if sock \<notin> rs then accept_all S rs ls sv w
      else let (ss, w1) = os_accept S w sock; (sv1, ex, w2) = add_sockets S ss sv w1
           in if ex then (sv1, True, w2) else accept_all S rs ls sv1 w2)"

definition shttpd_poll :: "'w os \<Rightarrow> int \<Rightarrow> server \<Rightarrow> 'w \<Rightarrow> (server \<times> bool \<times> 'w) option" where
  "shttpd_poll S milliseconds sv w =
     (let w0 = os_time S w; cs = sv_conns sv;
          rset = set (map fst (sv_listeners sv)) \<union> \<Union> (set (map wants_read cs));
          wset = \<Union> (set (map wants_write cs));
          msec = (if list_ex busy cs then 0 else milliseconds)
      in if \<not> list_all lens_ok cs then None
         else case os_select S w0 rset wset msec of
                (None, w1) \<Rightarrow> Some (sv, False, w1)
              | (Some (rs, ws), w1) \<Rightarrow>
                  let (sv1, ex, w2) = accept_all S rs (sv_listeners sv) sv w1
                  in if ex then Some (sv1, True, w2)
                     else map_option (\<lambda>(cs1, ctx1, ex1, w3). (sv1\<lparr>sv_conns := cs1, sv_ctx := ctx1\<rparr>, ex1, w3))
                            (poll_conns S rs (sv_ctx sv1) (sv_conns sv1) w2))"

section \<open>The end of the server\<close>

fun disconnect_all :: "'w os \<Rightarrow> shttpd_ctx \<Rightarrow> conn list \<Rightarrow> 'w \<Rightarrow> (shttpd_ctx \<times> bool \<times> 'w) option" where
  "disconnect_all S ctx [] w = Some (ctx, False, w)"
| "disconnect_all S ctx (c # cs) w =
     (case disconnect S ctx c w of
        None \<Rightarrow> None
      | Some (Exits, ctx1, w1) \<Rightarrow> Some (ctx1, True, w1)
      | Some (_, ctx1, w1) \<Rightarrow> disconnect_all S ctx1 cs w1)"

definition shttpd_fini :: "'w os \<Rightarrow> server \<Rightarrow> 'w \<Rightarrow> (bool \<times> 'w) option" where
  "shttpd_fini S sv w =
     map_option (\<lambda>(ctx1, ex, w1). (ex, if ex then w1 else foldl (\<lambda>v l. os_close S v (fst l)) w1 (sv_listeners sv)))
       (disconnect_all S (sv_ctx sv) (sv_conns sv) w)"

end
