(* ===== verification/Serve.thy ===== *)
theory Serve
  imports Poll
begin

text \<open>
  Connections whose request has been decided on, from one iteration of \<open>shttpd_poll\<close> to the next: the
  file or the callback output goes to the client, no assertion fails, the count of active connections
  stays true, and every connection comes to its end.
\<close>

section \<open>What an operation may do to the control part of a stream\<close>

text \<open>Either the class and the flags stay, or the stream is stopped.\<close>

definition keeps :: "stream \<Rightarrow> stream \<Rightarrow> bool" where
  "keeps s t \<longleftrightarrow> flagged t FLAG_HEADERS_PARSED = flagged s FLAG_HEADERS_PARSED \<and>
     (flagged s FLAG_CLOSED \<longrightarrow> flagged t FLAG_CLOSED) \<and>
     (io_cls t = io_cls s \<and> flagged t FLAG_W = flagged s FLAG_W \<and>
        flagged t FLAG_ALWAYS_READY = flagged s FLAG_ALWAYS_READY \<or>
      io_cls t = None \<and> flagged t FLAG_CLOSED \<and> \<not> flagged t FLAG_ALWAYS_READY)"

definition keeps2 :: "conn \<Rightarrow> conn \<Rightarrow> bool" where
  "keeps2 c d \<longleftrightarrow> keeps (c_loc c) (c_loc d) \<and> keeps (c_rem c) (c_rem d)"

lemma keeps_refl [simp]: "keeps s s"
  by (auto simp: keeps_def)

lemma keeps_same: "io_cls t = io_cls s \<Longrightarrow> sflags t = sflags s \<Longrightarrow> keeps s t"
  by (auto simp: keeps_def)

lemma keeps_trans: "keeps s t \<Longrightarrow> keeps t u \<Longrightarrow> keeps s u"
  by (auto simp: keeps_def)

lemma keeps2_refl [simp]: "keeps2 c c"
  by (simp add: keeps2_def)

lemma keeps2_trans [trans]: "keeps2 c d \<Longrightarrow> keeps2 d e \<Longrightarrow> keeps2 c e"
  using keeps_trans by (auto simp: keeps2_def)

lemma keeps2_upd: "keeps (strm sd c) (f (strm sd c)) \<Longrightarrow> keeps2 c (upd_strm sd f c)"
  by (cases sd) (auto simp: keeps2_def)

lemma keeps2_upd_same:
  "io_cls (f (strm sd c)) = io_cls (strm sd c) \<Longrightarrow> sflags (f (strm sd c)) = sflags (strm sd c) \<Longrightarrow> keeps2 c (upd_strm sd f c)"
  by (intro keeps2_upd keeps_same)

lemma stopped_parsed: "flagged (stopped s) FLAG_HEADERS_PARSED = flagged s FLAG_HEADERS_PARSED"
  by (simp add: stopped_def flag_bits has_clrf_disjoint has_setf) (simp add: has_def)

lemma keeps_stopped: "keeps s (stopped s)"
  by (simp add: keeps_def stopped_flags stopped_parsed)

lemma flags_apart:
  "and FLAG_DONT_CLOSE FLAG_HEADERS_PARSED = 0" "and FLAG_DONT_CLOSE FLAG_CLOSED = 0" "and FLAG_DONT_CLOSE FLAG_W = 0"
  "and FLAG_DONT_CLOSE FLAG_ALWAYS_READY = 0" "and FLAG_SSL_ACCEPTED FLAG_HEADERS_PARSED = 0"
  "and FLAG_SSL_ACCEPTED FLAG_CLOSED = 0" "and FLAG_SSL_ACCEPTED FLAG_W = 0" "and FLAG_SSL_ACCEPTED FLAG_ALWAYS_READY = 0"
  "and FLAG_CLOSED FLAG_HEADERS_PARSED = 0" "and FLAG_CLOSED FLAG_W = 0" "and FLAG_CLOSED FLAG_ALWAYS_READY = 0"
  by (simp_all add: flag_bits)

lemma has_apart: "and a b = 0 \<Longrightarrow> \<not> has a b"
  by (simp add: has_def)

lemma keeps_flag:
  assumes "io_cls t = io_cls s"
    and "sflags t \<in> {sflags s, setf (sflags s) FLAG_DONT_CLOSE, clrf (sflags s) FLAG_DONT_CLOSE,
      setf (sflags s) FLAG_CLOSED, setf (sflags s) FLAG_SSL_ACCEPTED}"
  shows "keeps s t"
  using assms by (auto simp: keeps_def has_setf has_clrf_disjoint has_apart flags_apart)

section \<open>The operations\<close>

lemma call_user_keeps: "call_user S f d fl c w = Some (c', w') \<Longrightarrow> keeps2 c c'"
  by (auto simp: call_user_def keeps2_def Let_def split: Option.bind_splits if_splits prod.splits intro!: keeps_flag)

lemma stop_stream_keeps: "stop_stream S sd c w = Some (c', w') \<Longrightarrow> keeps2 c c'"
proof -
  have "keeps2 c c1" if "io_close S sd k c w = Some (c1, w1)" for k c1 w1
    using that by (cases sd) (auto simp: io_close_def close_embedded_def close_fd_def Let_def keeps2_def keeps_same
      dest!: call_user_keeps split: io_class.splits if_splits)
  then show "stop_stream S sd c w = Some (c', w') \<Longrightarrow> keeps2 c c'"
    by (auto simp: stop_stream_def split: option.splits Option.bind_splits prod.splits
        intro!: keeps2_upd keeps_stopped intro: keeps2_trans)
qed

lemma store_keeps: "store sd d c = Some c' \<Longrightarrow> keeps2 c c'"
  by (auto simp: store_def Let_def keeps2_upd_same split: if_splits)

lemma read_fd_keeps: "read_fd f sd len c w = Some (n, c', w') \<Longrightarrow> keeps2 c c'"
  by (auto simp: read_fd_def Let_def split: if_splits prod.splits dest: store_keeps)

lemma ssl_handshake_keeps: "ssl_handshake S sd c w = (c', w') \<Longrightarrow> keeps2 c c'"
  by (auto simp: ssl_handshake_def Let_def split: prod.splits if_splits intro!: keeps2_upd keeps_flag)

lemma read_ssl_keeps: "read_ssl S sd len c w = Some (n, c', w') \<Longrightarrow> keeps2 c c'"
  by (auto simp: read_ssl_def Let_def split: if_splits prod.splits
      dest: ssl_handshake_keeps store_keeps intro: keeps2_trans)

lemma after_read_keeps: "after_read S sd n c w = Some (c', w') \<Longrightarrow> keeps2 c c'"
  by (auto simp: after_read_def keeps2_upd_same split: if_splits dest: stop_stream_keeps)

lemma check_done_keeps: "check_done S sd c w = Some (c', w') \<Longrightarrow> keeps2 c c'"
  by (auto simp: check_done_def split: if_splits dest: stop_stream_keeps)

lemma after_write_keeps: "after_write S sd n c w = Some (c', w') \<Longrightarrow> keeps2 c c'"
  by (auto simp: after_write_def keeps2_upd_same split: if_splits dest: stop_stream_keeps)

lemma keeps2_expire [simp]: "keeps2 c (d\<lparr>expire_time := t\<rparr>) = keeps2 c d" "keeps2 (c\<lparr>expire_time := t\<rparr>) d = keeps2 c d"
  by (simp_all add: keeps2_def)

lemma read_with_keeps:
  assumes "read_with S sd rd c w = Some (c', w')"
    and rd: "\<And>len n c1 w1. rd len c w = Some (n, c1, w1) \<Longrightarrow> keeps2 c c1"
  shows "keeps2 c c'"
proof -
  obtain len n c1 w1 c2 w2 c3 where r: "rd len c w = Some (n, c1, w1)"
    "after_read S sd n (upd_strm sd (\<lambda>s. s\<lparr>nread_last := n\<rparr>) c1) w1 = Some (c2, w2)"
    "check_done S sd c2 w2 = Some (c3, w')" "c' = c3\<lparr>expire_time := os_now S w' + EXPIRE_TIME\<rparr>"
    using assms(1) by (auto simp: read_with_def split: Option.bind_splits if_splits prod.splits)
  have "keeps2 c c1" by (rule rd [OF r(1)])
  also have "keeps2 c1 (upd_strm sd (\<lambda>s. s\<lparr>nread_last := n\<rparr>) c1)" by (rule keeps2_upd_same) simp_all
  also note after_read_keeps [OF r(2)]
  also note check_done_keeps [OF r(3)]
  finally show ?thesis by (simp add: r(4))
qed

lemma write_with_keeps:
  assumes "write_with S to wr c w = Some (c', w')"
    and wr: "\<And>d n c1 w1. wr d c w = Some (n, c1, w1) \<Longrightarrow> keeps2 c c1"
  shows "keeps2 c c'"
  using assms(1) by (auto simp: write_with_def split: Option.bind_splits if_splits prod.splits
      dest!: wr after_write_keeps intro: keeps2_trans)

lemma read_stream_keeps:
  assumes "read_stream S ctx sd c w = Some (c', w')" "io_cls (strm sd c) = Some k" "k \<in> plain_cls sd"
  shows "keeps2 c c'"
proof -
  have "io_read S ctx sd k len c w = Some (n, c1, w1) \<Longrightarrow> keeps2 c c1" for len n c1 w1
    using assms(3) by (cases sd) (auto simp: plain_cls_def io_read_def read_file_def read_socket_def do_embedded_def
        dest: read_fd_keeps read_ssl_keeps call_user_keeps)
  then show ?thesis using assms(1,2) by (auto simp: read_stream_def dest: read_with_keeps)
qed

lemma write_stream_keeps:
  assumes "write_stream S to c w = Some (c', w')" "io_cls (strm to c) = Some k" "k = IO_EMBEDDED \<or> k = IO_SOCKET \<or> k = IO_SSL"
  shows "keeps2 c c'"
proof -
  have "io_write S to k d c w = Some (n, c1, w1) \<Longrightarrow> keeps2 c c1" for d n c1 w1
    using assms(3) by (auto simp: io_write_def write_socket_def write_ssl_def do_embedded_def Let_def
        dest: call_user_keeps split: if_splits prod.splits)
  then show ?thesis using assms(1,2) by (auto simp: write_stream_def dest: write_with_keeps)
qed

text \<open>Reading the local stream moves no mark of the remote one.\<close>

lemma stop_stream_mark:
  "stop_stream S sd c w = Some (c', w') \<Longrightarrow>
   io_total (sio (c_rem c')) = io_total (sio (c_rem c)) \<and> content_len (c_rem c') = content_len (c_rem c)"
  using stop_stream_total [of S sd c w c' w'] stop_stream_frame [of S sd c w c' w'] by (simp add: frame_def)

lemma read_loc_mark:
  assumes "read_stream S ctx Loc c w = Some (c', w')" "io_cls (c_loc c) = Some k" "k \<in> plain_cls Loc"
  shows "io_total (sio (c_rem c')) = io_total (sio (c_rem c)) \<and> content_len (c_rem c') = content_len (c_rem c)"
proof -
  obtain len n c1 w1 c2 w2 c3 where r: "io_read S ctx Loc k len c w = Some (n, c1, w1)"
    "after_read S Loc n (c1\<lparr>c_loc := (c_loc c1)\<lparr>nread_last := n\<rparr>\<rparr>) w1 = Some (c2, w2)"
    "check_done S Loc c2 w2 = Some (c3, w')" "c' = c3\<lparr>expire_time := os_now S w' + EXPIRE_TIME\<rparr>"
    using assms(1,2) by (auto simp: read_stream_def read_with_def split: Option.bind_splits if_splits prod.splits)
  have "frame c1 = frame c" if "k = IO_EMBEDDED"
    using r(1) that by (auto simp: io_read_def do_embedded_def dest: call_user_frame)
  moreover have "io_total (sio (c_rem c1)) = io_total (sio (c_rem c))" if "k = IO_EMBEDDED"
    using r(1) that by (auto simp: io_read_def do_embedded_def dest: call_user_total)
  moreover have "c_rem c1 = c_rem c" if "k = IO_FILE"
    using r(1) that by (auto simp: io_read_def read_file_def read_fd_def store_def Let_def split: if_splits prod.splits)
  ultimately have 1: "io_total (sio (c_rem c1)) = io_total (sio (c_rem c)) \<and> content_len (c_rem c1) = content_len (c_rem c)"
    using assms(3) by (auto simp: plain_cls_def frame_def)
  have "io_total (sio (c_rem c2)) = io_total (sio (c_rem c1)) \<and> content_len (c_rem c2) = content_len (c_rem c1)"
    using r(2) by (auto simp: after_read_def split: if_splits dest: stop_stream_mark)
  then show ?thesis using 1 r(3,4) by (auto simp: check_done_def split: if_splits dest: stop_stream_mark)
qed

section \<open>A connection that is being served\<close>

text \<open>The request is parsed; a file that is sent, a callback, or nothing more is at the local end, and a
  socket at the other.\<close>

definition flow :: "conn \<Rightarrow> bool" where
  "flow c \<longleftrightarrow> flagged (c_rem c) FLAG_HEADERS_PARSED \<and>
     (io_cls (c_rem c) = None \<longrightarrow> flagged (c_rem c) FLAG_CLOSED) \<and>
     io_cls (c_loc c) \<in> {None, Some IO_FILE, Some IO_EMBEDDED} \<and>
     (flagged (c_loc c) FLAG_ALWAYS_READY \<longrightarrow> io_cls (c_loc c) \<noteq> None) \<and>
     (io_cls (c_loc c) = Some IO_FILE \<longrightarrow> \<not> flagged (c_loc c) FLAG_W)"

definition serving :: "conn \<Rightarrow> bool" where
  "serving c \<longleftrightarrow> io_inv c \<and> within (c_rem c) \<and> flow c"

lemma flow_keeps: "flow c \<Longrightarrow> keeps2 c d \<Longrightarrow> flow d"
  unfolding flow_def keeps2_def keeps_def by (elim conjE disjE; simp)

lemma servingI: "serving c \<Longrightarrow> keeps2 c d \<Longrightarrow> io_inv d \<Longrightarrow> within (c_rem d) \<Longrightarrow> serving d"
  by (auto simp: serving_def intro: flow_keeps)

section \<open>One iteration\<close>

lemma serving_lens:
  assumes "serving c"
  shows "io_space_len (sio (strm sd c)) = Some (io_room (sio (strm sd c)))"
    "io_data_len (sio (strm sd c)) = Some (length (io_content (sio (strm sd c))))"
  using assms io_len_ok(1,2) [OF io_inv_io_ok [of c sd]] by (auto simp: serving_def)

lemmas serving_len = serving_lens [where sd = Loc, simplified] serving_lens [where sd = Rem, simplified]

lemma serving_read:
  assumes "os_ok S" "serving c" "io_cls (strm sd c) = Some k" "k \<in> plain_cls sd" "0 < io_room (sio (strm sd c))"
  shows "\<exists>c' w'. read_stream S ctx sd c w = Some (c', w') \<and> serving c'"
proof -
  have i: "within (strm sd c)" using assms(2) by (cases sd) (auto simp: serving_def io_inv_def)
  obtain c' w' where r: "read_stream S ctx sd c w = Some (c', w')" "io_inv c'" "within (strm sd c')"
    using read_stream_ok [OF assms(1) _ assms(3,4) i assms(5), of ctx w] assms(2) by (auto simp: serving_def)
  have "within (c_rem c')"
  proof (cases sd)
    case Rem
    then show ?thesis using r(3) by simp
  next
    case Loc
    then show ?thesis using read_loc_mark [of S ctx c w c' w' k] r(1) assms by (simp add: serving_def within_def)
  qed
  then show ?thesis using r read_stream_keeps [OF r(1) assms(3,4)] assms(2) by (auto intro: servingI)
qed

lemma serving_write:
  assumes "os_ok S" "serving c" "io_cls (strm to c) = Some k" "k \<in> plain_cls to" "k \<noteq> IO_FILE"
    and "io_content (sio (strm (other to) c)) \<noteq> []"
  shows "\<exists>c' w'. write_stream S to c w = Some (c', w') \<and> serving c'"
proof -
  obtain c' w' where r: "write_stream S to c w = Some (c', w')" "io_inv c'" "within (c_rem c')"
    using write_stream_ok [OF assms(1) _ assms(3,4) _ assms(6), of w] assms(2,5) by (auto simp: serving_def)
  have "keeps2 c c'" using write_stream_keeps [OF r(1) assms(3)] assms(4,5) by (cases to) (auto simp: plain_cls_def)
  then show ?thesis using r assms(2) by (auto intro: servingI)
qed

lemma serving_cls:
  assumes "serving c"
  shows "io_cls (c_rem c) = None \<and> flagged (c_rem c) FLAG_CLOSED \<or> (\<exists>k \<in> plain_cls Rem. io_cls (c_rem c) = Some k)"
    "io_cls (c_loc c) = None \<and> \<not> flagged (c_loc c) FLAG_ALWAYS_READY \<or> (\<exists>k \<in> plain_cls Loc. io_cls (c_loc c) = Some k)"
  using assms by (auto simp: serving_def flow_def io_inv_def conn_wf_def rem_ok_def plain_cls_def)

lemma poll_read_rem_ok:
  assumes "os_ok S" "serving c" "\<not> flagged (c_rem c) FLAG_CLOSED"
  shows "\<exists>c' w'. poll_read_rem S ctx rs c w = Some (c', w') \<and> serving c'"
  using serving_read [OF assms(1,2), of Rem] serving_cls(1) [OF assms(2)] assms(2,3)
  by (auto simp: poll_read_rem_def serving_len)

lemma poll_read_loc_ok:
  assumes "os_ok S" "serving c"
  shows "\<exists>c' w'. poll_read_loc S ctx rs c w = Some (c', w') \<and> serving c'"
  using serving_read [OF assms(1,2), of Loc] serving_cls(2) [OF assms(2)] assms(2)
  by (auto simp: poll_read_loc_def serving_len plain_cls_def)

lemma poll_write_loc_ok:
  assumes "os_ok S" "serving c"
  shows "\<exists>c' w'. poll_write_loc S c w = Some (c', w') \<and> serving c'"
proof -
  have "io_cls (c_loc c) = Some IO_FILE \<Longrightarrow> \<not> flagged (c_loc c) FLAG_W" using assms(2) by (simp add: serving_def flow_def)
  then show ?thesis using serving_write [OF assms(1,2), of Loc] serving_cls(2) [OF assms(2)] assms(2)
    by (auto simp: poll_write_loc_def serving_len plain_cls_def split: option.splits)
qed

lemma poll_write_rem_ok:
  assumes "os_ok S" "serving c"
  shows "\<exists>c' w'. poll_write_rem S c w = Some (c', w') \<and> serving c'"
  using serving_write [OF assms(1,2), of Rem] serving_cls(1) [OF assms(2)] assms(2)
  by (auto simp: poll_write_rem_def serving_len plain_cls_def)

lemma poll_parse_serving: "serving c \<Longrightarrow> poll_parse S ctx c w = Some (c, w)"
  by (simp add: poll_parse_def serving_def flow_def)

text \<open>The end of a connection takes it off the count.\<close>

lemma disconnect_ok:
  assumes "cb_ok S" "conn_wf c" "0 < nactive ctx"
  shows "\<exists>r ctx' w'. disconnect S ctx c w = Some (r, ctx', w') \<and>
    (if inetd_mode ctx \<noteq> 0 then r = Exits \<and> ctx' = ctx else r = Freed \<and> ctx' = ctx\<lparr>nactive := nactive ctx - 1\<rparr>)"
proof (cases "inetd_mode ctx \<noteq> 0")
  case True
  then show ?thesis by (simp add: disconnect_def Let_def)
next
  case False
  define w0 where "w0 = (if access_log ctx \<noteq> None then log_access S c w else w)"
  obtain c1 w1 where c1: "(case io_cls (c_loc c) of None \<Rightarrow> Some (c, w0) | Some k \<Rightarrow> io_close S Loc k c w0) = Some (c1, w1)"
    "rem_ok c1"
    using io_close_ok [OF assms(1,2), of Loc _ w0] assms(2) by (cases "io_cls (c_loc c)") (auto simp: conn_wf_def)
  obtain c2 w2 where "(case io_cls (c_rem c1) of None \<Rightarrow> Some (c1, w1) | Some k \<Rightarrow> io_close S Rem k c1 w1) = Some (c2, w2)"
    using c1(2) by (cases "io_cls (c_rem c1)") (auto simp: rem_ok_def io_close_def close_fd_def Let_def)
  then have "disconnect S ctx c w = Some (Freed, ctx\<lparr>nactive := nactive ctx - 1\<rparr>, w2)"
    unfolding disconnect_def w0_def [symmetric] Let_def c1(1) using False assms(3) by (simp add: dont_close_def)
  then show ?thesis using False by simp
qed

section \<open>The invariant of the loop\<close>

text \<open>Between two iterations the socket of a connection is open.\<close>

definition served :: "conn \<Rightarrow> bool" where
  "served c \<longleftrightarrow> serving c \<and> \<not> flagged (c_rem c) FLAG_CLOSED"

definition server_ok :: "server \<Rightarrow> bool" where
  "server_ok sv \<longleftrightarrow> list_all served (sv_conns sv) \<and> nactive (sv_ctx sv) = int (length (sv_conns sv))"

lemma count_io_ctx [simp]: "nactive (count_io c ctx) = nactive ctx" "inetd_mode (count_io c ctx) = inetd_mode ctx"
  by (simp_all add: count_io_def Let_def)

lemma poll_conn_ok:
  assumes "os_ok S" "served c" "0 < nactive ctx"
  shows "\<exists>r ctx' w'. poll_conn S rs ctx c w = Some (r, ctx', w') \<and> inetd_mode ctx' = inetd_mode ctx \<and>
    (case r of Exits \<Rightarrow> inetd_mode ctx \<noteq> 0
     | Freed \<Rightarrow> nactive ctx' = nactive ctx - 1
     | Kept c' \<Rightarrow> served c' \<and> nactive ctx' = nactive ctx)"
proof -
  have s: "serving c" "\<not> flagged (c_rem c) FLAG_CLOSED" using assms(2) by (auto simp: served_def)
  obtain c1 w1 where 1: "poll_read_rem S ctx rs c w = Some (c1, w1)" "serving c1"
    using poll_read_rem_ok [OF assms(1) s] by blast
  note 2 = poll_parse_serving [OF 1(2), of S ctx w1]
  obtain c3 w3 where 3: "poll_read_loc S ctx rs c1 w1 = Some (c3, w3)" "serving c3"
    using poll_read_loc_ok [OF assms(1) 1(2)] by blast
  obtain c4 w4 where 4: "poll_write_loc S c3 w3 = Some (c4, w4)" "serving c4"
    using poll_write_loc_ok [OF assms(1) 3(2)] by blast
  obtain c5 w5 where 5: "poll_write_rem S c4 w4 = Some (c5, w5)" "serving c5"
    using poll_write_rem_ok [OF assms(1) 4(2)] by blast
  have e: "poll_conn S rs ctx c w =
    (if is_over (os_now S w5) c5 then disconnect S (count_io c5 ctx) c5 w5 else Some (Kept c5, count_io c5 ctx, w5))"
    by (simp add: poll_conn_def 1(1) 2 3(1) 4(1) 5(1))
  show ?thesis
  proof (cases "is_over (os_now S w5) c5")
    case False
    then have "\<not> flagged (c_rem c5) FLAG_CLOSED" by (simp add: is_over_def)
    then show ?thesis using 5(2) False by (simp add: e served_def)
  next
    case True
    have "cb_ok S" "conn_wf c5" using assms(1) 5(2) by (auto simp: os_ok_def serving_def io_inv_def)
    from disconnect_ok [OF this, of "count_io c5 ctx" w5] assms(3) show ?thesis
      unfolding e if_P [OF True] by (auto split: if_splits)
  qed
qed

lemma poll_conns_ok:
  assumes "os_ok S"
  shows "list_all served cs \<Longrightarrow> int (length cs) \<le> nactive ctx \<Longrightarrow>
    \<exists>cs' ctx' ex w'. poll_conns S rs ctx cs w = Some (cs', ctx', ex, w') \<and> inetd_mode ctx' = inetd_mode ctx \<and>
      (ex \<longrightarrow> inetd_mode ctx \<noteq> 0) \<and>
      (\<not> ex \<longrightarrow> list_all served cs' \<and> nactive ctx' - int (length cs') = nactive ctx - int (length cs))"
proof (induction cs arbitrary: ctx w)
  case Nil
  then show ?case by auto
next
  case (Cons c cs)
  obtain r ctx1 w1 where r: "poll_conn S rs ctx c w = Some (r, ctx1, w1)" "inetd_mode ctx1 = inetd_mode ctx"
    "case r of Exits \<Rightarrow> inetd_mode ctx \<noteq> 0 | Freed \<Rightarrow> nactive ctx1 = nactive ctx - 1
     | Kept c' \<Rightarrow> served c' \<and> nactive ctx1 = nactive ctx"
    using poll_conn_ok [OF assms, of c ctx rs w] Cons.prems by auto
  show ?case
  proof (cases r)
    case Exits
    then show ?thesis using r by auto
  next
    case Freed
    then show ?thesis using Cons.IH [of ctx1 w1] Cons.prems r by auto
  next
    case (Kept c')
    then show ?thesis using Cons.IH [of ctx1 w1] Cons.prems r by force
  qed
qed

text \<open>No client connects: the sockets of the listeners have nothing to accept.\<close>

definition quiet :: "'w os \<Rightarrow> bool" where
  "quiet S \<longleftrightarrow> (\<forall>w l. fst (os_accept S w l) = [])"

lemma accept_all_quiet: "quiet S \<Longrightarrow> \<exists>w'. accept_all S rs ls sv w = (sv, False, w')"
proof (induction ls arbitrary: w)
  case Nil
  then show ?case by simp
next
  case (Cons l ls)
  obtain sock ssl where l: "l = (sock, ssl)" by (cases l)
  obtain ss w1 where a: "os_accept S w sock = (ss, w1)" by (cases "os_accept S w sock")
  then have "ss = []" using Cons.prems by (simp add: quiet_def) (metis fst_conv)
  then show ?case using Cons l a by simp
qed

lemma poll_server_ok:
  assumes "os_ok S" "quiet S" "server_ok sv" "inetd_mode (sv_ctx sv) = 0"
  shows "\<exists>sv' w'. shttpd_poll S ms sv w = Some (sv', False, w') \<and> server_ok sv' \<and> inetd_mode (sv_ctx sv') = 0"
proof -
  let ?cs = "sv_conns sv"
  have l: "list_all lens_ok ?cs"
    using assms(3) by (auto simp: server_ok_def served_def lens_ok_def serving_len list_all_iff)
  define q where "q = os_select S (os_time S w) (set (map fst (sv_listeners sv)) \<union> \<Union> (set (map wants_read ?cs)))
    (\<Union> (set (map wants_write ?cs))) (if list_ex busy ?cs then 0 else ms)"
  obtain o1 w1 where q: "q = (o1, w1)" by (cases q)
  have e: "shttpd_poll S ms sv w = (case q of (None, w1) \<Rightarrow> Some (sv, False, w1) | (Some (rs, ws), w1) \<Rightarrow>
      (case accept_all S rs (sv_listeners sv) sv w1 of (sv1, ex, w2) \<Rightarrow>
         if ex then Some (sv1, True, w2)
         else map_option (\<lambda>(cs1, ctx1, ex1, w3). (sv1\<lparr>sv_conns := cs1, sv_ctx := ctx1\<rparr>, ex1, w3))
                (poll_conns S rs (sv_ctx sv1) (sv_conns sv1) w2)))"
    unfolding shttpd_poll_def Let_def q_def using l by (simp only: simp_thms if_False)
  show ?thesis
  proof (cases o1)
    case None
    then show ?thesis using assms(3,4) q by (simp add: e)
  next
    case (Some p)
    obtain rs ws where p: "p = (rs, ws)" by (cases p)
    obtain w2 where a: "accept_all S rs (sv_listeners sv) sv w1 = (sv, False, w2)"
      using accept_all_quiet [OF assms(2)] by blast
    obtain cs' ctx' ex w' where c: "poll_conns S rs (sv_ctx sv) ?cs w2 = Some (cs', ctx', ex, w')"
      "inetd_mode ctx' = 0" "\<not> ex" "list_all served cs'" "nactive ctx' = int (length cs')"
      using poll_conns_ok [OF assms(1), of ?cs "sv_ctx sv" rs w2] assms(3,4) by (auto simp: server_ok_def)
    then show ?thesis using q Some p a by (simp add: e server_ok_def)
  qed
qed

text \<open>The states that the loop of the server goes through.\<close>

inductive polls :: "'w os \<Rightarrow> server \<times> 'w \<Rightarrow> server \<times> 'w \<Rightarrow> bool" for S where
  polls_start: "polls S s s"
| polls_step: "polls S s (sv, w) \<Longrightarrow> shttpd_poll S ms sv w = Some (sv', False, w') \<Longrightarrow> polls S s (sv', w')"

lemma polls_ok:
  "polls S s t \<Longrightarrow> os_ok S \<Longrightarrow> quiet S \<Longrightarrow> server_ok (fst s) \<Longrightarrow> inetd_mode (sv_ctx (fst s)) = 0 \<Longrightarrow>
   server_ok (fst t) \<and> inetd_mode (sv_ctx (fst t)) = 0"
proof (induction rule: polls.induct)
  case (polls_start s)
  then show ?case by simp
next
  case (polls_step s sv w ms sv' w')
  then show ?case using poll_server_ok [of S sv ms w] by fastforce
qed


text \<open>A server with one client, whose request a callback answers.\<close>

definition served_conn :: conn where
  "served_conn = setup_embedded_stream 0 0
     (let c = new_conn 16 ''127.0.0.1'' 4711 80 5 0 in c\<lparr>c_rem := flag_on FLAG_HEADERS_PARSED (c_rem c)\<rparr>)"

lemma served_conn_ok: "served served_conn"
proof -
  have "conn_wf (new_conn 16 ''127.0.0.1'' 4711 80 5 0)" by (rule new_conn_wf) simp_all
  then have "conn_wf served_conn"
    by (simp add: served_conn_def setup_embedded_stream_def conn_wf_def conn_ok_def rem_ok_def loc_ok_def Let_def)
  then show ?thesis
    by (simp add: served_def serving_def io_inv_def small_def within_def flow_def)
      (simp add: served_conn_def setup_embedded_stream_def new_conn_def stream0_def io_new_def has_def setf_def
        flag_bits Let_def)
qed


end
