(* ===== verification/Deliver.thy ===== *)
theory Deliver
  imports Serve
begin

text \<open>
  What the client gets: a reply that is in the local buffer, and the file behind it, reach the socket
  whole and in their order before the connection is closed. The world is observed through two
  functions: the bytes a descriptor has still to give and the bytes a socket has taken.
\<close>

section \<open>A link\<close>

text \<open>A descriptor gives at least one byte when asked for one, until nothing is left. A socket that does not
  block takes at least one byte, or refuses with \<open>EWOULDBLOCK\<close>: at most \<open>lim\<close> times in a row, \<open>stalls\<close> being
  how often it still will. Time stands still within an iteration of the loop (it is set by \<open>os_time\<close> only).\<close>

definition read_ok ::
  "'w os \<Rightarrow> ('w \<Rightarrow> int \<Rightarrow> char list) \<Rightarrow> ('w \<Rightarrow> int \<Rightarrow> char list) \<Rightarrow> ('w \<Rightarrow> int \<Rightarrow> nat) \<Rightarrow> bool" where
  "read_ok S unread sent stalls \<longleftrightarrow>
     (\<forall>w fd n. \<exists>k \<le> n. fst (os_read S w fd n) = Got (take k (unread w fd)) \<and> (0 < n \<longrightarrow> 0 < k) \<and>
        unread (snd (os_read S w fd n)) fd = drop k (unread w fd) \<and> sent (snd (os_read S w fd n)) = sent w \<and>
        stalls (snd (os_read S w fd n)) = stalls w \<and> os_now S (snd (os_read S w fd n)) = os_now S w)"

definition send_ok ::
  "'w os \<Rightarrow> ('w \<Rightarrow> int \<Rightarrow> char list) \<Rightarrow> ('w \<Rightarrow> int \<Rightarrow> char list) \<Rightarrow> ('w \<Rightarrow> int \<Rightarrow> nat) \<Rightarrow> nat \<Rightarrow> bool" where
  "send_ok S unread sent stalls lim \<longleftrightarrow>
     (\<forall>w fd d. let (r, w') = os_send S w fd d
        in unread w' = unread w \<and> os_now S w' = os_now S w \<and>
           (case r of
              Sent k \<Rightarrow> k \<le> length d \<and> (d \<noteq> [] \<longrightarrow> 0 < k) \<and> sent w' fd = sent w fd @ take k d \<and> stalls w' fd \<le> lim
            | WFail \<Rightarrow> os_errno S w' = EWOULDBLOCK \<and> sent w' fd = sent w fd \<and> stalls w' fd < stalls w fd))"

definition link_ok ::
  "'w os \<Rightarrow> ('w \<Rightarrow> int \<Rightarrow> char list) \<Rightarrow> ('w \<Rightarrow> int \<Rightarrow> char list) \<Rightarrow> ('w \<Rightarrow> int \<Rightarrow> nat) \<Rightarrow> nat \<Rightarrow> bool" where
  "link_ok S unread sent stalls lim \<longleftrightarrow> read_ok S unread sent stalls \<and> send_ok S unread sent stalls lim \<and>
     (\<forall>w fd. sent (os_close S w fd) = sent w \<and> stalls (os_close S w fd) = stalls w \<and>
        os_now S (os_close S w fd) = os_now S w) \<and>
     (\<forall>w t. sent (os_log S w t) = sent w)"

lemma link_read:
  assumes "link_ok S unread sent stalls lim"
  obtains k w' where "os_read S w fd n = (Got (take k (unread w fd)), w')" "k \<le> n" "0 < n \<longrightarrow> 0 < k"
    "unread w' fd = drop k (unread w fd)" "sent w' = sent w" "stalls w' = stalls w" "os_now S w' = os_now S w"
  using assms [unfolded link_ok_def read_ok_def, THEN conjunct1, rule_format, of n w fd]
  by (metis prod.collapse)

lemma link_send:
  assumes "link_ok S unread sent stalls lim"
  obtains (taken) k w' where "os_send S w fd d = (Sent k, w')" "k \<le> length d" "d \<noteq> [] \<longrightarrow> 0 < k"
    "sent w' fd = sent w fd @ take k d" "stalls w' fd \<le> lim" "unread w' = unread w" "os_now S w' = os_now S w"
  | (refused) w' where "os_send S w fd d = (WFail, w')" "os_errno S w' = EWOULDBLOCK" "sent w' fd = sent w fd"
    "stalls w' fd < stalls w fd" "unread w' = unread w" "os_now S w' = os_now S w"
proof -
  obtain r w' where r: "os_send S w fd d = (r, w')" by (cases "os_send S w fd d")
  have "send_ok S unread sent stalls lim" using assms by (simp add: link_ok_def)
  from this [unfolded send_ok_def, rule_format, of w fd d] show thesis
    using r taken refused by (cases r) auto
qed

lemma link_close:
  assumes "link_ok S unread sent stalls lim"
  shows "sent (os_close S w fd) = sent w" "stalls (os_close S w fd) = stalls w" "os_now S (os_close S w fd) = os_now S w"
    "sent (os_log S w t) = sent w"
  using assms by (auto simp: link_ok_def)

section \<open>The steps\<close>

lemma stop_file:
  "io_cls (c_loc c) = Some IO_FILE \<Longrightarrow> ch_fd (chan (c_loc c)) \<noteq> -1 \<Longrightarrow>
   stop_stream S Loc c w = Some (c\<lparr>c_loc := stopped (c_loc c)\<rparr>, os_close S w (ch_fd (chan (c_loc c))))"
  by (simp add: stop_stream_def io_close_def close_fd_def)

lemma stop_none:
  "io_cls (c_loc c) = None \<Longrightarrow> stop_stream S Loc c w = Some (c\<lparr>c_loc := stopped (c_loc c)\<rparr>, w)"
  by (simp add: stop_stream_def)

text \<open>A file is being sent: \<open>file\<close>; it is done with: \<open>done\<close>.\<close>

definition sending_file :: "conn \<Rightarrow> bool" where
  "sending_file c \<longleftrightarrow> io_cls (c_loc c) = Some IO_FILE \<and> flagged (c_loc c) FLAG_ALWAYS_READY \<and>
     \<not> flagged (c_loc c) FLAG_DONT_CLOSE \<and> \<not> flagged (c_loc c) FLAG_CLOSED"

definition drained :: "conn \<Rightarrow> bool" where
  "drained c \<longleftrightarrow> io_cls (c_loc c) = None \<and> flagged (c_loc c) FLAG_CLOSED \<and> \<not> flagged (c_loc c) FLAG_ALWAYS_READY"

lemma drained_stopped: "drained (c\<lparr>c_loc := stopped (c_loc c)\<rparr>)"
  by (simp add: drained_def stopped_flags)

text \<open>The file is not longer than what was announced.\<close>

definition announced :: "('w \<Rightarrow> int \<Rightarrow> char list) \<Rightarrow> conn \<Rightarrow> 'w \<Rightarrow> bool" where
  "announced unread c w \<longleftrightarrow> content_len (c_loc c) = 0 \<or>
     unat (io_total (sio (c_loc c))) + length (unread w (ch_fd (chan (c_loc c)))) \<le> unat (content_len (c_loc c))"

lemma check_done_none: "io_cls (c_loc c) = None \<Longrightarrow> within (c_loc c) \<Longrightarrow> drained c \<Longrightarrow>
  \<exists>c'. check_done S Loc c w = Some (c', w) \<and> drained c' \<and> sio (c_loc c') = sio (c_loc c) \<and> c_rem c' = c_rem c"
  using drained_stopped [of c] by (auto simp: check_done_def within_def not_less stop_none)

text \<open>The end of the file: the stream is stopped and the descriptor closed.\<close>

lemma read_file_end:
  assumes "link_ok S unread sent stalls lim" "io_inv c" "sending_file c" "n = 0" "sio (c_loc c1) = sio (c_loc c)"
    "content_len (c_loc c1) = content_len (c_loc c)"
    "io_cls (c_loc c1) = Some IO_FILE" "sflags (c_loc c1) = sflags (c_loc c)" "chan (c_loc c1) = chan (c_loc c)"
  shows "\<exists>c2 w2 c3. after_read S Loc n c1 w = Some (c2, w2) \<and> check_done S Loc c2 w2 = Some (c3, w2) \<and> drained c3 \<and>
    sio (c_loc c3) = sio (c_loc c) \<and> c_rem c3 = c_rem c1 \<and> sent w2 = sent w \<and> stalls w2 = stalls w \<and> os_now S w2 = os_now S w"
proof -
  have "ch_fd (chan (c_loc c)) \<noteq> -1" using assms(2,3) fd_ok(2) by (auto simp: sending_file_def)
  then have a: "after_read S Loc n c1 w =
      Some (c1\<lparr>c_loc := stopped (c_loc c1)\<rparr>, os_close S w (ch_fd (chan (c_loc c))))"
    using assms by (simp add: after_read_def sending_file_def stop_file)
  have "within (c_loc (c1\<lparr>c_loc := stopped (c_loc c1)\<rparr>))"
    using assms(2,5,6) by (simp add: io_inv_def within_def stopped_def)
  from check_done_none [OF _ this drained_stopped] show ?thesis
    using a assms(5) link_close [OF assms(1)] by fastforce
qed

lemma unat_total:
  fixes t c :: u64
  assumes "unat t + k \<le> unat c"
  shows "unat (t + of_nat k) = unat t + k"
proof -
  have "unat t + k < 2 ^ 64" using assms by (rule le_less_trans) (use unsigned_less [of c, where 'a = nat] in simp)
  then show ?thesis by (simp add: unat_word_ariths unsigned_of_nat take_bit_eq_mod mod_add_right_eq)
qed

text \<open>Part of the file: it is behind what the buffer held, and the file has the rest.\<close>

lemma read_file_part:
  assumes "link_ok S unread sent stalls lim" "io_inv c" "sending_file c" "announced unread c w"
    and d: "d \<noteq> []" "length d \<le> io_room (sio (c_loc c))" "unread w (ch_fd (chan (c_loc c))) = d @ u"
      "unread w1 (ch_fd (chan (c_loc c))) = u"
    and c1: "c1 = c\<lparr>c_loc := (c_loc c)\<lparr>sio := (sio (c_loc c))
      \<lparr>io_buf := overwrite (io_buf (sio (c_loc c))) (io_head (sio (c_loc c))) d\<rparr>, nread_last := int (length d)\<rparr>\<rparr>"
  shows "\<exists>c2 c3 w2. after_read S Loc (int (length d)) c1 w1 = Some (c2, w1) \<and> check_done S Loc c2 w1 = Some (c3, w2) \<and>
    io_content (sio (c_loc c3)) = io_content (sio (c_loc c)) @ d \<and> c_rem c3 = c_rem c \<and>
    sent w2 = sent w1 \<and> stalls w2 = stalls w1 \<and> os_now S w2 = os_now S w1 \<and>
    (drained c3 \<and> u = [] \<or>
     sending_file c3 \<and> chan (c_loc c3) = chan (c_loc c) \<and> w2 = w1 \<and> announced unread c3 w1)"
proof -
  let ?l = "c_loc c" and ?i = "sio (c_loc c)" and ?fd = "ch_fd (chan (c_loc c))"
  have ok: "io_ok ?i" by (rule io_inv_io_ok [OF assms(2), of Loc, simplified])
  obtain j where j: "io_put ?i d = Some j" "io_content j = io_content ?i @ d"
    "io_total j = io_total ?i + of_nat (length d)"
    using io_put_ok [OF ok d(2)] by blast
  define c2 where "c2 = c1\<lparr>c_loc := (c_loc c1)\<lparr>sio := j\<rparr>\<rparr>"
  have a: "after_read S Loc (int (length d)) c1 w1 = Some (c2, w1)"
    using d(1) j(1) by (simp add: after_read_def c2_def c1 io_put_def)
  have c2: "sio (c_loc c2) = j" "chan (c_loc c2) = chan ?l" "c_rem c2 = c_rem c" "content_len (c_loc c2) = content_len ?l"
    "sending_file c2" "ch_fd (chan ?l) \<noteq> -1"
    using assms(3) fd_ok(2) [OF assms(2)] by (auto simp: c2_def c1 sending_file_def)
  show ?thesis
  proof (cases "content_len ?l = 0")
    case True
    then have "check_done S Loc c2 w1 = Some (c2, w1)" by (simp add: check_done_def c2(4))
    then show ?thesis using a c2 j True by (auto simp: announced_def)
  next
    case False
    have le: "unat (io_total ?i) + (length d + length u) \<le> unat (content_len ?l)"
      using assms(4) d(3) False by (simp add: announced_def)
    have tot: "unat (io_total j) = unat (io_total ?i) + length d"
      unfolding j(3) by (rule unat_total [of _ _ "content_len ?l"]) (use le in simp)
    show ?thesis
    proof (cases "io_total j = content_len ?l")
      case eq: True
      then have u: "u = []" using le tot by simp
      have s: "stop_stream S Loc c2 w1 = Some (c2\<lparr>c_loc := stopped (c_loc c2)\<rparr>, os_close S w1 ?fd)"
        using stop_file [of c2] c2 by (simp add: sending_file_def)
      then have "check_done S Loc c2 w1 = Some (c2\<lparr>c_loc := stopped (c_loc c2)\<rparr>, os_close S w1 ?fd)"
        using False eq c2 by (simp add: check_done_def word_neq_0_conv)
      then show ?thesis using a u drained_stopped [of c2] c2 j link_close [OF assms(1)] by auto
    next
      case ne: False
      have "io_total j \<le> content_len ?l" using le tot by (simp add: word_le_nat_alt)
      then have "check_done S Loc c2 w1 = Some (c2, w1)"
        using ne c2 by (simp add: check_done_def linorder_not_less [THEN iffD2])
      moreover have "announced unread c2 w1" using le tot c2 d(4) by (simp add: announced_def)
      ultimately show ?thesis using a c2 j by auto
    qed
  qed
qed

text \<open>One read of the file.\<close>

lemma read_file_step:
  assumes "link_ok S unread sent stalls lim" "io_inv c" "sending_file c" "announced unread c w" "0 < io_room (sio (c_loc c))"
  defines "fd \<equiv> ch_fd (chan (c_loc c))"
  shows "\<exists>c' w' k. read_stream S ctx Loc c w = Some (c', w') \<and> c_rem c' = c_rem c \<and>
    expire_time c' = os_now S w + EXPIRE_TIME \<and> os_now S w' = os_now S w \<and> sent w' = sent w \<and> stalls w' = stalls w \<and>
    io_content (sio (c_loc c')) = io_content (sio (c_loc c)) @ take k (unread w fd) \<and>
    (drained c' \<and> length (unread w fd) \<le> k \<or>
     sending_file c' \<and> chan (c_loc c') = chan (c_loc c) \<and> 0 < k \<and> unread w fd \<noteq> [] \<and>
       unread w' fd = drop k (unread w fd) \<and> announced unread c' w')"
proof -
  let ?l = "c_loc c" and ?i = "sio (c_loc c)"
  define len where "len = read_len ?l (int (io_room ?i))"
  have ok: "io_ok ?i" by (rule io_inv_io_ok [OF assms(2), of Loc, simplified])
  have w: "within ?l" using assms(2) by (simp add: io_inv_def)
  have small: "io_room ?i < 2 ^ 31" using assms(2) by (auto simp: io_inv_def small_def io_room_def)
  have len: "0 \<le> len" "len \<le> int (io_room ?i)"
    using read_len_within [OF w, of "int (io_room ?i)"] assms(5) small unfolding len_def by auto
  have pos: "0 < len" if "unread w fd \<noteq> []"
  proof -
    have "0 < unat (content_len ?l) - unat (io_total ?i)" if "0 < content_len ?l"
      using assms(4) that \<open>unread w fd \<noteq> []\<close> length_greater_0_conv [of "unread w fd"]
      unfolding announced_def fd_def word_greater_zero_iff by presburger
    then show ?thesis using assms(5) read_len_eq [OF w, of "int (io_room ?i)"] small unfolding len_def
      by (simp only: of_nat_0_less_iff split: if_split) auto
  qed
  have size: "to_size len = nat len" using len small by (simp add: to_size_def)
  obtain k w1 where r: "os_read S w fd (nat len) = (Got (take k (unread w fd)), w1)" "k \<le> nat len"
    "0 < nat len \<longrightarrow> 0 < k" "unread w1 fd = drop k (unread w fd)" "sent w1 = sent w" "stalls w1 = stalls w" "os_now S w1 = os_now S w"
    by (rule link_read [OF assms(1), of w fd "nat len"])
  define d where "d = take k (unread w fd)"
  have fd: "fd \<noteq> -1" using assms(2,3) fd_ok(2) by (auto simp: sending_file_def fd_def)
  have dl: "length d \<le> io_room ?i" using r(2) len(2) by (simp add: d_def min_def) linarith
  define c1 where "c1 = c\<lparr>c_loc := ?l\<lparr>sio := ?i\<lparr>io_buf := overwrite (io_buf ?i) (io_head ?i) d\<rparr>, nread_last := int (length d)\<rparr>\<rparr>"
  have read: "io_read S ctx Loc IO_FILE (nat len) c w =
      Some (int (length d), c\<lparr>c_loc := ?l\<lparr>sio := ?i\<lparr>io_buf := overwrite (io_buf ?i) (io_head ?i) d\<rparr>\<rparr>\<rparr>, w1)"
    using fd dl r(1) by (simp add: io_read_def read_file_def read_fd_def store_def fd_def [symmetric] d_def [symmetric] Let_def)
  have e: "read_stream S ctx Loc c w = do {
       (c2, w2) \<leftarrow> after_read S Loc (int (length d)) c1 w1;
       (c3, w3) \<leftarrow> check_done S Loc c2 w2;
       Some (c3\<lparr>expire_time := os_now S w3 + EXPIRE_TIME\<rparr>, w3)
     }"
    using assms(3,5) small io_len_ok(1) [OF ok] read
    by (simp add: read_stream_def sending_file_def read_with_def len_def [symmetric] size c1_def)
  show ?thesis
  proof (cases "unread w fd = []")
    case True
    then have d0: "d = []" by (simp add: d_def)
    have "sio (c_loc c1) = ?i" by (simp add: c1_def d0)
    from read_file_end [OF assms(1-3) refl this, of w1] show ?thesis
      using True d0 r(5-7) assms(3) unfolding e by (fastforce simp: c1_def sending_file_def drained_def)
  next
    case False
    then have d1: "d \<noteq> []" "0 < k" using r(3) pos by (auto simp: d_def)
    have "unread w fd = d @ drop k (unread w fd)" by (simp add: d_def)
    from read_file_part [OF assms(1-4) d1(1) dl this [unfolded fd_def] r(4) [unfolded fd_def] c1_def [unfolded fd_def]]
    show ?thesis using False d1 r(4-7) unfolding e fd_def [symmetric]
      by (elim exE conjE) (auto simp: d_def sending_file_def drained_def announced_def)
  qed
qed

section \<open>One iteration of the loop\<close>

text \<open>The socket takes a portion, or refuses and the stream stays as it is.\<close>

lemma write_socket_step:
  assumes "link_ok S unread sent stalls lim" "io_inv c" "io_cls (c_rem c) = Some IO_SOCKET" "io_content (sio (c_loc c)) \<noteq> []"
  defines "fd \<equiv> ch_fd (chan (c_rem c))" and "d \<equiv> io_content (sio (c_loc c))"
  shows "\<exists>c' w' j k. write_stream S Rem c w = Some (c', w') \<and> c' = c\<lparr>c_loc := (c_loc c)\<lparr>sio := j\<rparr>,
      expire_time := os_now S w + EXPIRE_TIME\<rparr> \<and> os_now S w' = os_now S w \<and> unread w' = unread w \<and>
    k \<le> length d \<and> io_content j = drop k d \<and> sent w' fd = sent w fd @ take k d \<and>
    io_total j = io_total (sio (c_loc c)) \<and> (io_content j = [] \<longrightarrow> 0 < io_room j) \<and>
    (0 < k \<and> stalls w' fd \<le> lim \<or> k = 0 \<and> stalls w' fd < stalls w fd)"
proof -
  let ?i = "sio (c_loc c)"
  have ok: "io_ok ?i" by (rule io_inv_io_ok [OF assms(2), of Loc, simplified])
  have small: "length d < 2 ^ 31"
    using ok assms(2) by (auto simp: io_ok_def io_content_def io_inv_def small_def d_def)
  have fd: "fd \<noteq> -1" using fd_ok(1) [OF assms(2)] assms(3) by (simp add: fd_def)
  have len: "io_data_len ?i = Some (length d)" using io_len_ok(2) [OF ok] by (simp add: d_def)
  show ?thesis
  proof (rule link_send [OF assms(1), of w fd d])
    fix k w1
    assume r: "os_send S w fd d = (Sent k, w1)" "k \<le> length d" "d \<noteq> [] \<longrightarrow> 0 < k" "sent w1 fd = sent w fd @ take k d"
      "stalls w1 fd \<le> lim" "unread w1 = unread w" "os_now S w1 = os_now S w"
    obtain j where j: "io_inc_tail ?i k = Some j" "io_ok j" "io_content j = drop k d" "io_total j = io_total ?i"
      using io_inc_tail_ok [OF ok] r(2) unfolding d_def by blast
    have "io_content j = [] \<longrightarrow> 0 < io_room j"
      using j(1,2) by (auto simp: io_inc_tail_def io_room_def io_content_def io_ok_def Let_def split: if_splits)
    moreover have "write_stream S Rem c w =
        Some (c\<lparr>c_loc := (c_loc c)\<lparr>sio := j\<rparr>, expire_time := os_now S w + EXPIRE_TIME\<rparr>, w1)"
      using assms(3,4) small r(1,3,7) j(1) fd len
      by (simp add: write_stream_def write_with_def io_write_def write_socket_def after_write_def Let_def
          fd_def [symmetric] d_def [symmetric])
    ultimately show ?thesis using assms(4) r j by (intro exI conjI) (assumption | rule refl | simp add: d_def)+
  next
    fix w1
    assume r: "os_send S w fd d = (WFail, w1)" "os_errno S w1 = EWOULDBLOCK" "sent w1 fd = sent w fd"
      "stalls w1 fd < stalls w fd" "unread w1 = unread w" "os_now S w1 = os_now S w"
    have "write_stream S Rem c w = Some (c\<lparr>expire_time := os_now S w + EXPIRE_TIME\<rparr>, w1)"
      using assms(3,4) small r(1,2,6) fd len
      by (simp add: write_stream_def write_with_def io_write_def write_socket_def after_write_def try_again_def Let_def
          fd_def [symmetric] d_def [symmetric])
    then show ?thesis using assms(4) r
      by (intro exI [of _ "c\<lparr>expire_time := os_now S w + EXPIRE_TIME\<rparr>"] exI [of _ w1] exI [of _ ?i] exI [of _ 0])
        (simp add: d_def)
  qed
qed

text \<open>Between two iterations; \<open>rest\<close> is what the client has still to get of the file.\<close>

definition rest_of :: "('w \<Rightarrow> int \<Rightarrow> char list) \<Rightarrow> conn \<Rightarrow> 'w \<Rightarrow> char list" where
  "rest_of unread c w = (if drained c then [] else unread w (ch_fd (chan (c_loc c))))"

definition to_come :: "('w \<Rightarrow> int \<Rightarrow> char list) \<Rightarrow> conn \<Rightarrow> 'w \<Rightarrow> char list" where
  "to_come unread c w = io_content (sio (c_loc c)) @ rest_of unread c w"

definition work :: "('w \<Rightarrow> int \<Rightarrow> char list) \<Rightarrow> conn \<Rightarrow> 'w \<Rightarrow> nat" where
  "work unread c w = 2 * length (rest_of unread c w) + length (io_content (sio (c_loc c))) + (if drained c then 0 else 1)"

definition replying :: "('w \<Rightarrow> int \<Rightarrow> char list) \<Rightarrow> conn \<Rightarrow> 'w \<Rightarrow> bool" where
  "replying unread c w \<longleftrightarrow> served c \<and> io_cls (c_rem c) = Some IO_SOCKET \<and>
     (drained c \<or> sending_file c \<and> announced unread c w)"

definition has_room :: "conn \<Rightarrow> bool" where
  "has_room c \<longleftrightarrow> io_content (sio (c_loc c)) \<noteq> [] \<or> 0 < io_room (sio (c_loc c))"

lemma not_both: "sending_file c \<Longrightarrow> \<not> drained c"
  by (simp add: sending_file_def drained_def)

text \<open>The first half: reading.\<close>

lemma replying_read:
  assumes "os_ok S" "link_ok S unread sent stalls lim" "replying unread c w" "has_room c"
  shows "\<exists>c1 w1. poll_read_loc S ctx rs c w = Some (c1, w1) \<and> replying unread c1 w1 \<and> c_rem c1 = c_rem c \<and>
    (drained c1 \<or> \<not> drained c \<and> chan (c_loc c1) = chan (c_loc c)) \<and>
    (drained c1 \<or> io_content (sio (c_loc c1)) \<noteq> []) \<and> os_now S w1 = os_now S w \<and> sent w1 = sent w \<and> stalls w1 = stalls w \<and>
    to_come unread c1 w1 = to_come unread c w \<and> work unread c1 w1 \<le> work unread c w"
proof -
  have sv: "serving c" and io: "io_inv c" using assms(3) by (auto simp: replying_def served_def serving_def)
  let ?u = "unread w (ch_fd (chan (c_loc c)))"
  show ?thesis
  proof (cases "sending_file c \<and> 0 < io_room (sio (c_loc c))")
    case False
    then have "poll_read_loc S ctx rs c w = Some (c, w)"
      using assms(3) sv by (auto simp: poll_read_loc_def serving_len replying_def drained_def)
    moreover have "drained c \<or> io_content (sio (c_loc c)) \<noteq> []"
      using False assms(3,4) by (auto simp: replying_def has_room_def)
    ultimately show ?thesis using assms(3) by auto
  next
    case True
    then have an: "announced unread c w" "\<not> drained c"
      using assms(3) not_both by (auto simp: replying_def)
    obtain c1 w1 k where r: "read_stream S ctx Loc c w = Some (c1, w1)" "c_rem c1 = c_rem c" "os_now S w1 = os_now S w"
      "sent w1 = sent w \<and> stalls w1 = stalls w" "io_content (sio (c_loc c1)) = io_content (sio (c_loc c)) @ take k ?u"
      "drained c1 \<and> length ?u \<le> k \<or> sending_file c1 \<and> chan (c_loc c1) = chan (c_loc c) \<and> 0 < k \<and> ?u \<noteq> [] \<and>
         unread w1 (ch_fd (chan (c_loc c))) = drop k ?u \<and> announced unread c1 w1"
      using read_file_step [OF assms(2) io _ an(1), of ctx] True by (elim conjE) (drule (1) meta_mp, auto)
    have p: "poll_read_loc S ctx rs c w = Some (c1, w1)"
      using True r(1) sv by (simp add: poll_read_loc_def serving_len sending_file_def)
    have "serving c1"
      using serving_read [OF assms(1) sv, of Loc IO_FILE ctx w] r(1) True by (simp add: sending_file_def plain_cls_def)
    then have rep: "replying unread c1 w1"
      using assms(3) r(2,6) by (auto simp: replying_def served_def)
    show ?thesis using r(6)
    proof
      assume d: "drained c1 \<and> length ?u \<le> k"
      then show ?thesis using p rep r(2-5) an(2) by (auto simp: to_come_def rest_of_def work_def)
    next
      assume s: "sending_file c1 \<and> chan (c_loc c1) = chan (c_loc c) \<and> 0 < k \<and> ?u \<noteq> [] \<and>
         unread w1 (ch_fd (chan (c_loc c))) = drop k ?u \<and> announced unread c1 w1"
      moreover have "\<not> drained c1" using s not_both by blast
      moreover have "2 * (length ?u - k) + min k (length ?u) \<le> 2 * length ?u" by linarith
      ultimately show ?thesis using p rep r(2-5) an(2) by (auto simp: to_come_def rest_of_def work_def min.commute)
    qed
  qed
qed

text \<open>The second half: writing.\<close>

lemma replying_write:
  assumes "os_ok S" "link_ok S unread sent stalls lim" "replying unread c w" "drained c \<or> io_content (sio (c_loc c)) \<noteq> []"
  defines "fd \<equiv> ch_fd (chan (c_rem c))"
  shows "\<exists>c1 w1. poll_write_rem S c w = Some (c1, w1) \<and> replying unread c1 w1 \<and> c_rem c1 = c_rem c \<and>
    chan (c_loc c1) = chan (c_loc c) \<and> drained c1 = drained c \<and>
    os_now S w1 = os_now S w \<and> sent w1 fd @ to_come unread c1 w1 = sent w fd @ to_come unread c w \<and>
    (drained c1 \<and> io_content (sio (c_loc c1)) = [] \<or>
     has_room c1 \<and> expire_time c1 = os_now S w1 + EXPIRE_TIME \<and>
       (work unread c1 w1 < work unread c w \<and> stalls w1 fd \<le> lim \<or>
        work unread c1 w1 = work unread c w \<and> stalls w1 fd < stalls w fd))"
proof -
  have sv: "serving c" and io: "io_inv c" and cls: "io_cls (c_rem c) = Some IO_SOCKET"
    using assms(3) by (auto simp: replying_def served_def serving_def)
  show ?thesis
  proof (cases "io_content (sio (c_loc c)) = []")
    case True
    then show ?thesis using assms(3,4) sv by (simp add: poll_write_rem_def serving_len)
  next
    case False
    obtain c1 w1 j k where r: "write_stream S Rem c w = Some (c1, w1)"
      "c1 = c\<lparr>c_loc := (c_loc c)\<lparr>sio := j\<rparr>, expire_time := os_now S w + EXPIRE_TIME\<rparr>"
      "os_now S w1 = os_now S w" "unread w1 = unread w" "k \<le> length (io_content (sio (c_loc c)))"
      "io_content j = drop k (io_content (sio (c_loc c)))"
      "sent w1 fd = sent w fd @ take k (io_content (sio (c_loc c)))"
      "io_total j = io_total (sio (c_loc c))" "io_content j = [] \<longrightarrow> 0 < io_room j"
      "0 < k \<and> stalls w1 fd \<le> lim \<or> k = 0 \<and> stalls w1 fd < stalls w fd"
      using write_socket_step [OF assms(2) io cls False, of w] unfolding fd_def [symmetric] by (elim exE conjE) (rule that)
    have p: "poll_write_rem S c w = Some (c1, w1)"
      using False r(1) sv cls by (simp add: poll_write_rem_def serving_len)
    have "serving c1" using serving_write [OF assms(1) sv, of Rem IO_SOCKET w] r(1) cls False by (simp add: plain_cls_def)
    then have "replying unread c1 w1" using assms(3) r(2,4,8)
      by (auto simp: replying_def served_def drained_def sending_file_def announced_def)
    moreover have dr: "drained c1 = drained c" by (simp add: r(2) drained_def)
    then have ro: "rest_of unread c1 w1 = rest_of unread c w" by (simp add: rest_of_def r(2,4))
    then have tc: "sent w1 fd @ to_come unread c1 w1 = sent w fd @ to_come unread c w"
      using r(2,6,7) by (simp add: to_come_def)
    have wk: "work unread c1 w1 < work unread c w \<and> stalls w1 fd \<le> lim \<or>
        work unread c1 w1 = work unread c w \<and> stalls w1 fd < stalls w fd"
      using r(2,5,6,10) ro dr False by (auto simp: work_def)
    have "has_room c1" using r(9) by (auto simp: has_room_def r(2))
    ultimately show ?thesis using p r(2,3) dr tc wk by simp
  qed
qed

lemma disconnect_drained:
  assumes "link_ok S unread sent stalls lim" "drained c" "io_cls (c_rem c) = Some IO_SOCKET" "ch_fd (chan (c_rem c)) \<noteq> -1"
    and "inetd_mode ctx = 0" "0 < nactive ctx"
  shows "\<exists>w'. disconnect S ctx c w = Some (Freed, ctx\<lparr>nactive := nactive ctx - 1\<rparr>, w') \<and> sent w' = sent w"
  using assms link_close [OF assms(1)]
  by (simp add: disconnect_def drained_def dont_close_def io_close_def close_fd_def log_access_def Let_def)

text \<open>What is still to be done: every portion taken is progress, and so is every refusal.\<close>

definition effort ::
  "('w \<Rightarrow> int \<Rightarrow> char list) \<Rightarrow> ('w \<Rightarrow> int \<Rightarrow> nat) \<Rightarrow> nat \<Rightarrow> conn \<Rightarrow> 'w \<Rightarrow> nat" where
  "effort unread stalls lim c w = work unread c w * Suc lim + stalls w (ch_fd (chan (c_rem c)))"

lemma effort_less:
  assumes "chan (c_rem c1) = chan (c_rem c)" "work unread c1 w1 \<le> m" "m \<le> work unread c w" "v = stalls w (ch_fd (chan (c_rem c)))"
    and "work unread c1 w1 < m \<and> stalls w1 (ch_fd (chan (c_rem c))) \<le> lim \<or>
      work unread c1 w1 = m \<and> stalls w1 (ch_fd (chan (c_rem c))) < v"
  shows "effort unread stalls lim c1 w1 < effort unread stalls lim c w"
  using assms(5)
proof
  assume a: "work unread c1 w1 < m \<and> stalls w1 (ch_fd (chan (c_rem c))) \<le> lim"
  then have "Suc (work unread c1 w1) * Suc lim \<le> work unread c w * Suc lim"
    using assms(3) by (intro mult_le_mono1) simp
  then show ?thesis using a assms(1) by (simp add: effort_def)
next
  assume a: "work unread c1 w1 = m \<and> stalls w1 (ch_fd (chan (c_rem c))) < v"
  then have "work unread c1 w1 * Suc lim \<le> work unread c w * Suc lim" using assms(3) by (intro mult_le_mono1) simp
  then show ?thesis using a assms(1,4) by (simp add: effort_def)
qed

text \<open>What an iteration does once the request has been parsed.\<close>

definition poll_rest :: "'w os \<Rightarrow> int set \<Rightarrow> shttpd_ctx \<Rightarrow> conn \<Rightarrow> 'w \<Rightarrow> (outcome \<times> shttpd_ctx \<times> 'w) option" where
  "poll_rest S rs ctx c w = do {
     (c3, w3) \<leftarrow> poll_read_loc S ctx rs c w;
     (c4, w4) \<leftarrow> poll_write_loc S c3 w3;
     (c5, w5) \<leftarrow> poll_write_rem S c4 w4;
     let ctx1 = count_io c5 ctx;
     if is_over (os_now S w5) c5 then disconnect S ctx1 c5 w5 else Some (Kept c5, ctx1, w5)
   }"

lemma poll_conn_rest:
  assumes "poll_read_rem S ctx rs c w = Some (c1, w1)" "poll_parse S ctx c1 w1 = Some (c2, w2)"
  shows "poll_conn S rs ctx c w = poll_rest S rs ctx c2 w2"
  by (simp add: poll_conn_def poll_rest_def assms)

lemma replying_rest:
  assumes "os_ok S" "link_ok S unread sent stalls lim" "replying unread c w" "has_room c"
    and "inetd_mode ctx = 0" "0 < nactive ctx"
  defines "fd \<equiv> ch_fd (chan (c_rem c))"
  shows "(\<exists>ctx' w'. poll_rest S rs ctx c w = Some (Freed, ctx', w') \<and> nactive ctx' = nactive ctx - 1 \<and>
      sent w' fd = sent w fd @ to_come unread c w) \<or>
    (\<exists>c' ctx' w'. poll_rest S rs ctx c w = Some (Kept c', ctx', w') \<and> inetd_mode ctx' = 0 \<and>
      nactive ctx' = nactive ctx \<and> replying unread c' w' \<and> has_room c' \<and> chan (c_rem c') = chan (c_rem c) \<and>
      (drained c' \<or> \<not> drained c \<and> chan (c_loc c') = chan (c_loc c)) \<and>
      sent w' fd @ to_come unread c' w' = sent w fd @ to_come unread c w \<and>
      effort unread stalls lim c' w' < effort unread stalls lim c w)"
proof -
  have sv: "serving c" using assms(3) by (simp add: replying_def served_def)
  obtain c3 w3 where 3: "poll_read_loc S ctx rs c w = Some (c3, w3)" "replying unread c3 w3" "c_rem c3 = c_rem c"
    "drained c3 \<or> \<not> drained c \<and> chan (c_loc c3) = chan (c_loc c)"
    "drained c3 \<or> io_content (sio (c_loc c3)) \<noteq> []" "os_now S w3 = os_now S w" "sent w3 = sent w" "stalls w3 = stalls w"
    "to_come unread c3 w3 = to_come unread c w" "work unread c3 w3 \<le> work unread c w"
    using replying_read [OF assms(1-4), of ctx rs] by (elim exE conjE) (rule that)
  have 4: "poll_write_loc S c3 w3 = Some (c3, w3)"
    using 3(2) by (auto simp: poll_write_loc_def serving_len replying_def served_def drained_def sending_file_def
        serving_def flow_def)
  obtain c5 w5 where 5: "poll_write_rem S c3 w3 = Some (c5, w5)" "replying unread c5 w5" "c_rem c5 = c_rem c"
    "chan (c_loc c5) = chan (c_loc c3)" "drained c5 = drained c3"
    "os_now S w5 = os_now S w3" "sent w5 fd @ to_come unread c5 w5 = sent w3 fd @ to_come unread c3 w3"
    "drained c5 \<and> io_content (sio (c_loc c5)) = [] \<or> has_room c5 \<and> expire_time c5 = os_now S w5 + EXPIRE_TIME \<and>
       (work unread c5 w5 < work unread c3 w3 \<and> stalls w5 fd \<le> lim \<or>
        work unread c5 w5 = work unread c3 w3 \<and> stalls w5 fd < stalls w3 fd)"
    using replying_write [OF assms(1,2) 3(2,5)] unfolding 3(3) fd_def [symmetric] by (elim exE conjE) (rule that)
  have e: "poll_rest S rs ctx c w =
    (if is_over (os_now S w5) c5 then disconnect S (count_io c5 ctx) c5 w5 else Some (Kept c5, count_io c5 ctx, w5))"
    by (simp add: poll_rest_def 3(1) 4 5(1))
  have r5: "\<not> flagged (c_rem c5) FLAG_CLOSED" "io_cls (c_rem c5) = Some IO_SOCKET" "ch_fd (chan (c_rem c5)) \<noteq> -1"
    using 5(2) fd_ok(1) by (auto simp: replying_def served_def serving_def)
  show ?thesis
  proof (cases "drained c5 \<and> io_content (sio (c_loc c5)) = []")
    case True
    then have over: "is_over (os_now S w5) c5" by (simp add: is_over_def drained_def)
    have "to_come unread c5 w5 = []" using True by (simp add: to_come_def rest_of_def)
    then have "sent w5 fd = sent w fd @ to_come unread c w" using 5(7) 3(7,9) by simp
    moreover obtain w' where "disconnect S (count_io c5 ctx) c5 w5 =
        Some (Freed, (count_io c5 ctx)\<lparr>nactive := nactive (count_io c5 ctx) - 1\<rparr>, w')" "sent w' = sent w5"
      using disconnect_drained [OF assms(2) _ r5(2,3), of "count_io c5 ctx" w5] True assms(5,6) by auto
    ultimately show ?thesis unfolding e if_P [OF over] by simp
  next
    case False
    then have k: "has_room c5" "expire_time c5 = os_now S w5 + EXPIRE_TIME"
      and p: "work unread c5 w5 < work unread c3 w3 \<and> stalls w5 fd \<le> lim \<or>
        work unread c5 w5 = work unread c3 w3 \<and> stalls w5 fd < stalls w3 fd"
      using 5(8) by auto
    have over: "\<not> is_over (os_now S w5) c5"
      using False k(2) r5(1) 5(2) by (auto simp: is_over_def EXPIRE_TIME_def replying_def sending_file_def)
    have rem: "chan (c_rem c5) = chan (c_rem c)" using 3(3) 5(3) by simp
    have "effort unread stalls lim c5 w5 < effort unread stalls lim c w"
      by (rule effort_less [where m = "work unread c3 w3" and v = "stalls w3 fd"]) (use rem 3(8,10) p in \<open>auto simp: fd_def\<close>)
    moreover have "sent w5 fd @ to_come unread c5 w5 = sent w fd @ to_come unread c w" using 5(7) 3(7,9) by simp
    moreover have "drained c5 \<or> \<not> drained c \<and> chan (c_loc c5) = chan (c_loc c)" using 3(4) 5(4,5) by simp
    ultimately show ?thesis using k 5(2) rem assms(5) unfolding e if_not_P [OF over] by (intro disjI2) simp
  qed
qed

lemma replying_poll:
  assumes "os_ok S" "link_ok S unread sent stalls lim" "replying unread c w" "has_room c"
    and "inetd_mode ctx = 0" "0 < nactive ctx" "ch_fd (chan (c_rem c)) \<notin> rs"
  defines "fd \<equiv> ch_fd (chan (c_rem c))"
  shows "(\<exists>ctx' w'. poll_conn S rs ctx c w = Some (Freed, ctx', w') \<and> nactive ctx' = nactive ctx - 1 \<and>
      sent w' fd = sent w fd @ to_come unread c w) \<or>
    (\<exists>c' ctx' w'. poll_conn S rs ctx c w = Some (Kept c', ctx', w') \<and> inetd_mode ctx' = 0 \<and>
      nactive ctx' = nactive ctx \<and> replying unread c' w' \<and> has_room c' \<and> chan (c_rem c') = chan (c_rem c) \<and>
      (drained c' \<or> \<not> drained c \<and> chan (c_loc c') = chan (c_loc c)) \<and>
      sent w' fd @ to_come unread c' w' = sent w fd @ to_come unread c w \<and>
      effort unread stalls lim c' w' < effort unread stalls lim c w)"
proof -
  have sv: "serving c" using assms(3) by (simp add: replying_def served_def)
  have "poll_read_rem S ctx rs c w = Some (c, w)" using assms(7) by (simp add: poll_read_rem_def)
  from poll_conn_rest [OF this poll_parse_serving [OF sv]] have e: "poll_conn S rs ctx c w = poll_rest S rs ctx c w" .
  show ?thesis unfolding e fd_def by (rule replying_rest [OF assms(1-6)])
qed

section \<open>Delivery\<close>

text \<open>At most \<open>n\<close> iterations; \<open>env\<close> is what happens elsewhere before each of them, \<open>rs\<close> what \<open>select\<close>
  reports.\<close>

fun iterate ::
  "'w os \<Rightarrow> (nat \<Rightarrow> int set) \<Rightarrow> (nat \<Rightarrow> 'w \<Rightarrow> 'w) \<Rightarrow> nat \<Rightarrow> shttpd_ctx \<Rightarrow> conn \<Rightarrow> 'w \<Rightarrow> (outcome \<times> shttpd_ctx \<times> 'w) option" where
  "iterate S rs env 0 ctx c w = Some (Kept c, ctx, w)"
| "iterate S rs env (Suc n) ctx c w =
     (case poll_conn S (rs n) ctx c (env n w) of
        Some (Kept c1, ctx1, w1) \<Rightarrow> iterate S rs env n ctx1 c1 w1
      | r \<Rightarrow> r)"

text \<open>What happens elsewhere, for the descriptors of this connection: it takes nothing from the file \<open>fl\<close>, puts
  nothing on the socket \<open>fd\<close> and does not make it refuse more often. What it does to all others is free.\<close>

definition apart ::
  "('w \<Rightarrow> int \<Rightarrow> char list) \<Rightarrow> ('w \<Rightarrow> int \<Rightarrow> char list) \<Rightarrow> ('w \<Rightarrow> int \<Rightarrow> nat) \<Rightarrow> int \<Rightarrow> int \<Rightarrow> (nat \<Rightarrow> 'w \<Rightarrow> 'w) \<Rightarrow> bool" where
  "apart unread sent stalls fl fd env \<longleftrightarrow>
     (\<forall>n w. unread (env n w) fl = unread w fl \<and> sent (env n w) fd = sent w fd \<and> stalls (env n w) fd = stalls w fd)"

lemma iterate_delivers:
  assumes "os_ok S" "link_ok S unread sent stalls lim" "apart unread sent stalls fl fd env"
  shows "\<forall>k<n. fd \<notin> rs k \<Longrightarrow> effort unread stalls lim c w < n \<Longrightarrow> replying unread c w \<Longrightarrow> has_room c \<Longrightarrow> ch_fd (chan (c_rem c)) = fd \<Longrightarrow>
    drained c \<or> ch_fd (chan (c_loc c)) = fl \<Longrightarrow> inetd_mode ctx = 0 \<Longrightarrow> 0 < nactive ctx \<Longrightarrow>
    \<exists>ctx' w'. iterate S rs env n ctx c w = Some (Freed, ctx', w') \<and> nactive ctx' = nactive ctx - 1 \<and>
      sent w' fd = sent w fd @ to_come unread c w"
proof (induction n arbitrary: ctx c w)
  case 0
  then show ?case by simp
next
  case (Suc n)
  let ?w = "env n w"
  have env: "unread ?w fl = unread w fl" "sent ?w fd = sent w fd" "stalls ?w fd = stalls w fd"
    using assms(3) by (auto simp: apart_def)
  have rest: "rest_of unread c ?w = rest_of unread c w" using env(1) Suc.prems(6) by (auto simp: rest_of_def)
  have "announced unread c ?w = announced unread c w \<or> drained c"
    using env(1) Suc.prems(6) by (auto simp: announced_def)
  then have "replying unread c ?w" using Suc.prems(3) by (auto simp: replying_def)
  moreover have e: "effort unread stalls lim c ?w = effort unread stalls lim c w" "to_come unread c ?w = to_come unread c w"
    using rest env(3) Suc.prems(5) by (simp_all add: effort_def work_def to_come_def)
  moreover have "fd \<notin> rs n" using Suc.prems(1) by simp
  ultimately consider
    (over) "\<exists>ctx' w'. poll_conn S (rs n) ctx c ?w = Some (Freed, ctx', w') \<and> nactive ctx' = nactive ctx - 1 \<and>
      sent w' fd = sent ?w fd @ to_come unread c ?w"
  | (on) "\<exists>c' ctx' w'. poll_conn S (rs n) ctx c ?w = Some (Kept c', ctx', w') \<and> inetd_mode ctx' = 0 \<and>
      nactive ctx' = nactive ctx \<and> replying unread c' w' \<and> has_room c' \<and> chan (c_rem c') = chan (c_rem c) \<and>
      (drained c' \<or> \<not> drained c \<and> chan (c_loc c') = chan (c_loc c)) \<and>
      sent w' fd @ to_come unread c' w' = sent ?w fd @ to_come unread c ?w \<and>
      effort unread stalls lim c' w' < effort unread stalls lim c ?w"
    using replying_poll [OF assms(1,2), of c ?w ctx "rs n", unfolded Suc.prems(5)] Suc.prems(4,7,8) by blast
  then show ?case
  proof cases
    case over
    then show ?thesis using e(2) env(2) by auto
  next
    case on
    then obtain c1 ctx1 w1 where k: "poll_conn S (rs n) ctx c ?w = Some (Kept c1, ctx1, w1)" "inetd_mode ctx1 = 0"
      "nactive ctx1 = nactive ctx" "replying unread c1 w1" "has_room c1" "chan (c_rem c1) = chan (c_rem c)"
      "drained c1 \<or> \<not> drained c \<and> chan (c_loc c1) = chan (c_loc c)" "effort unread stalls lim c1 w1 < effort unread stalls lim c ?w"
      and t: "sent w1 fd @ to_come unread c1 w1 = sent w fd @ to_come unread c w"
      using e env(2) by auto
    moreover have "drained c1 \<or> ch_fd (chan (c_loc c1)) = fl"
      using k(7) Suc.prems(6) by auto
    ultimately show ?thesis using Suc.IH [of c1 w1 ctx1] Suc.prems e(1) by auto
  qed
qed

lemma reply_goes_out:
  assumes "os_ok S" "link_ok S unread sent stalls lim" "served c" "io_cls (c_rem c) = Some IO_SOCKET"
    and "drained c \<or> sending_file c \<and> announced unread c w" "has_room c"
    and "inetd_mode ctx = 0" "0 < nactive ctx"
    and "apart unread sent stalls (ch_fd (chan (c_loc c))) (ch_fd (chan (c_rem c))) env" "\<forall>k<n. ch_fd (chan (c_rem c)) \<notin> rs k"
    and "effort unread stalls lim c w < n"
  shows "\<exists>ctx' w'. iterate S rs env n ctx c w = Some (Freed, ctx', w') \<and> nactive ctx' = nactive ctx - 1 \<and>
    sent w' (ch_fd (chan (c_rem c))) = sent w (ch_fd (chan (c_rem c))) @ io_content (sio (c_loc c)) @
      (if drained c then [] else unread w (ch_fd (chan (c_loc c))))"
proof -
  have "replying unread c w" using assms(3-5) by (simp add: replying_def)
  from iterate_delivers [OF assms(1,2,9,10,11) this assms(6) refl _ assms(7,8)] show ?thesis
    by (simp add: to_come_def rest_of_def)
qed

text \<open>The same from an iteration that starts with another state \<open>c0\<close> and comes to \<open>c\<close> when the request is parsed.\<close>

lemma reply_goes_out_from:
  assumes "os_ok S" "link_ok S unread sent stalls lim" "replying unread c w" "has_room c"
    and "inetd_mode ctx = 0" "0 < nactive ctx"
    and "apart unread sent stalls (ch_fd (chan (c_loc c))) (ch_fd (chan (c_rem c))) env" "\<forall>k<n. ch_fd (chan (c_rem c)) \<notin> rs k"
    and "effort unread stalls lim c w \<le> n" "poll_conn S (rs n) ctx c0 (env n w0) = poll_rest S (rs n) ctx c w"
  shows "\<exists>ctx' w'. iterate S rs env (Suc n) ctx c0 w0 = Some (Freed, ctx', w') \<and> nactive ctx' = nactive ctx - 1 \<and>
    sent w' (ch_fd (chan (c_rem c))) = sent w (ch_fd (chan (c_rem c))) @ to_come unread c w"
  using replying_rest [OF assms(1-6), of "rs n"]
proof
  let ?fd = "ch_fd (chan (c_rem c))"
  assume "\<exists>c' ctx' w'. poll_rest S (rs n) ctx c w = Some (Kept c', ctx', w') \<and> inetd_mode ctx' = 0 \<and>
      nactive ctx' = nactive ctx \<and> replying unread c' w' \<and> has_room c' \<and> chan (c_rem c') = chan (c_rem c) \<and>
      (drained c' \<or> \<not> drained c \<and> chan (c_loc c') = chan (c_loc c)) \<and>
      sent w' ?fd @ to_come unread c' w' = sent w ?fd @ to_come unread c w \<and>
      effort unread stalls lim c' w' < effort unread stalls lim c w"
  then obtain c1 ctx1 w1 where k: "poll_rest S (rs n) ctx c w = Some (Kept c1, ctx1, w1)" "inetd_mode ctx1 = 0"
    "nactive ctx1 = nactive ctx" "replying unread c1 w1" "has_room c1" "chan (c_rem c1) = chan (c_rem c)"
    "drained c1 \<or> \<not> drained c \<and> chan (c_loc c1) = chan (c_loc c)"
    "sent w1 ?fd @ to_come unread c1 w1 = sent w ?fd @ to_come unread c w"
    "effort unread stalls lim c1 w1 < effort unread stalls lim c w" by blast
  have d: "drained c1 \<or> ch_fd (chan (c_loc c1)) = ch_fd (chan (c_loc c))" "ch_fd (chan (c_rem c1)) = ?fd"
    using k(6,7) by auto
  have e: "effort unread stalls lim c1 w1 < n" "0 < nactive ctx1" using k(3,9) assms(6,9) by simp_all
  obtain ctx' w' where "iterate S rs env n ctx1 c1 w1 = Some (Freed, ctx', w')" "nactive ctx' = nactive ctx1 - 1"
    "sent w' ?fd = sent w1 ?fd @ to_come unread c1 w1"
    using iterate_delivers [OF assms(1,2,7,8) e(1) k(4,5) d(2,1) k(2) e(2)] by blast
  then show ?thesis using k(1,3,8) assms(10) by simp
qed (use assms(10) in auto)

text \<open>C3: a reply arrives whole. A connection over a plain socket has only what is left in its buffer to send, or
  also the rest of a file that is not longer than the announced length; the server is not in inetd mode, and the
  client sends nothing more and does not close, so that its socket does not become readable. Every read of the file
  gives at least one byte until its end; the socket takes any portion from one byte on or refuses with
  \<open>EWOULDBLOCK\<close>, at most \<open>lim\<close> times in a row; between two iterations the rest of the program may do anything
  but read from this file or write to this socket. Then the connection is closed after a number of
  iterations bounded by \<open>effort\<close>, and by then the client has got what was in the buffer and the whole rest of the
  file, in their order and nothing else.\<close>

theorem reply_delivered:
  assumes "os_ok S" "link_ok S unread sent stalls lim" "served c" "io_cls (c_rem c) = Some IO_SOCKET"
    and "drained c \<or> sending_file c \<and> announced unread c w" "has_room c"
    and "inetd_mode ctx = 0" "0 < nactive ctx"
    and "apart unread sent stalls (ch_fd (chan (c_loc c))) (ch_fd (chan (c_rem c))) env" "\<forall>k<n. ch_fd (chan (c_rem c)) \<notin> rs k"
    and "effort unread stalls lim c w < n"
  shows "\<exists>ctx' w'. iterate S rs env n ctx c w = Some (Freed, ctx', w') \<and> nactive ctx' = nactive ctx - 1 \<and>
    sent w' (ch_fd (chan (c_rem c))) = sent w (ch_fd (chan (c_rem c))) @ io_content (sio (c_loc c)) @
      (if drained c then [] else unread w (ch_fd (chan (c_loc c))))"
  by (rule reply_goes_out [OF assms])

text \<open>A file of twenty bytes through a buffer of sixteen, over a socket that takes three bytes at a time and refuses
  every other time. The world is the rest of the file, what was sent, and whether the next send is refused.\<close>

type_synonym demo_world = "string \<times> string \<times> bool"

definition demo_link :: "demo_world os" where
  "demo_link = null_os\<lparr>os_read := (\<lambda>(f, s, b) fd n. (Got (take n f), (drop n f, s, b))),
     os_send := (\<lambda>(f, s, b) fd d. if b then (WFail, (f, s, False)) else (Sent (length (take 3 d)), (f, s @ take 3 d, True))),
     os_errno := (\<lambda>w. EWOULDBLOCK)\<rparr>"

definition demo_unread :: "demo_world \<Rightarrow> int \<Rightarrow> string" where "demo_unread w fd = fst w"
definition demo_sent :: "demo_world \<Rightarrow> int \<Rightarrow> string" where "demo_sent w fd = fst (snd w)"
definition demo_stalls :: "demo_world \<Rightarrow> int \<Rightarrow> nat" where "demo_stalls w fd = (if snd (snd w) then 1 else 0)"

lemmas demo_views = demo_unread_def demo_sent_def demo_stalls_def

definition file_conn :: conn where
  "file_conn =
     (let c = new_conn 16 ''127.0.0.1'' 4711 80 5 0; l = c_loc c
      in c\<lparr>c_rem := flag_on FLAG_HEADERS_PARSED (c_rem c),
           c_loc := flag_on (or FLAG_R FLAG_ALWAYS_READY)
             (l\<lparr>chan := (chan l)\<lparr>ch_fd := 6\<rparr>, io_cls := Some IO_FILE, content_len := 20,
                sio := (sio l)\<lparr>io_buf := overwrite (io_buf (sio l)) 0 ''HI'', io_head := 2\<rparr>\<rparr>)\<rparr>)"

lemma demo_link_ok: "os_ok demo_link" "link_ok demo_link demo_unread demo_sent demo_stalls 1"
proof -
  show "os_ok demo_link" using null_os_ok [where 'w = demo_world]
    by (auto simp: os_ok_def cb_ok_def rw_ok_def demo_link_def split: prod.splits if_splits)
  have "read_ok demo_link demo_unread demo_sent demo_stalls"
    unfolding read_ok_def
  proof (intro allI)
    fix w fd n
    show "\<exists>k \<le> n. fst (os_read demo_link w fd n) = Got (take k (demo_unread w fd)) \<and> (0 < n \<longrightarrow> 0 < k) \<and>
        demo_unread (snd (os_read demo_link w fd n)) fd = drop k (demo_unread w fd) \<and>
        demo_sent (snd (os_read demo_link w fd n)) = demo_sent w \<and>
        demo_stalls (snd (os_read demo_link w fd n)) = demo_stalls w \<and>
        os_now demo_link (snd (os_read demo_link w fd n)) = os_now demo_link w"
      by (cases w, rule exI [of _ n]) (auto simp: demo_link_def null_os_def demo_views fun_eq_iff)
  qed
  moreover have "send_ok demo_link demo_unread demo_sent demo_stalls 1"
    by (auto simp: send_ok_def demo_link_def null_os_def demo_views fun_eq_iff min_def split: prod.splits if_splits)
  ultimately show "link_ok demo_link demo_unread demo_sent demo_stalls 1"
    by (auto simp: link_ok_def demo_link_def null_os_def)
qed

lemma file_conn_ok: "served file_conn" "sending_file file_conn"
proof -
  show f: "sending_file file_conn"
    by (simp add: sending_file_def file_conn_def new_conn_def stream0_def has_def setf_def flag_bits Let_def)
  have "conn_wf file_conn"
    by (simp add: file_conn_def conn_wf_def conn_ok_def rem_ok_def loc_ok_def new_conn_def stream0_def io_new_def io_ok_def
        chan0_def Let_def)
  then show "served file_conn"
    by (simp add: served_def serving_def io_inv_def small_def within_def flow_def)
      (simp add: file_conn_def new_conn_def stream0_def io_new_def has_def setf_def flag_bits Let_def)
qed

theorem reply_delivered_witness:
  "\<exists>ctx' w'. iterate demo_link (\<lambda>n. {}) (\<lambda>n w. w) 100 (zero_ctx\<lparr>nactive := 1\<rparr>) file_conn (''0123456789abcdefghij'', [], True) =
     Some (Freed, ctx', w') \<and> demo_sent w' 5 = ''HI0123456789abcdefghij''"
proof -
  let ?w = "(''0123456789abcdefghij'', [] :: string, True)"
  have nd: "\<not> drained file_conn" by (rule not_both [OF file_conn_ok(2)])
  have c: "io_cls (c_rem file_conn) = Some IO_SOCKET" "io_content (sio (c_loc file_conn)) = ''HI''"
    "ch_fd (chan (c_rem file_conn)) = 5" "io_total (sio (c_loc file_conn)) = 0" "content_len (c_loc file_conn) = 20"
    by (simp_all add: file_conn_def new_conn_def stream0_def io_new_def io_content_def overwrite_def Let_def)
  have "announced demo_unread file_conn ?w" "has_room file_conn"
    by (simp_all add: announced_def has_room_def c demo_views)
  moreover have "effort demo_unread demo_stalls 1 file_conn ?w < 100"
    by (simp add: effort_def work_def rest_of_def nd c demo_views)
  ultimately show ?thesis
    using reply_delivered [OF demo_link_ok file_conn_ok(1) c(1), where w = ?w and ctx = "zero_ctx\<lparr>nactive := 1\<rparr>" and env = "\<lambda>n w. w" and rs = "\<lambda>n. {}" and n = 100]
      file_conn_ok(2) nd by (auto simp: c apart_def zero_ctx_def demo_views)
qed

end
