(* ===== verification/Reply.thy ===== *)
theory Reply
  imports Deliver Passwd Request
begin

text \<open>
  From the request to the reply: which paths a request can name, which requests are refused, and what
  the client gets for a file (\<open>decide_what_to_do\<close> in \<open>shttpd.c\<close> with the loop of \<open>shttpd_poll\<close>).
\<close>

section \<open>Paths\<close>

lemma url_dec_slash: "url_dec (CHR ''/'' # m) (Suc n) (Suc k) = Some d \<Longrightarrow> \<exists>e. d = CHR ''/'' # e"
  by auto

lemma rdd_set: "set (remove_double_dots s) \<subseteq> set s"
proof (induction s rule: remove_double_dots.induct)
  case (2 c s)
  then show ?case by (auto dest: set_dropWhileD)
qed simp

lemma clean_uri_slash:
  assumes "clean_uri heap (CHR ''/'' # r) = Some (uri, mem)"
  shows "\<exists>t. uri = CHR ''/'' # t" "clean uri" "NUL \<notin> set uri"
proof -
  let ?u = "CHR ''/'' # takeWhile (\<lambda>c. c \<noteq> CHR ''?'') r"
  have u: "fst (split_query (CHR ''/'' # r)) = ?u" by (simp add: split_query_def)
  define block where "block = overwrite ((CHR ''/'' # r) @ [NUL]) (length ?u) [NUL]"
  obtain b where b: "block = CHR ''/'' # b" by (simp add: block_def overwrite_def)
  obtain d where d: "url_dec (block @ heap) (length ?u) (length ?u) = Some d" "uri = remove_double_dots (cstr (d @ [NUL]))"
    using assms unfolding clean_uri_def u Let_def block_def [symmetric] by (auto simp: url_decode_def nat_add_distrib split: option.splits)
  obtain e where e: "d = CHR ''/'' # e" using url_dec_slash d(1) b by auto
  then show "\<exists>t. uri = CHR ''/'' # t" using d(2) by (simp add: cstr_def)
  show "clean uri" unfolding d(2) by (rule clean_rdd)
  show "NUL \<notin> set uri" using rdd_set [of "cstr (d @ [NUL])"] unfolding d(2) by auto
qed

text \<open>C7: a request whose target begins with a slash, and that no alias takes elsewhere, names a path below
  the document root: the root, a slash, and a rest in which no component is empty or begins with a dot, so
  there is no parent directory in it however the target was encoded.\<close>

theorem file_path_below_root:
  assumes "clean_uri heap (CHR ''/'' # r) = Some (uri, mem)" "is_alias (ctx_aliases ctx) uri = None"
    and "length uri + length (str_of (document_root ctx)) < URI_MAX" "NUL \<notin> set (str_of (document_root ctx))"
  shows "\<exists>t. file_path ctx uri = str_of (document_root ctx) @ ''/'' @ t \<and>
    \<not> strstr (''/'' @ t) ''/.'' \<and> \<not> strstr (''/'' @ t) ''//''"
proof -
  obtain t where t: "uri = CHR ''/'' # t" using clean_uri_slash(1) [OF assms(1)] by blast
  let ?p = "str_of (document_root ctx) @ uri"
  have "my_snprintf URI_MAX ?p = (length ?p, ?p @ [NUL])" by (rule my_snprintf_fits) (use assms(3) in simp)
  then have "file_path ctx uri = ?p"
    using assms(4) clean_uri_slash(3) [OF assms(1)] cstr_append_NUL [of ?p "[]"]
    by (simp add: file_path_def assms(2) del: cstr_append_NUL)
  then show ?thesis using clean_no_infix [OF clean_uri_slash(2) [OF assms(1)]] by (simp add: t)
qed

lemma demo_clean: "map_option fst (clean_uri [NUL, NUL] ''/%2e./a?q'') = Some ''/a''"
  by code_simp

theorem file_path_below_root_witness:
  "\<exists>t. file_path demo_ctx ''/a'' = ''/w/'' @ t \<and> \<not> strstr (''/'' @ t) ''/.'' \<and> \<not> strstr (''/'' @ t) ''//''"
proof -
  obtain mem where m: "clean_uri [NUL, NUL] ''/%2e./a?q'' = Some (''/a'', mem)" using demo_clean by auto
  have a: "is_alias (ctx_aliases demo_ctx) ''/a'' = None" by code_simp
  show ?thesis using file_path_below_root [OF m a] by (simp add: demo_ctx_def str_of_Some URI_MAX_def)
qed

section \<open>Refusals\<close>

text \<open>An error reply touches nothing outside when no handler is registered for it and the local stream is free.\<close>

lemma send_server_error_quiet:
  assumes "cb_ok S" "conn_wf c" "\<forall>e \<in> set (error_handlers ctx). fst e \<noteq> status" "io_cls (c_loc c) = None"
  shows "\<exists>c'. send_server_error S ctx status reason c w = Some (c', w) \<and> c_status c' = status \<and>
    flagged (c_loc c') FLAG_CLOSED \<and> io_cls (c_loc c') = None \<and> c_rem c' = c_rem c"
proof -
  obtain li where "io_clear (sio (c_loc c)) = Some li"
    using io_clear_ok [of "sio (c_loc c)"] assms(2) by (auto simp: conn_wf_def conn_ok_def)
  moreover have "find (\<lambda>(cd, f, d). cd = status) (error_handlers ctx) = None"
    using assms(3) by (auto simp: find_None_iff)
  ultimately show ?thesis
    using assms(4) by (simp add: send_server_error_def stop_stream_def stopped_flags Let_def)
qed

lemma conn_wf_request [simp]:
  "conn_wf (c\<lparr>c_ch := h\<rparr>) = conn_wf c" "conn_wf (c\<lparr>c_query := q, c_uri := u\<rparr>) = conn_wf c"
proof -
  have "loc_ok (c\<lparr>c_ch := h\<rparr>) = loc_ok c" "loc_ok (c\<lparr>c_query := q, c_uri := u\<rparr>) = loc_ok c"
    by (rule loc_ok_cong; simp)+
  then show "conn_wf (c\<lparr>c_ch := h\<rparr>) = conn_wf c" "conn_wf (c\<lparr>c_query := q, c_uri := u\<rparr>) = conn_wf c"
    by (simp_all add: conn_wf_def conn_ok_def rem_ok_def)
qed

text \<open>The check of the credentials changes nothing of the connection but the user's name, and depends on three of
  its fields only.\<close>

lemma check_authorization_conn:
  "check_authorization S ctx c path w = Some (b, c', w') \<Longrightarrow>
   conn_wf c' = conn_wf c \<and> c_loc c' = c_loc c \<and> c_rem c' = c_rem c \<and> c_method c' = c_method c \<and> c_uri c' = c_uri c \<and>
   mime_type c' = mime_type c \<and> h_range (c_ch c') = h_range (c_ch c) \<and> h_ims (c_ch c') = h_ims (c_ch c) \<and>
   h_auth (c_ch c') = h_auth (c_ch c) \<and> c_ssi c' = c_ssi c"
  by (auto simp: check_authorization_def authorize_def Let_def split: prod.splits option.splits if_splits)

lemma put_authorization_conn:
  "is_authorized_for_put S ctx c w = Some (b, c', w') \<Longrightarrow>
   conn_wf c' = conn_wf c \<and> c_loc c' = c_loc c \<and> c_rem c' = c_rem c \<and> c_method c' = c_method c \<and>
   mime_type c' = mime_type c \<and> h_range (c_ch c') = h_range (c_ch c) \<and> h_auth (c_ch c') = h_auth (c_ch c)"
  by (auto simp: is_authorized_for_put_def authorize_def Let_def split: prod.splits option.splits if_splits)

definition asking :: "http_method \<Rightarrow> string \<Rightarrow> vec \<Rightarrow> conn" where
  "asking m uri auth =
     (new_conn 1 [] 0 0 0 0)\<lparr>c_method := m, c_uri := Some uri, c_ch := headers0\<lparr>h_auth := auth\<rparr>\<rparr>"

lemma authorize_asking:
  assumes "h_auth (c_ch c) = h_auth (c_ch d)" "c_method c = c_method d" "authorize ctx d t = Some (b, d')"
  shows "\<exists>c'. authorize ctx c t = Some (b, c')"
  using assms(3) by (auto simp: authorize_def assms(1,2) Let_def split: if_splits)

lemma check_authorization_asking:
  assumes "check_authorization S ctx (asking m uri auth) path w = Some (b, d, w')"
    and "c_method c = m" "c_uri c = Some uri" "h_auth (c_ch c) = auth"
  shows "\<exists>c'. check_authorization S ctx c path w = Some (b, c', w')"
proof -
  have a: "\<exists>c'. authorize ctx c t = Some (b, c')" if "authorize ctx (asking m uri auth) t = Some (b, d)" for t
    using authorize_asking [OF _ _ that] assms(2,4) by (simp add: asking_def)
  have "c_uri (asking m uri auth) = Some uri" by (simp add: asking_def)
  then show ?thesis using assms(1) unfolding check_authorization_def Let_def assms(3)
    by (auto split: prod.splits option.splits if_splits dest!: a)
qed

lemma put_authorization_asking:
  assumes "is_authorized_for_put S ctx (asking m uri auth) w = Some (b, d, w')" "c_method c = m" "h_auth (c_ch c) = auth"
  shows "\<exists>c'. is_authorized_for_put S ctx c w = Some (b, c', w')"
proof -
  have a: "\<exists>c'. authorize ctx c t = Some (b, c')" if "authorize ctx (asking m uri auth) t = Some (b, d)" for t
    using authorize_asking [OF _ _ that] assms(2,3) by (simp add: asking_def)
  show ?thesis using assms(1) unfolding is_authorized_for_put_def
    by (auto split: prod.splits option.splits if_splits dest!: a)
qed


definition delete_conn :: conn where
  "delete_conn = (new_conn 64 ''1.2.3.4'' 4711 80 5 0)\<lparr>c_uri := Some ''/a?q'', c_method := METHOD_DELETE\<rparr>"


section \<open>The request arrives\<close>

text \<open>A connection that has nothing but the beginning of a request.\<close>

definition waiting :: "conn \<Rightarrow> bool" where
  "waiting c \<longleftrightarrow> conn_wf c \<and> small c \<and> io_cls (c_rem c) = Some IO_SOCKET \<and>
     \<not> flagged (c_rem c) FLAG_HEADERS_PARSED \<and> \<not> flagged (c_rem c) FLAG_CLOSED \<and> content_len (c_rem c) = 0 \<and>
     io_tail (sio (c_rem c)) = 0 \<and> io_total (sio (c_rem c)) = of_nat (length (io_content (sio (c_rem c)))) \<and>
     mime_type c = None \<and> io_cls (c_loc c) = None \<and> sflags (c_loc c) = 0 \<and> content_len (c_loc c) = 0 \<and>
     io_head (sio (c_loc c)) = 0 \<and> io_tail (sio (c_loc c)) = 0 \<and> io_total (sio (c_loc c)) = 0 \<and>
     1 < io_size (sio (c_loc c))"

text \<open>A connection whose request has been read and that has not been decided on.\<close>

definition request_ready :: "conn \<Rightarrow> bool" where
  "request_ready c \<longleftrightarrow> conn_wf c \<and> small c \<and> io_cls (c_rem c) = Some IO_SOCKET \<and>
     flagged (c_rem c) FLAG_HEADERS_PARSED \<and> \<not> flagged (c_rem c) FLAG_CLOSED \<and> mime_type c = None \<and>
     io_cls (c_loc c) = None \<and> sflags (c_loc c) = 0 \<and> content_len (c_loc c) = 0 \<and>
     io_head (sio (c_loc c)) = 0 \<and> io_tail (sio (c_loc c)) = 0 \<and> io_total (sio (c_loc c)) = 0 \<and>
     1 < io_size (sio (c_loc c))"

text \<open>The rest of the request comes in.\<close>

lemma read_request:
  assumes "waiting c" "os_recv S w (ch_fd (chan (c_rem c))) (io_room (sio (c_rem c))) = (Got d, w1)" "d \<noteq> []"
    and "length d \<le> io_room (sio (c_rem c))"
  shows "\<exists>c1. read_stream S ctx Rem c w = Some (c1, w1) \<and> waiting c1 \<and> chan (c_rem c1) = chan (c_rem c) \<and>
    io_content (sio (c_rem c1)) = io_content (sio (c_rem c)) @ d \<and> c_ch c1 = c_ch c \<and> c_loc c1 = c_loc c"
proof -
  let ?i = "sio (c_rem c)"
  have w: "conn_wf c" "small c" "io_cls (c_rem c) = Some IO_SOCKET" "content_len (c_rem c) = 0" "ch_fd (chan (c_rem c)) \<noteq> -1"
    using assms(1) by (auto simp: waiting_def conn_wf_def rem_ok_def)
  have ok: "io_ok ?i" using w(1) by (simp add: conn_wf_def conn_ok_def)
  have pos: "0 < io_room ?i" using assms(3,4) by (cases d) auto
  have room: "io_room ?i < 2 ^ 31" "length d < 2 ^ 31" "to_size (int (io_room ?i)) = io_room ?i"
    using assms(4) w(2) by (auto simp: small_def io_room_def to_size_def)
  define b where "b = ?i\<lparr>io_buf := overwrite (io_buf ?i) (io_head ?i) d\<rparr>"
  obtain j where j: "io_put ?i d = Some j" "io_ok j" "io_content j = io_content ?i @ d"
    "io_total j = io_total ?i + of_nat (length d)" "io_size j = io_size ?i"
    using io_put_ok [OF ok assms(4)] by blast
  have tail: "io_tail j = io_tail ?i" using j(1) by (auto simp: io_put_def io_inc_head_def Let_def split: if_splits)
  define c1 where "c1 = c\<lparr>c_rem := (c_rem c)\<lparr>sio := j, nread_last := int (length d)\<rparr>, expire_time := os_now S w1 + EXPIRE_TIME\<rparr>"
  have rd: "io_read S ctx Rem IO_SOCKET (io_room ?i) c w = Some (int (length d), c\<lparr>c_rem := (c_rem c)\<lparr>sio := b\<rparr>\<rparr>, w1)"
    using assms(2,4) w(5) by (simp add: io_read_def read_socket_def read_fd_def store_def b_def Let_def)
  have "io_inc_head b (length d) = Some j" using j(1) by (simp add: io_put_def b_def)
  then have "read_stream S ctx Rem c w = Some (c1, w1)"
    using w(3,4) pos room io_len_ok(1) [OF ok] rd assms(3)
    by (simp add: read_stream_def read_with_def read_len_def after_read_def check_done_def c1_def)
  moreover have "conn_wf c1"
    using w(1) j(2) by (simp add: c1_def conn_wf_def conn_ok_def rem_ok_def loc_ok_def cong: option.case_cong io_class.case_cong)
  then have "waiting c1" using assms(1) j(3-5) tail by (simp add: waiting_def c1_def small_def)
  ultimately show ?thesis using j(3) by (simp add: c1_def)
qed

text \<open>An iteration in which the request becomes complete: it is read, parsed and decided on.\<close>

lemma request_arrives:
  assumes "os_ok S" "waiting c" "ch_fd (chan (c_rem c)) \<in> rs"
    and "os_recv S w (ch_fd (chan (c_rem c))) (io_room (sio (c_rem c))) = (Got d, w1)" "d \<noteq> []"
    and "io_content (sio (c_rem c)) @ d = request_text m target v hs @ body"
    and "uri_ok target" "v \<le> 1" "list_all header_ok hs"
    and "ch = parse_headers (os_mktime S) (render_headers hs @ crlf @ [NUL]) (length (render_headers hs)) (c_ch c)"
  shows "\<exists>c1 c2. poll_read_rem S ctx rs c w = Some (c1, w1) \<and> poll_parse S ctx c1 w1 = decide_what_to_do S ctx c2 w1 \<and>
    request_ready c2 \<and> c_method c2 = m \<and> c_uri c2 = Some target \<and> c_ch c2 = ch \<and> content_len (c_rem c2) = h_cl ch \<and>
    chan (c_rem c2) = chan (c_rem c) \<and> io_content (sio (c_rem c2)) = body \<and>
    io_total (sio (c_rem c2)) = of_nat (length body) \<and> io_size (sio (c_loc c2)) = io_size (sio (c_loc c))"
proof -
  have ok: "io_ok (sio (c_rem c))" using assms(2) by (simp add: waiting_def conn_wf_def conn_ok_def)
  have len: "length d \<le> io_room (sio (c_rem c))"
    using assms(1,4) unfolding os_ok_def rw_ok_def by (metis fst_conv rd_bytes.simps(1))
  obtain c1 where c1: "read_stream S ctx Rem c w = Some (c1, w1)" "waiting c1" "chan (c_rem c1) = chan (c_rem c)"
    "io_content (sio (c_rem c1)) = request_text m target v hs @ body" "c_ch c1 = c_ch c" "c_loc c1 = c_loc c"
    using read_request [OF assms(2,4,5) len, of ctx] assms(6) by auto
  have "0 < io_room (sio (c_rem c))" using len assms(5) by (cases d) auto
  then have r: "poll_read_rem S ctx rs c w = Some (c1, w1)"
    using assms(3) c1(1) io_len_ok(1) [OF ok] by (simp add: poll_read_rem_def)
  have w: "io_ok (sio (c_rem c1))" "io_tail (sio (c_rem c1)) = 0" "\<not> flagged (c_loc c1) FLAG_CLOSED"
    "io_total (sio (c_rem c1)) = of_nat (length (request_text m target v hs @ body))"
    using c1(2,4) by (auto simp: waiting_def conn_wf_def conn_ok_def has_def)
  obtain c2 where c2: "parse_http_request S ctx c1 w1 = decide_what_to_do S ctx c2 w1" "c_method c2 = m" "c_uri c2 = Some target"
    "c_ch c2 = ch" "content_len (c_rem c2) = h_cl ch" "flagged (c_rem c2) FLAG_HEADERS_PARSED" "c_loc c2 = c_loc c1"
    "io_ok (sio (c_rem c2))" "io_content (sio (c_rem c2)) = body" "io_total (sio (c_rem c2)) = of_nat (length body)"
    "same_link c1 c2"
    using request_parsed [OF assms(7-9) w(1,2) c1(4) w(4,3), of S ctx w1] assms(10) c1(5) by auto
  have "conn_wf c2" using c1(2) c2(7,8,11)
    by (simp add: waiting_def conn_wf_def conn_ok_def rem_ok_def loc_ok_def same_link_def)
  then have "request_ready c2" using c1(2) c2(6,7,11) by (simp add: waiting_def request_ready_def same_link_def small_def)
  moreover have "poll_parse S ctx c1 w1 = parse_http_request S ctx c1 w1" using c1(2) by (simp add: poll_parse_def waiting_def)
  ultimately show ?thesis using r c1(3,6) c2 by (intro exI [of _ c1] exI [of _ c2]) (simp add: same_link_def)
qed

section \<open>A file\<close>

text \<open>The header block of a whole file.\<close>

definition file_headers :: "'w os \<Rightarrow> shttpd_ctx \<Rightarrow> stat \<Rightarrow> string \<Rightarrow> 'w \<Rightarrow> string" where
  "file_headers S ctx st uri w =
     file_reply_text 200 ''OK'' (os_date S http_date_fmt (os_now S w)) (os_date S http_date_fmt (st_mtime st))
       (cstr (snd (my_snprintf 64 (hexs (unat (word_of_int (st_mtime st) :: u64)) @ ''.'' @ hexs (st_size st)))))
       (get_mime_type ctx uri (int (length uri))) (of_nat (st_size st)) []"

lemma put_reply_sio:
  "io_total (sio (put_reply t s)) = io_total (sio s)" "io_size (sio (put_reply t s)) = io_size (sio s)"
  "content_len (put_reply t s) = content_len s"
  by (simp_all add: put_reply_def split: prod.splits)

lemma get_file_ready:
  assumes "request_ready c" "within (c_rem c)" "vlen (h_range (c_ch c)) \<le> 0" "c_method c \<noteq> METHOD_HEAD" "fd \<noteq> -1"
    and "st_size st < 2 ^ 63" "length (unread w fd) = st_size st" "c_uri c = Some uri"
  defines "c0 \<equiv> c\<lparr>c_loc := (c_loc c)\<lparr>chan := (chan (c_loc c))\<lparr>ch_fd := fd\<rparr>\<rparr>\<rparr>"
  shows "\<exists>c1. get_file S ctx st c0 w = Some (c1, w) \<and> served c1 \<and> sending_file c1 \<and> announced unread c1 w \<and>
    has_room c1 \<and> c_rem c1 = c_rem c \<and> c_status c1 = 200 \<and> ch_fd (chan (c_loc c1)) = fd \<and>
    io_content (sio (c_loc c1)) = take (io_size (sio (c_loc c)) - 1) (file_headers S ctx st uri w)"
proof -
  let ?h = "file_headers S ctx st uri w" and ?sz = "of_nat (st_size st) :: u64"
  define p where "p = put_reply ?h (c_loc c0)"
  define l where "l = flag_on (or FLAG_R FLAG_ALWAYS_READY) (p\<lparr>content_len := ?sz, io_cls := Some IO_FILE\<rparr>)"
  have "mime_type c = None" using assms(1) by (simp add: request_ready_def)
  then obtain m where m: "get_file S ctx st c0 w = Some (c0\<lparr>mime_type := Some m, c_status := 200, c_loc := l\<rparr>, w)"
    using assms(3,4,8) by (simp add: get_file_def scan_range_def c0_def l_def p_def file_headers_def Let_def)
  define c1 where "c1 = c0\<lparr>mime_type := Some m, c_status := 200, c_loc := l\<rparr>"
  have c: "io_ok (sio (c_loc c))" "io_tail (sio (c_loc c)) = 0" "io_total (sio (c_loc c)) = 0" "sflags (c_loc c) = 0"
      "conn_wf c" "small c" "1 < io_size (sio (c_loc c))"
    using assms(1) by (auto simp: request_ready_def conn_wf_def conn_ok_def)
  have ok: "io_ok (sio p)" unfolding p_def by (rule put_reply_ok [of "sio (c_loc c)"]) (use c in \<open>simp_all add: c0_def\<close>)
  have cont: "io_content (sio p) = take (io_size (sio (c_loc c)) - 1) ?h"
    unfolding p_def by (subst put_reply_content) (use c in \<open>simp_all add: c0_def\<close>)
  have l: "sio l = sio p" "io_cls l = Some IO_FILE" "chan l = chan (c_loc c0)" "content_len l = ?sz"
      "sflags l = setf 0 (or FLAG_R FLAG_ALWAYS_READY)"
    using c(4) by (simp_all add: l_def p_def c0_def)
  have tot: "io_total (sio p) = 0" "io_size (sio p) = io_size (sio (c_loc c))"
    using c(3) by (simp_all add: p_def put_reply_sio c0_def)
  have sz: "unat ?sz = st_size st" using assms(6) by (simp add: unsigned_of_nat take_bit_nat_eq_self)
  then have "?sz < 2 ^ 63" using assms(6) by (simp add: word_less_nat_alt)
  have fl: "\<not> has (setf 0 (or FLAG_R FLAG_ALWAYS_READY)) FLAG_W" "has (setf 0 (or FLAG_R FLAG_ALWAYS_READY)) FLAG_ALWAYS_READY"
    "\<not> has (setf 0 (or FLAG_R FLAG_ALWAYS_READY)) FLAG_DONT_CLOSE" "\<not> has (setf 0 (or FLAG_R FLAG_ALWAYS_READY)) FLAG_CLOSED"
    by (simp_all add: has_def setf_def flag_bits)
  have "conn_wf c1"
    using c(5) ok assms(5) l by (simp add: c1_def c0_def conn_wf_def conn_ok_def rem_ok_def loc_ok_def)
  then have "served c1" using assms(1,2) l tot fl \<open>?sz < 2 ^ 63\<close> c(6)
    by (simp add: served_def serving_def io_inv_def small_def within_def flow_def request_ready_def c1_def c0_def)
  moreover have "sending_file c1" using l fl by (simp add: sending_file_def c1_def)
  moreover have "announced unread c1 w" using l tot sz assms(7) by (simp add: announced_def c1_def c0_def)
  moreover have "?h \<noteq> []" by (simp add: file_headers_def file_reply_text_def Let_def)
  then have "has_room c1" using cont c(7) l by (simp add: has_room_def c1_def)
  ultimately show ?thesis using m cont l by (auto simp: c1_def c0_def)
qed

text \<open>The credentials are right: \<open>decide_what_to_do\<close> goes on to \<open>dispatch\<close>.\<close>

lemma decide_granted:
  assumes "request_ready c" "c_method c = m" "h_auth (c_ch c) = auth"
    and "clean_uri (os_heap S) (str_of (c_uri c)) = Some (uri, mem)"
    and "length uri + length (str_of (document_root ctx)) < URI_MAX"
    and "check_authorization S ctx (asking m uri auth) (file_path ctx uri) w = Some (True, ca, w1)"
  shows "\<exists>c1. decide_what_to_do S ctx c w = dispatch S ctx mem (file_path ctx uri) c1 w1 \<and> request_ready c1 \<and>
    c_method c1 = m \<and> c_uri c1 = Some uri \<and> h_auth (c_ch c1) = auth \<and> h_range (c_ch c1) = h_range (c_ch c) \<and>
    h_ims (c_ch c1) = h_ims (c_ch c) \<and> c_rem c1 = c_rem c \<and> c_loc c1 = c_loc c"
proof -
  define c0 where "c0 = c\<lparr>c_query := snd (split_query (str_of (c_uri c))), c_uri := Some uri\<rparr>"
  obtain c1 where a: "check_authorization S ctx c0 (file_path ctx uri) w = Some (True, c1, w1)"
    using check_authorization_asking [OF assms(6), of c0] assms(2,3) by (auto simp: c0_def)
  have d: "decide_what_to_do S ctx c w = dispatch S ctx mem (file_path ctx uri) c1 w1"
    using assms(4,5) a by (simp add: decide_what_to_do_def c0_def [symmetric] Let_def not_le [symmetric])
  show ?thesis using d check_authorization_conn [OF a] assms(1-3)
    by (intro exI [of _ c1]) (simp add: c0_def request_ready_def small_def)
qed

text \<open>What \<open>dispatch\<close> goes through for a plain file.\<close>

lemma dispatch_plain_file:
  assumes "is_registered_uri (registered_uris ctx) mem = Some None" "\<not> strstr path HTPASSWD"
    and "c_method c = METHOD_GET" "os_stat S w path = Some st" "\<not> st_dir st"
    and "\<not> match_extension path (cgi_extensions ctx)" "\<not> match_extension path (ssi_extensions ctx)"
    and "h_ims (c_ch c) = 0 \<or> h_ims (c_ch c) < st_mtime st"
    and "os_open S w path False = (fd, w1)" "fd \<noteq> -1"
  shows "dispatch S ctx mem path c w =
    get_file S ctx st (c\<lparr>c_loc := (c_loc c)\<lparr>chan := (chan (c_loc c))\<lparr>ch_fd := fd\<rparr>\<rparr>\<rparr>) w1"
proof -
  have "get_request S ctx path c w = serve_file S ctx path st c w"
    using assms(4,5) by (simp add: get_request_def get_path_info_def)
  moreover have "serve_file S ctx path st c w =
    get_file S ctx st (c\<lparr>c_loc := (c_loc c)\<lparr>chan := (chan (c_loc c))\<lparr>ch_fd := fd\<rparr>\<rparr>\<rparr>) w1"
    using assms(6-10) by (auto simp: serve_file_def open_local_def)
  ultimately show ?thesis using assms(1-3) by (simp add: dispatch_def)
qed


text \<open>The file \<open>/w/a\<close> of twenty bytes; the request comes in one piece.\<close>

definition demo_request :: string where
  "demo_request = request_text METHOD_GET ''/a?q'' 1 []"

definition demo_site :: "demo_world os" where
  "demo_site = demo_link\<lparr>os_stat := (\<lambda>w p. if p = ''/w/a'' then Some \<lparr>st_dir = False, st_size = 20, st_mtime = 0\<rparr> else None),
     os_open := (\<lambda>w p b. (if p = ''/w/a'' then 6 else -1, w)), os_recv := (\<lambda>w fd n. (Got (take n demo_request), w))\<rparr>"

definition fresh_conn :: conn where
  "fresh_conn = new_conn 600 ''1.2.3.4'' 4711 80 5 0"

lemma demo_site_ok: "os_ok demo_site" "link_ok demo_site demo_unread demo_sent demo_stalls 1"
proof -
  have o: "os_read demo_site = os_read demo_link" "os_send demo_site = os_send demo_link" "os_close demo_site = os_close demo_link"
    "os_now demo_site = os_now demo_link" "os_errno demo_site = os_errno demo_link" "os_log demo_site = os_log demo_link"
    "os_write demo_site = os_write demo_link" "os_ssl_read demo_site = os_ssl_read demo_link"
    "os_ssl_write demo_site = os_ssl_write demo_link" "os_callback demo_site = os_callback demo_link"
    by (simp_all add: demo_site_def)
  show "link_ok demo_site demo_unread demo_sent demo_stalls 1"
    using demo_link_ok(2) unfolding link_ok_def read_ok_def send_ok_def o .
  have "length (rd_bytes (fst (os_recv demo_site w fd n))) \<le> n" for w fd n by (simp add: demo_site_def)
  then show "os_ok demo_site" using demo_link_ok(1) by (simp add: os_ok_def cb_ok_def rw_ok_def o)
qed

lemma fresh_conn_waiting: "waiting fresh_conn"
proof -
  have "conn_wf fresh_conn" unfolding fresh_conn_def by (rule new_conn_wf) simp_all
  then show ?thesis
    by (simp add: waiting_def small_def)
      (simp add: fresh_conn_def new_conn_def stream0_def io_new_def io_content_def has_def)
qed

lemma fresh_conn_parts:
  "ch_fd (chan (c_rem fresh_conn)) = 5" "io_room (sio (c_rem fresh_conn)) = 600" "io_content (sio (c_rem fresh_conn)) = []"
  "io_size (sio (c_loc fresh_conn)) = 600" "c_ch fresh_conn = headers0"
  by (simp_all add: fresh_conn_def new_conn_def stream0_def io_new_def io_room_def io_content_def chan0_def)


section \<open>An upload\<close>

text \<open>Reading a local stream whose descriptor cannot be read.\<close>

lemma unreadable_file:
  assumes "io_inv c" "io_cls (c_loc c) = Some IO_FILE" "\<not> flagged (c_loc c) FLAG_DONT_CLOSE" "content_len (c_loc c) = 0"
    and "0 < io_room (sio (c_loc c))"
    and "os_read S w (ch_fd (chan (c_loc c))) = (\<lambda>n. (RFail, w1))" "\<not> try_again S w1"
  shows "\<exists>c'. read_stream S ctx Loc c w = Some (c', os_close S w1 (ch_fd (chan (c_loc c)))) \<and> drained c' \<and>
    sio (c_loc c') = sio (c_loc c) \<and> c_rem c' = c_rem c"
proof -
  have fd: "ch_fd (chan (c_loc c)) \<noteq> -1" by (rule fd_ok(2) [OF assms(1,2)])
  have ok: "io_ok (sio (c_loc c))" by (rule io_inv_io_ok [OF assms(1), of Loc, simplified])
  have small: "io_room (sio (c_loc c)) < 2 ^ 31" using assms(1) by (auto simp: io_inv_def small_def io_room_def)
  have rd: "io_read S ctx Loc IO_FILE n c w = Some (-1, c, w1)" for n
    using fd assms(6) by (simp add: io_read_def read_file_def read_fd_def store_def)
  then show ?thesis
    using assms(2-5,7) small io_len_ok(1) [OF ok] fd stop_file [of "c\<lparr>c_loc := (c_loc c)\<lparr>nread_last := -1\<rparr>\<rparr>" S w1]
    by (simp add: read_stream_def read_with_def after_read_def check_done_def stopped_def [of "_\<lparr>nread_last := _\<rparr>"])
      (simp add: drained_def flag_bits has_clrf_disjoint has_clrf_sub has_setf, simp add: has_def)
qed

text \<open>The part of \<open>put_request\<close> that accepts an upload, and the rest of the iteration after it.\<close>

definition upload_conn :: "int \<Rightarrow> int \<Rightarrow> conn \<Rightarrow> conn" where
  "upload_conn st fl c = c\<lparr>c_status := st, c_loc := (c_loc c)\<lparr>chan := (chan (c_loc c))\<lparr>ch_fd := fl\<rparr>,
      io_cls := Some IO_FILE, sflags := setf 0 (or FLAG_W FLAG_ALWAYS_READY)\<rparr>\<rparr>"

lemma put_request_accepts:
  assumes "request_ready c" "content_len (c_rem c) \<noteq> 0" "vlen (h_range (c_ch c)) \<le> 0"
    and "put_dir S path w = Some (1, w1)" "os_open S w1 path True = (fl, w2)" "fl \<noteq> -1"
  shows "\<exists>st. put_request S ctx path c w = Some (upload_conn st fl c, w2)"
  using assms by (auto simp: put_request_def request_ready_def upload_conn_def Let_def)

lemma upload_stopped:
  assumes "request_ready c" "fl \<noteq> -1" "os_read S w fl = (\<lambda>n. (RFail, w1))" "\<not> try_again S w1"
    and "inetd_mode ctx = 0" "0 < nactive ctx" "access_log ctx = None"
  shows "\<exists>ctx'. poll_rest S rs ctx (upload_conn st fl c) w =
    Some (Freed, ctx', os_close S (os_close S w1 fl) (ch_fd (chan (c_rem c)))) \<and> nactive ctx' = nactive ctx - 1"
proof -
  let ?c1 = "upload_conn st fl c" and ?fl = "setf 0 (or FLAG_W FLAG_ALWAYS_READY)"
  have fl: "\<not> has ?fl FLAG_DONT_CLOSE" "has ?fl FLAG_ALWAYS_READY"
    by (simp_all add: has_def setf_def flag_bits)
  have c: "conn_wf c" "small c" "content_len (c_loc c) = 0" "io_cls (c_rem c) = Some IO_SOCKET"
    "io_head (sio (c_loc c)) = 0" "io_tail (sio (c_loc c)) = 0" "1 < io_size (sio (c_loc c))"
    using assms(1) by (auto simp: request_ready_def)
  have "conn_wf ?c1" using c(1) assms(2) by (simp add: upload_conn_def conn_wf_def conn_ok_def rem_ok_def loc_ok_def)
  then have inv: "io_inv ?c1" using c(2,3) by (simp add: io_inv_def upload_conn_def small_def within_def)
  have room: "0 < io_room (sio (c_loc ?c1))" "io_content (sio (c_loc ?c1)) = []"
    using c(5-7) by (simp_all add: upload_conn_def io_room_def io_content_def)
  obtain c3 where c3: "read_stream S ctx Loc ?c1 w = Some (c3, os_close S w1 fl)" "drained c3"
    "sio (c_loc c3) = sio (c_loc ?c1)" "c_rem c3 = c_rem ?c1"
    using unreadable_file [OF inv, of S w w1 ctx] assms(3,4) room(1) fl c(3) by (auto simp: upload_conn_def)
  have len: "io_space_len (sio (c_loc ?c1)) = Some (io_room (sio (c_loc ?c1)))"
    "io_data_len (sio (c_loc c3)) = Some 0" "io_data_len (sio (c_rem c3)) \<noteq> None"
    using io_len_ok(1,2) [OF io_inv_io_ok [OF inv, of Loc]] io_len_ok(2) [OF io_inv_io_ok [OF inv, of Rem]]
      room(2) c3(3,4) by simp_all
  have rem: "c_rem ?c1 = c_rem c" by (simp add: upload_conn_def)
  have fd: "ch_fd (chan (c_rem c)) \<noteq> -1" using c(1) by (simp add: conn_wf_def rem_ok_def)
  have 3: "poll_read_loc S ctx rs ?c1 w = Some (c3, os_close S w1 fl)"
    using len(1) room(1) fl c3(1) by (simp add: poll_read_loc_def) (simp add: upload_conn_def)
  have 4: "poll_write_loc S c3 v = Some (c3, v)" for v using len(3) c3(2) by (auto simp: poll_write_loc_def drained_def)
  have 5: "poll_write_rem S c3 v = Some (c3, v)" for v using len(2) by (simp add: poll_write_rem_def)
  have "is_over now c3" for now using c3(2,3) room(2) by (simp add: is_over_def drained_def)
  then have "poll_rest S rs ctx ?c1 w = disconnect S (count_io c3 ctx) c3 (os_close S w1 fl)"
    by (simp add: poll_rest_def 3 4 5)
  moreover have "access_log (count_io c3 ctx) = None" using assms(7) by (simp add: count_io_def Let_def)
  ultimately show ?thesis using c3(2,4) rem fd c(4) assms(5,6)
    by (simp add: disconnect_def drained_def dont_close_def io_close_def close_fd_def Let_def)
qed


text \<open>A server where everything may be uploaded by \<open>joe\<close>, whose request comes in one piece without its body. The world
  counts the calls that were made.\<close>

definition put_response :: string where
  "put_response = rfc2617_response ''joe'' ''my site'' ''pw'' ''PUT'' ''/a'' ''17'' ''00000001'' ''x, y''"

definition put_credentials :: string where
  "put_credentials = digest_header (demo_params put_response)"

definition put_headers :: "(string \<times> string) list" where
  "put_headers = [(''Content-Length'', ''3''), (''Authorization'', put_credentials)]"

definition put_site :: "nat os" where
  "put_site = null_os\<lparr>os_open := (\<lambda>w p b. (if p = ''/p'' then 7 else if b then 6 else -1, w + 1)),
     os_fdopen := (\<lambda>w fd. if fd = 7 then Some (htpasswd_line ''joe'' ''my site'' (hash_str ''joe:my site:pw'')) else None),
     os_recv := (\<lambda>w fd n. (Got (take n (request_text METHOD_PUT ''/a'' 1 put_headers)), w + 1)),
     os_read := (\<lambda>w fd n. (RFail, w + 1)), os_close := (\<lambda>w fd. w + 1)\<rparr>"

definition put_ctx :: shttpd_ctx where
  "put_ctx = demo_ctx\<lparr>nactive := 1, put_auth_file := Some ''/p'', auth_realm := Some ''my site''\<rparr>"

definition put_conn :: conn where
  "put_conn = new_conn 1000 ''1.2.3.4'' 4711 80 5 0"

lemma put_response_hex: "hex32 put_response"
  unfolding put_response_def rfc2617_response_def by (rule hex32_hash)

lemma put_response_chars: "c \<in> set put_response \<Longrightarrow> \<not> bad_char c \<and> c \<notin> {NUL, CR, LF, DQ}" "length put_response = 32"
proof -
  assume "c \<in> set put_response"
  then have "c \<in> set ''0123456789abcdef''" using put_response_hex by (auto simp only: hex32_def)
  then show "\<not> bad_char c \<and> c \<notin> {NUL, CR, LF, DQ}" by (auto simp: bad_char_def isprint_def)
next
  show "length put_response = 32" using put_response_hex by (simp add: hex32_def)
qed

lemma put_headers_ok: "list_all header_ok put_headers" "length (request_text METHOD_PUT ''/a'' 1 put_headers) < 1000"
  using put_response_chars
  by (auto simp: put_headers_def header_ok_def hdr_name_def hdr_value_def put_credentials_def digest_header_def demo_params_def
      bad_char_def isprint_def request_text_def request_line_def dec_version render_headers_def render_line_def)

lemma put_headers_parsed:
  "parse_headers te (render_headers put_headers @ crlf @ [NUL]) (length (render_headers put_headers)) headers0 =
     headers0\<lparr>h_cl := 3, h_auth := \<lparr>vptr = put_credentials @ [CR, LF] @ crlf @ [NUL], vlen = int (length put_credentials)\<rparr>\<rparr>"
proof -
  let ?l = "render_line (''Authorization'', put_credentials)" and ?e = "crlf @ [NUL]"
  have e: "entry_of ''Content-Length'' = Some (HDR_INT, Cl, ''Content-Length: '')"
    "entry_of ''Authorization'' = Some (HDR_STRING, Auth, ''Authorization: '')" by code_simp+
  have v: "hdr_value put_credentials" "NUL \<notin> set put_credentials"
    using put_headers_ok(1) by (auto simp: put_headers_def header_ok_def hdr_value_def)
  have d: "dec 3 = ''3''" by code_simp
  have "cstr (''3'' @ CR # LF # ?l @ ?e) = dec 3 @ CR # LF # ?l @ crlf"
    using cstr_append_NUL [of "''3'' @ CR # LF # ?l @ crlf" "[]"] v(2) by (simp add: render_line_def d)
  moreover have "fst (strtoul (dec 3 @ CR # LF # ?l @ crlf)) = 3"
    using strtoul_dec [of 3 "CR # LF # ?l @ crlf"] by (simp add: isdigit_def)
  ultimately have cl: "fst (strtoul (cstr (''3'' @ CR # LF # ?l @ ?e))) = 3" by simp
  have 1: "parse_headers te (render_line (''Content-Length'', ''3'') @ ?l @ ?e) (length (render_line (''Content-Length'', ''3'')) + length ?l) headers0 =
      parse_headers te (?l @ ?e) (length ?l) (headers0\<lparr>h_cl := 3\<rparr>)"
    using parse_headers_render_line [of "''Content-Length''" "''3''" te "?l @ ?e" "length ?l" headers0] cl e(1)
    by (simp add: hdr_name_def hdr_value_def store_header_def)
  have 2: "parse_headers te (?l @ ?e) (length ?l) ph =
      ph\<lparr>h_auth := \<lparr>vptr = put_credentials @ [CR, LF] @ ?e, vlen = int (length put_credentials)\<rparr>\<rparr>" for ph
    using parse_headers_render_line [of "''Authorization''" put_credentials te ?e 0 ph] v(1) e(2)
    by (simp add: hdr_name_def store_header_def chat_def nth_append nth_Cons' Let_def)
  have r: "render_headers put_headers = render_line (''Content-Length'', ''3'') @ ?l"
    by (simp add: put_headers_def render_headers_def)
  show ?thesis unfolding r length_append append_assoc 1 2 by simp
qed

lemma put_authorized:
  "\<exists>c'. is_authorized_for_put put_site put_ctx (asking METHOD_PUT ''/a'' \<lparr>vptr = put_credentials @ [CR, LF] @ crlf @ [NUL],
     vlen = int (length put_credentials)\<rparr>) 2 = Some (True, c', 4)"
proof -
  let ?auth = "\<lparr>vptr = put_credentials @ [CR, LF] @ crlf @ [NUL], vlen = int (length put_credentials)\<rparr>"
  let ?c = "asking METHOD_PUT ''/a'' ?auth" and ?ha1 = "hash_str (''joe'' @ '':'' @ ''my site'' @ '':'' @ ''pw'')"
  have k: "carries (demo_params put_response) (digest_params ''joe'' ''my site'' ''17'' ''/a'' ''00000001'' ''x, y'' put_response)"
    using put_response_chars by (auto simp: carries_def demo_params_def digest_params_def digest_header_def)
  have "authorize put_ctx ?c (htpasswd_line ''joe'' ''my site'' ?ha1) = Some (put_response = hash_str (?ha1 @ '':'' @ ''17'' @ '':'' @
      ''00000001'' @ '':'' @ ''x, y'' @ '':auth:'' @ hash_str (method_name (c_method ?c) @ '':'' @ ''/a'')),
      ?c\<lparr>c_ch := (c_ch ?c)\<lparr>h_user := d_user (parse_authorization_header (h_auth (c_ch ?c)))\<rparr>\<rparr>)"
    by (rule authorize_new_line [where r = "[CR, LF] @ crlf @ [NUL]", OF k _ _ _ _ hex32_hash])
      (simp_all add: pw_name_def asking_def put_credentials_def put_ctx_def)
  moreover have "put_response = hash_str (?ha1 @ '':'' @ ''17'' @ '':'' @ ''00000001'' @ '':'' @ ''x, y'' @ '':auth:'' @
      hash_str (method_name (c_method ?c) @ '':'' @ ''/a''))"
    unfolding put_response_def rfc2617_response_def asking_def by simp
  ultimately obtain c' where "authorize put_ctx ?c (htpasswd_line ''joe'' ''my site'' (hash_str ''joe:my site:pw'')) = Some (True, c')"
    by simp
  then show ?thesis
    by (simp add: is_authorized_for_put_def fopen_r_def put_site_def put_ctx_def)
qed


end
