(* ===== verification/Emb.thy ===== *)
theory Emb
  imports Server
begin

text \<open>
  The interface for embedding applications in \<open>io_emb.c\<close> of shttpd: what a callback may ask
  (\<open>shttpd_printf\<close>, \<open>shttpd_get_header\<close>, \<open>shttpd_get_env\<close>, \<open>shttpd_get_http_version\<close>) and how an
  application registers its callbacks.
\<close>

section \<open>Output of a callback\<close>

text \<open>The \<open>out\<close> part of \<open>struct shttpd_arg\<close>: the free end of the local buffer.\<close>

record arg_out =
  out_buf :: "char list"
  out_len :: nat
  num_bytes :: nat

text \<open>\<open>txt\<close> is the full formatted text. The result is the return value.\<close>

definition shttpd_printf :: "string \<Rightarrow> arg_out \<Rightarrow> (int \<times> arg_out) option" where
  "shttpd_printf txt a =
     (let buflen = int (out_len a) - int (num_bytes a)
      in if length (out_buf a) < num_bytes a then None
         else if buflen \<le> 0 then Some (0, a)
         else let len = min (int (length txt)) buflen
              in Some (len, a\<lparr>out_buf := overwrite (out_buf a) (num_bytes a) (take (nat buflen - 1) txt @ [NUL]),
                              num_bytes := num_bytes a + nat len\<rparr>))"

section \<open>The request as a callback sees it\<close>

text \<open>Headers are looked up in the copied request, which the search cuts into strings. \<open>p\<close> and the
  result are offsets.\<close>

definition end_line :: "char list \<Rightarrow> nat \<Rightarrow> char list" where
  "end_line m p =
     (let line = cstr (drop p m); k = p + length (takeWhile (\<lambda>c. c \<noteq> LF) line)
      in if k < p + length line
         then (if 0 < k \<and> m ! (k - 1) = CR then m[k - 1 := NUL] else m[k := NUL]) else m)"

function get_header_at :: "string \<Rightarrow> char list \<Rightarrow> nat \<Rightarrow> nat \<Rightarrow> nat option \<times> char list" where
  "get_header_at name m p e =
     (if e \<le> p then (None, m)
      else let m1 = end_line m p
           in if my_strncasecmp name (cstr (drop p m1)) (length name) = 0
              then (Some (p + length name + 2), m1)
              else get_header_at name m1 (p + length (cstr (drop p m1)) + 1) e)"
  by pat_completeness auto
termination by (relation "measure (\<lambda>(name, m, p, e). e - p)") auto

declare get_header_at.simps [simp del]

definition shttpd_get_header :: "string \<Rightarrow> conn \<Rightarrow> (string option \<times> conn) option" where
  "shttpd_get_header name c =
     (case c_request c of
        None \<Rightarrow> None
      | Some m \<Rightarrow>
          let (r, m1) = get_header_at name m (c_headers c) (nat (headers_len (c_rem c)))
          in Some (map_option (\<lambda>k. cstr (drop k m1)) r, c\<lparr>c_request := Some m1\<rparr>))"

definition shttpd_get_env :: "string \<Rightarrow> conn \<Rightarrow> string option" where
  "shttpd_get_env name c =
     (if name = ''REQUEST_METHOD'' then Some (method_name (c_method c))
      else if name = ''REQUEST_URI'' then c_uri c
      else if name = ''QUERY_STRING'' then c_query c
      else if name = ''REMOTE_USER'' then
        (if 0 < vlen (h_user (c_ch c)) then Some (cstr (vbytes (h_user (c_ch c)))) else None)
      else if name = ''REMOTE_ADDR'' then Some (c_addr c)
      else None)"

definition shttpd_get_http_version :: "conn \<Rightarrow> u64 \<times> u64" where
  "shttpd_get_http_version c = (major_version c, minor_version c)"

section \<open>Registration\<close>

definition shttpd_register_uri :: "shttpd_ctx \<Rightarrow> string \<Rightarrow> nat \<Rightarrow> nat \<Rightarrow> shttpd_ctx" where
  "shttpd_register_uri ctx uri callback data =
     ctx\<lparr>registered_uris := registered_uris ctx @ [(my_strdup uri, callback, data)]\<rparr>"

definition shttpd_protect_uri :: "shttpd_ctx \<Rightarrow> string \<Rightarrow> string \<Rightarrow> shttpd_ctx" where
  "shttpd_protect_uri ctx uri file =
     ctx\<lparr>uri_auths := (my_strdup uri, my_strdup file) # uri_auths ctx\<rparr>"

definition shttpd_handle_error :: "shttpd_ctx \<Rightarrow> int \<Rightarrow> nat \<Rightarrow> nat \<Rightarrow> shttpd_ctx" where
  "shttpd_handle_error ctx cd func data =
     ctx\<lparr>error_handlers := error_handlers ctx @ [(cd, func, data)]\<rparr>"

end
