(* ===== verification/LList.thy ===== *)
theory LList
  imports Prelude
begin

text \<open>
  \<open>llist.h\<close> of shttpd: the circular doubly-linked lists that hold connections, listeners,
  mime types, registered URIs and handlers. Nodes are addresses in a heap of two pointers; the
  macros are heap updates. The locale \<open>linked_list\<close> is what the rest of the server relies on:
  a header node stands for a list, and the macros add, remove and enumerate its elements. It is
  discharged for the macros, so the later theories model these lists as lists.
\<close>

section \<open>The macros\<close>

record llheap =
  prv :: "nat \<Rightarrow> nat"
  nxt :: "nat \<Rightarrow> nat"

definition set_prv :: "nat \<Rightarrow> nat \<Rightarrow> llheap \<Rightarrow> llheap" where
  "set_prv n v h = h\<lparr>prv := (prv h)(n := v)\<rparr>"

definition set_nxt :: "nat \<Rightarrow> nat \<Rightarrow> llheap \<Rightarrow> llheap" where
  "set_nxt n v h = h\<lparr>nxt := (nxt h)(n := v)\<rparr>"

definition LL_INIT :: "nat \<Rightarrow> llheap \<Rightarrow> llheap" where
  "LL_INIT n h = set_nxt n n (set_prv n n h)"

definition LL_ADD :: "nat \<Rightarrow> nat \<Rightarrow> llheap \<Rightarrow> llheap" where
  "LL_ADD H N h =
     (let h1 = set_prv (nxt h H) N h;
          h2 = set_nxt N (nxt h1 H) h1;
          h3 = set_prv N H h2
      in set_nxt H N h3)"

definition LL_TAIL :: "nat \<Rightarrow> nat \<Rightarrow> llheap \<Rightarrow> llheap" where
  "LL_TAIL H N h =
     (let h1 = set_nxt (prv h H) N h;
          h2 = set_prv N (prv h1 H) h1;
          h3 = set_nxt N H h2
      in set_prv H N h3)"

definition LL_DEL :: "nat \<Rightarrow> llheap \<Rightarrow> llheap" where
  "LL_DEL N h =
     (let h1 = set_prv (nxt h N) (prv h N) h;
          h2 = set_nxt (prv h1 N) (nxt h1 N) h1
      in LL_INIT N h2)"

definition LL_EMPTY :: "nat \<Rightarrow> llheap \<Rightarrow> bool" where
  "LL_EMPTY N h \<longleftrightarrow> nxt h N = N"

text \<open>The nodes \<open>LL_FOREACH\<close> visits with a body that leaves the list alone; a list that is not
  circular runs out of fuel.\<close>

fun foreach :: "nat \<Rightarrow> llheap \<Rightarrow> nat \<Rightarrow> nat \<Rightarrow> nat list option" where
  "foreach 0 h H N = None"
| "foreach (Suc f) h H N =
     (if N = H then Some [] else map_option (Cons N) (foreach f h H (nxt h N)))"

definition LL_FOREACH :: "nat \<Rightarrow> llheap \<Rightarrow> nat \<Rightarrow> nat list option" where
  "LL_FOREACH f h H = foreach f h H (nxt h H)"

text \<open>\<open>LL_FOREACH_SAFE\<close> with a body on the heap: the nodes visited and the final heap.\<close>

fun foreach_safe ::
  "nat \<Rightarrow> (nat \<Rightarrow> llheap \<Rightarrow> llheap) \<Rightarrow> llheap \<Rightarrow> nat \<Rightarrow> nat \<Rightarrow> nat \<Rightarrow> (nat list \<times> llheap) option" where
  "foreach_safe 0 body h H N T = None"
| "foreach_safe (Suc f) body h H N T =
     (if N = H then Some ([], h)
      else let h1 = body N h
           in map_option (\<lambda>(v, h2). (N # v, h2)) (foreach_safe f body h1 H T (nxt h1 T)))"

definition LL_FOREACH_SAFE ::
  "nat \<Rightarrow> (nat \<Rightarrow> llheap \<Rightarrow> llheap) \<Rightarrow> llheap \<Rightarrow> nat \<Rightarrow> (nat list \<times> llheap) option" where
  "LL_FOREACH_SAFE f body h H = foreach_safe f body h H (nxt h H) (nxt h (nxt h H))"

lemmas ll_defs = LL_INIT_def LL_ADD_def LL_TAIL_def LL_DEL_def LL_EMPTY_def Let_def
  set_prv_def set_nxt_def

section \<open>The list a header node stands for\<close>

fun seg :: "llheap \<Rightarrow> nat \<Rightarrow> nat list \<Rightarrow> nat \<Rightarrow> bool" where
  "seg h a [] b \<longleftrightarrow> nxt h a = b \<and> prv h b = a"
| "seg h a (x # xs) b \<longleftrightarrow> nxt h a = x \<and> prv h x = a \<and> seg h x xs b"

definition ll_rep :: "llheap \<Rightarrow> nat \<Rightarrow> nat list \<Rightarrow> bool" where
  "ll_rep h H xs \<longleftrightarrow> distinct (H # xs) \<and> seg h H xs H"

lemma seg_append: "seg h a (xs @ x # ys) b \<longleftrightarrow> seg h a xs x \<and> seg h x ys b"
  by (induction xs arbitrary: a) auto

lemma seg_frame:
  "seg h a xs b \<Longrightarrow> \<forall>n \<in> set (a # xs). nxt h' n = nxt h n \<Longrightarrow> \<forall>n \<in> set (b # xs). prv h' n = prv h n \<Longrightarrow>
   seg h' a xs b"
  by (induction xs arbitrary: a) auto

lemma seg_first: "seg h a xs b \<Longrightarrow> nxt h a = hd (xs @ [b])"
  by (cases xs) auto

lemma seg_last: "seg h a xs b \<Longrightarrow> prv h b = last (a # xs)"
  by (induction xs arbitrary: a) auto

lemma ll_rep_init: "ll_rep (LL_INIT H h) H []"
  by (simp add: ll_rep_def ll_defs)

lemma ll_rep_add:
  assumes r: "ll_rep h H xs" and n: "N \<notin> set (H # xs)"
  shows "ll_rep (LL_ADD H N h) H (N # xs)"
proof (cases xs)
  case Nil
  then show ?thesis using assms by (auto simp: ll_rep_def ll_defs)
next
  case (Cons x ys)
  then have s: "seg h x ys H" "nxt h H = x" "distinct (H # x # ys)" using r by (auto simp: ll_rep_def)
  have "seg (LL_ADD H N h) x ys H"
    by (rule seg_frame [OF s(1)]) (use s n Cons in \<open>auto simp: ll_defs\<close>)
  then show ?thesis using s n Cons by (auto simp: ll_rep_def ll_defs)
qed

lemma ll_rep_tail:
  assumes r: "ll_rep h H xs" and n: "N \<notin> set (H # xs)"
  shows "ll_rep (LL_TAIL H N h) H (xs @ [N])"
proof (cases xs rule: rev_cases)
  case Nil
  then show ?thesis using assms by (auto simp: ll_rep_def ll_defs)
next
  case (snoc ys y)
  then have s: "seg h H ys y" "prv h H = y" "distinct (H # ys @ [y])"
    using r by (auto simp: ll_rep_def seg_append)
  have "seg (LL_TAIL H N h) H ys y"
    by (rule seg_frame [OF s(1)]) (use s n snoc in \<open>auto simp: ll_defs\<close>)
  then show ?thesis using s n snoc by (auto simp: ll_rep_def ll_defs seg_append)
qed

lemma LL_DEL_ptrs:
  assumes "nxt h N \<noteq> N" "prv h N \<noteq> N"
  shows "nxt (LL_DEL N h) = (nxt h)(prv h N := nxt h N, N := N)"
    "prv (LL_DEL N h) = (prv h)(nxt h N := prv h N, N := N)"
  using assms by (auto simp: ll_defs)

lemma ll_rep_del:
  assumes r: "ll_rep h H (as @ N # bs)"
  shows "ll_rep (LL_DEL N h) H (as @ bs)"
proof -
  have s: "seg h H as N" "seg h N bs H" and d: "distinct (H # as @ N # bs)"
    using r by (auto simp: ll_rep_def seg_append)
  have p: "prv h N = last (H # as)" and q: "nxt h N = hd (bs @ [H])"
    using seg_last [OF s(1)] seg_first [OF s(2)] by auto
  have pq: "prv h N \<noteq> N" "nxt h N \<noteq> N"
    using d p q by (cases as rule: rev_cases; cases bs; auto)+
  let ?h = "LL_DEL N h"
  note ptrs = LL_DEL_ptrs [OF pq(2,1)]
  have "seg ?h H (as @ bs) H"
  proof (cases as rule: rev_cases)
    case Nil
    show ?thesis
    proof (cases bs)
      case Nil
      then show ?thesis using \<open>as = []\<close> d p q by (auto simp: ptrs)
    next
      case (Cons b cs)
      then have "seg h b cs H" using s by simp
      then have "seg ?h b cs H"
        by (rule seg_frame) (use d p q Cons \<open>as = []\<close> in \<open>auto simp: ptrs\<close>)
      then show ?thesis using Cons \<open>as = []\<close> d p q by (auto simp: ptrs)
    qed
  next
    case (snoc cs a)
    then have "seg h H cs a" using s by (simp add: seg_append)
    then have l: "seg ?h H cs a"
      by (rule seg_frame) (use d p q snoc in \<open>cases bs; auto simp: ptrs\<close>)+
    show ?thesis
    proof (cases bs)
      case Nil
      then show ?thesis using l snoc d p q by (auto simp: ptrs seg_append)
    next
      case (Cons b ds)
      then have "seg h b ds H" using s by simp
      then have "seg ?h b ds H"
        by (rule seg_frame) (use d p q Cons snoc in \<open>auto simp: ptrs\<close>)
      then show ?thesis using l Cons snoc d p q by (auto simp: ptrs seg_append)
    qed
  qed
  then show ?thesis using d by (auto simp: ll_rep_def)
qed

section \<open>Enumeration\<close>

lemma foreach_seg:
  "seg h a xs H \<Longrightarrow> H \<notin> set xs \<Longrightarrow> length xs < f \<Longrightarrow> foreach f h H (hd (xs @ [H])) = Some xs"
proof (induction xs arbitrary: a f)
  case Nil
  then show ?case by (cases f) auto
next
  case (Cons x xs)
  then obtain g where "f = Suc g" "length xs < g" by (cases f) auto
  then show ?case using Cons seg_first [of h x xs H] by auto
qed

lemma LL_FOREACH_rep: "ll_rep h H xs \<Longrightarrow> length xs < f \<Longrightarrow> LL_FOREACH f h H = Some xs"
  unfolding ll_rep_def LL_FOREACH_def using foreach_seg [of h H xs H f] seg_first [of h H xs H] by auto

lemma LL_EMPTY_rep: "ll_rep h H xs \<Longrightarrow> LL_EMPTY H h \<longleftrightarrow> xs = []"
  by (cases xs) (auto simp: ll_rep_def LL_EMPTY_def)

definition del_if :: "(nat \<Rightarrow> bool) \<Rightarrow> nat \<Rightarrow> llheap \<Rightarrow> llheap" where
  "del_if P n h = (if P n then LL_DEL n h else h)"

lemma foreach_safe_del:
  "ll_rep h H (as @ xs) \<Longrightarrow> length xs < f \<Longrightarrow>
   \<exists>h'. foreach_safe f (del_if P) h H (hd (xs @ [H])) (nxt h (hd (xs @ [H]))) = Some (xs, h')
      \<and> ll_rep h' H (as @ filter (\<lambda>n. \<not> P n) xs)"
proof (induction xs arbitrary: as f h)
  case Nil
  then show ?case by (cases f) auto
next
  case (Cons x xs)
  then obtain g where f: "f = Suc g" "length xs < g" by (cases f) auto
  have "seg h x xs H" "x \<noteq> H" using Cons.prems by (auto simp: ll_rep_def seg_append)
  then have T: "nxt h x = hd (xs @ [H])" by (simp add: seg_first)
  show ?case
  proof (cases "P x")
    case True
    then have "ll_rep (del_if P x h) H (as @ xs)"
      using Cons.prems ll_rep_del by (simp add: del_if_def)
    from Cons.IH [OF this f(2)] show ?thesis using f T \<open>x \<noteq> H\<close> True by (auto simp: Let_def)
  next
    case False
    then have "ll_rep (del_if P x h) H ((as @ [x]) @ xs)" using Cons.prems by (simp add: del_if_def)
    from Cons.IH [OF this f(2)] show ?thesis using f T \<open>x \<noteq> H\<close> False by (auto simp: Let_def)
  qed
qed

lemma LL_FOREACH_SAFE_del:
  assumes "ll_rep h H xs" "length xs < f"
  shows "\<exists>h'. LL_FOREACH_SAFE f (del_if P) h H = Some (xs, h') \<and> ll_rep h' H (filter (\<lambda>n. \<not> P n) xs)"
proof -
  have "nxt h H = hd (xs @ [H])" using assms(1) seg_first by (auto simp: ll_rep_def)
  then show ?thesis using foreach_safe_del [of h H "[]" xs f P] assms by (simp add: LL_FOREACH_SAFE_def)
qed

lemma ll_rep_distinct: "ll_rep h H xs \<Longrightarrow> H \<notin> set xs \<and> distinct xs"
  by (simp add: ll_rep_def)

section \<open>The contract\<close>

locale linked_list =
  fixes rep :: "'h \<Rightarrow> nat \<Rightarrow> nat list \<Rightarrow> bool"
    and init :: "nat \<Rightarrow> 'h \<Rightarrow> 'h" and add tail :: "nat \<Rightarrow> nat \<Rightarrow> 'h \<Rightarrow> 'h" and del :: "nat \<Rightarrow> 'h \<Rightarrow> 'h"
    and enum :: "nat \<Rightarrow> 'h \<Rightarrow> nat \<Rightarrow> nat list option"
  assumes init_rep: "rep (init H h) H []"
    and add_rep: "rep h H xs \<Longrightarrow> N \<notin> set (H # xs) \<Longrightarrow> rep (add H N h) H (N # xs)"
    and tail_rep: "rep h H xs \<Longrightarrow> N \<notin> set (H # xs) \<Longrightarrow> rep (tail H N h) H (xs @ [N])"
    and del_rep: "rep h H (as @ N # bs) \<Longrightarrow> rep (del N h) H (as @ bs)"
    and enum_rep: "rep h H xs \<Longrightarrow> length xs < f \<Longrightarrow> enum f h H = Some xs"
    and rep_distinct: "rep h H xs \<Longrightarrow> distinct (H # xs)"
begin

lemma tails_rep:
  "rep h H xs \<Longrightarrow> distinct (H # xs @ ns) \<Longrightarrow> rep (fold (tail H) ns h) H (xs @ ns)"
proof (induction ns arbitrary: xs h)
  case (Cons n ns)
  then have "rep (tail H n h) H (xs @ [n])" by (intro tail_rep) auto
  then show ?case using Cons.IH [of "tail H n h" "xs @ [n]"] Cons.prems by auto
qed simp

lemma adds_rep:
  "rep h H xs \<Longrightarrow> distinct (H # xs @ ns) \<Longrightarrow> rep (fold (add H) ns h) H (rev ns @ xs)"
proof (induction ns arbitrary: xs h)
  case (Cons n ns)
  then have "rep (add H n h) H (n # xs)" by (intro add_rep) auto
  then show ?case using Cons.IH [of "add H n h" "n # xs"] Cons.prems by auto
qed simp

lemma registration_order:
  assumes "distinct (H # ns)" "length ns < f"
  shows "enum f (fold (tail H) ns (init H h)) H = Some ns"
    "enum f (fold (add H) ns (init H h)) H = Some (rev ns)"
  using tails_rep [OF init_rep, of H ns h] adds_rep [OF init_rep, of H ns h] assms
  by (auto intro: enum_rep)

lemma del_all: "rep h H xs \<Longrightarrow> rep (fold del xs h) H []"
proof (induction xs arbitrary: h)
  case (Cons x xs)
  then have "rep (del x h) H xs" using del_rep [of h H "[]" x xs] by simp
  then show ?case using Cons.IH by simp
qed simp

end

interpretation ll: linked_list ll_rep LL_INIT LL_ADD LL_TAIL LL_DEL LL_FOREACH
  by unfold_locales
    (auto intro: ll_rep_init ll_rep_add ll_rep_tail ll_rep_del LL_FOREACH_rep dest: ll_rep_distinct)

section \<open>Properties\<close>

text \<open>C32: the linked-list macros refine lists. Elements added at the tail are visited in their order,
  elements added at the head in the reverse order, and a safe traversal that unlinks elements visits
  every element once and leaves the others in their order.\<close>

theorem linked_list_macros:
  assumes "distinct (H # ns)" "length ns < f"
  shows "LL_FOREACH f (fold (LL_TAIL H) ns (LL_INIT H h)) H = Some ns \<and>
    LL_FOREACH f (fold (LL_ADD H) ns (LL_INIT H h)) H = Some (rev ns) \<and>
    (\<exists>h'. LL_FOREACH_SAFE f (del_if P) (fold (LL_TAIL H) ns (LL_INIT H h)) H = Some (ns, h') \<and>
       LL_FOREACH f h' H = Some (filter (\<lambda>n. \<not> P n) ns))"
proof -
  have r: "ll_rep (fold (LL_TAIL H) ns (LL_INIT H h)) H ns"
    using ll.tails_rep [OF ll.init_rep, of H ns h] assms(1) by simp
  have l: "length (filter (\<lambda>n. \<not> P n) ns) < f" using assms(2) le_less_trans length_filter_le by blast
  show ?thesis
    using LL_FOREACH_SAFE_del [OF r assms(2), of P] ll.enum_rep l ll.registration_order [OF assms] by blast
qed

theorem linked_list_macros_witness:
  "LL_FOREACH 4 (fold (LL_TAIL 0) [5, 7, 9] (LL_INIT 0 \<lparr>prv = (\<lambda>_. 0), nxt = (\<lambda>_. 0)\<rparr>)) 0 = Some [5, 7, 9] \<and>
    LL_FOREACH 4 (fold (LL_ADD 0) [5, 7, 9] (LL_INIT 0 \<lparr>prv = (\<lambda>_. 0), nxt = (\<lambda>_. 0)\<rparr>)) 0 = Some (rev [5, 7, 9]) \<and>
    (\<exists>h'. LL_FOREACH_SAFE 4 (del_if (\<lambda>n. n = 7)) (fold (LL_TAIL 0) [5, 7, 9] (LL_INIT 0 \<lparr>prv = (\<lambda>_. 0), nxt = (\<lambda>_. 0)\<rparr>)) 0 = Some ([5, 7, 9], h') \<and>
       LL_FOREACH 4 h' 0 = Some (filter (\<lambda>n. \<not> n = 7) [5, 7, 9]))"
  by (rule linked_list_macros) simp_all

end
