(* ===== verification/Porter.thy ===== *)
theory Porter
  imports Prelude "HOL-Library.Monad_Syntax" "HOL-Library.Sublist"
begin

text \<open>
  The Porter stemmer of LuceneKit (\<open>PorterStemmer.c\<close>). The word is in \<open>b[0..k]\<close> of a buffer; the steps
  cut and replace suffixes in place. \<open>None\<close> is a read or a write outside the buffer. The second half is
  the algorithm on words, as a list of suffix rules, and the proof that the code computes it.
\<close>

section \<open>The code\<close>

record stemmer =
  st_b :: "char list"
  st_k :: int
  st_j :: int

definition rd_at :: "char list \<Rightarrow> int \<Rightarrow> char option" where
  "rd_at b i = (if 0 \<le> i \<and> i < int (length b) then Some (b ! nat i) else None)"

definition vowel :: "char \<Rightarrow> bool" where
  "vowel c \<longleftrightarrow> c \<in> set ''aeiou''"

function cons :: "char list \<Rightarrow> int \<Rightarrow> bool option" where
  "cons b i =
     (case rd_at b i of
        None \<Rightarrow> None
      | Some c \<Rightarrow>
          if vowel c then Some False
          else if c = CHR ''y'' then (if i = 0 then Some True else map_option Not (cons b (i - 1)))
          else Some True)"
  by pat_completeness auto
termination cons
  by (relation "measure (\<lambda>(b, i). nat i)") (auto simp: rd_at_def split: if_splits)

declare cons.simps [simp del]

text \<open>The inner loops of \<open>m\<close>: on to the first \<open>i \<le> j\<close> where \<open>cons\<close> is \<open>want\<close>.\<close>

function scan :: "char list \<Rightarrow> bool \<Rightarrow> int \<Rightarrow> int \<Rightarrow> int option option" where
  "scan b want j i =
     (if j < i then Some None
      else case cons b i of
             None \<Rightarrow> None
           | Some c \<Rightarrow> if c = want then Some (Some i) else scan b want j (i + 1))"
  by pat_completeness auto
termination scan
  by (relation "measure (\<lambda>(b, want, j, i). nat (j + 1 - i))") auto

declare scan.simps [simp del]

lemma scan_ge: "scan b want j i = Some (Some i') \<Longrightarrow> i \<le> i' \<and> i' \<le> j"
proof (induction b want j i rule: scan.induct)
  case (1 b want j i)
  from 1(2) show ?case
    by (subst (asm) scan.simps) (auto split: if_splits option.splits dest: 1(1))
qed

function m_loop :: "char list \<Rightarrow> int \<Rightarrow> int \<Rightarrow> nat \<Rightarrow> nat option" where
  "m_loop b j i n =
     (case scan b True j i of
        None \<Rightarrow> None
      | Some None \<Rightarrow> Some n
      | Some (Some i1) \<Rightarrow>
          (case scan b False j (i1 + 1) of
             None \<Rightarrow> None
           | Some None \<Rightarrow> Some (n + 1)
           | Some (Some i2) \<Rightarrow> m_loop b j (i2 + 1) (n + 1)))"
  by pat_completeness auto
termination m_loop
  by (relation "measure (\<lambda>(b, j, i, n). nat (j + 1 - i))") (auto dest!: scan_ge)

declare m_loop.simps [simp del]

definition stem_m :: "stemmer \<Rightarrow> nat option" where
  "stem_m z =
     (case scan (st_b z) False (st_j z) 0 of
        None \<Rightarrow> None
      | Some None \<Rightarrow> Some 0
      | Some (Some i) \<Rightarrow> m_loop (st_b z) (st_j z) (i + 1) 0)"

definition vowelinstem :: "stemmer \<Rightarrow> bool option" where
  "vowelinstem z = map_option (\<lambda>r. r \<noteq> None) (scan (st_b z) False (st_j z) 0)"

definition doublec :: "stemmer \<Rightarrow> int \<Rightarrow> bool option" where
  "doublec z j =
     (if j < 1 then Some False
      else do {
        x \<leftarrow> rd_at (st_b z) j;
        y \<leftarrow> rd_at (st_b z) (j - 1);
        if x \<noteq> y then Some False else cons (st_b z) j
      })"

definition cvc :: "stemmer \<Rightarrow> int \<Rightarrow> bool option" where
  "cvc z i =
     (if i < 2 then Some False
      else do {
        c0 \<leftarrow> cons (st_b z) i;
        if \<not> c0 then Some False else do {
          c1 \<leftarrow> cons (st_b z) (i - 1);
          if c1 then Some False else do {
            c2 \<leftarrow> cons (st_b z) (i - 2);
            if \<not> c2 then Some False
            else map_option (\<lambda>ch. ch \<notin> set ''wxy'') (rd_at (st_b z) i)
          }
        }
      })"

text \<open>A suffix is not empty; the first comparison is the speed-up of the code.\<close>

definition ends :: "stemmer \<Rightarrow> string \<Rightarrow> (bool \<times> stemmer) option" where
  "ends z s = do {
     c \<leftarrow> rd_at (st_b z) (st_k z);
     if last s \<noteq> c \<or> st_k z + 1 < int (length s) then Some (False, z)
     else if take (length s) (drop (nat (st_k z + 1 - int (length s))) (st_b z)) \<noteq> s then Some (False, z)
     else Some (True, z\<lparr>st_j := st_k z - int (length s)\<rparr>)
   }"

definition setto :: "stemmer \<Rightarrow> string \<Rightarrow> stemmer option" where
  "setto z s =
     (if st_j z + 1 < 0 \<or> int (length (st_b z)) < st_j z + 1 + int (length s) then None
      else Some (z\<lparr>st_b := overwrite (st_b z) (nat (st_j z + 1)) s, st_k := st_j z + int (length s)\<rparr>))"

definition stem_r :: "stemmer \<Rightarrow> string \<Rightarrow> stemmer option" where
  "stem_r z s = do { n \<leftarrow> stem_m z; if 0 < n then setto z s else Some z }"

section \<open>The steps\<close>

definition cut :: "int \<Rightarrow> stemmer \<Rightarrow> stemmer" where
  "cut n z = z\<lparr>st_k := st_k z - n\<rparr>"

text \<open>The suffix -s.\<close>

definition step1a :: "stemmer \<Rightarrow> stemmer option" where
  "step1a z = do {
     c \<leftarrow> rd_at (st_b z) (st_k z);
     if c \<noteq> CHR ''s'' then Some z else do {
       (e1, z1) \<leftarrow> ends z ''sses'';
       if e1 then Some (cut 2 z1) else do {
         (e2, z2) \<leftarrow> ends z1 ''ies'';
         if e2 then setto z2 ''i'' else do {
           d \<leftarrow> rd_at (st_b z2) (st_k z2 - 1);
           Some (if d \<noteq> CHR ''s'' then cut 1 z2 else z2)
         }
       }
     }
   }"

text \<open>What follows when -ed or -ing is gone.\<close>

definition tidy :: "stemmer \<Rightarrow> stemmer option" where
  "tidy z = do {
     (e1, z1) \<leftarrow> ends z ''at'';
     if e1 then setto z1 ''ate'' else do {
       (e2, z2) \<leftarrow> ends z1 ''bl'';
       if e2 then setto z2 ''ble'' else do {
         (e3, z3) \<leftarrow> ends z2 ''iz'';
         if e3 then setto z3 ''ize'' else do {
           d \<leftarrow> doublec z3 (st_k z3);
           if d then do {
             ch \<leftarrow> rd_at (st_b z3) (st_k z3 - 1);
             Some (if ch \<in> set ''lsz'' then z3 else cut 1 z3)
           } else do {
             n \<leftarrow> stem_m z3;
             if n \<noteq> 1 then Some z3 else do {
               v \<leftarrow> cvc z3 (st_k z3);
               if v then setto z3 ''e'' else Some z3
             }
           }
         }
       }
     }
   }"

definition step1b :: "stemmer \<Rightarrow> stemmer option" where
  "step1b z = do {
     (e1, z1) \<leftarrow> ends z ''eed'';
     if e1 then do { n \<leftarrow> stem_m z1; Some (if 0 < n then cut 1 z1 else z1) }
     else do {
       (e2, z2) \<leftarrow> ends z1 ''ed'';
       (e3, z3) \<leftarrow> (if e2 then Some (True, z2) else ends z2 ''ing'');
       if \<not> e3 then Some z3 else do {
         v \<leftarrow> vowelinstem z3;
         if v then tidy (z3\<lparr>st_k := st_j z3\<rparr>) else Some z3
       }
     }
   }"

definition step1ab :: "stemmer \<Rightarrow> stemmer option" where
  "step1ab z = Option.bind (step1a z) step1b"

definition step1c :: "stemmer \<Rightarrow> stemmer option" where
  "step1c z = do {
     (e, z1) \<leftarrow> ends z ''y'';
     if \<not> e then Some z1 else do {
       v \<leftarrow> vowelinstem z1;
       Some (if v then z1\<lparr>st_b := (st_b z1)[nat (st_k z1) := CHR ''i'']\<rparr> else z1)
     }
   }"

text \<open>The first rule whose suffix is there is the one that counts.\<close>

fun try_rules :: "(string \<times> string) list \<Rightarrow> stemmer \<Rightarrow> stemmer option" where
  "try_rules [] z = Some z"
| "try_rules ((s, t) # rs) z =
     (case ends z s of
        None \<Rightarrow> None
      | Some (e, z1) \<Rightarrow> if e then stem_r z1 t else try_rules rs z1)"

definition step2_case :: "char \<Rightarrow> (string \<times> string) list" where
  "step2_case c =
     (if c = CHR ''a'' then [(''ational'', ''ate''), (''tional'', ''tion'')]
      else if c = CHR ''c'' then [(''enci'', ''ence''), (''anci'', ''ance'')]
      else if c = CHR ''e'' then [(''izer'', ''ize'')]
      else if c = CHR ''l'' then
        [(''bli'', ''ble''), (''alli'', ''al''), (''entli'', ''ent''), (''eli'', ''e''), (''ousli'', ''ous'')]
      else if c = CHR ''o'' then [(''ization'', ''ize''), (''ation'', ''ate''), (''ator'', ''ate'')]
      else if c = CHR ''s'' then
        [(''alism'', ''al''), (''iveness'', ''ive''), (''fulness'', ''ful''), (''ousness'', ''ous'')]
      else if c = CHR ''t'' then [(''aliti'', ''al''), (''iviti'', ''ive''), (''biliti'', ''ble'')]
      else if c = CHR ''g'' then [(''logi'', ''log'')]
      else [])"

definition step2 :: "stemmer \<Rightarrow> stemmer option" where
  "step2 z = do { c \<leftarrow> rd_at (st_b z) (st_k z - 1); try_rules (step2_case c) z }"

definition step3_case :: "char \<Rightarrow> (string \<times> string) list" where
  "step3_case c =
     (if c = CHR ''e'' then [(''icate'', ''ic''), (''ative'', ''''), (''alize'', ''al'')]
      else if c = CHR ''i'' then [(''iciti'', ''ic'')]
      else if c = CHR ''l'' then [(''ical'', ''ic''), (''ful'', '''')]
      else if c = CHR ''s'' then [(''ness'', '''')]
      else [])"

definition step3 :: "stemmer \<Rightarrow> stemmer option" where
  "step3 z = do { c \<leftarrow> rd_at (st_b z) (st_k z); try_rules (step3_case c) z }"

definition step4_case :: "char \<Rightarrow> string list" where
  "step4_case c =
     (if c = CHR ''a'' then [''al'']
      else if c = CHR ''c'' then [''ance'', ''ence'']
      else if c = CHR ''e'' then [''er'']
      else if c = CHR ''i'' then [''ic'']
      else if c = CHR ''l'' then [''able'', ''ible'']
      else if c = CHR ''n'' then [''ant'', ''ement'', ''ment'', ''ent'']
      else if c = CHR ''o'' then [''ion'', ''ou'']
      else if c = CHR ''s'' then [''ism'']
      else if c = CHR ''t'' then [''ate'', ''iti'']
      else if c = CHR ''u'' then [''ous'']
      else if c = CHR ''v'' then [''ive'']
      else if c = CHR ''z'' then [''ize'']
      else [])"

text \<open>The suffix -ion only goes after s or t.\<close>

fun try_suffixes :: "string list \<Rightarrow> stemmer \<Rightarrow> (bool \<times> stemmer) option" where
  "try_suffixes [] z = Some (False, z)"
| "try_suffixes (s # ss) z =
     (case ends z s of
        None \<Rightarrow> None
      | Some (e, z1) \<Rightarrow>
          if \<not> e then try_suffixes ss z1
          else if s \<noteq> ''ion'' then Some (True, z1)
          else case rd_at (st_b z1) (st_j z1) of
                 None \<Rightarrow> None
               | Some c \<Rightarrow> if c = CHR ''s'' \<or> c = CHR ''t'' then Some (True, z1) else try_suffixes ss z1)"

definition step4 :: "stemmer \<Rightarrow> stemmer option" where
  "step4 z = do {
     c \<leftarrow> rd_at (st_b z) (st_k z - 1);
     (hit, z1) \<leftarrow> try_suffixes (step4_case c) z;
     if \<not> hit then Some z1
     else do { n \<leftarrow> stem_m z1; Some (if 1 < n then z1\<lparr>st_k := st_j z1\<rparr> else z1) }
   }"

definition step5a :: "stemmer \<Rightarrow> stemmer option" where
  "step5a z = do {
     c \<leftarrow> rd_at (st_b z) (st_k z);
     if c \<noteq> CHR ''e'' then Some z else do {
       a \<leftarrow> stem_m z;
       v \<leftarrow> (if a = 1 then cvc z (st_k z - 1) else Some False);
       Some (if 1 < a \<or> (a = 1 \<and> \<not> v) then cut 1 z else z)
     }
   }"

definition step5b :: "stemmer \<Rightarrow> stemmer option" where
  "step5b z = do {
     c \<leftarrow> rd_at (st_b z) (st_k z);
     if c \<noteq> CHR ''l'' then Some z else do {
       d \<leftarrow> doublec z (st_k z);
       if \<not> d then Some z else do { n \<leftarrow> stem_m z; Some (if 1 < n then cut 1 z else z) }
     }
   }"

definition step5 :: "stemmer \<Rightarrow> stemmer option" where
  "step5 z = Option.bind (step5a (z\<lparr>st_j := st_k z\<rparr>)) step5b"

text \<open>The result: the buffer and the new last index. A word of one or two letters stays.\<close>

definition stem :: "char list \<Rightarrow> int \<Rightarrow> (char list \<times> int) option" where
  "stem b k =
     (if k \<le> 1 then Some (b, k)
      else do {
        z1 \<leftarrow> step1ab \<lparr>st_b = b, st_k = k, st_j = 0\<rparr>;
        z2 \<leftarrow> step1c z1;
        z3 \<leftarrow> step2 z2;
        z4 \<leftarrow> step3 z3;
        z5 \<leftarrow> step4 z4;
        z6 \<leftarrow> step5 z5;
        Some (st_b z6, st_k z6)
      })"

section \<open>The algorithm on words\<close>

text \<open>Which letters are consonants: \<open>p\<close> says whether the letter before is one.\<close>

fun cflags :: "bool \<Rightarrow> string \<Rightarrow> bool list" where
  "cflags p [] = []"
| "cflags p (c # w) =
     (let f = (\<not> vowel c \<and> (c = CHR ''y'' \<longrightarrow> \<not> p)) in f # cflags f w)"

definition flags :: "string \<Rightarrow> bool list" where
  "flags w = cflags False w"

text \<open>The measure: how often a vowel is followed by a consonant.\<close>

fun vc :: "bool list \<Rightarrow> nat" where
  "vc [] = 0"
| "vc (x # xs) = (if \<not> x \<and> xs \<noteq> [] \<and> hd xs then 1 else 0) + vc xs"

definition msr :: "string \<Rightarrow> nat" where
  "msr w = vc (flags w)"

definition has_vowel :: "string \<Rightarrow> bool" where
  "has_vowel w \<longleftrightarrow> False \<in> set (flags w)"

definition ends_double :: "string \<Rightarrow> bool" where
  "ends_double w \<longleftrightarrow> 2 \<le> length w \<and> w ! (length w - 1) = w ! (length w - 2) \<and> flags w ! (length w - 1)"

definition ends_cvc :: "string \<Rightarrow> bool" where
  "ends_cvc w \<longleftrightarrow> 3 \<le> length w \<and> flags w ! (length w - 3) \<and> \<not> flags w ! (length w - 2) \<and>
     flags w ! (length w - 1) \<and> last w \<notin> set ''wxy''"

lemma length_cflags [simp]: "length (cflags p w) = length w"
  by (induction w arbitrary: p) (auto simp: Let_def)

lemma length_flags [simp]: "length (flags w) = length w"
  by (simp add: flags_def)

lemma cflags_nth:
  "i < length w \<Longrightarrow> cflags p w ! i \<longleftrightarrow>
     \<not> vowel (w ! i) \<and> (w ! i = CHR ''y'' \<longrightarrow> \<not> (if i = 0 then p else cflags p w ! (i - 1)))"
proof (induction w arbitrary: p i)
  case (Cons c w)
  show ?case
  proof (cases i)
    case 0
    then show ?thesis by (simp add: Let_def)
  next
    case (Suc k)
    then show ?thesis
      using Cons.IH [of k "\<not> vowel c \<and> (c = CHR ''y'' \<longrightarrow> \<not> p)"] Cons.prems by (cases k) (simp_all add: Let_def)
  qed
qed simp

lemma take_cflags: "take n (cflags p w) = cflags p (take n w)"
proof (induction w arbitrary: p n)
  case (Cons c w)
  then show ?case by (cases n) (auto simp: Let_def)
qed simp

lemma take_flags: "take n (flags w) = flags (take n w)"
  by (simp add: flags_def take_cflags)

lemma flags_prefix: "i < length u \<Longrightarrow> flags (u @ v) ! i = flags u ! i"
  using take_flags [of "length u" "u @ v"] by (metis append_eq_conv_conj nth_take)

lemma cons_flags: "i < length b \<Longrightarrow> cons b (int i) = Some (flags b ! i)"
proof (induction i)
  case 0
  then show ?case
    using cflags_nth [of 0 b False] by (subst cons.simps) (simp add: rd_at_def flags_def)
next
  case (Suc i)
  then have "cons b (int (Suc i) - 1) = Some (flags b ! i)" by simp
  then show ?case using Suc.prems cflags_nth [of "Suc i" b False]
    by (subst cons.simps) (simp add: rd_at_def flags_def nat_add_distrib Suc_nat_eq_nat_zadd1)
qed

section \<open>The loops\<close>

lemma drop_suffix: "suffix r xs \<Longrightarrow> drop (length xs - length r) xs = r"
  by (auto simp: suffix_def)

lemma scan_flags:
  assumes "n \<le> length b" "i \<le> n"
  shows "scan b want (int n - 1) (int i) =
    Some (case dropWhile (\<lambda>f. f \<noteq> want) (drop i (take n (flags b))) of
            [] \<Rightarrow> None | r \<Rightarrow> Some (int n - int (length r)))"
  using assms(2)
proof (induction "n - i" arbitrary: i)
  case 0
  then show ?case by (subst scan.simps) simp
next
  case (Suc d)
  then have i: "i < n" "i < length b" using assms(1) by auto
  have d: "drop i (take n (flags b)) = flags b ! i # drop (Suc i) (take n (flags b))"
    using i by (subst Cons_nth_drop_Suc [symmetric]) auto
  have IH: "scan b want (int n - 1) (int i + 1) =
    Some (case dropWhile (\<lambda>f. f \<noteq> want) (drop (Suc i) (take n (flags b))) of
            [] \<Rightarrow> None | r \<Rightarrow> Some (int n - int (length r)))"
    using Suc.hyps(1) [of "Suc i"] Suc.hyps(2) i by (simp add: add.commute)
  show ?case using i assms(1)
    by (subst scan.simps) (simp add: cons_flags [OF i(2)] IH d of_nat_diff)
qed

lemma scan_Some:
  assumes "n \<le> length b" "i \<le> n"
  shows "dropWhile (\<lambda>f. f \<noteq> want) (drop i (take n (flags b))) = [] \<Longrightarrow> scan b want (int n - 1) (int i) = Some None"
    and "dropWhile (\<lambda>f. f \<noteq> want) (drop i (take n (flags b))) = x # r \<Longrightarrow>
      scan b want (int n - 1) (int i) = Some (Some (int (n - length r - 1))) \<and> length r < n \<and> i \<le> n - length r - 1 \<and>
      drop (n - length r) (take n (flags b)) = r \<and> x = want"
proof -
  let ?fs = "take n (flags b)"
  have len: "length ?fs = n" using assms(1) by simp
  show "dropWhile (\<lambda>f. f \<noteq> want) (drop i ?fs) = [] \<Longrightarrow> scan b want (int n - 1) (int i) = Some None"
    by (simp only: scan_flags [OF assms] list.case)
  assume d: "dropWhile (\<lambda>f. f \<noteq> want) (drop i ?fs) = x # r"
  have "suffix (x # r) (drop i ?fs)" unfolding d [symmetric] by (rule suffix_dropWhile)
  then have s: "suffix (x # r) ?fs" "Suc (length r) \<le> n - i"
    using suffix_drop suffix_order.trans suffix_length_le len by fastforce+
  have "suffix r ?fs" by (rule suffix_ConsD [OF s(1)])
  then have "drop (n - length r) ?fs = r" using drop_suffix [of r ?fs] unfolding len by blast
  moreover have "x = want" using d unfolding dropWhile_eq_Cons_conv by simp
  moreover have "scan b want (int n - 1) (int i) = Some (Some (int n - int (length (x # r))))"
    by (simp only: scan_flags [OF assms] d list.case)
  moreover have "int n - int (length (x # r)) = int (n - length r - 1)" "length r < n" "i \<le> n - length r - 1"
    using s(2) by simp_all
  ultimately show "scan b want (int n - 1) (int i) = Some (Some (int (n - length r - 1))) \<and> length r < n \<and>
      i \<le> n - length r - 1 \<and> drop (n - length r) ?fs = r \<and> x = want" by simp
qed

lemma vc_False: "vc (False # xs) = (case dropWhile (\<lambda>f. f \<noteq> True) xs of [] \<Rightarrow> 0 | _ # r \<Rightarrow> Suc (vc (True # r)))"
  by (induction xs) auto

lemma vc_True: "vc (True # xs) = (case dropWhile (\<lambda>f. f \<noteq> False) xs of [] \<Rightarrow> 0 | _ # r \<Rightarrow> vc (False # r))"
  by (induction xs) auto

lemma m_loop_vc:
  assumes "n \<le> length b"
  shows "i \<le> n \<Longrightarrow> m_loop b (int n - 1) (int i) k = Some (k + vc (False # drop i (take n (flags b))))"
proof (induction "n - i" arbitrary: i k rule: less_induct)
  case less
  let ?fs = "take n (flags b)"
  show ?case
  proof (cases "dropWhile (\<lambda>f. f \<noteq> True) (drop i ?fs)")
    case Nil
    have "vc (False # drop i ?fs) = 0" by (simp only: vc_False Nil list.case)
    then show ?thesis using scan_Some(1) [OF assms less.prems Nil]
      by (subst m_loop.simps) (simp del: vc.simps)
  next
    case (Cons x r)
    note s1 = scan_Some(2) [OF assms less.prems Cons]
    define i1 where "i1 = n - length r"
    have i1: "i1 \<le> n" "int (n - length r - 1) + 1 = int i1" "i < i1" "drop i1 ?fs = r"
      using s1 by (auto simp: i1_def)
    have v: "vc (False # drop i ?fs) = Suc (vc (True # drop i1 ?fs))" by (simp only: vc_False Cons list.case i1(4))
    show ?thesis
    proof (cases "dropWhile (\<lambda>f. f \<noteq> False) (drop i1 ?fs)")
      case Nil
      have "vc (True # drop i1 ?fs) = 0" by (simp only: vc_True Nil list.case)
      then show ?thesis using s1 i1(2) scan_Some(1) [OF assms i1(1) Nil]
        by (subst m_loop.simps) (simp add: v del: vc.simps)
    next
      case (Cons y r2)
      note s2 = scan_Some(2) [OF assms i1(1) Cons]
      define i2 where "i2 = n - length r2"
      have i2: "i2 \<le> n" "int (n - length r2 - 1) + 1 = int i2" "i1 < i2" "drop i2 ?fs = r2"
        using s2 by (auto simp: i2_def)
      have "vc (True # drop i1 ?fs) = vc (False # drop i2 ?fs)" by (simp only: vc_True Cons list.case i2(4))
      moreover have "m_loop b (int n - 1) (int i2) (k + 1) = Some (k + 1 + vc (False # drop i2 ?fs))"
        by (rule less.hyps) (use i1 i2 in linarith)+
      ultimately show ?thesis using s1 s2 i1(2) i2(2)
        by (subst m_loop.simps) (simp add: v del: vc.simps)
    qed
  qed
qed

lemma stem_m_msr:
  assumes "st_j z = int n - 1" "n \<le> length (st_b z)"
  shows "stem_m z = Some (msr (take n (st_b z)))"
proof -
  let ?b = "st_b z" and ?fs = "take n (flags (st_b z))"
  have m: "msr (take n ?b) = vc ?fs" by (simp add: msr_def take_flags)
  have e: "vc ?fs = vc (True # ?fs)" by simp
  show ?thesis
  proof (cases "dropWhile (\<lambda>f. f \<noteq> False) (drop 0 ?fs)")
    case Nil
    then have "vc ?fs = 0" by (simp only: e vc_True [of ?fs] drop_0 list.case)
    then show ?thesis using scan_Some(1) [OF assms(2) le0 Nil] by (simp add: stem_m_def assms(1) m)
  next
    case (Cons x r)
    note s = scan_Some(2) [OF assms(2) le0 Cons]
    have "vc ?fs = vc (False # drop (n - length r) ?fs)"
      using Cons s by (simp only: e vc_True [of ?fs] drop_0 list.case)
    moreover have "int (n - length r - 1) + 1 = int (n - length r)" using s by simp
    ultimately show ?thesis using s m_loop_vc [OF assms(2), of "n - length r" 0]
      by (simp add: stem_m_def assms(1) m del: vc.simps)
  qed
qed

section \<open>The word in the buffer\<close>

text \<open>The word \<open>w\<close> fills the front of the first \<open>N\<close> places; what follows them is \<open>q\<close>.\<close>

definition at_word :: "stemmer \<Rightarrow> string \<Rightarrow> char list \<Rightarrow> nat \<Rightarrow> bool" where
  "at_word z w q N \<longleftrightarrow> st_k z = int (length w) - 1 \<and> w \<noteq> [] \<and>
     (\<exists>g. st_b z = w @ g @ q \<and> length w + length g = N)"

lemma at_word_j [simp]: "at_word (z\<lparr>st_j := j\<rparr>) w q N = at_word z w q N"
  by (simp add: at_word_def)

lemma at_word_b:
  assumes "at_word z w q N"
  shows "take (length w) (st_b z) = w" "length w \<le> length (st_b z)" "length w \<le> N" "w \<noteq> []"
    "st_k z = int (length w) - 1" "i < length w \<Longrightarrow> st_b z ! i = w ! i"
    "i < length w \<Longrightarrow> flags (st_b z) ! i = flags w ! i"
    "n \<le> length w \<Longrightarrow> take n (st_b z) = take n w"
  using assms by (auto simp: at_word_def nth_append flags_prefix)

lemma at_word_rd:
  assumes "at_word z w q N"
  shows "i < length w \<Longrightarrow> rd_at (st_b z) (int i) = Some (w ! i)"
    "rd_at (st_b z) (st_k z) = Some (last w)"
    "rd_at (st_b z) (st_k z - 1) = (if 2 \<le> length w then Some (w ! (length w - 2)) else None)"
proof -
  note b = at_word_b [OF assms]
  show 1: "rd_at (st_b z) (int i) = Some (w ! i)" if "i < length w" for i
    using that b(2) b(6) [OF that] by (simp add: rd_at_def)
  have k: "st_k z = int (length w - 1)" using b(4,5) by (cases w) auto
  show "rd_at (st_b z) (st_k z) = Some (last w)"
    using 1 [of "length w - 1"] b(4) by (simp add: k last_conv_nth)
  show "rd_at (st_b z) (st_k z - 1) = (if 2 \<le> length w then Some (w ! (length w - 2)) else None)"
  proof (cases "2 \<le> length w")
    case True
    then have "st_k z - 1 = int (length w - 2)" by (simp add: k of_nat_diff)
    then show ?thesis unfolding \<open>st_k z - 1 = int (length w - 2)\<close> using 1 [of "length w - 2"] True by simp
  next
    case False
    moreover have "0 < length w" using b(4) by simp
    ultimately have "length w = 1" by linarith
    then show ?thesis by (simp add: k rd_at_def)
  qed
qed

lemma suffix_iff: "suffix s w \<longleftrightarrow> length s \<le> length w \<and> drop (length w - length s) w = s"
  by (metis drop_suffix suffix_drop suffix_length_le)

lemma ends_suffix:
  assumes "at_word z w q N" "s \<noteq> []"
  shows "ends z s = Some (suffix s w, if suffix s w then z\<lparr>st_j := int (length w - length s) - 1\<rparr> else z)"
proof -
  note b = at_word_b [OF assms(1)]
  note rd = at_word_rd(2) [OF assms(1)]
  show ?thesis
  proof (cases "length s \<le> length w")
    case False
    then show ?thesis using b(5) rd by (simp add: ends_def suffix_iff)
  next
    case True
    have d: "take (length s) (drop (length w - length s) (st_b z)) = drop (length w - length s) w"
      using True b(8) [of "length w"] by (metis diff_diff_cancel drop_take order_refl b(1))
    have l: "last s = last w" if "drop (length w - length s) w = s"
      using that assms(2) by (metis drop_eq_Nil last_drop not_le)
    have "nat (st_k z + 1 - int (length s)) = length w - length s" using b(5) True by simp
    then show ?thesis using True l d rd b(5)
      by (auto simp: ends_def suffix_iff of_nat_diff)
  qed
qed

text \<open>A step that succeeds and leaves the word \<open>w\<close>.\<close>

definition gives :: "stemmer option \<Rightarrow> string \<Rightarrow> char list \<Rightarrow> nat \<Rightarrow> bool" where
  "gives r w q N \<longleftrightarrow> (\<exists>z. r = Some z \<and> at_word z w q N)"

lemma gives_Some [simp]: "gives (Some z) w q N = at_word z w q N"
  by (simp add: gives_def)

lemma gives_bind: "gives r w q N \<Longrightarrow> (\<And>z. at_word z w q N \<Longrightarrow> gives (f z) w' q N) \<Longrightarrow> gives (Option.bind r f) w' q N"
  by (auto simp: gives_def)

text \<open>The stem that \<open>ends\<close> leaves in \<open>j\<close>.\<close>

definition stem_of :: "string \<Rightarrow> string \<Rightarrow> string" where
  "stem_of s w = take (length w - length s) w"

lemma stem_of_append [simp]: "stem_of s (u @ s) = u"
  by (simp add: stem_of_def)

abbreviation stem_at :: "stemmer \<Rightarrow> string \<Rightarrow> stemmer" where
  "stem_at z u \<equiv> z\<lparr>st_j := int (length u) - 1\<rparr>"

lemma ends_stem:
  assumes "at_word z w q N" "s \<noteq> []"
  shows "ends z s = Some (suffix s w, if suffix s w then stem_at z (stem_of s w) else z)"
  using ends_suffix [OF assms] by (simp add: stem_of_def)

lemma at_word_cut:
  assumes "at_word z (u @ v) q N" "u \<noteq> []" "st_k z' = int (length u) - 1" "st_b z' = st_b z"
  shows "at_word z' u q N"
  using assms by (auto simp: at_word_def)

lemma at_word_set:
  assumes "at_word z (u @ v) q N" "st_j z = int (length u) - 1" "length u + length t \<le> N" "u @ t \<noteq> []"
  shows "gives (setto z t) (u @ t) q N"
proof -
  obtain g where g: "st_b z = (u @ v) @ g @ q" "length (u @ v) + length g = N"
    using assms(1) by (auto simp: at_word_def)
  have "overwrite (st_b z) (length u) t = (u @ t) @ drop (length t) (v @ g) @ q"
    using assms(3) g by (simp add: overwrite_def drop_append)
  moreover have "length (u @ t) + length (drop (length t) (v @ g)) = N" using g(2) assms(3) by simp
  ultimately show ?thesis using assms g
    by (auto simp: setto_def gives_def at_word_def)
qed

lemma stem_m_at:
  assumes "at_word z (u @ v) q N" "st_j z = int (length u) - 1"
  shows "stem_m z = Some (msr u)"
proof -
  have "take (length u) (st_b z) = u" "length u \<le> length (st_b z)"
    using at_word_b(8) [OF assms(1), of "length u"] at_word_b(2) [OF assms(1)] by simp_all
  then show ?thesis using stem_m_msr [OF assms(2)] by simp
qed

lemma vowelinstem_at:
  assumes "at_word z (u @ v) q N" "st_j z = int (length u) - 1"
  shows "vowelinstem z = Some (has_vowel u)"
proof -
  have t: "take (length u) (st_b z) = u" and l: "length u \<le> length (st_b z)"
    using at_word_b(8) [OF assms(1), of "length u"] at_word_b(2) [OF assms(1)] by simp_all
  show ?thesis
  proof (cases "dropWhile (\<lambda>f. f \<noteq> False) (drop 0 (take (length u) (flags (st_b z))))")
    case Nil
    then have "\<not> has_vowel u" by (auto simp: has_vowel_def take_flags t)
    then show ?thesis using scan_Some(1) [OF l le0 Nil] by (simp add: vowelinstem_def assms(2))
  next
    case (Cons x r)
    then have "False \<in> set (flags u)"
      by (metis (mono_tags) Cons t take_flags drop_0 dropWhile_eq_Nil_conv list.distinct(1))
    then show ?thesis using scan_Some(2) [OF l le0 Cons] by (simp add: vowelinstem_def assms(2) has_vowel_def)
  qed
qed

lemma doublec_at:
  assumes "at_word z w q N"
  shows "doublec z (st_k z) = Some (ends_double w)"
proof (cases "2 \<le> length w")
  case True
  note b = at_word_b [OF assms] and rd = at_word_rd [OF assms]
  have k: "st_k z = int (length w - 1)" using b(4,5) by (cases w) auto
  have c: "cons (st_b z) (st_k z) = Some (flags w ! (length w - 1))"
    using cons_flags [of "length w - 1" "st_b z"] b(2) b(7) [of "length w - 1"] True unfolding k by simp
  show ?thesis using True b(4,5) rd(2,3) c
    by (simp add: doublec_def ends_double_def last_conv_nth)
next
  case False
  then show ?thesis using at_word_b(5) [OF assms] by (simp add: doublec_def ends_double_def)
qed

lemma cvc_at:
  assumes "at_word z w q N" "u = take n w" "n \<le> length w" "i = int n - 1"
  shows "cvc z i = Some (ends_cvc u)"
proof (cases "3 \<le> n")
  case False
  then show ?thesis using assms by (simp add: cvc_def ends_cvc_def)
next
  case True
  note b = at_word_b [OF assms(1)]
  have c: "cons (st_b z) (int (n - d)) = Some (flags u ! (n - d))" if "0 < d" "d \<le> n" for d
    using cons_flags [of "n - d" "st_b z"] b(2) b(7) [of "n - d"] that assms(2,3)
    by (simp flip: take_flags)
  have e: "i = int (n - 1)" "i - 1 = int (n - 2)" "i - 2 = int (n - 3)"
    using True assms(4) by (simp_all add: of_nat_diff)
  have "rd_at (st_b z) (int (n - 1)) = Some (last u)"
    using at_word_rd(1) [OF assms(1), of "n - 1"] True assms(2,3) b(4) by (simp add: last_conv_nth)
  then show ?thesis using True assms(2-4) c [of 1] c [of 2] c [of 3]
    unfolding cvc_def e by (simp add: ends_cvc_def)
qed

section \<open>The steps on words\<close>

definition r1a :: "string \<Rightarrow> string" where
  "r1a w =
     (if suffix ''sses'' w then stem_of ''sses'' w @ ''ss''
      else if suffix ''ies'' w then stem_of ''ies'' w @ ''i''
      else if suffix ''s'' w \<and> \<not> suffix ''ss'' w then stem_of ''s'' w
      else w)"

definition r_tidy :: "string \<Rightarrow> string" where
  "r_tidy w =
     (if suffix ''at'' w \<or> suffix ''bl'' w \<or> suffix ''iz'' w then w @ ''e''
      else if ends_double w then (if last w \<in> set ''lsz'' then w else butlast w)
      else if msr w = 1 \<and> ends_cvc w then w @ ''e''
      else w)"

definition r1b :: "string \<Rightarrow> string" where
  "r1b w =
     (if suffix ''eed'' w then (if 0 < msr (stem_of ''eed'' w) then stem_of ''eed'' w @ ''ee'' else w)
      else if suffix ''ed'' w then (if has_vowel (stem_of ''ed'' w) then r_tidy (stem_of ''ed'' w) else w)
      else if suffix ''ing'' w then (if has_vowel (stem_of ''ing'' w) then r_tidy (stem_of ''ing'' w) else w)
      else w)"

definition r1c :: "string \<Rightarrow> string" where
  "r1c w = (if suffix ''y'' w \<and> has_vowel (stem_of ''y'' w) then stem_of ''y'' w @ ''i'' else w)"

text \<open>
  Steps 2 to 4 are tables: the first suffix that the word has counts, whatever its last letters. \<open>msr\<close> of the
  rest must be above 0 (above 1 in step 4).
\<close>

definition table2 :: "(string \<times> string) list" where
  "table2 =
     [(''ational'', ''ate''), (''tional'', ''tion''), (''enci'', ''ence''), (''anci'', ''ance''), (''izer'', ''ize''),
      (''bli'', ''ble''), (''alli'', ''al''), (''entli'', ''ent''), (''eli'', ''e''), (''ousli'', ''ous''),
      (''ization'', ''ize''), (''ation'', ''ate''), (''ator'', ''ate''), (''alism'', ''al''), (''iveness'', ''ive''),
      (''fulness'', ''ful''), (''ousness'', ''ous''), (''aliti'', ''al''), (''iviti'', ''ive''), (''biliti'', ''ble''),
      (''logi'', ''log'')]"

definition table3 :: "(string \<times> string) list" where
  "table3 = [(''icate'', ''ic''), (''ative'', ''''), (''alize'', ''al''), (''iciti'', ''ic''), (''ical'', ''ic''),
     (''ful'', ''''), (''ness'', '''')]"

definition table4 :: "string list" where
  "table4 = [''al'', ''ance'', ''ence'', ''er'', ''ic'', ''able'', ''ible'', ''ant'', ''ement'', ''ment'', ''ent'',
     ''ion'', ''ou'', ''ism'', ''ate'', ''iti'', ''ous'', ''ive'', ''ize'']"

definition apply_rules :: "(string \<times> string) list \<Rightarrow> string \<Rightarrow> string" where
  "apply_rules tbl w =
     (case find (\<lambda>(s, t). suffix s w) tbl of
        None \<Rightarrow> w
      | Some (s, t) \<Rightarrow> if 0 < msr (stem_of s w) then stem_of s w @ t else w)"

definition r2 :: "string \<Rightarrow> string" where
  "r2 w = apply_rules table2 w"

definition r3 :: "string \<Rightarrow> string" where
  "r3 w = apply_rules table3 w"

definition drops :: "string \<Rightarrow> string \<Rightarrow> bool" where
  "drops w s \<longleftrightarrow> suffix s w \<and> (s = ''ion'' \<longrightarrow> suffix ''sion'' w \<or> suffix ''tion'' w)"

definition r4 :: "string \<Rightarrow> string" where
  "r4 w =
     (case find (drops w) table4 of
        None \<Rightarrow> w
      | Some s \<Rightarrow> if 1 < msr (stem_of s w) then stem_of s w else w)"

definition r5a :: "string \<Rightarrow> string" where
  "r5a w =
     (if suffix ''e'' w \<and> (1 < msr w \<or> msr w = 1 \<and> \<not> ends_cvc (stem_of ''e'' w)) then stem_of ''e'' w else w)"

definition r5b :: "string \<Rightarrow> string" where
  "r5b w = (if suffix ''ll'' w \<and> 1 < msr w then butlast w else w)"

definition porter :: "string \<Rightarrow> string" where
  "porter w = (if length w \<le> 2 then w else r5b (r5a (r4 (r3 (r2 (r1c (r1b (r1a w))))))))"

section \<open>The steps of the code compute them\<close>

lemma suffixE:
  assumes "suffix s w"
  obtains u where "w = u @ s" "stem_of s w = u"
  using assms by (auto simp: suffix_def)

lemma cut_at:
  assumes "at_word z w q N" "w = u @ v" "u \<noteq> []" "n = int (length v)"
  shows "at_word (cut n z) u q N"
  using assms(1) unfolding assms(2)
  by (rule at_word_cut) (use assms at_word_b(5) [OF assms(1)] in \<open>simp_all add: cut_def\<close>)

lemma replace_at:
  assumes "at_word z w q N" "w = u @ s" "u @ t \<noteq> []" "length t \<le> length s"
  shows "gives (setto (stem_at z u) t) (u @ t) q N"
  by (rule at_word_set [of _ u s]) (use assms at_word_b(3) [OF assms(1)] in simp_all)

lemma suffix_last: "suffix s w \<Longrightarrow> s \<noteq> [] \<Longrightarrow> last w = last s"
  by (auto simp: suffix_def)

lemma suffix_s: "w \<noteq> [] \<Longrightarrow> suffix [c] w \<longleftrightarrow> last w = c"
  by (metis append_butlast_last_id last_snoc suffix_def)

lemma suffix_cc: "2 \<le> length w \<Longrightarrow> suffix [c, d] w \<longleftrightarrow> w ! (length w - 2) = c \<and> last w = d"
proof (cases w rule: rev_cases)
  case (snoc u y)
  then show "2 \<le> length w \<Longrightarrow> ?thesis" by (cases u rule: rev_cases) (auto simp: suffix_def nth_append)
qed simp

lemma step1a_r1a:
  assumes "at_word z w q N" "2 \<le> length w"
  shows "gives (step1a z) (r1a w) q N"
proof -
  note b = at_word_b(4) [OF assms(1)]
  note rd = at_word_rd(2,3) [OF assms(1)]
  note e = ends_stem [OF assms(1)]
  consider (no) "last w \<noteq> CHR ''s''" | (sses) "suffix ''sses'' w" | (ies) "\<not> suffix ''sses'' w" "suffix ''ies'' w"
    | (s) "last w = CHR ''s''" "\<not> suffix ''sses'' w" "\<not> suffix ''ies'' w" by blast
  then show ?thesis
  proof cases
    case no
    then have "\<not> suffix ''sses'' w" "\<not> suffix ''ies'' w" "\<not> suffix ''s'' w" using suffix_last by fastforce+
    then show ?thesis using no assms(1) rd by (simp add: step1a_def r1a_def)
  next
    case sses
    from suffixE [OF sses] obtain u where u: "w = u @ ''sses''" "stem_of ''sses'' w = u" .
    have "at_word (cut 2 (stem_at z u)) (u @ ''ss'') q N"
      by (rule cut_at [of _ w _ _ _ "''es''"]) (use assms(1) u in simp_all)
    then show ?thesis using sses suffix_last [OF sses] rd e u(2) by (simp add: step1a_def r1a_def)
  next
    case ies
    from suffixE [OF ies(2)] obtain u where u: "w = u @ ''ies''" "stem_of ''ies'' w = u" .
    have "gives (setto (stem_at z u) ''i'') (u @ ''i'') q N" by (rule replace_at [OF assms(1) u(1)]) simp_all
    then show ?thesis using ies suffix_last [OF ies(2)] rd e u(2) by (simp add: step1a_def r1a_def)
  next
    case s
    show ?thesis
    proof (cases "suffix ''ss'' w")
      case True
      then show ?thesis using s rd e assms suffix_cc [OF assms(2), of "CHR ''s''" "CHR ''s''"]
        by (simp add: step1a_def r1a_def)
    next
      case False
      have "suffix ''s'' w" using s(1) by (simp add: suffix_s [OF b])
      from suffixE [OF this] obtain u where u: "w = u @ ''s''" "stem_of ''s'' w = u" .
      then have "u \<noteq> []" using assms(2) by auto
      then have "at_word (cut 1 z) u q N" by (rule cut_at [OF assms(1) u(1)]) simp
      then show ?thesis
        using s False rd e assms(2) suffix_cc [OF assms(2), of "CHR ''s''" "CHR ''s''"] u(2) \<open>suffix ''s'' w\<close>
        by (simp add: step1a_def r1a_def)
    qed
  qed
qed

lemma tidy_r:
  assumes "at_word z w q N" "st_j z = int (length w) - 1" "length w + 1 \<le> N"
  shows "gives (tidy z) (r_tidy w) q N"
proof -
  note e = ends_stem [OF assms(1)]
  have app: "gives (setto (stem_at z' u) t) (w @ ''e'') q N"
    if "at_word z' w q N" "w = u @ s" "w @ ''e'' = u @ t" for z' u s t
    using at_word_set [of "stem_at z' u" u s q N t] that assms(3) by auto
  show ?thesis
  proof (cases "suffix ''at'' w \<or> suffix ''bl'' w \<or> suffix ''iz'' w")
    case True
    then obtain s where s: "suffix s w" "s \<in> {''at'', ''bl'', ''iz''}" by blast
    from suffixE [OF s(1)] obtain u where u: "w = u @ s" "stem_of s w = u" .
    have "gives (setto (stem_at z u) (s @ ''e'')) (w @ ''e'') q N"
      by (rule app [OF assms(1) u(1)]) (use u in simp)
    moreover have "tidy z = setto (stem_at z u) (s @ ''e'')"
      using s u by (elim insertE) (auto simp: tidy_def e suffix_def)
    ultimately show ?thesis using True by (simp add: r_tidy_def)
  next
    case False
    note no = this
    show ?thesis
    proof (cases "ends_double w")
      case True
      then have l: "2 \<le> length w" "w ! (length w - 2) = last w"
        using at_word_b(4) [OF assms(1)] by (auto simp: ends_double_def last_conv_nth)
      have ne: "butlast w \<noteq> []" using l(1) by (cases w rule: rev_cases) auto
      have "at_word (cut 1 z) (butlast w) q N"
        by (rule cut_at [OF assms(1), of _ "[last w]"]) (use ne at_word_b(4) [OF assms(1)] in simp_all)
      then show ?thesis using no True l assms(1) at_word_rd(3) [OF assms(1)]
        by (simp add: tidy_def r_tidy_def e doublec_at [OF assms(1)])
    next
      case False
      have "stem_at z w = z" using assms(2) by (cases z) simp
      then have "gives (setto z ''e'') (w @ ''e'') q N" using app [OF assms(1), of w "[]" "''e''"] by simp
      moreover have "cvc z (st_k z) = Some (ends_cvc w)"
        using cvc_at [OF assms(1), of w "length w" "st_k z"] at_word_b(5) [OF assms(1)] by simp
      moreover have "stem_m z = Some (msr w)" using stem_m_at [of z w "[]" q N] assms(1,2) by simp
      ultimately show ?thesis using no False assms(1)
        by (simp add: tidy_def r_tidy_def e doublec_at [OF assms(1)])
    qed
  qed
qed

lemma has_vowel_ne: "has_vowel u \<Longrightarrow> u \<noteq> []"
  by (auto simp: has_vowel_def flags_def)

lemma strip_tidy:
  assumes "at_word z w q N" "w = u @ s" "2 \<le> length s"
  shows "gives (Option.bind (vowelinstem (stem_at z u)) (\<lambda>v. if v then tidy (stem_at z u\<lparr>st_k := st_j (stem_at z u)\<rparr>) else Some (stem_at z u)))
    (if has_vowel u then r_tidy u else w) q N"
proof -
  have v: "vowelinstem (stem_at z u) = Some (has_vowel u)"
    by (rule vowelinstem_at [of _ u s q N]) (use assms(1,2) in simp_all)
  have "gives (tidy (stem_at z u\<lparr>st_k := st_j (stem_at z u)\<rparr>)) (r_tidy u) q N" if "has_vowel u"
  proof (rule tidy_r)
    show "at_word (stem_at z u\<lparr>st_k := st_j (stem_at z u)\<rparr>) u q N"
      by (rule at_word_cut [of "stem_at z u" u s]) (use assms(1,2) has_vowel_ne [OF that] in simp_all)
  qed (use assms at_word_b(3) [OF assms(1)] in simp_all)
  then show ?thesis using assms(1) by (simp add: v)
qed

lemma step1b_r1b:
  assumes "at_word z w q N"
  shows "gives (step1b z) (r1b w) q N"
proof -
  note e = ends_stem [OF assms(1)]
  consider (eed) "suffix ''eed'' w" | (ed) "\<not> suffix ''eed'' w" "suffix ''ed'' w"
    | (ing) "\<not> suffix ''eed'' w" "\<not> suffix ''ed'' w" "suffix ''ing'' w"
    | (no) "\<not> suffix ''eed'' w" "\<not> suffix ''ed'' w" "\<not> suffix ''ing'' w" by blast
  then show ?thesis
  proof cases
    case eed
    from suffixE [OF eed] obtain u where u: "w = u @ ''eed''" "stem_of ''eed'' w = u" .
    have "at_word (cut 1 (stem_at z u)) (u @ ''ee'') q N"
      by (rule cut_at [of _ w _ _ _ "''d''"]) (use assms(1) u in simp_all)
    moreover have "stem_m (stem_at z u) = Some (msr u)"
      by (rule stem_m_at [of _ u "''eed''" q N]) (use assms(1) u(1) in simp_all)
    ultimately show ?thesis using eed e u(2) assms(1) by (simp add: step1b_def r1b_def)
  next
    case ed
    from suffixE [OF ed(2)] obtain u where u: "w = u @ ''ed''" "stem_of ''ed'' w = u" .
    show ?thesis using ed e u(2) strip_tidy [OF assms(1) u(1)] by (simp add: step1b_def r1b_def split del: if_split cong: if_cong)
  next
    case ing
    from suffixE [OF ing(3)] obtain u where u: "w = u @ ''ing''" "stem_of ''ing'' w = u" .
    show ?thesis using ing e u(2) strip_tidy [OF assms(1) u(1)] by (simp add: step1b_def r1b_def split del: if_split cong: if_cong)
  next
    case no
    then show ?thesis using e assms(1) by (simp add: step1b_def r1b_def)
  qed
qed

lemma step1c_r1c:
  assumes "at_word z w q N"
  shows "gives (step1c z) (r1c w) q N"
proof (cases "suffix ''y'' w")
  case True
  from suffixE [OF True] obtain u where u: "w = u @ ''y''" "stem_of ''y'' w = u" .
  have v: "vowelinstem (stem_at z u) = Some (has_vowel u)"
    by (rule vowelinstem_at [of _ u "''y''" q N]) (use assms(1) u in simp_all)
  obtain g where g: "st_b z = u @ ''y'' @ g @ q" "Suc (length u + length g) = N" "st_k z = int (length u)"
    using assms u(1) by (auto simp: at_word_def)
  have "at_word (z\<lparr>st_j := j, st_b := (st_b z)[nat (st_k z) := CHR ''i'']\<rparr>) (u @ ''i'') q N" for j
    using g by (auto simp: at_word_def)
  then show ?thesis using True v u(2) ends_stem [OF assms(1), of "''y''"] assms(1)
    by (simp add: step1c_def r1c_def)
next
  case False
  then show ?thesis using ends_stem [OF assms(1), of "''y''"] assms(1) by (simp add: step1c_def r1c_def)
qed

lemma msr_ne: "0 < msr u \<Longrightarrow> u \<noteq> []"
  by (auto simp: msr_def flags_def)

lemma try_rules_at:
  assumes "at_word z w q N" "\<forall>(s, t) \<in> set rs. s \<noteq> [] \<and> length t \<le> length s"
  shows "gives (try_rules rs z) (apply_rules rs w) q N"
  using assms(2)
proof (induction rs)
  case Nil
  then show ?case using assms(1) by (simp add: apply_rules_def)
next
  case (Cons r rs)
  obtain s t where r: "r = (s, t)" by (cases r)
  show ?case
  proof (cases "suffix s w")
    case True
    from suffixE [OF True] obtain u where u: "w = u @ s" "stem_of s w = u" .
    have "stem_m (stem_at z u) = Some (msr u)"
      by (rule stem_m_at [of _ u s q N]) (use assms(1) u(1) in simp_all)
    moreover have "gives (setto (stem_at z u) t) (u @ t) q N" if "0 < msr u"
      by (rule replace_at [OF assms(1) u(1)]) (use Cons.prems r msr_ne [OF that] in simp_all)
    ultimately show ?thesis using True u(2) r Cons.prems assms(1) ends_stem [OF assms(1), of s]
      by (simp add: stem_r_def apply_rules_def)
  next
    case False
    then show ?thesis using Cons r ends_stem [OF assms(1), of s] by (simp add: apply_rules_def)
  qed
qed

text \<open>The \<open>switch\<close> on a letter of the word picks the part of the table that can match.\<close>

lemma find_filter: "(\<And>x. x \<in> set xs \<Longrightarrow> P x \<Longrightarrow> Q x) \<Longrightarrow> find P (filter Q xs) = find P xs"
  by (induction xs) auto

lemma step2_case_table: "step2_case c = filter (\<lambda>(s, t). s ! (length s - 2) = c) table2"
  by (cases "c \<in> set ''acelostg''") (auto simp: step2_case_def table2_def)

lemma step3_case_table: "step3_case c = filter (\<lambda>(s, t). last s = c) table3"
  by (cases "c \<in> set ''eils''") (auto simp: step3_case_def table3_def)

lemma step4_case_table: "step4_case c = filter (\<lambda>s. s ! (length s - 2) = c) table4"
proof (cases "c \<in> set ''aceilnostuvz''")
  case True
  then have "c = CHR ''a'' \<or> c = CHR ''c'' \<or> c = CHR ''e'' \<or> c = CHR ''i'' \<or> c = CHR ''l'' \<or> c = CHR ''n'' \<or> c = CHR ''o'' \<or> c = CHR ''s'' \<or> c = CHR ''t'' \<or> c = CHR ''u'' \<or> c = CHR ''v'' \<or> c = CHR ''z''"
    by simp
  then show ?thesis by (elim disjE) (simp_all add: step4_case_def table4_def)
next
  case False
  then show ?thesis by (simp add: step4_case_def table4_def eq_commute [of _ c])
qed

lemma suffix_penultimate:
  "suffix s w \<Longrightarrow> 2 \<le> length s \<Longrightarrow> w ! (length w - 2) = s ! (length s - 2)"
  by (auto simp: suffix_def nth_append)

lemma table2_ok: "(s, t) \<in> set table2 \<Longrightarrow> s \<noteq> [] \<and> length t \<le> length s \<and> 2 \<le> length s"
  unfolding table2_def by (simp, elim disjE) simp_all

lemma table3_ok: "(s, t) \<in> set table3 \<Longrightarrow> s \<noteq> [] \<and> length t \<le> length s \<and> 2 \<le> length s"
  unfolding table3_def by (simp, elim disjE) simp_all

lemma table4_ok: "s \<in> set table4 \<Longrightarrow> s \<noteq> [] \<and> 2 \<le> length s"
  unfolding table4_def by (simp, elim disjE) simp_all

lemma step2_r2:
  assumes "at_word z w q N" "2 \<le> length w"
  shows "gives (step2 z) (r2 w) q N"
proof -
  let ?c = "w ! (length w - 2)"
  have "apply_rules (step2_case ?c) w = r2 w"
    unfolding r2_def apply_rules_def step2_case_table
    by (subst find_filter) (auto dest: table2_ok suffix_penultimate)
  moreover have "gives (try_rules (step2_case ?c) z) (apply_rules (step2_case ?c) w) q N"
    by (rule try_rules_at [OF assms(1)]) (auto simp: step2_case_table dest: table2_ok)
  ultimately show ?thesis using at_word_rd(3) [OF assms(1)] assms(2) by (simp add: step2_def)
qed

lemma step3_r3:
  assumes "at_word z w q N"
  shows "gives (step3 z) (r3 w) q N"
proof -
  have "apply_rules (step3_case (last w)) w = r3 w"
    unfolding r3_def apply_rules_def step3_case_table
    by (subst find_filter) (auto dest: table3_ok suffix_last)
  moreover have "gives (try_rules (step3_case (last w)) z) (apply_rules (step3_case (last w)) w) q N"
    by (rule try_rules_at [OF assms(1)]) (auto simp: step3_case_table dest: table3_ok)
  ultimately show ?thesis using at_word_rd(2) [OF assms(1)] by (simp add: step3_def)
qed

lemma try_suffixes_at:
  assumes "at_word z w q N" "\<forall>s \<in> set ss. s \<noteq> []" "w = ''ion'' \<Longrightarrow> ''ion'' \<notin> set ss"
  shows "\<exists>z'. try_suffixes ss z = Some (find (drops w) ss \<noteq> None, z') \<and> at_word z' w q N \<and>
    (\<forall>s. find (drops w) ss = Some s \<longrightarrow> st_j z' = int (length (stem_of s w)) - 1)"
  using assms
proof (induction ss arbitrary: z)
  case (Cons s ss)
  note e = ends_stem [OF Cons.prems(1), of s]
  have IH: "\<exists>z'. try_suffixes ss z1 = Some (find (drops w) ss \<noteq> None, z') \<and> at_word z' w q N \<and>
    (\<forall>s. find (drops w) ss = Some s \<longrightarrow> st_j z' = int (length (stem_of s w)) - 1)" if "at_word z1 w q N" for z1
    using Cons.IH [OF that] Cons.prems(2,3) by simp
  consider (no) "\<not> suffix s w" | (plain) "suffix s w" "s \<noteq> ''ion''" | (ion) "suffix s w" "s = ''ion''" by blast
  then show ?case
  proof cases
    case no
    then have "\<not> drops w s" by (simp add: drops_def)
    then show ?thesis using no e Cons.prems(2) IH [OF Cons.prems(1)] by simp
  next
    case plain
    then have "drops w s" by (simp add: drops_def)
    then show ?thesis using plain e Cons.prems(1,2) by simp
  next
    case ion
    from suffixE [OF ion(1)] obtain u where u: "w = u @ s" "stem_of s w = u" .
    then have "u \<noteq> []" using Cons.prems(3) ion(2) by auto
    then obtain v c where v: "u = v @ [c]" by (cases u rule: rev_cases) auto
    have "w = v @ c # ''ion''" using u(1) v ion(2) by simp
    then have d: "drops w s \<longleftrightarrow> c = CHR ''s'' \<or> c = CHR ''t''" using ion by (auto simp: drops_def suffix_def)
    have "rd_at (st_b z) (int (length v)) = Some c"
      using at_word_rd(1) [OF Cons.prems(1), of "length v"] u(1) v by simp
    then show ?thesis using ion e d u(2) v Cons.prems(1,2) IH [of "stem_at z u"] by auto
  qed
qed simp

lemma find_drops: "find (drops w) (step4_case (w ! (length w - 2))) = find (drops w) table4"
  unfolding step4_case_table
  by (rule find_filter) (auto simp: drops_def dest: table4_ok suffix_penultimate)

lemma step4_r4:
  assumes "at_word z w q N" "2 \<le> length w" "w \<noteq> ''ion''"
  shows "gives (step4 z) (r4 w) q N"
proof -
  let ?c = "w ! (length w - 2)"
  have "\<forall>s \<in> set (step4_case ?c). s \<noteq> []" by (auto simp: step4_case_table dest: table4_ok)
  then obtain z1 where z1: "try_suffixes (step4_case ?c) z = Some (find (drops w) table4 \<noteq> None, z1)"
    "at_word z1 w q N" "\<And>s. find (drops w) table4 = Some s \<Longrightarrow> st_j z1 = int (length (stem_of s w)) - 1"
    using try_suffixes_at [OF assms(1), of "step4_case ?c"] assms(3) unfolding find_drops by metis
  show ?thesis
  proof (cases "find (drops w) table4")
    case None
    then show ?thesis using z1 at_word_rd(3) [OF assms(1)] assms(2) by (simp add: step4_def r4_def)
  next
    case (Some s)
    then have "suffix s w" by (auto simp: find_Some_iff drops_def)
    from suffixE [OF this] obtain u where u: "w = u @ s" "stem_of s w = u" .
    have "stem_m z1 = Some (msr u)"
      by (rule stem_m_at [of _ u s q N]) (use z1(2) z1(3) [OF Some] u in simp_all)
    moreover have "at_word (z1\<lparr>st_k := st_j z1\<rparr>) u q N" if "1 < msr u"
      by (rule at_word_cut [of z1 u s]) (use z1(2) z1(3) [OF Some] u msr_ne [of u] that in simp_all)
    ultimately show ?thesis using Some z1 u at_word_rd(3) [OF assms(1)] assms(2) by (simp add: step4_def r4_def)
  qed
qed

lemma step4_ion:
  assumes "at_word z ''ion'' q N"
  shows "step4 z = None"
proof -
  have "ends z ''ion'' = Some (True, z\<lparr>st_j := -1\<rparr>)"
    using ends_suffix [OF assms, of "''ion''"] by simp
  moreover have "rd_at (st_b z) (st_k z - 1) = Some (CHR ''o'')" using at_word_rd(3) [OF assms] by simp
  ultimately show ?thesis by (simp add: step4_def step4_case_def rd_at_def)
qed

lemma cflags_vowel: "vowel c \<Longrightarrow> cflags p (u @ [c]) = cflags p u @ [False]"
  by (induction u arbitrary: p) (auto simp: Let_def)

lemma vc_snoc: "vc (xs @ [False]) = vc xs"
proof (induction xs)
  case (Cons x xs)
  then show ?case by (cases xs) auto
qed simp

lemma msr_e: "msr (u @ ''e'') = msr u"
  by (simp add: msr_def flags_def cflags_vowel vowel_def vc_snoc)

lemma step5b_r5b:
  assumes "at_word z w q N" "stem_m z = Some (msr w)"
  shows "gives (step5b z) (r5b w) q N"
proof (cases "suffix ''ll'' w")
  case True
  from suffixE [OF True] obtain u where u: "w = u @ ''ll''" .
  have "w ! (length w - 1) = CHR ''l''" using u by (simp add: nth_append)
  then have "flags w ! (length w - 1)"
    using cflags_nth [of "length w - 1" w False] u by (simp add: flags_def vowel_def)
  then have "ends_double w" using u by (simp add: ends_double_def nth_append)
  moreover have "at_word (cut 1 z) (u @ ''l'') q N"
    by (rule cut_at [OF assms(1), of _ "''l''"]) (use u in simp_all)
  moreover have "last w = CHR ''l''" "butlast w = u @ ''l''" using u by (simp_all add: butlast_append)
  ultimately show ?thesis using True assms at_word_rd(2) [OF assms(1)] doublec_at [OF assms(1)]
    by (simp add: step5b_def r5b_def)
next
  case False
  then have "\<not> (last w = CHR ''l'' \<and> ends_double w)"
    using suffix_cc [of w "CHR ''l''" "CHR ''l''"] at_word_b(4) [OF assms(1)]
    by (auto simp: ends_double_def last_conv_nth)
  then show ?thesis using False assms at_word_rd(2) [OF assms(1)] doublec_at [OF assms(1)]
    by (auto simp: step5b_def r5b_def)
qed

lemma step5_r5:
  assumes "at_word z w q N"
  shows "gives (step5 z) (r5b (r5a w)) q N"
proof -
  define z1 where "z1 = z\<lparr>st_j := st_k z\<rparr>"
  have z1: "at_word z1 w q N" "st_j z1 = int (length w) - 1"
    using assms at_word_b(5) [OF assms] by (simp_all add: z1_def)
  have m: "stem_m z1 = Some (msr w)" by (rule stem_m_at [of _ w "[]" q N]) (use z1 in simp_all)
  note rd = at_word_rd(2) [OF z1(1)]
  show ?thesis
  proof (cases "suffix ''e'' w")
    case True
    from suffixE [OF True] obtain u where u: "w = u @ ''e''" "stem_of ''e'' w = u" .
    have "cvc z1 (st_k z1 - 1) = Some (ends_cvc u)"
      by (rule cvc_at [OF z1(1), of u "length u"]) (use u at_word_b(5) [OF z1(1)] in simp_all)
    then have a: "step5a z1 = Some (if 1 < msr w \<or> msr w = 1 \<and> \<not> ends_cvc u then cut 1 z1 else z1)"
      using suffix_last [OF True] rd m by (simp add: step5a_def)
    have "gives (step5b (cut 1 z1)) (r5b u) q N" if "0 < msr w"
    proof (rule step5b_r5b)
      have "u \<noteq> []" using that u(1) by (intro msr_ne) (simp add: msr_e)
      then show "at_word (cut 1 z1) u q N" by (rule cut_at [OF z1(1) u(1)]) simp
      show "stem_m (cut 1 z1) = Some (msr u)" using m u(1)
        by (simp add: stem_m_def cut_def msr_e cong: option.case_cong)
    qed
    then show ?thesis using True a u(2) step5b_r5b [OF z1(1) m]
      unfolding step5_def z1_def [symmetric] by (auto simp: r5a_def)
  next
    case False
    then have "last w \<noteq> CHR ''e''" using suffix_s [of w "CHR ''e''"] at_word_b(4) [OF assms] by simp
    then have "step5a z1 = Some z1" using rd by (simp add: step5a_def)
    then show ?thesis using False step5b_r5b [OF z1(1) m]
      unfolding step5_def z1_def [symmetric] by (simp add: r5a_def)
  qed
qed

section \<open>The stemmer\<close>

lemma msr_len: "0 < msr u \<Longrightarrow> 2 \<le> length u"
proof (rule ccontr)
  assume a: "0 < msr u" "\<not> 2 \<le> length u"
  then consider "u = []" | c where "u = [c]" by (cases u; cases "tl u") auto
  then show False using a(1) by cases (simp_all add: msr_def flags_def Let_def)
qed

lemma apply_rules_len: "2 \<le> length w \<Longrightarrow> 2 \<le> length (apply_rules tbl w)"
  by (auto simp: apply_rules_def dest!: msr_len split: option.splits)

lemma length_r1c: "length (r1c w) = length w"
  by (auto simp: r1c_def elim!: suffixE)

text \<open>
  The words on which no step reads in front of the buffer: two letters are left for step 2, and step 4 does not
  get the word -ion itself.
\<close>

definition safe_word :: "string \<Rightarrow> bool" where
  "safe_word w \<longleftrightarrow> length w \<le> 2 \<or>
     2 \<le> length (r1b (r1a w)) \<and> r3 (r2 (r1c (r1b (r1a w)))) \<noteq> ''ion''"

lemma at_word_start: "w \<noteq> [] \<Longrightarrow> at_word \<lparr>st_b = w @ q, st_k = int (length w) - 1, st_j = 0\<rparr> w q (length w)"
  by (simp add: at_word_def)

lemma steps_1_3:
  assumes "at_word z w q N" "2 \<le> length w"
  shows "gives (Option.bind (step1ab z) step1c) (r1c (r1b (r1a w))) q N"
  unfolding step1ab_def
  by (rule gives_bind [OF gives_bind [OF step1a_r1a [OF assms]]], erule step1b_r1b, erule step1c_r1c)

lemma stem_steps:
  assumes "2 < length w" "gives (Option.bind (step1ab \<lparr>st_b = w @ q, st_k = int (length w) - 1, st_j = 0\<rparr>) step1c) w1 q N"
  obtains z where "stem (w @ q) (int (length w) - 1) =
      do { z3 \<leftarrow> step2 z; z4 \<leftarrow> step3 z3; z5 \<leftarrow> step4 z4; z6 \<leftarrow> step5 z5; Some (st_b z6, st_k z6) }"
    "at_word z w1 q N"
proof -
  from assms(2) obtain z where z: "at_word z w1 q N"
    "Option.bind (step1ab \<lparr>st_b = w @ q, st_k = int (length w) - 1, st_j = 0\<rparr>) step1c = Some z"
    by (auto simp: gives_def)
  then show thesis using assms(1)
    by (intro that [of z]) (auto simp: stem_def bind_eq_Some_conv)
qed

lemma stem_safe:
  assumes "2 < length w" "safe_word w"
  shows "\<exists>g. stem (w @ q) (int (length w) - 1) = Some (porter w @ g @ q, int (length (porter w)) - 1) \<and>
    length (porter w) + length g = length w \<and> porter w \<noteq> []"
proof -
  let ?w1 = "r1c (r1b (r1a w))"
  have w: "w \<noteq> []" "2 \<le> length w" using assms(1) by auto
  have "2 \<le> length ?w1" "r3 (r2 ?w1) \<noteq> ''ion''" using assms by (simp_all add: safe_word_def length_r1c)
  then have len: "2 \<le> length ?w1" "2 \<le> length (r3 (r2 ?w1))" "r3 (r2 ?w1) \<noteq> ''ion''"
    by (simp_all add: r2_def r3_def apply_rules_len)
  obtain z where z: "stem (w @ q) (int (length w) - 1) =
      do { z3 \<leftarrow> step2 z; z4 \<leftarrow> step3 z3; z5 \<leftarrow> step4 z4; z6 \<leftarrow> step5 z5; Some (st_b z6, st_k z6) }"
    "at_word z ?w1 q (length w)"
    using stem_steps [OF assms(1) steps_1_3 [OF at_word_start [OF w(1)] w(2)]] .
  from step2_r2 [OF z(2) len(1)] obtain z3 where z3: "step2 z = Some z3" "at_word z3 (r2 ?w1) q (length w)"
    by (auto simp: gives_def)
  from step3_r3 [OF z3(2)] obtain z4 where z4: "step3 z3 = Some z4" "at_word z4 (r3 (r2 ?w1)) q (length w)"
    by (auto simp: gives_def)
  from step4_r4 [OF z4(2) len(2,3)] obtain z5 where
    z5: "step4 z4 = Some z5" "at_word z5 (r4 (r3 (r2 ?w1))) q (length w)"
    by (auto simp: gives_def)
  from step5_r5 [OF z5(2)] obtain z6 where z6: "step5 z5 = Some z6" "at_word z6 (porter w) q (length w)"
    using assms(1) by (auto simp: gives_def porter_def)
  show ?thesis using z(1) z3(1) z4(1) z5(1) z6 by (auto simp: at_word_def)
qed

lemma stem_unsafe:
  assumes "\<not> safe_word w"
  shows "stem (w @ q) (int (length w) - 1) = None"
proof -
  let ?w1 = "r1c (r1b (r1a w))"
  have w: "w \<noteq> []" "2 \<le> length w" "2 < length w" using assms by (auto simp: safe_word_def)
  obtain z where z: "stem (w @ q) (int (length w) - 1) =
      do { z3 \<leftarrow> step2 z; z4 \<leftarrow> step3 z3; z5 \<leftarrow> step4 z4; z6 \<leftarrow> step5 z5; Some (st_b z6, st_k z6) }"
    "at_word z ?w1 q (length w)"
    using stem_steps [OF w(3) steps_1_3 [OF at_word_start [OF w(1)] w(2)]] .
  show ?thesis
  proof (cases "2 \<le> length ?w1")
    case False
    then show ?thesis using z(1) at_word_rd(3) [OF z(2)] by (simp add: step2_def)
  next
    case True
    then have "r3 (r2 ?w1) = ''ion''" using assms by (simp add: safe_word_def length_r1c)
    moreover from step2_r2 [OF z(2) True] obtain z3 where z3: "step2 z = Some z3" "at_word z3 (r2 ?w1) q (length w)"
      by (auto simp: gives_def)
    moreover from step3_r3 [OF z3(2)] obtain z4 where z4: "step3 z3 = Some z4" "at_word z4 (r3 (r2 ?w1)) q (length w)"
      by (auto simp: gives_def)
    ultimately show ?thesis using z(1) step4_ion by simp
  qed
qed

text \<open>C10: The stemmer is the Porter algorithm on words. For a word \<open>w\<close> at the front of a buffer, the in-place
  steps, with their \<open>switch\<close>es on a letter, their shared index \<open>j\<close> and the writes into the buffer, leave
  the word that the suffix tables give, at the front, with the bytes behind the word untouched; the result index is that of its
  last letter and the word never gets longer. When only one letter is left for step 2 (\<open>ies\<close>, \<open>aing\<close>), or
  step 4 meets the word \<open>ion\<close>, the code reads in front of the buffer (\<open>None\<close>), and in no other case.\<close>

theorem stem_porter:
  "if safe_word w
   then (\<exists>g. stem (w @ q) (int (length w) - 1) = Some (porter w @ g @ q, int (length (porter w)) - 1) \<and>
              length (porter w) + length g = length w)
   else stem (w @ q) (int (length w) - 1) = None"
proof (cases "safe_word w")
  case True
  show ?thesis
  proof (cases "2 < length w")
    case True
    then show ?thesis using stem_safe [OF True \<open>safe_word w\<close>, of q] \<open>safe_word w\<close> by auto
  next
    case False
    then show ?thesis using True by (simp add: stem_def porter_def)
  qed
qed (simp add: stem_unsafe)

section \<open>The measure\<close>

text \<open>The forms of the comment above \<open>m\<close>: \<open><c>vcvc...<v>\<close> with \<open>n\<close> times vc.\<close>

definition vc_block :: "nat \<times> nat \<Rightarrow> bool list" where
  "vc_block p = replicate (Suc (fst p)) False @ replicate (Suc (snd p)) True"

definition vc_form :: "nat \<Rightarrow> bool list \<Rightarrow> bool" where
  "vc_form n fs \<longleftrightarrow> (\<exists>a ps v. length ps = n \<and> fs = replicate a True @ concat (map vc_block ps) @ replicate v False)"

lemma vc_Ts [simp]: "vc (replicate a True @ xs) = vc xs"
  by (induction a) auto

lemma vc_Fs: "vc (replicate a False @ True # xs) = (if a = 0 then vc xs else Suc (vc xs))"
proof (induction a)
  case (Suc a)
  then show ?case by (cases a) auto
qed simp

lemma vc_block_app: "vc (vc_block p @ xs) = Suc (vc xs)"
  using vc_Fs [of "Suc (fst p)" "replicate (snd p) True @ xs"] by (simp add: vc_block_def)

lemma vc_form_vc: "vc_form n fs \<Longrightarrow> vc fs = n"
proof -
  have F: "vc (replicate v False) = 0" for v by (induction v) auto
  have "vc (concat (map vc_block ps) @ replicate v False) = length ps" for ps v
    by (induction ps) (simp_all add: vc_block_app F)
  then show "vc_form n fs \<Longrightarrow> vc fs = n" by (auto simp: vc_form_def)
qed

lemma vc_formI:
  "fs = replicate a True @ concat (map vc_block ps) @ replicate v False \<Longrightarrow> length ps = n \<Longrightarrow> vc_form n fs"
  unfolding vc_form_def by blast

lemma vc_form_Cons:
  assumes "vc_form (vc fs) fs"
  shows "vc_form (vc (x # fs)) (x # fs)"
proof -
  obtain a ps v where f: "length ps = vc fs" "fs = replicate a True @ concat (map vc_block ps) @ replicate v False"
    using assms by (auto simp: vc_form_def)
  consider (c) x | (vc) k where "\<not> x" "a = Suc k" | (v) "\<not> x" "a = 0" "ps = []"
    | (vv) p ps' where "\<not> x" "a = 0" "ps = p # ps'" by (cases a; cases ps) auto
  then show ?thesis
  proof cases
    case c
    show ?thesis by (rule vc_formI [of _ "Suc a" ps v]) (use f c in simp_all)
  next
    case vc
    show ?thesis by (rule vc_formI [of _ 0 "(0, k) # ps" v]) (use f vc in \<open>simp_all add: vc_block_def\<close>)
  next
    case v
    have "fs = replicate v False" using f v by simp
    then show ?thesis by (intro vc_formI [of _ 0 "[]" "Suc v"]) (use f v in \<open>cases v; simp\<close>)+
  next
    case vv
    have fs: "fs = vc_block p @ concat (map vc_block ps') @ replicate v False" using f vv by simp
    show ?thesis
      by (rule vc_formI [of _ 0 "(Suc (fst p), snd p) # ps'" v])
        (use f vv in \<open>simp_all add: fs vc_block_def\<close>)
  qed
qed

lemma vc_form_iff: "vc_form n fs \<longleftrightarrow> vc fs = n"
proof -
  have "vc_form (vc fs) fs"
  proof (induction fs)
    case Nil
    show ?case by (rule vc_formI [of _ 0 "[]" 0]) simp_all
  next
    case (Cons x fs)
    then show ?case by (rule vc_form_Cons)
  qed
  then show ?thesis using vc_form_vc by metis
qed

text \<open>C38: The measure returns. The three nested \<open>while(TRUE)\<close> loops of \<open>m\<close> leave through one of their
  \<open>return n\<close>, without a read outside the word, and the result is the number of vowel-consonant sequences that the
  comment above it draws: \<open>n\<close> is returned just when the letters up to \<open>j\<close> have the form \<open><c>\<close>, then \<open>n\<close>
  times vc, then \<open><v>\<close>. The empty stem (\<open>j\<close> = -1) has measure 0.\<close>

theorem m_returns_count:
  "(\<exists>n. stem_m \<lparr>st_b = w @ q, st_k = k, st_j = int (length w) - 1\<rparr> = Some n) \<and>
   (stem_m \<lparr>st_b = w @ q, st_k = k, st_j = int (length w) - 1\<rparr> = Some n \<longleftrightarrow> vc_form n (flags w))"
proof -
  have "stem_m \<lparr>st_b = w @ q, st_k = k, st_j = int (length w) - 1\<rparr> = Some (msr w)"
    using stem_m_msr [of "\<lparr>st_b = w @ q, st_k = k, st_j = int (length w) - 1\<rparr>" "length w"] by simp
  then show ?thesis by (simp add: vc_form_iff msr_def)
qed

section \<open>The examples of the comments\<close>

lemma step1_comment_examples:
  "map (\<lambda>w. r1b (r1a w)) [''caresses'', ''ponies'', ''ties'', ''caress'', ''cats'', ''feed'', ''agreed'',
     ''disabled'', ''matting'', ''mating'', ''meeting'', ''milling'', ''messing'', ''meetings''] =
   [''caress'', ''poni'', ''ti'', ''caress'', ''cat'', ''feed'', ''agree'', ''disable'', ''mat'', ''mate'',
     ''meet'', ''mill'', ''mess'', ''meet'']"
  by code_simp

lemma out_of_bounds_examples: "\<not> safe_word ''ies'' \<and> \<not> safe_word ''aing'' \<and> \<not> safe_word ''ion'' \<and> \<not> safe_word ''ions''"
  by code_simp

end
