(* ===== verification/CArray.thy ===== *)
theory CArray
  imports Prelude "HOL-Library.Word" "HOL-Library.Monad_Syntax"
begin

text \<open>
  The growing array of pointers of EtoileFoundation (\<open>ETCArray.c\<close>). A state that \<open>None\<close> marks has read or
  written outside the allocated cells, or through a pointer that is no longer valid. The refinement to lists
  is stated as a locale and discharged on the code's operations.
\<close>

unbundle bit_operations_syntax

section \<open>Data and memory\<close>

text \<open>
  \<open>unsigned int\<close> has 32 bits, a pointer and \<open>size_t\<close> have 64. A cell of allocated memory that was never
  written is \<open>None\<close>; \<open>Freed\<close> is a pointer to memory that is gone.
\<close>

type_synonym ptr = "64 word"

datatype cells = Null | Freed | Cells "ptr option list"

record ETCArray =
  ca_array :: cells
  ca_elements :: "32 word"
  ca_space :: "32 word"

text \<open>Whether the allocator has \<open>n\<close> bytes.\<close>

type_synonym heap = "nat \<Rightarrow> bool"

definition malloc_cells :: "heap \<Rightarrow> 32 word \<Rightarrow> cells" where
  "malloc_cells h n = (if h (unat n * 8) then Cells (replicate (unat n) None) else Null)"

text \<open>
  The pointer that \<open>realloc\<close> returns, and what the old pointer points to then. For 0 cells it frees the
  memory and returns NULL; when it fails the old memory stays.
\<close>

definition realloc_cells :: "heap \<Rightarrow> cells \<Rightarrow> 32 word \<Rightarrow> (cells \<times> cells) option" where
  "realloc_cells h m n =
     (case m of
        Freed \<Rightarrow> None
      | Null \<Rightarrow> Some (malloc_cells h n, Null)
      | Cells d \<Rightarrow>
          if n = 0 then Some (Null, Freed)
          else if h (unat n * 8) then Some (Cells (take (unat n) d @ replicate (unat n - length d) None), Freed)
          else Some (Null, m))"

definition wr_cell :: "cells \<Rightarrow> 32 word \<Rightarrow> ptr option \<Rightarrow> cells option" where
  "wr_cell m i x = (case m of Cells d \<Rightarrow> if unat i < length d then Some (Cells (d[unat i := x])) else None | _ \<Rightarrow> None)"

definition rd_cell :: "cells \<Rightarrow> 32 word \<Rightarrow> ptr option" where
  "rd_cell m i = (case m of Cells d \<Rightarrow> if unat i < length d then d ! unat i else None | _ \<Rightarrow> None)"

text \<open>\<open>n\<close> cells from index \<open>i\<close>, of any content.\<close>

definition rd_cells :: "cells \<Rightarrow> 32 word \<Rightarrow> nat \<Rightarrow> ptr option list option" where
  "rd_cells m i n =
     (case m of
        Cells d \<Rightarrow> if unat i + n \<le> length d then Some (take n (drop (unat i) d)) else None
      | _ \<Rightarrow> None)"

definition wr_cells :: "cells \<Rightarrow> 32 word \<Rightarrow> ptr option list \<Rightarrow> cells option" where
  "wr_cells m i xs =
     (case m of
        Cells d \<Rightarrow> if unat i + length xs \<le> length d then Some (Cells (overwrite d (unat i) xs)) else None
      | _ \<Rightarrow> None)"

text \<open>The first \<open>k < 8\<close> bytes of the cell \<open>new\<close> over the cell \<open>old\<close>; the machine is little endian.\<close>

definition mix :: "nat \<Rightarrow> ptr option \<Rightarrow> ptr option \<Rightarrow> ptr option" where
  "mix k new old =
     (if k = 0 then old
      else case (new, old) of
             (Some a, Some b) \<Rightarrow> Some ((a AND mask (8 * k)) OR (b AND NOT (mask (8 * k))))
           | _ \<Rightarrow> None)"

text \<open>What \<open>memcpy\<close> of \<open>n\<close> bytes makes of the cells \<open>old\<close> when \<open>new\<close> is copied over them.\<close>

definition copy_bytes :: "nat \<Rightarrow> ptr option list \<Rightarrow> ptr option list \<Rightarrow> ptr option list" where
  "copy_bytes n new old =
     take (n div 8) new @ (if n mod 8 = 0 then [] else [mix (n mod 8) (new ! (n div 8)) (old ! (n div 8))])"

section \<open>The operations\<close>

definition ETCArrayNewWithInitialSize :: "heap \<Rightarrow> 32 word \<Rightarrow> ETCArray" where
  "ETCArrayNewWithInitialSize h n = \<lparr>ca_array = malloc_cells h n, ca_elements = 0, ca_space = n\<rparr>"

definition ETCArrayNew :: "heap \<Rightarrow> ETCArray" where
  "ETCArrayNew h = ETCArrayNewWithInitialSize h 8"

definition ETCArrayResize :: "heap \<Rightarrow> ETCArray \<Rightarrow> 32 word \<Rightarrow> (int \<times> ETCArray) option" where
  "ETCArrayResize h a n = do {
     (p, old) \<leftarrow> realloc_cells h (ca_array a) n;
     Some (if p \<noteq> Null then (0, a\<lparr>ca_space := n, ca_array := p\<rparr>) else (-1, a\<lparr>ca_array := old\<rparr>))
   }"

definition ETCArrayAdd :: "heap \<Rightarrow> ETCArray \<Rightarrow> ptr \<Rightarrow> (int \<times> ETCArray) option" where
  "ETCArrayAdd h a x = do {
     (r, a1) \<leftarrow> (if ca_space a \<le> ca_elements a + 1 then ETCArrayResize h a (ca_space a * 4) else Some (0, a));
     if r \<noteq> 0 then Some (-1, a1)
     else do {
       m \<leftarrow> wr_cell (ca_array a1) (ca_elements a1) (Some x);
       Some (0, a1\<lparr>ca_array := m, ca_elements := ca_elements a1 + 1\<rparr>)
     }
   }"

definition ETCArrayAddAtIndex :: "heap \<Rightarrow> ETCArray \<Rightarrow> ptr \<Rightarrow> 32 word \<Rightarrow> (int \<times> ETCArray) option" where
  "ETCArrayAddAtIndex h a x i =
     (if ca_elements a + 1 < i then Some (-2, a)
      else do {
        (r, a1) \<leftarrow> (if ca_space a \<le> ca_elements a + 1 then ETCArrayResize h a (ca_space a * 2) else Some (0, a));
        if r \<noteq> 0 then Some (-1, a1)
        else do {
          m1 \<leftarrow> (if i < ca_elements a1 then do {
                   xs \<leftarrow> rd_cells (ca_array a1) i (unat (ca_elements a1 - i));
                   wr_cells (ca_array a1) (i + 1) xs
                 } else Some (ca_array a1));
          m2 \<leftarrow> wr_cell m1 i (Some x);
          Some (0, a1\<lparr>ca_array := m2, ca_elements := ca_elements a1 + 1\<rparr>)
        }
      })"

text \<open>
  The third argument of the \<open>memcpy\<close> is a number of pointers where it should be a number of bytes. The two
  arrays are two objects.
\<close>

definition ETCArrayAppendArray :: "heap \<Rightarrow> ETCArray \<Rightarrow> ETCArray \<Rightarrow> (int \<times> ETCArray) option" where
  "ETCArrayAppendArray h a b =
     (let sum = ca_elements a + ca_elements b;
          n = unat (ca_elements b);
          cells = (n + 7) div 8
      in do {
        (r, a1) \<leftarrow> (if ca_space a < sum then ETCArrayResize h a sum else Some (0, a));
        if r \<noteq> 0 then Some (-1, a1)
        else do {
          new \<leftarrow> rd_cells (ca_array b) 0 cells;
          old \<leftarrow> rd_cells (ca_array a1) (ca_elements a1) cells;
          m \<leftarrow> wr_cells (ca_array a1) (ca_elements a1) (copy_bytes n new old);
          Some (0, a1\<lparr>ca_array := m, ca_elements := ca_elements a1 + ca_elements b\<rparr>)
        }
      })"

text \<open>The NULL array is \<open>None\<close>, the NULL pointer is 0.\<close>

definition ETCArrayObjectAtIndex :: "ETCArray option \<Rightarrow> 32 word \<Rightarrow> ptr option" where
  "ETCArrayObjectAtIndex a i =
     (case a of
        None \<Rightarrow> Some 0
      | Some a \<Rightarrow> if ca_elements a \<le> i then Some 0 else rd_cell (ca_array a) i)"

definition ETCArrayRemoveLastObject :: "ETCArray \<Rightarrow> int \<times> ETCArray" where
  "ETCArrayRemoveLastObject a =
     (if 0 < ca_elements a then (0, a\<lparr>ca_elements := ca_elements a - 1\<rparr>) else (-1, a))"

definition ETCArrayRemoveObjectAtIndex :: "ETCArray \<Rightarrow> 32 word \<Rightarrow> (int \<times> ETCArray) option" where
  "ETCArrayRemoveObjectAtIndex a i =
     (if ca_elements a < i then Some (-1, a)
      else if ca_elements a = 0 then Some (-2, a)
      else do {
        m \<leftarrow> (if i < ca_elements a then do {
                xs \<leftarrow> rd_cells (ca_array a) (i + 1) (unat (ca_elements a - (i + 1)));
                wr_cells (ca_array a) i xs
              } else Some (ca_array a));
        Some (0, a\<lparr>ca_array := m, ca_elements := ca_elements a - 1\<rparr>)
      })"

text \<open>The loop index is an \<open>int\<close>, and the count is cast to one.\<close>

function index_loop :: "ETCArray \<Rightarrow> ptr \<Rightarrow> int \<Rightarrow> int option" where
  "index_loop a x i =
     (if sint (ca_elements a) \<le> i then Some (-1)
      else case rd_cell (ca_array a) (word_of_int i) of
             None \<Rightarrow> None
           | Some y \<Rightarrow> if x = y then Some i else index_loop a x (i + 1))"
  by pat_completeness auto
termination index_loop
  by (relation "measure (\<lambda>(a, x, i). nat (sint (ca_elements a) - i))") auto

declare index_loop.simps [simp del]

definition ETCArrayIndexOfObjectIdenticalTo :: "ETCArray \<Rightarrow> ptr \<Rightarrow> int option" where
  "ETCArrayIndexOfObjectIdenticalTo a x = index_loop a x 0"

text \<open>The objects that are handed to \<open>free\<close>, in this order, and the empty array.\<close>

definition ETCArrayRemoveAllObjects :: "ETCArray \<Rightarrow> bool \<Rightarrow> (ptr list \<times> ETCArray) option" where
  "ETCArrayRemoveAllObjects a freeObjects = do {
     freed \<leftarrow> (if freeObjects then those (map (\<lambda>i. rd_cell (ca_array a) (of_nat i)) [0..<unat (ca_elements a)]) else Some []);
     Some (freed, a\<lparr>ca_elements := 0\<rparr>)
   }"

text \<open>A swap moves the cells whatever is in them.\<close>

definition ETCArraySwap :: "ETCArray option \<Rightarrow> 32 word \<Rightarrow> 32 word \<Rightarrow> (int \<times> ETCArray option) option" where
  "ETCArraySwap a i j =
     (case a of
        None \<Rightarrow> Some (-1, None)
      | Some a \<Rightarrow>
          if ca_elements a \<le> i \<or> ca_elements a \<le> j then Some (-2, Some a)
          else do {
            x \<leftarrow> rd_cells (ca_array a) i 1;
            y \<leftarrow> rd_cells (ca_array a) j 1;
            m1 \<leftarrow> wr_cells (ca_array a) i y;
            m2 \<leftarrow> wr_cells m1 j x;
            Some (0, Some (a\<lparr>ca_array := m2\<rparr>))
          })"

definition ETCArrayCount :: "ETCArray option \<Rightarrow> 32 word" where
  "ETCArrayCount a = (case a of None \<Rightarrow> 0 | Some a \<Rightarrow> ca_elements a)"

definition ETCArrayFree :: "ETCArray \<Rightarrow> ETCArray option" where
  "ETCArrayFree a = None"

section \<open>The list in the array\<close>

text \<open>
  The cells in use hold \<open>xs\<close>. There are fewer than \<open>2 ^ 30\<close> cells, so that growing by four does not wrap; an
  allocator that gives no block of 8 GB or more keeps it so.
\<close>

definition ca_holds :: "ETCArray \<Rightarrow> ptr list \<Rightarrow> bool" where
  "ca_holds a xs \<longleftrightarrow>
     (\<exists>d. ca_array a = Cells d \<and> length d = unat (ca_space a) \<and> 0 < length d \<and> length d < 2 ^ 30 \<and>
          unat (ca_elements a) = length xs \<and> length xs \<le> length d \<and> take (length xs) d = map Some xs)"

definition small_blocks :: "heap \<Rightarrow> bool" where
  "small_blocks h \<longleftrightarrow> (\<forall>n. h n \<longrightarrow> n < 2 ^ 33)"

lemma ca_holdsE:
  assumes "ca_holds a xs"
  obtains d where "ca_array a = Cells d" "length d = unat (ca_space a)" "0 < length d" "length d < 2 ^ 30"
    "unat (ca_elements a) = length xs" "length xs \<le> length d" "take (length xs) d = map Some xs"
  using assms unfolding ca_holds_def by blast

lemma unat_add_small: "unat (x :: 32 word) + unat y < 2 ^ 32 \<Longrightarrow> unat (x + y) = unat x + unat y"
  by (simp add: unat_word_ariths)

lemma unat_mult_small: "unat (x :: 32 word) * unat y < 2 ^ 32 \<Longrightarrow> unat (x * y) = unat x * unat y"
  by (simp add: unat_word_ariths)

lemma ca_holds_count:
  assumes "ca_holds a xs"
  shows "ca_elements a = of_nat (length xs)" "length xs < 2 ^ 30"
    "unat (ca_elements a + 1) = length xs + 1" "ca_elements a \<le> i \<longleftrightarrow> length xs \<le> unat i"
    "i < ca_elements a \<longleftrightarrow> unat i < length xs"
proof -
  obtain d where d: "unat (ca_elements a) = length xs" "length xs < 2 ^ 30"
    using assms by (auto elim!: ca_holdsE)
  show "ca_elements a = of_nat (length xs)" by (simp flip: d(1))
  show "unat (ca_elements a + 1) = length xs + 1" using d unat_add_small [of "ca_elements a" 1] by simp
  show "length xs < 2 ^ 30" "ca_elements a \<le> i \<longleftrightarrow> length xs \<le> unat i" "i < ca_elements a \<longleftrightarrow> unat i < length xs"
    using d by (simp_all add: word_le_nat_alt word_less_nat_alt)
qed

lemma ca_holds_nth: "ca_holds a xs \<Longrightarrow> unat i < length xs \<Longrightarrow> rd_cell (ca_array a) i = Some (xs ! unat i)"
proof (elim ca_holdsE)
  fix d assume i: "unat i < length xs" and d: "ca_array a = Cells d" "length xs \<le> length d" "take (length xs) d = map Some xs"
  have "d ! unat i = take (length xs) d ! unat i" using i by simp
  then show "rd_cell (ca_array a) i = Some (xs ! unat i)" using i d by (simp add: rd_cell_def)
qed

lemma resize_holds:
  assumes "ca_holds a xs" "small_blocks h" "k = 2 \<or> k = 4"
  obtains (grown) a1 where "ETCArrayResize h a (ca_space a * k) = Some (0, a1)" "ca_holds a1 xs"
      "ca_elements a1 = ca_elements a" "unat (ca_space a1) = unat k * unat (ca_space a)"
      "h (unat k * unat (ca_space a) * 8)"
  | (failed) "ETCArrayResize h a (ca_space a * k) = Some (-1, a)" "\<not> h (unat k * unat (ca_space a) * 8)"
proof -
  obtain d where d: "ca_array a = Cells d" "length d = unat (ca_space a)" "0 < length d" "length d < 2 ^ 30"
    "unat (ca_elements a) = length xs" "length xs \<le> length d" "take (length xs) d = map Some xs"
    using assms(1) by (rule ca_holdsE)
  have k: "unat k = 2 \<or> unat k = 4" using assms(3) by auto
  have u: "unat (ca_space a * k) = unat k * unat (ca_space a)"
    using unat_mult_small [of "ca_space a" k] d(2,4) k by (auto simp: mult.commute)
  then have ne: "ca_space a * k \<noteq> 0" using d(2,3) k by (metis mult_is_0 not_less0 rel_simps(76) unat_0 zero_neq_numeral)
  show thesis
  proof (cases "h (unat (ca_space a * k) * 8)")
    case True
    then have "unat (ca_space a * k) < 2 ^ 30" using assms(2) by (fastforce simp: small_blocks_def)
    moreover have "length d \<le> unat (ca_space a * k)" "d \<noteq> []" using u k d(2,3) by auto
    moreover define a1 where "a1 = a\<lparr>ca_space := ca_space a * k,
        ca_array := Cells (take (unat (ca_space a * k)) d @ replicate (unat (ca_space a * k) - length d) None)\<rparr>"
    ultimately have "ca_holds a1 xs" using d by (simp add: ca_holds_def)
    moreover have "ETCArrayResize h a (ca_space a * k) = Some (0, a1)"
      using True ne d(1) by (simp add: ETCArrayResize_def realloc_cells_def a1_def)
    ultimately show thesis using u True by (intro grown [of a1]) (simp_all add: a1_def)
  next
    case False
    then show thesis using ne d(1) u by (intro failed) (simp_all add: ETCArrayResize_def realloc_cells_def)
  qed
qed

lemma ca_holds_upd:
  assumes "ca_holds a xs" "ca_array a = Cells d" "length d' = length d" "take (length ys) d' = map Some ys"
    "length ys \<le> length d"
  shows "ca_holds (a\<lparr>ca_array := Cells d', ca_elements := of_nat (length ys)\<rparr>) ys"
proof -
  have "length d = unat (ca_space a)" "0 < length d" "length d < 2 ^ 30" using assms(1,2) by (auto elim: ca_holdsE)
  moreover have "unat (of_nat (length ys) :: 32 word) = length ys"
    using assms(5) \<open>length d < 2 ^ 30\<close> by (simp add: unat_of_nat)
  ultimately show ?thesis using assms(3-5) by (auto simp: ca_holds_def)
qed

lemma elements_Suc: "ca_holds a xs \<Longrightarrow> length ys = Suc (length xs) \<Longrightarrow> ca_elements a + 1 = of_nat (length ys)"
  by (simp add: ca_holds_count(1))

lemma elements_pred: "ca_holds a xs \<Longrightarrow> length xs = Suc (length ys) \<Longrightarrow> ca_elements a - 1 = of_nat (length ys)"
  by (simp add: ca_holds_count(1))

text \<open>The space of an array of \<open>sp\<close> cells with \<open>n\<close> objects before one more is stored: the array grows by the
  factor \<open>k\<close> when the new object would take its last cell, if the allocator has the block.\<close>

definition grown_space :: "heap \<Rightarrow> nat \<Rightarrow> nat \<Rightarrow> nat \<Rightarrow> nat option" where
  "grown_space h k n sp = (if n + 1 < sp then Some sp else if h (k * sp * 8) then Some (k * sp) else None)"

text \<open>Growing by \<open>k\<close> leaves room for one more, or fails and changes nothing.\<close>

lemma grow_cases:
  assumes "ca_holds a xs" "small_blocks h" "k = 2 \<or> k = 4"
  obtains (room) a1 where
      "(if ca_space a \<le> ca_elements a + 1 then ETCArrayResize h a (ca_space a * k) else Some (0, a)) = Some (0, a1)"
      "ca_holds a1 xs" "ca_elements a1 = ca_elements a" "length xs < unat (ca_space a1)"
      "grown_space h (unat k) (length xs) (unat (ca_space a)) = Some (unat (ca_space a1))"
  | (failed) "(if ca_space a \<le> ca_elements a + 1 then ETCArrayResize h a (ca_space a * k) else Some (0, a)) = Some (-1, a)"
      "grown_space h (unat k) (length xs) (unat (ca_space a)) = None"
proof -
  have sp: "length xs \<le> unat (ca_space a)" "0 < unat (ca_space a)" using assms(1) by (elim ca_holdsE; linarith)+
  have le: "ca_space a \<le> ca_elements a + 1 \<longleftrightarrow> unat (ca_space a) \<le> length xs + 1"
    by (simp add: word_le_nat_alt ca_holds_count(3) [OF assms(1)])
  show thesis
  proof (cases "ca_space a \<le> ca_elements a + 1")
    case True
    from assms show thesis
    proof (cases rule: resize_holds)
      case (grown a1)
      then have "length xs < unat (ca_space a1)" using sp assms(3) by auto
      then show thesis using True grown le by (intro room [of a1]) (simp_all add: grown_space_def)
    next
      case failed
      then show thesis using True le by (intro that(2)) (simp_all add: grown_space_def)
    qed
  next
    case False
    then show thesis using assms(1) le by (intro room [of a]) (auto simp: grown_space_def)
  qed
qed

lemma Add_holds:
  assumes "ca_holds a xs" "small_blocks h"
  obtains (added) a' where "ETCArrayAdd h a x = Some (0, a')" "ca_holds a' (xs @ [x])"
      "grown_space h 4 (length xs) (unat (ca_space a)) = Some (unat (ca_space a'))"
  | (failed) "ETCArrayAdd h a x = Some (-1, a)" "grown_space h 4 (length xs) (unat (ca_space a)) = None"
  using assms(1) assms(2) disjI2 [OF refl]
proof (cases rule: grow_cases)
  case (room a1)
  obtain d where d: "ca_array a1 = Cells d" "length d = unat (ca_space a1)" "take (length xs) d = map Some xs"
    "unat (ca_elements a1) = length xs"
    using room(2) by (auto elim: ca_holdsE)
  have "wr_cell (ca_array a1) (ca_elements a1) (Some x) = Some (Cells (d[length xs := Some x]))"
    using d room(4) by (simp add: wr_cell_def)
  moreover have "take (length xs + 1) (d[length xs := Some x]) = map Some (xs @ [x])"
    using d room(4) by (simp add: take_Suc_conv_app_nth)
  then have "ca_holds (a1\<lparr>ca_array := Cells (d[length xs := Some x]), ca_elements := of_nat (length (xs @ [x]))\<rparr>) (xs @ [x])"
    using room(4) d(2) by (intro ca_holds_upd [OF room(2) d(1)]) simp_all
  ultimately show thesis using room(1,5) elements_Suc [OF room(2), of "xs @ [x]"]
    by (intro added [of "a1\<lparr>ca_array := Cells (d[length xs := Some x]), ca_elements := ca_elements a1 + 1\<rparr>"])
      (simp_all add: ETCArrayAdd_def add.commute [of "word_of_nat (length xs)" 1])
next
  case failed
  then show thesis by (intro that(2)) (simp_all add: ETCArrayAdd_def)
qed

lemma AddAtIndex_holds:
  assumes "ca_holds a xs" "small_blocks h" "unat i \<le> length xs"
  obtains (added) a' where "ETCArrayAddAtIndex h a x i = Some (0, a')"
      "ca_holds a' (take (unat i) xs @ x # drop (unat i) xs)"
      "grown_space h 2 (length xs) (unat (ca_space a)) = Some (unat (ca_space a'))"
  | (failed) "ETCArrayAddAtIndex h a x i = Some (-1, a)" "grown_space h 2 (length xs) (unat (ca_space a)) = None"
  using assms(1) assms(2) disjI1 [OF refl]
proof (cases rule: grow_cases)
  case (room a1)
  let ?ys = "take (unat i) xs @ x # drop (unat i) xs"
  have i: "\<not> ca_elements a + 1 < i" using assms(3) ca_holds_count(3) [OF assms(1)] by (simp add: word_less_nat_alt)
  obtain d where d: "ca_array a1 = Cells d" "length d = unat (ca_space a1)" "take (length xs) d = map Some xs"
    "unat (ca_elements a1) = length xs"
    using room(2) by (auto elim: ca_holdsE)
  show thesis
  proof (cases "i < ca_elements a1")
    case True
    then have lt: "unat i < length xs" using ca_holds_count(5) [OF room(2)] by simp
    have i1: "unat (i + 1) = unat i + 1"
      using lt ca_holds_count(2) [OF assms(1)] by (subst unat_add_small) simp_all
    have n: "unat (ca_elements a1 - i) = length xs - unat i"
      using True by (subst unat_sub) (simp_all add: d(4) less_imp_le)
    let ?xs = "take (length xs - unat i) (drop (unat i) d)"
    have xs: "?xs = map Some (drop (unat i) xs)" using d(3) by (metis drop_map drop_take)
    let ?d = "overwrite d (unat i + 1) ?xs"
    have l: "length ?d = length d" using room(4) d(2) lt by simp
    have m: "rd_cells (ca_array a1) i (unat (ca_elements a1 - i)) = Some ?xs"
      "wr_cells (ca_array a1) (i + 1) ?xs = Some (Cells ?d)"
      using d(1,2) room(4) lt by (simp_all add: rd_cells_def wr_cells_def n i1)
    have "take (length ?ys) (?d[unat i := Some x]) = map Some ?ys"
    proof (rule nth_equalityI)
      fix j assume "j < length (take (length ?ys) (?d[unat i := Some x]))"
      then have j: "j < length xs + 1" using lt by simp
      have td: "j < length xs \<Longrightarrow> d ! j = Some (xs ! j)" using d(3) by (metis nth_map nth_take)
      have pred: "j - unat i = Suc q \<Longrightarrow> unat i + q = j - 1" for q by simp
      show "take (length ?ys) (?d[unat i := Some x]) ! j = map Some ?ys ! j"
        using j lt room(4) d(2) td pred
        by (auto simp: xs nth_list_update nth_overwrite nth_append nth_Cons min_def l split: nat.splits)
    qed (use l room(4) d(2) lt in simp)
    then have "ca_holds (a1\<lparr>ca_array := Cells (?d[unat i := Some x]), ca_elements := of_nat (length ?ys)\<rparr>) ?ys"
      using room(4) d(2) l by (intro ca_holds_upd [OF room(2) d(1)]) simp_all
    moreover have "wr_cell (Cells ?d) i (Some x) = Some (Cells (?d[unat i := Some x]))"
      using l lt room(4) d(2) by (simp add: wr_cell_def)
    ultimately show thesis using room(1,5) i True m elements_Suc [OF room(2), of ?ys] lt
      by (intro added [of "a1\<lparr>ca_array := Cells (?d[unat i := Some x]), ca_elements := ca_elements a1 + 1\<rparr>"])
        (simp_all add: ETCArrayAddAtIndex_def add.commute [of "word_of_nat (length xs)" 1])
  next
    case False
    then have e: "unat i = length xs" using assms(3) ca_holds_count(5) [OF room(2)] by simp
    have "wr_cell (ca_array a1) i (Some x) = Some (Cells (d[length xs := Some x]))"
      using d room(4) e by (simp add: wr_cell_def)
    moreover have "take (length xs + 1) (d[length xs := Some x]) = map Some (xs @ [x])"
      using d room(4) by (simp add: take_Suc_conv_app_nth)
    then have "ca_holds (a1\<lparr>ca_array := Cells (d[length xs := Some x]), ca_elements := of_nat (length (xs @ [x]))\<rparr>) (xs @ [x])"
      using room(4) d(2) by (intro ca_holds_upd [OF room(2) d(1)]) simp_all
    ultimately show thesis using room(1,5) i False e elements_Suc [OF room(2), of "xs @ [x]"]
      by (intro added [of "a1\<lparr>ca_array := Cells (d[length xs := Some x]), ca_elements := ca_elements a1 + 1\<rparr>"])
        (simp_all add: ETCArrayAddAtIndex_def add.commute [of "word_of_nat (length xs)" 1])
  qed
next
  case failed
  moreover have "\<not> ca_elements a + 1 < i"
    using assms(3) ca_holds_count(3) [OF assms(1)] by (simp add: word_less_nat_alt)
  ultimately show thesis by (intro that(2)) (simp_all add: ETCArrayAddAtIndex_def)
qed

lemma New_holds: "h (unat n * 8) \<Longrightarrow> 0 < n \<Longrightarrow> unat n < 2 ^ 30 \<Longrightarrow> ca_holds (ETCArrayNewWithInitialSize h n) []"
  by (auto simp: ca_holds_def ETCArrayNewWithInitialSize_def malloc_cells_def word_less_nat_alt)

lemma ObjectAt_holds:
  "ca_holds a xs \<Longrightarrow> ETCArrayObjectAtIndex (Some a) i = Some (if unat i < length xs then xs ! unat i else 0)"
  by (simp add: ETCArrayObjectAtIndex_def ca_holds_count(4) ca_holds_nth)

lemma RemoveLast_holds:
  assumes "ca_holds a xs"
  shows "if xs = [] then ETCArrayRemoveLastObject a = (-1, a)
    else fst (ETCArrayRemoveLastObject a) = 0 \<and> ca_holds (snd (ETCArrayRemoveLastObject a)) (butlast xs)"
proof -
  obtain d where d: "ca_array a = Cells d" "length d = unat (ca_space a)" "length xs \<le> length d"
    "take (length xs) d = map Some xs"
    using assms by (auto elim: ca_holdsE)
  have e: "0 < ca_elements a \<longleftrightarrow> xs \<noteq> []" using ca_holds_count(5) [OF assms, of 0] by simp
  have "ca_holds (a\<lparr>ca_array := Cells d, ca_elements := of_nat (length (butlast xs))\<rparr>) (butlast xs)" if "xs \<noteq> []"
  proof (rule ca_holds_upd [OF assms d(1)])
    show "take (length (butlast xs)) d = map Some (butlast xs)"
      using d(4) by (metis butlast_conv_take length_butlast map_butlast length_map take_butlast take_take diff_le_self min.absorb1)
  qed (use d(3) in simp_all)
  moreover have "a\<lparr>ca_elements := k\<rparr> = a\<lparr>ca_array := Cells d, ca_elements := k\<rparr>" for k using d(1) by (cases a) simp
  moreover have "ca_elements a - 1 = of_nat (length (butlast xs))" if "xs \<noteq> []"
    using elements_pred [OF assms, of "butlast xs"] that by (cases xs) simp_all
  ultimately show ?thesis using e by (simp add: ETCArrayRemoveLastObject_def)
qed

lemma RemoveAt_holds:
  assumes "ca_holds a xs" "unat i < length xs"
  obtains a' where "ETCArrayRemoveObjectAtIndex a i = Some (0, a')"
    "ca_holds a' (take (unat i) xs @ drop (unat i + 1) xs)"
proof -
  let ?ys = "take (unat i) xs @ drop (unat i + 1) xs"
  obtain d where d: "ca_array a = Cells d" "length d = unat (ca_space a)" "length xs \<le> length d"
    "take (length xs) d = map Some xs" "unat (ca_elements a) = length xs"
    using assms(1) by (auto elim: ca_holdsE)
  have i: "i < ca_elements a" "\<not> ca_elements a < i" "ca_elements a \<noteq> 0"
    using assms ca_holds_count(5) [OF assms(1)] d(5) by (auto simp: word_less_nat_alt)
  have i1: "unat (i + 1) = unat i + 1"
    using assms(2) ca_holds_count(2) [OF assms(1)] by (subst unat_add_small) simp_all
  have n: "unat (ca_elements a - (i + 1)) = length xs - unat i - 1"
    using assms(2) by (subst unat_sub) (simp_all add: word_le_nat_alt i1 d(5))
  let ?xs = "take (length xs - unat i - 1) (drop (unat i + 1) d)"
  have xs: "?xs = map Some (drop (unat i + 1) xs)"
    using d(4) by (metis diff_diff_left drop_map drop_take)
  let ?d = "overwrite d (unat i) ?xs"
  have m: "rd_cells (ca_array a) (i + 1) (unat (ca_elements a - (i + 1))) = Some ?xs"
    "wr_cells (ca_array a) i ?xs = Some (Cells ?d)"
    using d assms(2) by (simp_all add: rd_cells_def wr_cells_def n i1)
  have "take (length ?ys) ?d = map Some ?ys"
  proof -
    have "take (unat i) d = map Some (take (unat i) xs)"
      using d(4) assms(2) by (metis less_imp_le min.absorb1 take_map take_take)
    then show ?thesis using assms(2) d(3) xs by (simp add: overwrite_def min_absorb1)
  qed
  then have "ca_holds (a\<lparr>ca_array := Cells ?d, ca_elements := of_nat (length ?ys)\<rparr>) ?ys"
    using d(3) assms(2) by (intro ca_holds_upd [OF assms(1) d(1)]) simp_all
  then show thesis using i m elements_pred [OF assms(1), of ?ys] assms(2)
    by (intro that) (simp_all add: ETCArrayRemoveObjectAtIndex_def)
qed

text \<open>The index behind the last one removes the last object.\<close>

lemma RemoveAt_edges:
  assumes "ca_holds a xs"
  shows "length xs < unat i \<Longrightarrow> ETCArrayRemoveObjectAtIndex a i = Some (-1, a)"
    and "unat i = length xs \<Longrightarrow> ETCArrayRemoveObjectAtIndex a i =
      Some (if xs = [] then (-2, a) else ETCArrayRemoveLastObject a)"
proof -
  have e: "unat (ca_elements a) = length xs" using assms by (elim ca_holdsE)
  show "length xs < unat i \<Longrightarrow> ETCArrayRemoveObjectAtIndex a i = Some (-1, a)"
    by (simp add: ETCArrayRemoveObjectAtIndex_def word_less_nat_alt e)
  have "ca_elements a = 0 \<longleftrightarrow> xs = []" using e by (metis length_0_conv unat_eq_zero)
  moreover have "a\<lparr>ca_array := ca_array a, ca_elements := k\<rparr> = a\<lparr>ca_elements := k\<rparr>" for k by (cases a) simp
  ultimately show "unat i = length xs \<Longrightarrow> ETCArrayRemoveObjectAtIndex a i =
      Some (if xs = [] then (-2, a) else ETCArrayRemoveLastObject a)"
    by (simp add: ETCArrayRemoveObjectAtIndex_def ETCArrayRemoveLastObject_def word_less_nat_alt e)
qed

lemma overwrite_single: "i < length d \<Longrightarrow> overwrite d i [c] = d[i := c]"
  by (simp add: overwrite_def upd_conv_take_nth_drop)

lemma cell_ops:
  "unat i < length d \<Longrightarrow> rd_cells (Cells d) i (Suc 0) = Some [d ! unat i]"
  "unat i < length d \<Longrightarrow> wr_cells (Cells d) i [c] = Some (Cells (d[unat i := c]))"
  by (simp_all add: rd_cells_def wr_cells_def overwrite_single Suc_le_eq take_Suc_conv_app_nth take_Suc hd_drop_conv_nth)

lemma Swap_holds:
  assumes "ca_holds a xs"
  shows "if unat i < length xs \<and> unat j < length xs
    then \<exists>a'. ETCArraySwap (Some a) i j = Some (0, Some a') \<and> ca_holds a' (xs[unat i := xs ! unat j, unat j := xs ! unat i])
    else ETCArraySwap (Some a) i j = Some (-2, Some a)"
proof (cases "unat i < length xs \<and> unat j < length xs")
  case True
  let ?ys = "xs[unat i := xs ! unat j, unat j := xs ! unat i]"
  obtain d where d: "ca_array a = Cells d" "length xs \<le> length d" "take (length xs) d = map Some xs"
    using assms by (auto elim: ca_holdsE)
  have nth: "d ! unat k = Some (xs ! unat k)" if "unat k < length xs" for k
    using that d(3) by (metis nth_map nth_take)
  let ?d = "d[unat i := Some (xs ! unat j), unat j := Some (xs ! unat i)]"
  have "ca_holds (a\<lparr>ca_array := Cells ?d, ca_elements := of_nat (length ?ys)\<rparr>) ?ys"
    by (rule ca_holds_upd [OF assms d(1)]) (use d in \<open>simp_all add: take_update_swap map_update\<close>)
  moreover have "a\<lparr>ca_array := m\<rparr> = a\<lparr>ca_array := m, ca_elements := of_nat (length ?ys)\<rparr>" for m
    using ca_holds_count(1) [OF assms] by (cases a) simp
  moreover have "ETCArraySwap (Some a) i j = Some (0, Some (a\<lparr>ca_array := Cells ?d\<rparr>))"
    using True d(1,2) nth [of i] nth [of j] ca_holds_count(4) [OF assms] by (simp add: ETCArraySwap_def cell_ops)
  ultimately show ?thesis using True by auto
next
  case False
  then have "length xs \<le> unat i \<or> length xs \<le> unat j" by linarith
  then show ?thesis unfolding if_not_P [OF False] by (simp add: ETCArraySwap_def ca_holds_count(4) [OF assms])
qed

lemma those_map_Some: "those (map Some xs) = Some xs"
  by (induction xs) simp_all

lemma RemoveAll_holds:
  assumes "ca_holds a xs"
  obtains a' where "ETCArrayRemoveAllObjects a f = Some (if f then xs else [], a')" "ca_holds a' []"
proof -
  obtain d where d: "ca_array a = Cells d" "unat (ca_elements a) = length xs"
    using assms by (auto elim: ca_holdsE)
  have "rd_cell (ca_array a) (of_nat i) = Some (xs ! i)" if "i < length xs" for i
    using ca_holds_nth [OF assms, of "of_nat i"] that ca_holds_count(2) [OF assms] by (simp add: unat_of_nat)
  then have "map (\<lambda>i. rd_cell (ca_array a) (of_nat i)) [0..<length xs] = map (Some \<circ> (!) xs) [0..<length xs]" by simp
  then have "those (map (\<lambda>i. rd_cell (ca_array a) (of_nat i)) [0..<length xs]) = Some xs"
    by (simp add: map_nth those_map_Some flip: map_map)
  moreover have "ca_holds (a\<lparr>ca_elements := 0\<rparr>) []" using assms by (auto simp: ca_holds_def)
  ultimately show thesis using d(2) by (intro that) (simp_all add: ETCArrayRemoveAllObjects_def)
qed

lemma index_loop_holds:
  assumes "ca_holds a xs"
  shows "n \<le> length xs \<Longrightarrow> index_loop a x (int n) =
    Some (if x \<in> set (drop n xs) then int (n + length (takeWhile (\<lambda>y. y \<noteq> x) (drop n xs))) else -1)"
proof (induction "length xs - n" arbitrary: n)
  case 0
  have "sint (ca_elements a) = int (length xs)"
    using ca_holds_count(1,2) [OF assms] by (simp add: signed_of_nat signed_take_bit_int_eq_self)
  then show ?case using 0 by (subst index_loop.simps) simp
next
  case (Suc m)
  then have n: "n < length xs" by simp
  have "sint (ca_elements a) = int (length xs)"
    using ca_holds_count(1,2) [OF assms] by (simp add: signed_of_nat signed_take_bit_int_eq_self)
  moreover have "rd_cell (ca_array a) (word_of_int (int n)) = Some (xs ! n)"
    using ca_holds_nth [OF assms, of "of_nat n"] n ca_holds_count(2) [OF assms] by (simp add: unat_of_nat)
  moreover have "drop n xs = xs ! n # drop (Suc n) xs" using n by (simp add: Cons_nth_drop_Suc)
  moreover have "index_loop a x (int n + 1) =
    Some (if x \<in> set (drop (Suc n) xs) then int (Suc n + length (takeWhile (\<lambda>y. y \<noteq> x) (drop (Suc n) xs))) else -1)"
    using Suc.hyps(1) [of "Suc n"] Suc.hyps(2) n by (simp add: add.commute)
  ultimately show ?case using n by (subst index_loop.simps) auto
qed

lemma IndexOf_holds:
  "ca_holds a xs \<Longrightarrow> ETCArrayIndexOfObjectIdenticalTo a x =
    Some (if x \<in> set xs then int (length (takeWhile (\<lambda>y. y \<noteq> x) xs)) else -1)"
  using index_loop_holds [of a xs 0 x] by (simp add: ETCArrayIndexOfObjectIdenticalTo_def)

section \<open>A machine and what it stands for\<close>

fun run_ops :: "('op \<Rightarrow> 's \<Rightarrow> ('r \<times> 's) option) \<Rightarrow> 'op list \<Rightarrow> 's \<Rightarrow> ('r list \<times> 's) option" where
  "run_ops step [] s = Some ([], s)"
| "run_ops step (op # ops) s =
     (case step op s of
        None \<Rightarrow> None
      | Some (r, s') \<Rightarrow> map_option (\<lambda>(rs, t). (r # rs, t)) (run_ops step ops s'))"

text \<open>
  \<open>spec op x\<close> is what an operation does with the value \<open>x\<close> that the state stands for; where it is \<open>None\<close>,
  the specification promises nothing.
\<close>

locale list_machine =
  fixes holds :: "'s \<Rightarrow> 'a \<Rightarrow> bool"
    and step :: "'op \<Rightarrow> 's \<Rightarrow> ('r \<times> 's) option"
    and spec :: "'op \<Rightarrow> 'a \<Rightarrow> ('r \<times> 'a) option"
  assumes step_spec: "holds s x \<Longrightarrow> spec op x = Some (r, y) \<Longrightarrow> \<exists>s'. step op s = Some (r, s') \<and> holds s' y"
begin

lemma run_spec:
  "holds s x \<Longrightarrow> run_ops spec ops x = Some (rs, y) \<Longrightarrow> \<exists>s'. run_ops step ops s = Some (rs, s') \<and> holds s' y"
proof (induction ops arbitrary: s x rs)
  case (Cons op ops)
  then obtain r x1 rs1 where 1: "spec op x = Some (r, x1)" "run_ops spec ops x1 = Some (rs1, y)" "rs = r # rs1"
    by (auto split: option.splits)
  then obtain s1 where "step op s = Some (r, s1)" "holds s1 x1" using step_spec Cons.prems(1) by blast
  then show ?case using Cons.IH 1 by fastforce
qed simp

end

section \<open>The operations refine those on lists\<close>

datatype ca_op = Add ptr | AddAt ptr "32 word" | RemoveLast | RemoveAt "32 word" | Swap "32 word" "32 word"
  | RemoveAll bool | Append ETCArray

fun ca_step :: "heap \<Rightarrow> ca_op \<Rightarrow> ETCArray \<Rightarrow> (int \<times> ETCArray) option" where
  "ca_step h (Add x) a = ETCArrayAdd h a x"
| "ca_step h (AddAt x i) a = ETCArrayAddAtIndex h a x i"
| "ca_step h RemoveLast a = Some (ETCArrayRemoveLastObject a)"
| "ca_step h (RemoveAt i) a = ETCArrayRemoveObjectAtIndex a i"
| "ca_step h (Swap i j) a =
     (case ETCArraySwap (Some a) i j of Some (r, Some a') \<Rightarrow> Some (r, a') | _ \<Rightarrow> None)"
| "ca_step h (RemoveAll f) a = map_option (\<lambda>(freed, a'). (0, a')) (ETCArrayRemoveAllObjects a f)"
| "ca_step h (Append b) a = ETCArrayAppendArray h a b"

text \<open>
  On lists, with the number of cells behind them: adding and inserting return -1 and change nothing exactly when
  the array has to grow and the allocator refuses. Inserting at the index \<open>length xs + 1\<close>, which the code
  lets through, and appending an array promise nothing. Removing at the index \<open>length xs\<close> takes the last
  element.
\<close>

fun ca_spec :: "heap \<Rightarrow> ca_op \<Rightarrow> ptr list \<times> nat \<Rightarrow> (int \<times> ptr list \<times> nat) option" where
  "ca_spec h (Add x) (xs, sp) =
     Some (case grown_space h 4 (length xs) sp of None \<Rightarrow> (-1, xs, sp) | Some sp' \<Rightarrow> (0, xs @ [x], sp'))"
| "ca_spec h (AddAt x i) (xs, sp) =
     (if unat i \<le> length xs
      then Some (case grown_space h 2 (length xs) sp of
             None \<Rightarrow> (-1, xs, sp)
           | Some sp' \<Rightarrow> (0, take (unat i) xs @ x # drop (unat i) xs, sp'))
      else if unat i = length xs + 1 then None else Some (-2, xs, sp))"
| "ca_spec h RemoveLast (xs, sp) = Some (if xs = [] then (-1, xs, sp) else (0, butlast xs, sp))"
| "ca_spec h (RemoveAt i) (xs, sp) = Some
     (if length xs < unat i then (-1, xs, sp)
      else if xs = [] then (-2, xs, sp)
      else if unat i = length xs then (0, butlast xs, sp)
      else (0, take (unat i) xs @ drop (unat i + 1) xs, sp))"
| "ca_spec h (Swap i j) (xs, sp) = Some
     (if unat i < length xs \<and> unat j < length xs then (0, xs[unat i := xs ! unat j, unat j := xs ! unat i], sp)
      else (-2, xs, sp))"
| "ca_spec h (RemoveAll f) (xs, sp) = Some (0, [], sp)"
| "ca_spec h (Append b) (xs, sp) = None"

fun ca_rep :: "ETCArray \<Rightarrow> ptr list \<times> nat \<Rightarrow> bool" where
  "ca_rep a (xs, sp) \<longleftrightarrow> ca_holds a xs \<and> unat (ca_space a) = sp"

text \<open>Only adding and inserting change the space.\<close>

lemma ca_space_step:
  "ETCArrayRemoveObjectAtIndex a i = Some (r, a') \<Longrightarrow> ca_space a' = ca_space a"
  "ETCArraySwap (Some a) i j = Some (r, Some a') \<Longrightarrow> ca_space a' = ca_space a"
  "ETCArrayRemoveAllObjects a f = Some (xs, a') \<Longrightarrow> ca_space a' = ca_space a"
  "ca_space (snd (ETCArrayRemoveLastObject a)) = ca_space a"
  by (auto simp: ETCArrayRemoveObjectAtIndex_def ETCArraySwap_def ETCArrayRemoveAllObjects_def
      ETCArrayRemoveLastObject_def split: if_splits Option.bind_splits)

text \<open>An allocator of blocks below 8 GB.\<close>

definition below_8GB :: "heap \<Rightarrow> heap" where
  "below_8GB f n \<longleftrightarrow> f n \<and> n < 2 ^ 33"

lemma small_below: "small_blocks (below_8GB f)"
  by (simp add: small_blocks_def below_8GB_def)

lemma AddAt_beyond:
  assumes "ca_holds a xs" "length xs + 1 < unat i"
  shows "ETCArrayAddAtIndex h a x i = Some (-2, a)"
  using assms ca_holds_count(3) [OF assms(1)] by (simp add: ETCArrayAddAtIndex_def word_less_nat_alt)

lemma ca_step_spec:
  assumes "ca_rep a x" "ca_spec h op x = Some (r, y)" "small_blocks h"
  shows "\<exists>a'. ca_step h op a = Some (r, a') \<and> ca_rep a' y"
proof -
  obtain xs sp where x: "x = (xs, sp)" by (cases x)
  have a: "ca_holds a xs" "unat (ca_space a) = sp" using assms(1) x by simp_all
  show ?thesis
  proof (cases op)
    case (Add z)
    from a(1) assms(3) show ?thesis
      by (cases rule: Add_holds [where x = z]) (use Add assms(2) a x in auto)
  next
    case (AddAt z i)
    show ?thesis
    proof (cases "unat i \<le> length xs")
      case True
      from a(1) assms(3) True show ?thesis
        by (cases rule: AddAtIndex_holds [where x = z]) (use AddAt True assms(2) a x in auto)
    next
      case False
      then have "length xs + 1 < unat i" using assms(2) AddAt x by (simp split: if_splits)
      then show ?thesis using AddAt_beyond [OF a(1)] a AddAt assms(2) x by auto
    qed
  next
    case RemoveLast
    then show ?thesis using RemoveLast_holds [OF a(1)] a assms(2) x ca_space_step(4) [of a]
      by (cases "ETCArrayRemoveLastObject a"; cases "xs = []") auto
  next
    case (RemoveAt i)
    consider (out) "length xs < unat i" | (last) "unat i = length xs" | (mid) "unat i < length xs" by linarith
    then show ?thesis
    proof cases
      case mid
      with a(1) obtain a' where a': "ETCArrayRemoveObjectAtIndex a i = Some (0, a')"
        "ca_holds a' (take (unat i) xs @ drop (unat i + 1) xs)" by (rule RemoveAt_holds)
      then show ?thesis using mid RemoveAt a assms(2) x ca_space_step(1) [OF a'(1)] by (auto split: if_splits)
    next
      case last
      obtain r1 a1 where r1: "ETCArrayRemoveLastObject a = (r1, a1)" by fastforce
      show ?thesis
      proof (cases "xs = []")
        case True
        then show ?thesis using last RemoveAt RemoveAt_edges(2) [OF a(1) last] a assms(2) x by auto
      next
        case False
        then show ?thesis
          using last RemoveAt RemoveAt_edges(2) [OF a(1) last] RemoveLast_holds [OF a(1)] a assms(2) x
            ca_space_step(4) [of a] r1 by auto
      qed
    qed (use RemoveAt RemoveAt_edges(1) [OF a(1)] a assms(2) x in auto)
  next
    case (Swap i j)
    show ?thesis
    proof (cases "unat i < length xs \<and> unat j < length xs")
      case True
      then obtain a' where a': "ETCArraySwap (Some a) i j = Some (0, Some a')"
        "ca_holds a' (xs[unat i := xs ! unat j, unat j := xs ! unat i])"
        using Swap_holds [OF a(1), of i j] by auto
      have "r = 0" "y = (xs[unat i := xs ! unat j, unat j := xs ! unat i], sp)" using assms(2) x Swap True by auto
      then show ?thesis using a' ca_space_step(2) [OF a'(1)] Swap a(2) by simp
    next
      case False
      then show ?thesis using Swap_holds [OF a(1), of i j] a assms(2) x Swap by (auto simp only: if_False ca_spec.simps ca_step.simps option.inject prod.inject option.case prod.case ca_rep.simps)
    qed
  next
    case (RemoveAll f)
    from a(1) obtain a' where a': "ETCArrayRemoveAllObjects a f = Some (if f then xs else [], a')" "ca_holds a' []"
      by (rule RemoveAll_holds)
    then show ?thesis using RemoveAll assms(2) a x ca_space_step(3) [OF a'(1)] by auto
  next
    case (Append b)
    then show ?thesis using assms(2) x by simp
  qed
qed

interpretation carray: list_machine ca_rep "ca_step (below_8GB f)" "ca_spec (below_8GB f)" for f
  by unfold_locales (rule ca_step_spec [OF _ _ small_below])

section \<open>The type of the state\<close>

text \<open>
  Well-formed: a block of \<open>space\<close> cells, at least two, of which \<open>elements\<close> are in use. Nothing is said about what is
  in the cells.
\<close>

definition ca_ok :: "ETCArray \<Rightarrow> bool" where
  "ca_ok a \<longleftrightarrow>
     (\<exists>d. ca_array a = Cells d \<and> length d = unat (ca_space a) \<and> 2 \<le> length d \<and> length d < 2 ^ 30 \<and>
          unat (ca_elements a) \<le> length d)"

fun ca_op_ok :: "ca_op \<Rightarrow> bool" where
  "ca_op_ok (Append b) = ca_ok b"
| "ca_op_ok (RemoveAll f) = (\<not> f)"
| "ca_op_ok _ = True"

lemma ca_okE:
  assumes "ca_ok a"
  obtains d where "ca_array a = Cells d" "length d = unat (ca_space a)" "2 \<le> length d" "length d < 2 ^ 30"
    "unat (ca_elements a) \<le> length d"
  using assms unfolding ca_ok_def by blast

lemma resize_ok:
  assumes "ca_ok a" "small_blocks h" "n \<noteq> 0"
  obtains (grown) d where "ETCArrayResize h a n = Some (0, a\<lparr>ca_space := n, ca_array := Cells d\<rparr>)"
      "length d = unat n" "unat n < 2 ^ 30"
  | (failed) "ETCArrayResize h a n = Some (-1, a)"
proof -
  obtain d where d: "ca_array a = Cells d" using assms(1) by (rule ca_okE)
  show thesis
  proof (cases "h (unat n * 8)")
    case True
    then have "unat n < 2 ^ 30" using assms(2) by (fastforce simp: small_blocks_def)
    moreover have "length (take (unat n) d @ replicate (unat n - length d) None) = unat n" by simp
    ultimately show thesis using True assms(3) d
      by (intro grown [of "take (unat n) d @ replicate (unat n - length d) None"])
        (simp_all add: ETCArrayResize_def realloc_cells_def)
  next
    case False
    then show thesis using assms(3) d by (intro failed) (simp add: ETCArrayResize_def realloc_cells_def)
  qed
qed

lemma grow_ok:
  assumes "ca_ok a" "small_blocks h" "k = 2 \<or> k = 4"
  obtains (room) a1 d where
      "(if ca_space a \<le> ca_elements a + 1 then ETCArrayResize h a (ca_space a * k) else Some (0, a)) = Some (0, a1)"
      "ca_array a1 = Cells d" "length d = unat (ca_space a1)" "2 \<le> length d" "length d < 2 ^ 30"
      "ca_elements a1 = ca_elements a" "unat (ca_elements a) + 1 < length d"
  | (failed) "(if ca_space a \<le> ca_elements a + 1 then ETCArrayResize h a (ca_space a * k) else Some (0, a)) = Some (-1, a)"
proof -
  obtain d where d: "ca_array a = Cells d" "length d = unat (ca_space a)" "2 \<le> length d" "length d < 2 ^ 30"
    "unat (ca_elements a) \<le> length d" using assms(1) by (rule ca_okE)
  have e: "unat (ca_elements a + 1) = unat (ca_elements a) + 1" using d by (subst unat_add_small) simp_all
  have k: "unat k = 2 \<or> unat k = 4" using assms(3) by auto
  have u: "unat (ca_space a * k) = unat k * unat (ca_space a)"
    using unat_mult_small [of "ca_space a" k] d(2,4) k by (auto simp: mult.commute)
  then have "unat (ca_space a * k) \<noteq> 0" using d(2,3) k by auto
  then have ne: "ca_space a * k \<noteq> 0" by (metis unat_0)
  show thesis
  proof (cases "ca_space a \<le> ca_elements a + 1")
    case True
    from assms(1,2) ne show thesis
    proof (cases rule: resize_ok)
      case (grown d1)
      have "2 * unat (ca_space a) \<le> length d1" using grown(2) u k by auto
      then have "2 \<le> length d1" "unat (ca_elements a) + 1 < length d1" using d(2,3,5) by linarith+
      then show thesis using True grown
        by (intro room [of "a\<lparr>ca_space := ca_space a * k, ca_array := Cells d1\<rparr>" d1]) simp_all
    next
      case failed
      then show thesis using True by (intro that(2)) simp
    qed
  next
    case False
    then have "unat (ca_elements a) + 1 < length d" using e d(2) by (simp add: word_le_nat_alt)
    then show thesis using False d by (intro room [of a d]) simp_all
  qed
qed

lemma unat_Suc_le: "unat (n :: 32 word) < unat (m :: 32 word) \<Longrightarrow> unat (n + 1) = unat n + 1"
proof -
  assume "unat n < unat m"
  moreover have "unat m < 2 ^ LENGTH(32)" by (rule unsigned_less)
  ultimately show "unat (n + 1) = unat n + 1" using unat_add_small [of n 1] by simp
qed

lemma unat_pred: "0 < (n :: 32 word) \<Longrightarrow> unat (n - 1) = unat n - 1"
  by (subst unat_sub) (auto simp: word_le_nat_alt word_less_nat_alt)

lemma put_ok:
  assumes "ca_array a = Cells d" "length d = unat (ca_space a)" "2 \<le> length d" "length d < 2 ^ 30"
    "unat (ca_elements a) + 1 < length d" "length d' = length d" "unat i < length d"
  shows "\<exists>m. wr_cell (Cells d') i x = Some m \<and> ca_ok (a\<lparr>ca_array := m, ca_elements := ca_elements a + 1\<rparr>)"
proof -
  have "unat (ca_elements a + 1) = unat (ca_elements a) + 1" using assms by (subst unat_add_small) simp_all
  then show ?thesis using assms by (simp add: wr_cell_def ca_ok_def)
qed

lemma Add_ok:
  assumes "ca_ok a" "small_blocks h"
  shows "\<exists>r a'. ETCArrayAdd h a x = Some (r, a') \<and> ca_ok a'"
  using assms(1) assms(2) disjI2 [OF refl]
proof (cases rule: grow_ok)
  case (room a1 d)
  then obtain m where "wr_cell (Cells d) (ca_elements a1) (Some x) = Some m"
    "ca_ok (a1\<lparr>ca_array := m, ca_elements := ca_elements a1 + 1\<rparr>)"
    using put_ok [of a1 d d "ca_elements a1" "Some x"] by auto
  then show ?thesis using room by (simp add: ETCArrayAdd_def)
next
  case failed
  then show ?thesis using assms(1) by (simp add: ETCArrayAdd_def)
qed

lemma AddAtIndex_ok:
  assumes "ca_ok a" "small_blocks h"
  shows "\<exists>r a'. ETCArrayAddAtIndex h a x i = Some (r, a') \<and> ca_ok a'"
proof (cases "ca_elements a + 1 < i")
  case True
  then show ?thesis using assms(1) by (simp add: ETCArrayAddAtIndex_def)
next
  case i: False
  from assms disjI1 [OF refl] show ?thesis
  proof (cases rule: grow_ok)
    case (room a1 d)
    have e: "unat (ca_elements a + 1) = unat (ca_elements a) + 1" using room by (subst unat_add_small) simp_all
    have l: "unat i < length d" using i room e by (simp add: word_less_nat_alt)
    obtain d' where d': "(if i < ca_elements a1 then do {
          xs \<leftarrow> rd_cells (ca_array a1) i (unat (ca_elements a1 - i));
          wr_cells (ca_array a1) (i + 1) xs
        } else Some (ca_array a1)) = Some (Cells d')" "length d' = length d"
    proof (cases "i < ca_elements a1")
      case True
      then have lt: "unat i < unat (ca_elements a1)" by (simp add: word_less_nat_alt)
      have "unat (i + 1) = unat i + 1" by (rule unat_Suc_le [OF lt])
      moreover have "unat (ca_elements a1 - i) = unat (ca_elements a1) - unat i"
        using True by (subst unat_sub) (simp_all add: less_imp_le)
      ultimately show thesis using True lt room
        by (intro that [of "overwrite d (unat i + 1) (take (unat (ca_elements a1) - unat i) (drop (unat i) d))"])
          (simp_all add: rd_cells_def wr_cells_def)
    qed (use room in \<open>auto intro: that\<close>)
    obtain m where "wr_cell (Cells d') i (Some x) = Some m" "ca_ok (a1\<lparr>ca_array := m, ca_elements := ca_elements a1 + 1\<rparr>)"
      using put_ok [of a1 d d' i "Some x"] room d'(2) l by auto
    then show ?thesis using room(1) i d'(1) by (simp add: ETCArrayAddAtIndex_def)
  next
    case failed
    then show ?thesis using assms(1) i by (simp add: ETCArrayAddAtIndex_def)
  qed
qed

lemma RemoveAt_ok:
  assumes "ca_ok a"
  shows "\<exists>r a'. ETCArrayRemoveObjectAtIndex a i = Some (r, a') \<and> ca_ok a'"
proof -
  obtain d where d: "ca_array a = Cells d" "length d = unat (ca_space a)" "2 \<le> length d" "length d < 2 ^ 30"
    "unat (ca_elements a) \<le> length d" using assms by (rule ca_okE)
  consider (no) "ca_elements a < i \<or> ca_elements a = 0" | (last) "i = ca_elements a" "0 < ca_elements a"
    | (mid) "i < ca_elements a" by (metis linorder_neqE word_gt_0)
  then show ?thesis
  proof cases
    case no
    then show ?thesis using assms by (auto simp: ETCArrayRemoveObjectAtIndex_def)
  next
    case last
    then show ?thesis using d unat_pred [of "ca_elements a"] by (auto simp: ETCArrayRemoveObjectAtIndex_def ca_ok_def)
  next
    case mid
    then have lt: "unat i < unat (ca_elements a)" "0 < ca_elements a" "\<not> ca_elements a < i"
      by (auto simp: word_less_nat_alt)
    have i1: "unat (i + 1) = unat i + 1" by (rule unat_Suc_le [OF lt(1)])
    then have "unat (ca_elements a - (i + 1)) = unat (ca_elements a) - unat i - 1"
      using lt by (subst unat_sub) (simp_all add: word_le_nat_alt)
    then show ?thesis using mid lt d i1 unat_pred [OF lt(2)]
      by (auto simp: ETCArrayRemoveObjectAtIndex_def rd_cells_def wr_cells_def ca_ok_def)
  qed
qed

lemma ceil8: "((n :: nat) + 7) div 8 = n div 8 + (if n mod 8 = 0 then 0 else 1)"
proof -
  have "n = 8 * (n div 8) + n mod 8" by simp
  then have "(n + 7) div 8 = n div 8 + (n mod 8 + 7) div 8" by (metis add.assoc div_mult_self4 mult.commute zero_neq_numeral add.commute)
  moreover have "(n mod 8 + 7) div 8 = (if n mod 8 = 0 then 0 else 1)"
    using mod_less_divisor [of 8 n] by auto
  ultimately show ?thesis by simp
qed

lemma length_copy_bytes: "length new = (n + 7) div 8 \<Longrightarrow> length (copy_bytes n new old) = (n + 7) div 8"
  by (simp add: copy_bytes_def ceil8)

lemma Append_ok:
  assumes "ca_ok a" "ca_ok b" "small_blocks h"
  shows "\<exists>r a'. ETCArrayAppendArray h a b = Some (r, a') \<and> ca_ok a'"
proof -
  obtain d where d: "ca_array a = Cells d" "length d = unat (ca_space a)" "2 \<le> length d" "length d < 2 ^ 30"
    "unat (ca_elements a) \<le> length d" using assms(1) by (rule ca_okE)
  obtain e where e: "ca_array b = Cells e" "length e = unat (ca_space b)" "length e < 2 ^ 30"
    "unat (ca_elements b) \<le> length e" using assms(2) by (rule ca_okE)
  let ?n = "unat (ca_elements b)" and ?c = "(unat (ca_elements b) + 7) div 8"
  have s: "unat (ca_elements a + ca_elements b) = unat (ca_elements a) + ?n"
    using d(4,5) e(3,4) by (subst unat_add_small) simp_all
  have c: "?c \<le> ?n" by simp
  have done': "\<exists>m. (do { new \<leftarrow> rd_cells (ca_array b) 0 ?c; old \<leftarrow> rd_cells (Cells d1) (ca_elements a) ?c;
        wr_cells (Cells d1) (ca_elements a) (copy_bytes ?n new old) }) = Some (Cells m) \<and> length m = length d1"
    if "unat (ca_elements a) + ?n \<le> length d1" for d1
  proof -
    have "length (take ?c e) = ?c" using c e(4) by simp
    then have "length (copy_bytes ?n (take ?c e) old) = ?c" for old by (rule length_copy_bytes)
    then show ?thesis using that c e(1,4) by (simp add: rd_cells_def wr_cells_def)
  qed
  show ?thesis
  proof (cases "ca_space a < ca_elements a + ca_elements b")
    case True
    then have "ca_elements a + ca_elements b \<noteq> 0" by (auto simp: word_less_nat_alt)
    with assms(1,3) show ?thesis
    proof (cases rule: resize_ok)
      case (grown d1)
      have l: "unat (ca_elements a) + ?n \<le> length d1" "2 \<le> length d1"
        using grown(2) s True d(2,3) by (simp_all add: word_less_nat_alt)
      obtain m where "(do { new \<leftarrow> rd_cells (ca_array b) 0 ?c; old \<leftarrow> rd_cells (Cells d1) (ca_elements a) ?c;
        wr_cells (Cells d1) (ca_elements a) (copy_bytes ?n new old) }) = Some (Cells m)" "length m = length d1"
        using done' [OF l(1)] by blast
      then show ?thesis using True grown l s
        by (auto simp: ETCArrayAppendArray_def Let_def ca_ok_def bind_eq_Some_conv)
    next
      case failed
      then show ?thesis using True assms(1) by (simp add: ETCArrayAppendArray_def)
    qed
  next
    case False
    then have l: "unat (ca_elements a) + ?n \<le> length d" using s d(2) by (simp add: word_less_nat_alt)
    obtain m where "(do { new \<leftarrow> rd_cells (ca_array b) 0 ?c; old \<leftarrow> rd_cells (Cells d) (ca_elements a) ?c;
        wr_cells (Cells d) (ca_elements a) (copy_bytes ?n new old) }) = Some (Cells m)" "length m = length d"
      using done' [OF l] by blast
    then show ?thesis using False d l s by (auto simp: ETCArrayAppendArray_def Let_def ca_ok_def bind_eq_Some_conv)
  qed
qed

lemma Swap_ok:
  assumes "ca_ok a"
  shows "\<exists>r a'. ETCArraySwap (Some a) i j = Some (r, Some a') \<and> ca_ok a'"
proof -
  obtain d where d: "ca_array a = Cells d" "length d = unat (ca_space a)" "2 \<le> length d" "length d < 2 ^ 30"
    "unat (ca_elements a) \<le> length d" using assms by (rule ca_okE)
  show ?thesis
  proof (cases "ca_elements a \<le> i \<or> ca_elements a \<le> j")
    case True
    then show ?thesis using assms by (simp add: ETCArraySwap_def)
  next
    case False
    then have "unat i < length d" "unat j < length d" using d(5) by (auto simp: word_le_nat_alt)
    then show ?thesis using False d by (simp add: ETCArraySwap_def cell_ops ca_ok_def)
  qed
qed

lemma ca_step_ok:
  assumes "ca_ok a" "ca_op_ok op" "small_blocks h"
  shows "\<exists>r a'. ca_step h op a = Some (r, a') \<and> ca_ok a'"
proof (cases op)
  case RemoveLast
  then show ?thesis using assms(1) unat_pred [of "ca_elements a"]
    by (auto simp: ETCArrayRemoveLastObject_def ca_ok_def)
next
  case (Swap i j)
  then show ?thesis using Swap_ok [OF assms(1), of i j] by auto
next
  case (RemoveAll f)
  then show ?thesis using assms(1,2) by (auto simp: ETCArrayRemoveAllObjects_def ca_ok_def)
qed (use assms Add_ok AddAtIndex_ok RemoveAt_ok Append_ok in auto)

lemma run_ok:
  "ca_ok a \<Longrightarrow> list_all ca_op_ok ops \<Longrightarrow> small_blocks h \<Longrightarrow>
    \<exists>rs a'. run_ops (ca_step h) ops a = Some (rs, a') \<and> ca_ok a'"
proof (induction ops arbitrary: a)
  case (Cons op ops)
  then obtain r a1 where 1: "ca_step h op a = Some (r, a1)" "ca_ok a1" using ca_step_ok [of a op h] by auto
  then obtain rs a2 where "run_ops (ca_step h) ops a1 = Some (rs, a2)" "ca_ok a2"
    using Cons.IH [OF 1(2)] Cons.prems(2,3) by auto
  then show ?case using 1 by simp
qed simp

lemma New_ok: "h 64 \<Longrightarrow> ca_ok (ETCArrayNew h)"
  by (simp add: ca_ok_def ETCArrayNew_def ETCArrayNewWithInitialSize_def malloc_cells_def)

section \<open>The properties\<close>

text \<open>C12: The array type keeps its shape. From a new array, any sequence of adding, inserting, removing, swapping
  and appending, with any indices, and with an allocator that may refuse any request (and gives no block
  of 8 GB or more), stays within the allocated cells: no call reads or writes outside the block or through a freed
  pointer, and after each call the block has \<open>space\<close> cells of which \<open>elements\<close> are in use.\<close>

theorem carray_well_formed:
  assumes "f 64" "list_all ca_op_ok ops"
  shows "\<exists>rs a. run_ops (ca_step (below_8GB f)) ops (ETCArrayNew (below_8GB f)) = Some (rs, a) \<and> ca_ok a"
  by (rule run_ok [OF New_ok assms(2) small_below]) (simp add: below_8GB_def assms(1))

theorem carray_well_formed_witness:
  "\<exists>rs a. run_ops (ca_step (below_8GB (\<lambda>n. n \<le> 64)))
     [Add 5, AddAt 7 2, AddAt 8 9, Add 1, Add 1, Add 1, Add 1, Add 1, RemoveAt 9, Swap 0 1] (ETCArrayNew (below_8GB (\<lambda>n. n \<le> 64))) =
     Some (rs, a) \<and> ca_ok a"
  by (rule carray_well_formed) simp_all

text \<open>C11: The array refines the list. From a new array of 8 cells, a sequence of calls returns what the list
  operations return and leaves the objects, as \<open>ETCArrayCount\<close>, \<open>ETCArrayObjectAtIndex\<close> and
  \<open>ETCArrayIndexOfObjectIdenticalTo\<close> show them, that the list operations leave. \<open>ETCArrayAdd\<close> and
  \<open>ETCArrayAddAtIndex\<close> return -1 and change nothing exactly when the new object would take the last cell and the
  allocator refuses the block of four times, for the latter two times, the size. \<open>ETCArrayAddAtIndex\<close> inserts:
  the objects from the index on move up, where the comment of \<open>ETCArray.h\<close> says that the object at the index is
  replaced. Removing at the index behind the last object removes the last one. The allocator is any that gives no
  block of 8 GB or more and that has the 64 bytes of the new array. Nothing is promised for inserting one place
  behind the end, which the code lets through, and for \<open>ETCArrayAppendArray\<close>.\<close>

theorem carray_refines_list:
  assumes "f 64" "run_ops (ca_spec (below_8GB f)) ops ([], 8) = Some (rs, xs, sp)"
  shows "\<exists>a. run_ops (ca_step (below_8GB f)) ops (ETCArrayNew (below_8GB f)) = Some (rs, a) \<and>
    unat (ETCArrayCount (Some a)) = length xs \<and>
    (\<forall>i. ETCArrayObjectAtIndex (Some a) i = Some (if unat i < length xs then xs ! unat i else 0)) \<and>
    (\<forall>x. ETCArrayIndexOfObjectIdenticalTo a x =
       Some (if x \<in> set xs then int (length (takeWhile (\<lambda>y. y \<noteq> x) xs)) else -1))"
proof -
  have "ca_holds (ETCArrayNew (below_8GB f)) []"
    unfolding ETCArrayNew_def by (rule New_holds) (simp_all add: below_8GB_def assms(1))
  then have "ca_rep (ETCArrayNew (below_8GB f)) ([], 8)"
    by (simp add: ETCArrayNew_def ETCArrayNewWithInitialSize_def)
  from carray.run_spec [OF this assms(2)] obtain a where
    r: "run_ops (ca_step (below_8GB f)) ops (ETCArrayNew (below_8GB f)) = Some (rs, a)" "ca_holds a xs" by auto
  have "unat (ETCArrayCount (Some a)) = length xs" using r(2) by (auto simp: ETCArrayCount_def elim: ca_holdsE)
  then show ?thesis using r ObjectAt_holds [OF r(2)] IndexOf_holds [OF r(2)] by blast
qed

text \<open>An allocator without a block of 256 bytes: the eighth object does not get in.\<close>

theorem carray_refines_list_witness:
  "\<exists>a. run_ops (ca_step (below_8GB (\<lambda>n. n < 256)))
      [Add 5, AddAt 7 0, RemoveAt 1, AddAt 8 0, Swap 0 1, RemoveAt 9, Add 1, Add 2, Add 3, Add 4, Add 6, Add 9, AddAt 9 1]
      (ETCArrayNew (below_8GB (\<lambda>n. n < 256))) = Some ([0, 0, 0, 0, 0, -1, 0, 0, 0, 0, 0, -1, 0], a) \<and>
    unat (ETCArrayCount (Some a)) = length [7, 9, 8, 1, 2, 3, 4, 6 :: ptr] \<and>
    (\<forall>i. ETCArrayObjectAtIndex (Some a) i =
       Some (if unat i < length [7, 9, 8, 1, 2, 3, 4, 6 :: ptr] then [7, 9, 8, 1, 2, 3, 4, 6] ! unat i else 0)) \<and>
    (\<forall>x. ETCArrayIndexOfObjectIdenticalTo a x =
       Some (if x \<in> set [7, 9, 8, 1, 2, 3, 4, 6]
             then int (length (takeWhile (\<lambda>y. y \<noteq> x) [7, 9, 8, 1, 2, 3, 4, 6])) else -1))"
  by (rule carray_refines_list [where sp = 16]) (simp_all add: grown_space_def below_8GB_def)

lemma copy_bytes_nth:
  assumes "length new = (n + 7) div 8" "k < n div 8"
  shows "copy_bytes n new old ! k = new ! k"
proof -
  have "k < length (take (n div 8) new)" using assms by (simp add: ceil8)
  then show ?thesis unfolding copy_bytes_def by (subst nth_append_left) simp_all
qed

text \<open>The block of the first array when the second one is copied to it: the old cells, and behind them cells that
  were never written.\<close>

lemma append_room:
  assumes "ca_holds a xs" "length ys < 2 ^ 30" "unat n = length xs + length ys"
  shows "if length xs + length ys \<le> unat (ca_space a) \<or> h ((length xs + length ys) * 8)
    then \<exists>a1 d. (if ca_space a < n then ETCArrayResize h a n else Some (0, a)) = Some (0, a1) \<and>
      ca_array a1 = Cells d \<and> ca_elements a1 = ca_elements a \<and> length xs + length ys \<le> length d \<and>
      (\<forall>i. unat i < length d \<longrightarrow> d ! unat i = rd_cell (ca_array a) i)
    else (if ca_space a < n then ETCArrayResize h a n else Some (0, a)) = Some (-1, a)"
proof -
  obtain d where d: "ca_array a = Cells d" "length d = unat (ca_space a)" using assms(1) by (rule ca_holdsE)
  have lt: "ca_space a < n \<longleftrightarrow> unat (ca_space a) < length xs + length ys"
    using assms(3) by (simp add: word_less_nat_alt)
  show ?thesis
  proof (cases "ca_space a < n")
    case False
    then show ?thesis using lt d by (auto simp: rd_cell_def)
  next
    case True
    then have "n \<noteq> 0" by auto
    moreover have "take (unat n) d = d" using True d(2) by (simp add: word_less_nat_alt)
    ultimately show ?thesis
      using True lt d assms(3)
      by (auto simp: ETCArrayResize_def realloc_cells_def rd_cell_def nth_append)
  qed
qed

text \<open>C37: Appending an array copies an eighth of it. \<open>ETCArrayAppendArray\<close> passes a number of pointers to
  \<open>memcpy\<close>, which takes bytes. When the cells are enough for both arrays or the allocator has the bigger block, the
  call returns 0 and the count grows by the length of the second array, but only one in eight of its pointers
  arrives, and the places of the others keep what was in the cells behind the first array before, which in a bigger
  block nobody wrote. Without the block it returns -1 and changes nothing. Both arrays hold fewer than
  \<open>2 ^ 30\<close> objects and are two arrays.\<close>

theorem append_array_copies_an_eighth:
  assumes "ca_holds a xs" "ca_holds b ys"
  shows "if length xs + length ys \<le> unat (ca_space a) \<or> h ((length xs + length ys) * 8)
    then \<exists>a'. ETCArrayAppendArray h a b = Some (0, a') \<and>
      unat (ETCArrayCount (Some a')) = length xs + length ys \<and>
      (\<forall>i. unat i < length xs + length ys div 8 \<longrightarrow> ETCArrayObjectAtIndex (Some a') i = Some ((xs @ ys) ! unat i)) \<and>
      (\<forall>i. length xs + (length ys + 7) div 8 \<le> unat i \<and> unat i < length xs + length ys \<longrightarrow>
         ETCArrayObjectAtIndex (Some a') i = rd_cell (ca_array a) i)
    else ETCArrayAppendArray h a b = Some (-1, a)"
proof -
  obtain e where e: "ca_array b = Cells e" "unat (ca_elements b) = length ys" "length ys \<le> length e"
    "take (length ys) e = map Some ys" using assms(2) by (rule ca_holdsE)
  have xe: "unat (ca_elements a) = length xs" using assms(1) by (rule ca_holdsE)
  let ?n = "length ys" and ?c = "(length ys + 7) div 8" and ?s = "ca_elements a + ca_elements b"
  have s: "unat ?s = length xs + ?n"
    using xe e(2) ca_holds_count(2) [OF assms(1)] ca_holds_count(2) [OF assms(2)] by (subst unat_add_small) simp_all
  note room = append_room [OF assms(1) ca_holds_count(2) [OF assms(2)] s, of h]
  show ?thesis
  proof (cases "length xs + ?n \<le> unat (ca_space a) \<or> h ((length xs + ?n) * 8)")
    case False
    then have "(if ca_space a < ?s then ETCArrayResize h a ?s else Some (0, a)) = Some (-1, a)"
      using room by (simp only: if_False)
    then show ?thesis unfolding if_not_P [OF False] by (simp add: ETCArrayAppendArray_def Let_def)
  next
    case True
    then obtain a1 d where a1: "(if ca_space a < ?s then ETCArrayResize h a ?s else Some (0, a)) = Some (0, a1)"
      and d: "ca_array a1 = Cells d" "ca_elements a1 = ca_elements a" "length xs + ?n \<le> length d"
      "\<And>i. unat i < length d \<Longrightarrow> d ! unat i = rd_cell (ca_array a) i"
      using room by (auto simp only: if_True)
    define new where "new = copy_bytes ?n (take ?c e) (take ?c (drop (length xs) d))"
    define d' where "d' = overwrite d (length xs) new"
    define a' where "a' = a1\<lparr>ca_array := Cells d', ca_elements := ca_elements a + ca_elements b\<rparr>"
    have c: "?c \<le> ?n" by simp
    have len: "length (take ?c e) = ?c" "length new = ?c"
      using c e(3) length_copy_bytes [of "take ?c e" ?n] by (simp_all add: new_def)
    have lc: "length xs + ?c \<le> length d" using c d(3) by linarith
    have r: "ETCArrayAppendArray h a b = Some (0, a')"
      using a1 d e c lc len xe
      by (simp add: Let_def ETCArrayAppendArray_def rd_cells_def wr_cells_def a'_def d'_def new_def)
    have l: "length d' = length d" using len(2) lc by (simp add: d'_def)
    have at: "ETCArrayObjectAtIndex (Some a') i = d' ! unat i" if "unat i < length xs + ?n" for i
      using that s l d(3) by (simp add: ETCArrayObjectAtIndex_def a'_def rd_cell_def word_le_nat_alt)
    have n: "d' ! i = (if i < length xs then d ! i else if i < length xs + ?c then new ! (i - length xs) else d ! i)"
      if "i < length xs + ?n" for i
      using that len(2) lc d(3) unfolding d'_def by (subst nth_overwrite) simp_all
    have x: "d ! unat i = Some (xs ! unat i)" if "unat i < length xs" for i :: "32 word"
      using that d(3) d(4) [of i] ca_holds_nth [OF assms(1), of i] by simp
    have y: "new ! i = Some (ys ! i)" if "i < ?n div 8" for i
    proof -
      have "i < ?c" "i < ?n" using that by (auto simp: ceil8)
      then have "take ?c e ! i = Some (ys ! i)" using e(4) by (metis nth_map nth_take)
      then show ?thesis using copy_bytes_nth [OF len(1) that] by (simp add: new_def)
    qed
    have "ETCArrayObjectAtIndex (Some a') i = Some ((xs @ ys) ! unat i)" if "unat i < length xs + ?n div 8" for i
    proof -
      have "?n div 8 \<le> ?c" "?n div 8 \<le> ?n" by (auto simp: ceil8)
      then show ?thesis using that at [of i] n [of "unat i"] x [of i] y [of "unat i - length xs"]
        by (auto simp: nth_append)
    qed
    moreover have "ETCArrayObjectAtIndex (Some a') i = rd_cell (ca_array a) i"
      if "length xs + ?c \<le> unat i" "unat i < length xs + ?n" for i
      using that at [of i] n [of "unat i"] d(3) d(4) [of i] by simp
    ultimately show ?thesis using r s True by (simp add: ETCArrayCount_def a'_def)
  qed
qed

theorem append_array_copies_an_eighth_witness:
  "\<exists>a'. ETCArrayAppendArray (\<lambda>n. True)
      \<lparr>ca_array = Cells [Some 5, Some 9], ca_elements = 1, ca_space = 2\<rparr>
      \<lparr>ca_array = Cells [Some 1, Some 2, None], ca_elements = 2, ca_space = 3\<rparr> = Some (0, a') \<and>
    unat (ETCArrayCount (Some a')) = 3 \<and>
    ETCArrayObjectAtIndex (Some a') 0 = Some 5 \<and> ETCArrayObjectAtIndex (Some a') 2 = None"
proof -
  let ?a = "\<lparr>ca_array = Cells [Some 5, Some 9], ca_elements = 1, ca_space = 2\<rparr>"
  let ?b = "\<lparr>ca_array = Cells [Some 1, Some 2, None], ca_elements = 2, ca_space = 3\<rparr>"
  have "ca_holds ?a [5]" "ca_holds ?b [1, 2]" by (simp_all add: ca_holds_def)
  from append_array_copies_an_eighth [OF this, of "\<lambda>n. True"] obtain a' where
    a': "ETCArrayAppendArray (\<lambda>n. True) ?a ?b = Some (0, a')" "unat (ETCArrayCount (Some a')) = 3"
    "\<forall>i :: 32 word. unat i < 1 \<longrightarrow> ETCArrayObjectAtIndex (Some a') i = Some (([5] @ [1, 2]) ! unat i)"
    "\<forall>i :: 32 word. 2 \<le> unat i \<and> unat i < 3 \<longrightarrow> ETCArrayObjectAtIndex (Some a') i = rd_cell (ca_array ?a) i"
    by auto
  show ?thesis using a'(1,2) a'(3) [rule_format, of 0] a'(4) [rule_format, of 2] by (auto simp: rd_cell_def)
qed

text \<open>The place behind the end: the object goes to a cell that is not counted.\<close>

lemma insert_behind_end:
  assumes "ca_holds a xs" "unat i = length xs + 1" "length xs + 1 < unat (ca_space a)"
  shows "\<exists>a'. ETCArrayAddAtIndex h a x i = Some (0, a') \<and>
    unat (ETCArrayCount (Some a')) = length xs + 1 \<and> ETCArrayObjectAtIndex (Some a') i = Some 0 \<and>
    ETCArrayObjectAtIndex (Some a') (of_nat (length xs)) = rd_cell (ca_array a) (of_nat (length xs))"
proof -
  obtain d where d: "ca_array a = Cells d" "length d = unat (ca_space a)"
    "unat (ca_elements a) = length xs" using assms(1) by (rule ca_holdsE)
  note c = ca_holds_count [OF assms(1)]
  have i: "\<not> ca_elements a + 1 < i" "\<not> i < ca_elements a" "\<not> ca_space a \<le> ca_elements a + 1"
    using c(3) d(3) assms(2,3) by (simp_all add: word_less_nat_alt word_le_nat_alt)
  have "unat (of_nat (length xs) :: 32 word) = length xs" using c(2) by (simp add: unat_of_nat)
  then show ?thesis using i d assms(2,3) c(3)
    by (simp add: ETCArrayAddAtIndex_def wr_cell_def rd_cell_def ETCArrayCount_def ETCArrayObjectAtIndex_def word_le_nat_alt)
qed

end
