(* ===== verification/Lemon.thy ===== *)
theory Lemon
  imports Prelude "HOL-Library.Monad_Syntax" "HOL-Library.Sublist"
begin

text \<open>
  The parser engine of the Smalltalk and EScript front ends (\<open>lempar.c\<close>). The tables and the actions that Lemon
  generates from the grammar file are parameters (records \<open>lemon\<close> and \<open>code\<close>). The first part is the
  engine, the second what it computes: parse trees of the tokens that were shifted, for tables with a certificate.
\<close>

section \<open>The generated part\<close>

text \<open>
  Symbols, states and actions are numbers; the C types are wide enough by construction. An empty
  \<open>yyFallback\<close> stands for the macro that is not defined; so does \<open>None\<close> for \<open>YYWILDCARD\<close> and \<open>YYERRORSYMBOL\<close>.
\<close>

record lemon =
  YYNSTATE :: int
  YYNRULE :: int
  YYNOCODE :: int
  yy_action :: "int list"
  yy_lookahead :: "int list"
  YY_SHIFT_MAX :: int
  yy_shift_ofst :: "int list"
  YY_SHIFT_USE_DFLT :: int
  YY_REDUCE_MAX :: int
  yy_reduce_ofst :: "int list"
  YY_REDUCE_USE_DFLT :: int
  yy_default :: "int list"
  yyRuleInfo :: "(int \<times> nat) list"
  yyFallback :: "int list"
  YYWILDCARD :: "int option"
  YYERRORSYMBOL :: "int option"
  YYNOERRORRECOVERY :: bool
  YYSTACKDEPTH :: int
  NDEBUG :: bool

text \<open>
  The code of the grammar file: the action of a rule gets the values of the right-hand side, the rest get the
  extra argument. \<open>c_alloc n\<close> says whether there is memory for a stack of \<open>n\<close> entries.
\<close>

record ('v, 'u) code =
  c_reduce :: "nat \<Rightarrow> 'v list \<Rightarrow> 'u \<Rightarrow> 'v \<times> 'u"
  c_destroy :: "int \<Rightarrow> 'v \<Rightarrow> 'u \<Rightarrow> 'u"
  c_syntax_error :: "int \<Rightarrow> 'v \<Rightarrow> 'u \<Rightarrow> 'u"
  c_failed :: "'u \<Rightarrow> 'u"
  c_accept :: "'u \<Rightarrow> 'u"
  c_overflow :: "'u \<Rightarrow> 'u"
  c_zero :: 'v
  c_errsymdt :: 'v
  c_alloc :: "int \<Rightarrow> bool"

definition YY_ERROR_ACTION :: "lemon \<Rightarrow> int" where
  "YY_ERROR_ACTION T = YYNSTATE T + YYNRULE T"

definition YY_ACCEPT_ACTION :: "lemon \<Rightarrow> int" where
  "YY_ACCEPT_ACTION T = YYNSTATE T + YYNRULE T + 1"

section \<open>The state\<close>

record 'v yyStackEntry =
  stateno :: int
  major :: int
  minor :: 'v

text \<open>\<open>yystack\<close> has the top first; \<open>yyidx\<close> is its length less one, and every negative \<open>yyidx\<close> is the empty stack.\<close>

record ('v, 'u) yyParser =
  yystack :: "'v yyStackEntry list"
  yystksz :: int
  yyidxMax :: int
  yyerrcnt :: int
  yyextra :: 'u

definition yyidx :: "('v, 'u) yyParser \<Rightarrow> int" where
  "yyidx p = int (length (yystack p)) - 1"

definition yyGrowStack :: "('v, 'u) code \<Rightarrow> ('v, 'u) yyParser \<Rightarrow> ('v, 'u) yyParser" where
  "yyGrowStack C p =
     (let n = yystksz p * 2 + 100 in if c_alloc C n then p\<lparr>yystksz := n\<rparr> else p)"

definition ParseAlloc :: "lemon \<Rightarrow> ('v, 'u) code \<Rightarrow> 'u \<Rightarrow> ('v, 'u) yyParser" where
  "ParseAlloc T C u =
     (let p = \<lparr>yystack = [], yystksz = 0, yyidxMax = 0, yyerrcnt = 0, yyextra = u\<rparr>
      in if YYSTACKDEPTH T \<le> 0 then yyGrowStack C p else p)"

definition yy_pop_parser_stack :: "('v, 'u) code \<Rightarrow> ('v, 'u) yyParser \<Rightarrow> int \<times> ('v, 'u) yyParser" where
  "yy_pop_parser_stack C p =
     (case yystack p of
        [] \<Rightarrow> (0, p)
      | e # es \<Rightarrow> (major e, p\<lparr>yystack := es, yyextra := c_destroy C (major e) (minor e) (yyextra p)\<rparr>))"

text \<open>\<open>while( yyidx>=0 ) yy_pop_parser_stack(p)\<close>\<close>

function pop_all :: "('v, 'u) code \<Rightarrow> ('v, 'u) yyParser \<Rightarrow> ('v, 'u) yyParser" where
  "pop_all C p = (if yystack p = [] then p else pop_all C (snd (yy_pop_parser_stack C p)))"
  by pat_completeness auto
termination pop_all
  by (relation "measure (\<lambda>(C, p). length (yystack p))") (auto simp: yy_pop_parser_stack_def split: list.splits)

declare pop_all.simps [simp del]

text \<open>What \<open>ParseFree\<close> leaves of the extra argument.\<close>

definition ParseFree :: "('v, 'u) code \<Rightarrow> ('v, 'u) yyParser \<Rightarrow> 'u" where
  "ParseFree C p = yyextra (pop_all C p)"

definition ParseStackPeak :: "('v, 'u) yyParser \<Rightarrow> int" where
  "ParseStackPeak p = yyidxMax p"

section \<open>The actions of the tables\<close>

definition at :: "'a list \<Rightarrow> int \<Rightarrow> 'a option" where
  "at xs i = (if 0 \<le> i \<and> i < int (length xs) then Some (xs ! nat i) else None)"

text \<open>Is the place \<open>i\<close> of the action table for the symbol \<open>x\<close>?\<close>

definition is_for :: "lemon \<Rightarrow> int \<Rightarrow> int \<Rightarrow> bool option" where
  "is_for T i x =
     (if i < 0 \<or> int (length (yy_action T)) \<le> i then Some False
      else map_option (\<lambda>y. y = x) (at (yy_lookahead T) i))"

definition fallback :: "lemon \<Rightarrow> int \<Rightarrow> int option" where
  "fallback T x = (case at (yyFallback T) x of None \<Rightarrow> None | Some f \<Rightarrow> if f = 0 then None else Some f)"

text \<open>
  The recursion follows the fallback tokens; a chain longer than the table goes round for ever.
  \<open>None\<close>: an assertion fails or the recursion does not end.
\<close>

fun shift_action :: "nat \<Rightarrow> lemon \<Rightarrow> int \<Rightarrow> int \<Rightarrow> int option" where
  "shift_action 0 T s la = None"
| "shift_action (Suc n) T s la = do {
     ofst \<leftarrow> (if YY_SHIFT_MAX T < s then Some (YY_SHIFT_USE_DFLT T) else at (yy_shift_ofst T) s);
     if ofst = YY_SHIFT_USE_DFLT T then at (yy_default T) s
     else if la = YYNOCODE T then None
     else do {
       hit \<leftarrow> is_for T (ofst + la) la;
       if hit then at (yy_action T) (ofst + la)
       else if la \<le> 0 then at (yy_default T) s
       else case fallback T la of
              Some f \<Rightarrow> shift_action n T s f
            | None \<Rightarrow>
                (case YYWILDCARD T of
                   None \<Rightarrow> at (yy_default T) s
                 | Some w \<Rightarrow> do {
                     wild \<leftarrow> is_for T (ofst + w) w;
                     if wild then at (yy_action T) (ofst + w) else at (yy_default T) s
                   })
     }
   }"

definition top_state :: "('v, 'u) yyParser \<Rightarrow> int option" where
  "top_state p = (case yystack p of [] \<Rightarrow> None | e # es \<Rightarrow> Some (stateno e))"

definition yy_find_shift_action :: "lemon \<Rightarrow> ('v, 'u) yyParser \<Rightarrow> int \<Rightarrow> int option" where
  "yy_find_shift_action T p la = do { s \<leftarrow> top_state p; shift_action (Suc (length (yyFallback T))) T s la }"

definition yy_find_reduce_action :: "lemon \<Rightarrow> int \<Rightarrow> int \<Rightarrow> int option" where
  "yy_find_reduce_action T s x =
     (if YYERRORSYMBOL T \<noteq> None \<and> YY_REDUCE_MAX T < s then at (yy_default T) s
      else if YY_REDUCE_MAX T < s then None
      else do {
        ofst \<leftarrow> at (yy_reduce_ofst T) s;
        if ofst = YY_REDUCE_USE_DFLT T \<or> x = YYNOCODE T then None
        else do {
          hit \<leftarrow> is_for T (ofst + x) x;
          if hit then at (yy_action T) (ofst + x)
          else if YYERRORSYMBOL T \<noteq> None then at (yy_default T) s
          else None
        }
      })"

section \<open>Shift, reduce, accept\<close>

definition yyStackOverflow :: "('v, 'u) code \<Rightarrow> ('v, 'u) yyParser \<Rightarrow> ('v, 'u) yyParser" where
  "yyStackOverflow C p = (let p1 = pop_all C p in p1\<lparr>yyextra := c_overflow C (yyextra p1)\<rparr>)"

definition push_entry :: "int \<Rightarrow> int \<Rightarrow> 'v \<Rightarrow> ('v, 'u) yyParser \<Rightarrow> ('v, 'u) yyParser" where
  "push_entry s x v p = p\<lparr>yystack := \<lparr>stateno = s, major = x, minor = v\<rparr> # yystack p\<rparr>"

definition yy_shift :: "lemon \<Rightarrow> ('v, 'u) code \<Rightarrow> int \<Rightarrow> int \<Rightarrow> 'v \<Rightarrow> ('v, 'u) yyParser \<Rightarrow> ('v, 'u) yyParser" where
  "yy_shift T C s x v p =
     (let i = yyidx p + 1;
          p1 = p\<lparr>yyidxMax := max (yyidxMax p) i\<rparr>
      in if 0 < YYSTACKDEPTH T then
           (if YYSTACKDEPTH T \<le> i then yyStackOverflow C p1 else push_entry s x v p1)
         else if yystksz p1 \<le> i then
           (let p2 = yyGrowStack C p1
            in if yystksz p2 \<le> i then yyStackOverflow C p2 else push_entry s x v p2)
         else push_entry s x v p1)"

definition yy_accept :: "('v, 'u) code \<Rightarrow> ('v, 'u) yyParser \<Rightarrow> ('v, 'u) yyParser" where
  "yy_accept C p = (let p1 = pop_all C p in p1\<lparr>yyextra := c_accept C (yyextra p1)\<rparr>)"

definition yy_parse_failed :: "('v, 'u) code \<Rightarrow> ('v, 'u) yyParser \<Rightarrow> ('v, 'u) yyParser" where
  "yy_parse_failed C p = (let p1 = pop_all C p in p1\<lparr>yyextra := c_failed C (yyextra p1)\<rparr>)"

definition yy_syntax_error :: "('v, 'u) code \<Rightarrow> int \<Rightarrow> 'v \<Rightarrow> ('v, 'u) yyParser \<Rightarrow> ('v, 'u) yyParser" where
  "yy_syntax_error C x v p = p\<lparr>yyextra := c_syntax_error C x v (yyextra p)\<rparr>"

definition destroy :: "('v, 'u) code \<Rightarrow> int \<Rightarrow> 'v \<Rightarrow> ('v, 'u) yyParser \<Rightarrow> ('v, 'u) yyParser" where
  "destroy C x v p = p\<lparr>yyextra := c_destroy C x v (yyextra p)\<rparr>"

text \<open>
  The action of the rule sees the values of the right-hand side, which are on the stack with the last on top.
  With \<open>NDEBUG\<close> and a right-hand side that is not empty the new entry is written in place, without the test
  for an overflow.
\<close>

definition yy_reduce :: "lemon \<Rightarrow> ('v, 'u) code \<Rightarrow> int \<Rightarrow> ('v, 'u) yyParser \<Rightarrow> ('v, 'u) yyParser option" where
  "yy_reduce T C r p = do {
     (lhs, n) \<leftarrow> at (yyRuleInfo T) r;
     if length (yystack p) \<le> n then None
     else do {
       let vs = rev (map minor (take n (yystack p)));
       let (v, u) = c_reduce C (nat r) vs (yyextra p);
       let p1 = p\<lparr>yystack := drop n (yystack p), yyextra := u\<rparr>;
       s \<leftarrow> top_state p1;
       act \<leftarrow> yy_find_reduce_action T s lhs;
       if act < YYNSTATE T then
         Some (if NDEBUG T \<and> 0 < n then push_entry act lhs v p1 else yy_shift T C act lhs v p1)
       else if act = YY_ACCEPT_ACTION T then Some (yy_accept C p1)
       else None
     }
   }"

section \<open>Errors\<close>

text \<open>Pop until the error symbol can be shifted; the action to shift it, or \<open>None\<close> when the stack is empty.\<close>

fun pop_to_error ::
  "lemon \<Rightarrow> ('v, 'u) code \<Rightarrow> int \<Rightarrow> 'v yyStackEntry list \<Rightarrow> 'u \<Rightarrow> (int option \<times> 'v yyStackEntry list \<times> 'u) option" where
  "pop_to_error T C err [] u = Some (None, [], u)"
| "pop_to_error T C err (e # es) u =
     (case yy_find_reduce_action T (stateno e) err of
        None \<Rightarrow> None
      | Some act \<Rightarrow>
          if act < YYNSTATE T then Some (Some act, e # es, u)
          else pop_to_error T C err es (c_destroy C (major e) (minor e) u))"

text \<open>With an error symbol; the result has the new \<open>yymajor\<close>.\<close>

definition recover_with ::
  "lemon \<Rightarrow> ('v, 'u) code \<Rightarrow> int \<Rightarrow> int \<Rightarrow> 'v \<Rightarrow> bool \<Rightarrow> ('v, 'u) yyParser \<Rightarrow> (('v, 'u) yyParser \<times> int) option" where
  "recover_with T C err x v errorhit p =
     (case yystack p of
        [] \<Rightarrow> None
      | e # es \<Rightarrow> do {
          let p1 = (if yyerrcnt p < 0 then yy_syntax_error C x v p else p);
          (p2, x2) \<leftarrow>
            (if major e = err \<or> errorhit then Some (destroy C x v p1, YYNOCODE T)
             else do {
               (act, st, u) \<leftarrow> pop_to_error T C err (yystack p1) (yyextra p1);
               let p3 = p1\<lparr>yystack := st, yyextra := u\<rparr>;
               case act of
                 None \<Rightarrow> Some (yy_parse_failed C (destroy C x v p3), YYNOCODE T)
               | Some a \<Rightarrow>
                   if x = 0 then Some (yy_parse_failed C (destroy C x v p3), YYNOCODE T)
                   else Some (yy_shift T C a err (c_errsymdt C) p3, x)
             });
          Some (p2\<lparr>yyerrcnt := 3\<rparr>, x2)
        })"

text \<open>Without one the token is thrown away; the end of the input fails the parse.\<close>

definition discard_token ::
  "lemon \<Rightarrow> ('v, 'u) code \<Rightarrow> int \<Rightarrow> 'v \<Rightarrow> bool \<Rightarrow> ('v, 'u) yyParser \<Rightarrow> ('v, 'u) yyParser" where
  "discard_token T C x v endofinput p =
     (if YYNOERRORRECOVERY T then destroy C x v (yy_syntax_error C x v p)
      else
        let p1 = (if yyerrcnt p \<le> 0 then yy_syntax_error C x v p else p);
            p2 = destroy C x v (p1\<lparr>yyerrcnt := 3\<rparr>)
        in if endofinput then yy_parse_failed C p2 else p2)"

definition on_error ::
  "lemon \<Rightarrow> ('v, 'u) code \<Rightarrow> int \<Rightarrow> 'v \<Rightarrow> bool \<Rightarrow> bool \<Rightarrow> ('v, 'u) yyParser \<Rightarrow> (('v, 'u) yyParser \<times> int) option" where
  "on_error T C x v endofinput errorhit p =
     (case YYERRORSYMBOL T of
        Some err \<Rightarrow> recover_with T C err x v errorhit p
      | None \<Rightarrow> Some (discard_token T C x v endofinput p, YYNOCODE T))"

section \<open>The parser\<close>

text \<open>One round of the loop: the parser, the new \<open>yymajor\<close> and \<open>yyerrorhit\<close>. \<open>None\<close> is a failed assertion.\<close>

definition parse_round ::
  "lemon \<Rightarrow> ('v, 'u) code \<Rightarrow> 'v \<Rightarrow> bool \<Rightarrow> ('v, 'u) yyParser \<times> int \<times> bool \<Rightarrow> (('v, 'u) yyParser \<times> int \<times> bool) option" where
  "parse_round T C v endofinput s =
     (case s of (p, x, errorhit) \<Rightarrow> do {
        act \<leftarrow> yy_find_shift_action T p x;
        if act < YYNSTATE T then
          (if endofinput then None
           else let p1 = yy_shift T C act x v p in Some (p1\<lparr>yyerrcnt := yyerrcnt p1 - 1\<rparr>, YYNOCODE T, errorhit))
        else if act < YYNSTATE T + YYNRULE T then do {
          p1 \<leftarrow> yy_reduce T C (act - YYNSTATE T) p;
          Some (p1, x, errorhit)
        }
        else if act = YY_ERROR_ACTION T then do {
          (p1, x1) \<leftarrow> on_error T C x v endofinput errorhit p;
          Some (p1, x1, True)
        }
        else None
      })"

datatype 'p outcome = Done 'p | Crash | Running

fun parse_loop ::
  "nat \<Rightarrow> lemon \<Rightarrow> ('v, 'u) code \<Rightarrow> 'v \<Rightarrow> bool \<Rightarrow> ('v, 'u) yyParser \<times> int \<times> bool \<Rightarrow> ('v, 'u) yyParser outcome" where
  "parse_loop 0 T C v endofinput s = Running"
| "parse_loop (Suc n) T C v endofinput s =
     (case parse_round T C v endofinput s of
        None \<Rightarrow> Crash
      | Some (p, x, errorhit) \<Rightarrow>
          if x \<noteq> YYNOCODE T \<and> yystack p \<noteq> [] then parse_loop n T C v endofinput (p, x, errorhit) else Done p)"

definition start_parser :: "('v, 'u) code \<Rightarrow> ('v, 'u) yyParser \<Rightarrow> ('v, 'u) yyParser" where
  "start_parser C p = push_entry 0 0 (c_zero C) (p\<lparr>yyerrcnt := -1\<rparr>)"

text \<open>
  \<open>Parse\<close> with \<open>n\<close> rounds at most: \<open>Running\<close> when they are not enough. The value of the entry at the bottom is
  never set; it stands for what the memory holds.
\<close>

definition Parse ::
  "nat \<Rightarrow> lemon \<Rightarrow> ('v, 'u) code \<Rightarrow> ('v, 'u) yyParser \<Rightarrow> int \<Rightarrow> 'v \<Rightarrow> ('v, 'u) yyParser outcome" where
  "Parse n T C p x v =
     (if yystack p = [] \<and> YYSTACKDEPTH T \<le> 0 \<and> yystksz p \<le> 0 then Done (yyStackOverflow C p)
      else parse_loop n T C v (x = 0) (if yystack p = [] then start_parser C p else p, x, False))"

section \<open>Parse trees\<close>

datatype 'v tree = Leaf int 'v | Node nat "'v tree list"

text \<open>
  What the tables know of the grammar is the left side and the length of the right side of each rule. The
  certificate \<open>lr_cert\<close> adds the right sides, the numbers of terminals and symbols, and for each state the
  symbols that are on top of the stack whenever the machine is in it.
\<close>

record lr_cert =
  k_rhs :: "int list list"
  k_terms :: nat
  k_syms :: nat
  k_past :: "int list list"

definition lhs_of :: "lemon \<Rightarrow> nat \<Rightarrow> int" where
  "lhs_of T r = fst (yyRuleInfo T ! r)"

fun tree_root :: "lemon \<Rightarrow> 'v tree \<Rightarrow> int" where
  "tree_root T (Leaf x v) = x"
| "tree_root T (Node r ts) = lhs_of T r"

fun wf_tree :: "lemon \<Rightarrow> lr_cert \<Rightarrow> 'v tree \<Rightarrow> bool" where
  "wf_tree T K (Leaf x v) \<longleftrightarrow> 0 < x \<and> x < int (k_terms K)"
| "wf_tree T K (Node r ts) \<longleftrightarrow>
     r < length (yyRuleInfo T) \<and> map (tree_root T) ts = k_rhs K ! r \<and> (\<forall>t \<in> set ts. wf_tree T K t)"

fun leaves :: "'v tree \<Rightarrow> (int \<times> 'v) list" where
  "leaves (Leaf x v) = [(x, v)]"
| "leaves (Node r ts) = concat (map leaves ts)"

text \<open>The value of a tree when \<open>f r\<close> is what the action of rule \<open>r\<close> computes.\<close>

fun tree_val :: "(nat \<Rightarrow> 'v list \<Rightarrow> 'v) \<Rightarrow> 'v tree \<Rightarrow> 'v" where
  "tree_val f (Leaf x v) = v"
| "tree_val f (Node r ts) = f r (map (tree_val f) ts)"

section \<open>Valid tables\<close>

text \<open>Both grammar files define no fallback tokens, no wildcard and no error symbol, and keep the error recovery.\<close>

definition plain :: "lemon \<Rightarrow> bool" where
  "plain T \<longleftrightarrow> yyFallback T = [] \<and> YYWILDCARD T = None \<and> YYERRORSYMBOL T = None \<and> \<not> YYNOERRORRECOVERY T"

abbreviation act :: "lemon \<Rightarrow> int \<Rightarrow> int \<Rightarrow> int option" where
  "act T s x \<equiv> shift_action (Suc 0) T s x"

text \<open>The state after the symbol \<open>x\<close> in the state \<open>s\<close>.\<close>

definition lr_step :: "lemon \<Rightarrow> lr_cert \<Rightarrow> int \<Rightarrow> int \<Rightarrow> int option" where
  "lr_step T K s x =
     (case (if x < int (k_terms K) then act T s x else yy_find_reduce_action T s x) of
        None \<Rightarrow> None
      | Some t \<Rightarrow> if t < YYNSTATE T then Some t else None)"

fun lr_path :: "lemon \<Rightarrow> lr_cert \<Rightarrow> int \<Rightarrow> int list \<Rightarrow> int option" where
  "lr_path T K s [] = Some s"
| "lr_path T K s (x # xs) = (case lr_step T K s x of None \<Rightarrow> None | Some t \<Rightarrow> lr_path T K t xs)"

definition ints :: "nat \<Rightarrow> int list" where
  "ints n = map int [0..<n]"

definition past :: "lr_cert \<Rightarrow> int \<Rightarrow> int list" where
  "past K s = k_past K ! nat s"

text \<open>
  The conditions, each a finite check: the sizes agree; every step leads to a state (never back to 0) whose past
  is what the stack then has; on every token every state has an action that is a shift (not of the end of the
  input), the reduction by a rule whose right side is in the past, or the error; and where a rule was started, its left side
  has a goto, or is accepted in state 0.
\<close>

definition valid_sizes :: "lemon \<Rightarrow> lr_cert \<Rightarrow> bool" where
  "valid_sizes T K \<longleftrightarrow>
     0 < YYNSTATE T \<and> length (k_past K) = nat (YYNSTATE T) \<and> k_past K ! 0 = [] \<and>
     YYNRULE T = int (length (yyRuleInfo T)) \<and> length (k_rhs K) = length (yyRuleInfo T) \<and>
     list_all (\<lambda>((lhs, n), rhs). int (k_terms K) \<le> lhs \<and> lhs < int (k_syms K) \<and> length rhs = n)
       (zip (yyRuleInfo T) (k_rhs K)) \<and>
     0 < k_terms K \<and> k_terms K \<le> k_syms K \<and> int (k_syms K) \<le> YYNOCODE T"

definition valid_steps :: "lemon \<Rightarrow> lr_cert \<Rightarrow> bool" where
  "valid_steps T K \<longleftrightarrow>
     list_all (\<lambda>s. list_all (\<lambda>x.
       case lr_step T K s x of None \<Rightarrow> True | Some t \<Rightarrow> 0 < t \<and> prefix (past K t) (x # past K s))
       (ints (k_syms K))) (ints (nat (YYNSTATE T)))"

definition action_ok :: "lemon \<Rightarrow> lr_cert \<Rightarrow> int \<Rightarrow> int \<Rightarrow> int \<Rightarrow> bool" where
  "action_ok T K s x a \<longleftrightarrow>
     0 \<le> a \<and> a \<le> YY_ERROR_ACTION T \<and> (x = 0 \<longrightarrow> YYNSTATE T \<le> a) \<and>
     (YYNSTATE T \<le> a \<and> a < YY_ERROR_ACTION T \<longrightarrow> prefix (rev (k_rhs K ! nat (a - YYNSTATE T))) (past K s))"

definition valid_actions :: "lemon \<Rightarrow> lr_cert \<Rightarrow> bool" where
  "valid_actions T K \<longleftrightarrow>
     list_all (\<lambda>s. list_all (\<lambda>x.
       case act T s x of None \<Rightarrow> False | Some a \<Rightarrow> action_ok T K s x a)
       (ints (k_terms K))) (ints (nat (YYNSTATE T)))"

definition goto_ok :: "lemon \<Rightarrow> int \<Rightarrow> nat \<Rightarrow> bool" where
  "goto_ok T s r \<longleftrightarrow>
     (case yy_find_reduce_action T s (lhs_of T r) of
        None \<Rightarrow> False
      | Some a \<Rightarrow> a < YYNSTATE T \<or> a = YY_ACCEPT_ACTION T \<and> s = 0)"

definition reduces :: "lemon \<Rightarrow> lr_cert \<Rightarrow> int \<Rightarrow> nat \<Rightarrow> bool" where
  "reduces T K s r \<longleftrightarrow> list_ex (\<lambda>x. act T s x = Some (YYNSTATE T + int r)) (ints (k_terms K))"

definition valid_gotos :: "lemon \<Rightarrow> lr_cert \<Rightarrow> bool" where
  "valid_gotos T K \<longleftrightarrow>
     list_all (\<lambda>s. list_all (\<lambda>r.
       case lr_path T K s (k_rhs K ! r) of None \<Rightarrow> True | Some s1 \<Rightarrow> reduces T K s1 r \<longrightarrow> goto_ok T s r)
       [0..<length (yyRuleInfo T)]) (ints (nat (YYNSTATE T)))"

definition valid :: "lemon \<Rightarrow> lr_cert \<Rightarrow> bool" where
  "valid T K \<longleftrightarrow> plain T \<and> valid_sizes T K \<and> valid_steps T K \<and> valid_actions T K \<and> valid_gotos T K"

section \<open>What the certificate gives\<close>

lemma in_ints [simp]: "x \<in> set (ints n) \<longleftrightarrow> 0 \<le> x \<and> x < int n"
proof -
  have "x \<in> int ` {0..<n}" if "0 \<le> x" "x < int n" using that by (intro image_eqI [of _ _ "nat x"]) auto
  then show ?thesis by (auto simp: ints_def)
qed

lemma valid_step:
  assumes "valid T K" "0 \<le> s" "s < YYNSTATE T" "0 \<le> x" "x < int (k_syms K)" "lr_step T K s x = Some t"
  shows "0 < t" "t < YYNSTATE T" "prefix (past K t) (x # past K s)"
proof -
  have "case lr_step T K s x of None \<Rightarrow> True | Some t \<Rightarrow> 0 < t \<and> prefix (past K t) (x # past K s)"
    using assms(1-5) unfolding valid_def valid_steps_def list_all_iff by simp
  then show "0 < t" "prefix (past K t) (x # past K s)" using assms(6) by simp_all
  show "t < YYNSTATE T" using assms(6) by (auto simp: lr_step_def split: option.splits if_splits)
qed

lemma valid_act:
  assumes "valid T K" "0 \<le> s" "s < YYNSTATE T" "0 \<le> x" "x < int (k_terms K)"
  obtains a where "act T s x = Some a" "action_ok T K s x a"
proof -
  have "case act T s x of None \<Rightarrow> False | Some a \<Rightarrow> action_ok T K s x a"
    using assms unfolding valid_def valid_actions_def list_all_iff by simp
  then show thesis using that by (auto split: option.splits)
qed

lemma valid_size:
  assumes "valid T K"
  shows "0 < YYNSTATE T" "past K 0 = []" "YYNRULE T = int (length (yyRuleInfo T))" "0 < k_terms K" "k_terms K \<le> k_syms K"
    "int (k_syms K) \<le> YYNOCODE T"
  using assms by (simp_all add: valid_def valid_sizes_def past_def)

lemma valid_rule:
  assumes "valid T K" "r < length (yyRuleInfo T)"
  shows "int (k_terms K) \<le> lhs_of T r" "lhs_of T r < int (k_syms K)"
    "yyRuleInfo T ! r = (lhs_of T r, length (k_rhs K ! r))"
proof -
  have l: "length (k_rhs K) = length (yyRuleInfo T)" using assms(1) by (simp add: valid_def valid_sizes_def)
  have "list_all (\<lambda>((lhs, n), rhs). int (k_terms K) \<le> lhs \<and> lhs < int (k_syms K) \<and> length rhs = n)
      (zip (yyRuleInfo T) (k_rhs K))" using assms(1) by (simp add: valid_def valid_sizes_def)
  then have "(\<lambda>((lhs, n), rhs). int (k_terms K) \<le> lhs \<and> lhs < int (k_syms K) \<and> length rhs = n)
      (zip (yyRuleInfo T) (k_rhs K) ! r)" using assms(2) l by (simp add: list_all_length)
  then show "int (k_terms K) \<le> lhs_of T r" "lhs_of T r < int (k_syms K)"
    "yyRuleInfo T ! r = (lhs_of T r, length (k_rhs K ! r))"
    using assms(2) l by (auto simp: lhs_of_def split: prod.splits)
qed

lemma valid_goto:
  assumes "valid T K" "0 \<le> s" "s < YYNSTATE T" "r < length (yyRuleInfo T)" "lr_path T K s (k_rhs K ! r) = Some s1"
    "0 \<le> x" "x < int (k_terms K)" "act T s1 x = Some (YYNSTATE T + int r)"
  shows "goto_ok T s r"
proof -
  have "case lr_path T K s (k_rhs K ! r) of None \<Rightarrow> True | Some s1 \<Rightarrow> reduces T K s1 r \<longrightarrow> goto_ok T s r"
    using assms(1-4) unfolding valid_def valid_gotos_def list_all_iff by simp
  moreover have "reduces T K s1 r" unfolding reduces_def list_ex_iff using assms(6-8) by auto
  ultimately show ?thesis using assms(5) by simp
qed

section \<open>The stack is a path of the machine\<close>

fun lr_stack :: "lemon \<Rightarrow> lr_cert \<Rightarrow> 'v yyStackEntry list \<Rightarrow> bool" where
  "lr_stack T K [] = False"
| "lr_stack T K [e] = (stateno e = 0)"
| "lr_stack T K (e # d # es) \<longleftrightarrow>
     0 \<le> major e \<and> major e < int (k_syms K) \<and> lr_step T K (stateno d) (major e) = Some (stateno e) \<and> lr_stack T K (d # es)"

lemma lr_stack_top:
  assumes "valid T K"
  shows "lr_stack T K (e # es) \<Longrightarrow> 0 \<le> stateno e \<and> stateno e < YYNSTATE T \<and>
    prefix (past K (stateno e)) (map major (butlast (e # es)))"
proof (induction es arbitrary: e)
  case Nil
  then show ?case using valid_size [OF assms] by simp
next
  case (Cons d es)
  then have d: "0 \<le> stateno d" "stateno d < YYNSTATE T" "prefix (past K (stateno d)) (map major (butlast (d # es)))"
    by simp_all
  have e: "0 \<le> major e" "major e < int (k_syms K)" "lr_step T K (stateno d) (major e) = Some (stateno e)"
    using Cons.prems by simp_all
  note st = valid_step [OF assms d(1,2) e]
  have "prefix (major e # past K (stateno d)) (map major (butlast (e # d # es)))" using d(3) by simp
  then show ?case using st prefix_order.trans by fastforce
qed

lemma lr_stack_drop: "lr_stack T K es \<Longrightarrow> n < length es \<Longrightarrow> lr_stack T K (drop n es)"
proof (induction n arbitrary: es)
  case (Suc n)
  then obtain e d ds where "es = e # d # ds" by (cases es; cases "tl es") auto
  then show ?case using Suc.IH [of "d # ds"] Suc.prems by simp
qed simp

lemma lr_path_snoc: "lr_path T K s (xs @ [x]) = Option.bind (lr_path T K s xs) (\<lambda>t. lr_step T K t x)"
  by (induction xs arbitrary: s) (auto split: option.splits)

lemma lr_stack_path:
  "lr_stack T K es \<Longrightarrow> n < length es \<Longrightarrow> lr_path T K (stateno (es ! n)) (rev (map major (take n es))) = Some (stateno (es ! 0))"
proof (induction n arbitrary: es)
  case (Suc n)
  then obtain e d ds where es: "es = e # d # ds" by (cases es; cases "tl es") auto
  then show ?case using Suc.IH [of "d # ds"] Suc.prems by (simp add: lr_path_snoc)
qed simp

lemma reduce_ok:
  assumes "valid T K" "lr_stack T K (e # es)" "0 \<le> x" "x < int (k_terms K)" "act T (stateno e) x = Some (YYNSTATE T + int r)"
    "r < length (yyRuleInfo T)"
  shows "length (k_rhs K ! r) < length (e # es)"
    "map major (take (length (k_rhs K ! r)) (e # es)) = rev (k_rhs K ! r)"
    "goto_ok T (stateno ((e # es) ! length (k_rhs K ! r))) r"
    "0 \<le> stateno ((e # es) ! length (k_rhs K ! r))" "stateno ((e # es) ! length (k_rhs K ! r)) < YYNSTATE T"
proof -
  let ?n = "length (k_rhs K ! r)" and ?es = "e # es"
  note top = lr_stack_top [OF assms(1,2)]
  have "action_ok T K (stateno e) x (YYNSTATE T + int r)"
    using valid_act [OF assms(1), of "stateno e" x] top assms(3-5) by fastforce
  then have "prefix (rev (k_rhs K ! r)) (past K (stateno e))"
    using assms(6) valid_size(3) [OF assms(1)] by (simp add: action_ok_def YY_ERROR_ACTION_def)
  then have p: "prefix (rev (k_rhs K ! r)) (map major (butlast ?es))" using top prefix_order.trans by blast
  then show n: "?n < length ?es" using prefix_length_le [OF p] by (simp split: if_splits)
  obtain zs where "map major (butlast ?es) = rev (k_rhs K ! r) @ zs" using p by (auto elim: prefixE)
  then have "take ?n (map major (butlast ?es)) = rev (k_rhs K ! r)" by simp
  moreover have "take ?n (butlast ?es) = take ?n ?es" using n by (rule take_butlast)
  ultimately show m: "map major (take ?n ?es) = rev (k_rhs K ! r)" by (metis take_map)
  have "lr_stack T K (drop ?n ?es)" by (rule lr_stack_drop [OF assms(2) n])
  moreover have "drop ?n ?es = ?es ! ?n # drop (Suc ?n) ?es" using Cons_nth_drop_Suc [OF n] by simp
  ultimately show s: "0 \<le> stateno (?es ! ?n)" "stateno (?es ! ?n) < YYNSTATE T"
    using lr_stack_top [OF assms(1)] by metis+
  have "lr_path T K (stateno (?es ! ?n)) (k_rhs K ! r) = Some (stateno e)"
    using lr_stack_path [OF assms(2) n] m by simp
  then show "goto_ok T (stateno (?es ! ?n)) r" by (rule valid_goto [OF assms(1) s assms(6) _ assms(3,4,5)])
qed

section \<open>The values on the stack are those of parse trees\<close>

definition is_tree :: "lemon \<Rightarrow> lr_cert \<Rightarrow> (nat \<Rightarrow> 'v list \<Rightarrow> 'v) \<Rightarrow> 'v yyStackEntry \<Rightarrow> 'v tree \<Rightarrow> bool" where
  "is_tree T K f e t \<longleftrightarrow> wf_tree T K t \<and> tree_root T t = major e \<and> tree_val f t = minor e"

text \<open>All entries but the bottom one stand for trees, and the leaves of these are the tokens \<open>toks\<close>.\<close>

definition covers ::
  "lemon \<Rightarrow> lr_cert \<Rightarrow> (nat \<Rightarrow> 'v list \<Rightarrow> 'v) \<Rightarrow> 'v yyStackEntry list \<Rightarrow> (int \<times> 'v) list \<Rightarrow> bool" where
  "covers T K f es toks \<longleftrightarrow>
     (\<exists>ts. list_all2 (is_tree T K f) (butlast es) ts \<and> concat (map leaves (rev ts)) = toks)"

lemma covers_shift:
  assumes "covers T K f es toks" "es \<noteq> []" "0 < x" "x < int (k_terms K)"
  shows "covers T K f (\<lparr>stateno = s, major = x, minor = v\<rparr> # es) (toks @ [(x, v)])"
proof -
  obtain ts where ts: "list_all2 (is_tree T K f) (butlast es) ts" "concat (map leaves (rev ts)) = toks"
    using assms(1) by (auto simp: covers_def)
  have "is_tree T K f \<lparr>stateno = s, major = x, minor = v\<rparr> (Leaf x v)" using assms(3,4) by (simp add: is_tree_def)
  then show ?thesis using ts assms(2) unfolding covers_def by (intro exI [of _ "Leaf x v # ts"]) simp
qed

lemma covers_split:
  assumes "covers T K f es toks" "length rhs < length es" "map major (take (length rhs) es) = rev rhs"
  obtains us ws where "list_all2 (is_tree T K f) (butlast (drop (length rhs) es)) ws"
    "map (tree_root T) us = rhs" "map (tree_val f) us = rev (map minor (take (length rhs) es))"
    "\<forall>t \<in> set us. wf_tree T K t" "toks = concat (map leaves (rev ws)) @ concat (map leaves us)"
proof -
  let ?n = "length rhs"
  obtain ts where ts: "list_all2 (is_tree T K f) (butlast es) ts" "concat (map leaves (rev ts)) = toks"
    using assms(1) by (auto simp: covers_def)
  have b: "butlast es = take ?n es @ butlast (drop ?n es)"
    using assms(2) by (metis append_take_drop_id butlast_append drop_eq_Nil not_le)
  then obtain us ws where uw: "ts = us @ ws" "list_all2 (is_tree T K f) (take ?n es) us"
    "list_all2 (is_tree T K f) (butlast (drop ?n es)) ws"
    using ts(1) by (auto simp: list_all2_append1)
  have "map (tree_root T) us = map major (take ?n es)" "map (tree_val f) us = map minor (take ?n es)"
    using uw(2) by (induction rule: list_all2_induct) (simp_all add: is_tree_def)
  moreover have "\<forall>t \<in> set us. wf_tree T K t"
    using uw(2) by (induction rule: list_all2_induct) (simp_all add: is_tree_def)
  ultimately show thesis using that [of ws "rev us"] uw(1,3) ts(2) assms(3) by (simp add: rev_map [symmetric])
qed

lemma covers_reduce:
  assumes "valid T K" "covers T K f es toks" "r < length (yyRuleInfo T)" "length (k_rhs K ! r) < length es"
    "map major (take (length (k_rhs K ! r)) es) = rev (k_rhs K ! r)"
  shows "covers T K f
    (\<lparr>stateno = s, major = lhs_of T r, minor = f r (rev (map minor (take (length (k_rhs K ! r)) es)))\<rparr> #
     drop (length (k_rhs K ! r)) es) toks"
proof -
  let ?n = "length (k_rhs K ! r)"
  obtain us ws where u: "list_all2 (is_tree T K f) (butlast (drop ?n es)) ws" "map (tree_root T) us = k_rhs K ! r"
    "map (tree_val f) us = rev (map minor (take ?n es))" "\<forall>t \<in> set us. wf_tree T K t"
    "toks = concat (map leaves (rev ws)) @ concat (map leaves us)"
    using covers_split [OF assms(2,4,5)] .
  have "is_tree T K f \<lparr>stateno = s, major = lhs_of T r, minor = f r (rev (map minor (take ?n es)))\<rparr> (Node r us)"
    using u assms(3) by (simp add: is_tree_def)
  then show ?thesis using u(1,5) assms(4) unfolding covers_def by (intro exI [of _ "Node r us # ws"]) simp
qed

section \<open>One round\<close>

lemma pop_all_stack [simp]: "yystack (pop_all C p) = []"
proof (induction C p rule: pop_all.induct)
  case (1 C p)
  then show ?case by (subst pop_all.simps) simp
qed

lemma emptied [simp]:
  "yystack (yyStackOverflow C p) = []" "yystack (yy_accept C p) = []" "yystack (yy_parse_failed C p) = []"
  by (simp_all add: yyStackOverflow_def yy_accept_def yy_parse_failed_def Let_def)

lemma yyGrowStack_stack [simp]: "yystack (yyGrowStack C p) = yystack p"
  by (simp add: yyGrowStack_def Let_def)

lemma yy_shift_stack:
  "yystack (yy_shift T C s x v p) = [] \<or>
   yystack (yy_shift T C s x v p) = \<lparr>stateno = s, major = x, minor = v\<rparr> # yystack p"
  by (simp add: yy_shift_def push_entry_def Let_def)

lemma yy_shift_cases:
  obtains "yystack (yy_shift T C s x v p) = []"
  | "yystack (yy_shift T C s x v p) = \<lparr>stateno = s, major = x, minor = v\<rparr> # yystack p"
  using yy_shift_stack [of T C s x v p] by blast

definition pure :: "('v, 'u) code \<Rightarrow> (nat \<Rightarrow> 'v list \<Rightarrow> 'v) \<Rightarrow> bool" where
  "pure C f \<longleftrightarrow> (\<forall>r vs u. fst (c_reduce C r vs u) = f r vs)"

text \<open>The machine and the tokens it has shifted.\<close>

definition parsed ::
  "lemon \<Rightarrow> lr_cert \<Rightarrow> (nat \<Rightarrow> 'v list \<Rightarrow> 'v) \<Rightarrow> ('v, 'u) yyParser \<Rightarrow> (int \<times> 'v) list \<Rightarrow> bool" where
  "parsed T K f p toks \<longleftrightarrow> lr_stack T K (yystack p) \<and> covers T K f (yystack p) toks"

lemma parsed_start: "yystack p = [] \<Longrightarrow> parsed T K f (start_parser C p) []"
  by (simp add: parsed_def start_parser_def push_entry_def covers_def)

lemma plain_act: "plain T \<Longrightarrow> yy_find_shift_action T p x = Option.bind (top_state p) (\<lambda>s. act T s x)"
  by (simp add: yy_find_shift_action_def plain_def)

text \<open>The three kinds of rounds, for a token of the grammar or the end of the input.\<close>

lemma action_cases:
  assumes "valid T K" "lr_stack T K (yystack p)" "0 \<le> x" "x < int (k_terms K)"
  obtains (shift) s where "yy_find_shift_action T p x = Some s" "0 < x" "s < YYNSTATE T"
      "lr_step T K (stateno (hd (yystack p))) x = Some s"
  | (reduce) r where "yy_find_shift_action T p x = Some (YYNSTATE T + int r)" "r < length (yyRuleInfo T)"
      "act T (stateno (hd (yystack p))) x = Some (YYNSTATE T + int r)"
  | (error) "yy_find_shift_action T p x = Some (YY_ERROR_ACTION T)"
proof -
  obtain e es where st: "yystack p = e # es" using assms(2) by (cases "yystack p") auto
  have "0 \<le> stateno e" "stateno e < YYNSTATE T" using lr_stack_top [OF assms(1)] assms(2) st by auto
  then obtain a where a: "act T (stateno e) x = Some a" "action_ok T K (stateno e) x a"
    using valid_act [OF assms(1) _ _ assms(3,4)] by blast
  have pl: "plain T" using assms(1) by (simp add: valid_def)
  have f: "yy_find_shift_action T p x = Some a" using a(1) st by (simp add: plain_act [OF pl] top_state_def)
  consider "a < YYNSTATE T" | "YYNSTATE T \<le> a" "a < YY_ERROR_ACTION T" | "a = YY_ERROR_ACTION T"
    using a(2) by (fastforce simp: action_ok_def)
  then show thesis
  proof cases
    case 1
    then have "0 < x" using a(2) assms(3) by (auto simp: action_ok_def)
    moreover have "lr_step T K (stateno e) x = Some a" using a(1) 1 assms(4) by (simp add: lr_step_def)
    ultimately show thesis using shift [of a] f 1 st by simp
  next
    case 2
    then have "a = YYNSTATE T + int (nat (a - YYNSTATE T))" "nat (a - YYNSTATE T) < length (yyRuleInfo T)"
      using valid_size(3) [OF assms(1)] by (auto simp: YY_ERROR_ACTION_def)
    then show thesis using reduce [of "nat (a - YYNSTATE T)"] f a(1) st by simp
  qed (use error f in simp)
qed

lemma at_nat [simp]: "r < length xs \<Longrightarrow> at xs (int r) = Some (xs ! r)"
  by (simp add: at_def)

text \<open>A reduction is possible, and this is what it does.\<close>

lemma yy_reduce_eq:
  fixes C :: "('v, 'u) code"
  assumes "valid T K" "lr_stack T K (yystack p)" "0 \<le> x" "x < int (k_terms K)" "r < length (yyRuleInfo T)"
    "act T (stateno (hd (yystack p))) x = Some (YYNSTATE T + int r)"
  defines "n \<equiv> length (k_rhs K ! r)"
  defines "v \<equiv> fst (c_reduce C r (rev (map minor (take n (yystack p)))) (yyextra p))"
    and "p1 \<equiv> p\<lparr>yystack := drop n (yystack p),
              yyextra := snd (c_reduce C r (rev (map minor (take n (yystack p)))) (yyextra p))\<rparr>"
  obtains (goto) t where "lr_step T K (stateno (hd (drop n (yystack p)))) (lhs_of T r) = Some t" "t < YYNSTATE T"
      "yy_reduce T C (int r) p =
         Some (if NDEBUG T \<and> 0 < n then push_entry t (lhs_of T r) v p1 else yy_shift T C t (lhs_of T r) v p1)"
  | (accept) "yy_find_reduce_action T 0 (lhs_of T r) = Some (YY_ACCEPT_ACTION T)"
      "stateno (hd (drop n (yystack p))) = 0" "yy_reduce T C (int r) p = Some (yy_accept C p1)"
proof -
  obtain e es where st: "yystack p = e # es" using assms(2) by (cases "yystack p") auto
  have a: "act T (stateno e) x = Some (YYNSTATE T + int r)" using assms(6) st by simp
  note ok = reduce_ok [OF assms(1) assms(2) [unfolded st] assms(3,4) a assms(5), folded n_def]
  have d: "drop n (e # es) = (e # es) ! n # drop (Suc n) (e # es)" using Cons_nth_drop_Suc [OF ok(1)] by simp
  define s where "s = stateno ((e # es) ! n)"
  have ts: "top_state p1 = Some s" "stateno (hd (drop n (yystack p))) = s"
    using d by (simp_all add: p1_def st top_state_def s_def)
  have ri: "at (yyRuleInfo T) (int r) = Some (lhs_of T r, n)"
    using valid_rule(3) [OF assms(1,5)] assms(5) by (simp add: n_def)
  obtain t where t: "yy_find_reduce_action T s (lhs_of T r) = Some t" "t < YYNSTATE T \<or> t = YY_ACCEPT_ACTION T \<and> s = 0"
    using ok(3) by (auto simp: goto_ok_def s_def split: option.splits)
  have red: "yy_reduce T C (int r) p =
      (if t < YYNSTATE T then
         Some (if NDEBUG T \<and> 0 < n then push_entry t (lhs_of T r) v p1 else yy_shift T C t (lhs_of T r) v p1)
       else if t = YY_ACCEPT_ACTION T then Some (yy_accept C p1) else None)"
    using ok(1) ri ts(1) t(1)
    by (simp add: yy_reduce_def st v_def p1_def case_prod_beta not_le Let_def)
  show thesis
  proof (cases "t < YYNSTATE T")
    case True
    have "lr_step T K s (lhs_of T r) = Some t"
      using t(1) True valid_rule(1) [OF assms(1,5)] by (simp add: lr_step_def)
    then show thesis using goto [of t] ts(2) True red by simp
  next
    case False
    then show thesis using accept t ts(2) red by simp
  qed
qed

lemma lr_stack_push:
  "lr_stack T K es \<Longrightarrow> 0 \<le> x \<Longrightarrow> x < int (k_syms K) \<Longrightarrow> lr_step T K (stateno (hd es)) x = Some s \<Longrightarrow>
    lr_stack T K (\<lparr>stateno = s, major = x, minor = v\<rparr> # es)"
  by (cases es) simp_all

lemma yy_reduce_parsed:
  assumes "valid T K" "pure C f" "parsed T K f p toks" "0 \<le> x" "x < int (k_terms K)" "r < length (yyRuleInfo T)"
    "act T (stateno (hd (yystack p))) x = Some (YYNSTATE T + int r)"
  obtains p' where "yy_reduce T C (int r) p = Some p'" "yystack p' = [] \<or> parsed T K f p' toks"
proof -
  let ?n = "length (k_rhs K ! r)"
  let ?v = "f r (rev (map minor (take ?n (yystack p))))"
  have st: "lr_stack T K (yystack p)" "covers T K f (yystack p) toks" using assms(3) by (simp_all add: parsed_def)
  obtain e es where es: "yystack p = e # es" using st(1) by (cases "yystack p") auto
  have a: "act T (stateno e) x = Some (YYNSTATE T + int r)" using assms(7) es by simp
  note ok = reduce_ok [OF assms(1) st(1) [unfolded es] assms(4,5) a assms(6)]
  have v: "fst (c_reduce C r vs u) = f r vs" for vs u using assms(2) by (simp add: pure_def)
  have new: "parsed T K f p' toks"
    if "yystack p' = \<lparr>stateno = t, major = lhs_of T r, minor = ?v\<rparr> # drop ?n (yystack p)"
      "lr_step T K (stateno (hd (drop ?n (yystack p)))) (lhs_of T r) = Some t" for p' t
  proof -
    have "lr_stack T K (yystack p')"
      unfolding that(1)
      by (rule lr_stack_push [OF lr_stack_drop [OF st(1)] _ _ that(2)])
        (use ok(1) es valid_rule(1,2) [OF assms(1,6)] in simp_all)
    moreover have "covers T K f (yystack p') toks"
      unfolding that(1) by (rule covers_reduce [OF assms(1) st(2) assms(6)]) (use ok(1,2) es in simp_all)
    ultimately show ?thesis by (simp add: parsed_def)
  qed
  from assms(1) st(1) assms(4-7) show thesis
  proof (cases rule: yy_reduce_eq [where C = C])
    case (goto t)
    let ?p1 = "p\<lparr>yystack := drop ?n (yystack p),
              yyextra := snd (c_reduce C r (rev (map minor (take ?n (yystack p)))) (yyextra p))\<rparr>"
    have "parsed T K f (push_entry t (lhs_of T r) ?v ?p1) toks"
      by (rule new [OF _ goto(1)]) (simp add: push_entry_def)
    moreover have "yystack (yy_shift T C t (lhs_of T r) ?v ?p1) = [] \<or> parsed T K f (yy_shift T C t (lhs_of T r) ?v ?p1) toks"
      by (rule yy_shift_cases [of T C t "lhs_of T r" ?v ?p1]) (use new [OF _ goto(1)] in simp_all)
    ultimately show thesis using that goto(3) by (auto simp: v split: if_splits)
  next
    case accept
    then show thesis using that by simp
  qed
qed

section \<open>The loop\<close>

lemma pop_all_errcnt [simp]: "yyerrcnt (pop_all C p) = yyerrcnt p"
proof (induction C p rule: pop_all.induct)
  case (1 C p)
  then show ?case
    by (subst pop_all.simps) (auto simp: yy_pop_parser_stack_def split: list.splits)
qed

lemma errcnt_kept [simp]:
  "yyerrcnt (yyStackOverflow C p) = yyerrcnt p" "yyerrcnt (yy_accept C p) = yyerrcnt p"
  "yyerrcnt (yy_parse_failed C p) = yyerrcnt p" "yyerrcnt (yyGrowStack C p) = yyerrcnt p"
  "yyerrcnt (push_entry s x v p) = yyerrcnt p"
  by (simp_all add: yyStackOverflow_def yy_accept_def yy_parse_failed_def yyGrowStack_def push_entry_def Let_def)

lemma shift_errcnt [simp]: "yyerrcnt (yy_shift T C s x v p) = yyerrcnt p"
  by (simp add: yy_shift_def Let_def)

lemma reduce_errcnt: "yy_reduce T C r p = Some p' \<Longrightarrow> yyerrcnt p' = yyerrcnt p"
  by (auto simp: yy_reduce_def bind_eq_Some_conv case_prod_beta Let_def split: if_splits)

lemma discard_token_facts:
  "yystack (discard_token T C x v e p) = [] \<or> yystack (discard_token T C x v e p) = yystack p"
  "\<not> YYNOERRORRECOVERY T \<Longrightarrow> yyerrcnt (discard_token T C x v e p) = 3"
  by (simp_all add: discard_token_def destroy_def yy_syntax_error_def Let_def)

lemma plain_error: "plain T \<Longrightarrow> on_error T C x v e h p = Some (discard_token T C x v e p, YYNOCODE T)"
  by (simp add: on_error_def plain_def)

lemma valid_plain: "valid T K \<Longrightarrow> plain T"
  by (simp add: valid_def)

text \<open>A round on a token of the grammar shifts it, reduces, or throws it away.\<close>

lemma round_cases:
  assumes "valid T K" "pure C f" "parsed T K f p toks" "0 \<le> x" "x < int (k_terms K)"
  obtains (shift) p' where "parse_round T C v (x = 0) (p, x, h) = Some (p', YYNOCODE T, h)" "0 < x"
      "yyerrcnt p' = yyerrcnt p - 1" "yystack p' = [] \<or> parsed T K f p' (toks @ [(x, v)])"
  | (reduce) r p' where "parse_round T C v (x = 0) (p, x, h) = Some (p', x, h)" "yy_reduce T C (int r) p = Some p'"
      "r < length (yyRuleInfo T)" "act T (stateno (hd (yystack p))) x = Some (YYNSTATE T + int r)"
      "yyerrcnt p' = yyerrcnt p" "yystack p' = [] \<or> parsed T K f p' toks"
  | (error) p' where "parse_round T C v (x = 0) (p, x, h) = Some (p', YYNOCODE T, True)" "yyerrcnt p' = 3"
      "yystack p' = [] \<or> parsed T K f p' toks"
proof -
  have st: "lr_stack T K (yystack p)" "covers T K f (yystack p) toks" using assms(3) by (simp_all add: parsed_def)
  from assms(1) st(1) assms(4,5) show thesis
  proof (cases rule: action_cases)
    case (shift s)
    let ?p = "yy_shift T C s x v p"
    have syms: "x < int (k_syms K)" using assms(5) valid_size(5) [OF assms(1)] by linarith
    have "yystack ?p = [] \<or> parsed T K f ?p (toks @ [(x, v)])"
    proof (rule yy_shift_cases [of T C s x v p])
      assume y: "yystack ?p = \<lparr>stateno = s, major = x, minor = v\<rparr> # yystack p"
      have "yystack p \<noteq> []" using st(1) by auto
      then show ?thesis
        using y lr_stack_push [OF st(1) assms(4) syms shift(4)] covers_shift [OF st(2) _ shift(2) assms(5)]
        by (simp add: parsed_def)
    qed simp
    then show thesis using shift that(1) [of "?p\<lparr>yyerrcnt := yyerrcnt ?p - 1\<rparr>"]
      by (simp add: parse_round_def parsed_def Let_def)
  next
    case (reduce r)
    obtain p' where p': "yy_reduce T C (int r) p = Some p'" "yystack p' = [] \<or> parsed T K f p' toks"
      by (rule yy_reduce_parsed [OF assms reduce(2,3)])
    have "YYNSTATE T + int r < YYNSTATE T + YYNRULE T" using reduce(2) valid_size(3) [OF assms(1)] by simp
    then show thesis using that(2) [OF _ p'(1) reduce(2,3) reduce_errcnt [OF p'(1)] p'(2)] reduce(1) p'(1)
      by (simp add: parse_round_def)
  next
    case error
    have "0 \<le> YYNRULE T" using valid_size(3) [OF assms(1)] by simp
    then have "parse_round T C v (x = 0) (p, x, h) = Some (discard_token T C x v (x = 0) p, YYNOCODE T, True)"
      using error by (simp add: parse_round_def YY_ERROR_ACTION_def plain_error [OF valid_plain [OF assms(1)]])
    then show thesis
    proof (rule that(3))
      show "yyerrcnt (discard_token T C x v (x = 0) p) = 3"
        using valid_plain [OF assms(1)] by (intro discard_token_facts(2)) (simp add: plain_def)
      show "yystack (discard_token T C x v (x = 0) p) = [] \<or> parsed T K f (discard_token T C x v (x = 0) p) toks"
        using discard_token_facts(1) [of T C x v "x = 0" p] st by (auto simp: parsed_def)
    qed
  qed
qed

lemma no_code: "valid T K \<Longrightarrow> x < int (k_terms K) \<Longrightarrow> x \<noteq> YYNOCODE T"
  using valid_size(5,6) [of T K] by auto

lemma loop_safe:
  assumes "valid T K" "pure C f" "0 \<le> x" "x < int (k_terms K)"
  shows "parsed T K f p toks \<Longrightarrow> parse_loop n T C v (x = 0) (p, x, h) \<noteq> Crash \<and>
    (\<forall>p'. parse_loop n T C v (x = 0) (p, x, h) = Done p' \<longrightarrow>
       yystack p' = [] \<or> parsed T K f p' toks \<or> parsed T K f p' (toks @ [(x, v)]))"
proof (induction n arbitrary: p h)
  case (Suc n)
  from assms(1,2) Suc.prems assms(3,4) show ?case
  proof (cases rule: round_cases [where v = v and h = h])
    case (reduce r p')
    then show ?thesis using Suc.IH [of p' h] no_code [OF assms(1,4)] by auto
  qed auto
qed simp

section \<open>A whole input\<close>

lemma loop_token:
  assumes "valid T K" "pure C f" "0 < x" "x < int (k_terms K)"
  shows "parsed T K f p toks \<Longrightarrow> yyerrcnt p < 0 \<Longrightarrow> parse_loop n T C v (x = 0) (p, x, h) = Done p' \<Longrightarrow> yyerrcnt p' < 0 \<Longrightarrow>
    yystack p' = [] \<or> parsed T K f p' (toks @ [(x, v)])"
proof (induction n arbitrary: p h)
  case (Suc n)
  have x: "0 \<le> x" using assms(3) by simp
  from assms(1,2) Suc.prems(1) x assms(4) show ?case
  proof (cases rule: round_cases [where v = v and h = h])
    case (reduce r q)
    then show ?thesis using Suc no_code [OF assms(1,4)] by (cases "yystack q = []") auto
  qed (use Suc.prems in auto)
qed simp

text \<open>The last reduction: by a rule of the start symbol, with nothing but the bottom left under its right side.\<close>

definition accepts ::
  "lemon \<Rightarrow> lr_cert \<Rightarrow> ('v, 'u) code \<Rightarrow> (nat \<Rightarrow> 'v list \<Rightarrow> 'v) \<Rightarrow> (int \<times> 'v) list \<Rightarrow> ('v, 'u) yyParser \<Rightarrow> bool" where
  "accepts T K C f toks p' \<longleftrightarrow>
     (\<exists>r us p1 u. wf_tree T K (Node r us) \<and> leaves (Node r us) = toks \<and>
        yy_find_reduce_action T 0 (lhs_of T r) = Some (YY_ACCEPT_ACTION T) \<and>
        p' = yy_accept C p1 \<and> length (yystack p1) = 1 \<and> yyextra p1 = snd (c_reduce C r (map (tree_val f) us) u))"

lemma lr_stack_zero:
  assumes "valid T K" "lr_stack T K (e # es)" "stateno e = 0"
  shows "es = []"
proof (cases es)
  case (Cons d ds)
  then have "lr_stack T K (d # ds)" "0 \<le> major e" "major e < int (k_syms K)"
    "lr_step T K (stateno d) (major e) = Some (stateno e)" using assms(2) by simp_all
  then show ?thesis using valid_step(1) [OF assms(1)] lr_stack_top [OF assms(1)] assms(3) by fastforce
qed

lemma pop_all_max [simp]: "yyidxMax (pop_all C p) = yyidxMax p"
proof (induction C p rule: pop_all.induct)
  case (1 C p)
  then show ?case
    by (subst pop_all.simps) (auto simp: yy_pop_parser_stack_def split: list.splits)
qed

text \<open>An overflow shows in the peak.\<close>

lemma overflow_peak:
  "0 < YYSTACKDEPTH T \<Longrightarrow> yystack (yy_shift T C s x v p) = [] \<Longrightarrow> YYSTACKDEPTH T \<le> ParseStackPeak (yy_shift T C s x v p)"
  by (auto simp: yy_shift_def push_entry_def yyStackOverflow_def ParseStackPeak_def Let_def split: if_splits)

lemma reduce_accepts:
  assumes "0 < YYSTACKDEPTH T" "valid T K" "pure C f" "parsed T K f p toks" "0 \<le> x" "x < int (k_terms K)" "r < length (yyRuleInfo T)"
    "act T (stateno (hd (yystack p))) x = Some (YYNSTATE T + int r)" "yy_reduce T C (int r) p = Some p'" "yystack p' = []"
  shows "YYSTACKDEPTH T \<le> ParseStackPeak p' \<or> accepts T K C f toks p'"
proof -
  let ?n = "length (k_rhs K ! r)"
  have st: "lr_stack T K (yystack p)" "covers T K f (yystack p) toks" using assms(4) by (simp_all add: parsed_def)
  obtain e es where es: "yystack p = e # es" using st(1) by (cases "yystack p") auto
  have a: "act T (stateno e) x = Some (YYNSTATE T + int r)" using assms(8) es by simp
  note ok = reduce_ok [OF assms(2) st(1) [unfolded es] assms(5,6) a assms(7)]
  from assms(2) st(1) assms(5-8) show ?thesis
  proof (cases rule: yy_reduce_eq [where C = C])
    case (goto t)
    show ?thesis using goto(3) overflow_peak [OF assms(1)] assms(9,10) by (auto simp: push_entry_def split: if_splits)
  next
    case accept
    let ?ds = "drop ?n (yystack p)"
    have ds: "lr_stack T K ?ds" by (rule lr_stack_drop [OF st(1)]) (use ok(1) es in simp)
    then obtain d where d: "?ds = [d]"
      using lr_stack_zero [OF assms(2)] accept(2) by (cases ?ds) fastforce+
    have l: "?n < length (yystack p)" "map major (take ?n (yystack p)) = rev (k_rhs K ! r)"
      using ok(1,2) es by simp_all
    obtain us ws where u: "list_all2 (is_tree T K f) (butlast ?ds) ws" "map (tree_root T) us = k_rhs K ! r"
      "map (tree_val f) us = rev (map minor (take ?n (yystack p)))" "\<forall>t \<in> set us. wf_tree T K t"
      "toks = concat (map leaves (rev ws)) @ concat (map leaves us)"
      using covers_split [OF st(2) l] .
    have "ws = []" using u(1) d by simp
    then have "wf_tree T K (Node r us)" "leaves (Node r us) = toks" using u assms(7) by simp_all
    then show ?thesis using accept(1,3) assms(9) u(3) d unfolding accepts_def
      by (intro disjI2 exI [of _ r] exI [of _ us] exI [of _ "yyextra p"] exI) auto
  qed
qed

lemma loop_end:
  assumes "0 < YYSTACKDEPTH T" "valid T K" "pure C f"
  shows "parsed T K f p toks \<Longrightarrow> yyerrcnt p < 0 \<Longrightarrow> parse_loop n T C v True (p, 0, h) = Done p' \<Longrightarrow> yyerrcnt p' < 0 \<Longrightarrow>
    YYSTACKDEPTH T \<le> ParseStackPeak p' \<or> accepts T K C f toks p'"
proof (induction n arbitrary: p h)
  case (Suc n)
  have x: "(0 :: int) \<le> 0" "0 < int (k_terms K)" using valid_size(4) [OF assms(2)] by simp_all
  from assms(2,3) Suc.prems(1) x show ?case
  proof (cases rule: round_cases [where v = v and h = h])
    case (reduce r q)
    show ?thesis
    proof (cases "yystack q = []")
      case True
      then show ?thesis using reduce_accepts [OF assms Suc.prems(1) x reduce(3,4,2)] reduce(1) Suc.prems(3) by simp
    next
      case False
      then show ?thesis using reduce(1,5,6) Suc no_code [OF assms(2) x(2)] by auto
    qed
  qed (use Suc.prems in auto)
qed simp

text \<open>The front end calls \<open>Parse\<close> once per token.\<close>

fun feed ::
  "nat \<Rightarrow> lemon \<Rightarrow> ('v, 'u) code \<Rightarrow> ('v, 'u) yyParser \<Rightarrow> (int \<times> 'v) list \<Rightarrow> ('v, 'u) yyParser outcome" where
  "feed n T C p [] = Done p"
| "feed n T C p ((x, v) # xs) = (case Parse n T C p x v of Done p' \<Rightarrow> feed n T C p' xs | r \<Rightarrow> r)"

text \<open>The same with every token taken: no syntax error, no overflow.\<close>

fun fed ::
  "nat \<Rightarrow> lemon \<Rightarrow> ('v, 'u) code \<Rightarrow> ('v, 'u) yyParser \<Rightarrow> (int \<times> 'v) list \<Rightarrow> ('v, 'u) yyParser option" where
  "fed n T C p [] = Some p"
| "fed n T C p ((x, v) # xs) =
     (case Parse n T C p x v of
        Done p' \<Rightarrow> if yystack p' = [] \<or> 0 \<le> yyerrcnt p' then None else fed n T C p' xs
      | _ \<Rightarrow> None)"

text \<open>Between two tokens.\<close>

definition between ::
  "lemon \<Rightarrow> lr_cert \<Rightarrow> (nat \<Rightarrow> 'v list \<Rightarrow> 'v) \<Rightarrow> ('v, 'u) yyParser \<Rightarrow> (int \<times> 'v) list \<Rightarrow> bool" where
  "between T K f p toks \<longleftrightarrow> yystack p = [] \<and> toks = [] \<or> parsed T K f p toks \<and> yyerrcnt p < 0"

lemma Parse_loop:
  "YYSTACKDEPTH T \<le> 0 \<longrightarrow> 0 < yystksz p \<or> yystack p \<noteq> [] \<Longrightarrow>
    Parse n T C p x v = parse_loop n T C v (x = 0) (if yystack p = [] then start_parser C p else p, x, False)"
  by (auto simp: Parse_def)

lemma start_errcnt [simp]: "yyerrcnt (start_parser C p) = -1"
  by (simp add: start_parser_def)

lemma between_start:
  assumes "between T K f p toks"
  shows "parsed T K f (if yystack p = [] then start_parser C p else p) toks"
    "yyerrcnt (if yystack p = [] then start_parser C p else p) < 0"
  using assms parsed_start [of p T K f C] by (auto simp: between_def parsed_def)

lemma Parse_token:
  assumes "valid T K" "pure C f" "between T K f p toks" "0 < x" "x < int (k_terms K)" "Parse n T C p x v = Done p'"
    "yystack p' \<noteq> []" "yyerrcnt p' < 0"
  shows "between T K f p' (toks @ [(x, v)])"
proof -
  have "\<not> (yystack p = [] \<and> YYSTACKDEPTH T \<le> 0 \<and> yystksz p \<le> 0)" using assms(6,7) by (auto simp: Parse_def)
  then have l: "parse_loop n T C v (x = 0) (if yystack p = [] then start_parser C p else p, x, False) = Done p'"
    using assms(6) by (simp only: Parse_def if_False)
  show ?thesis
    using loop_token [OF assms(1,2,4,5) between_start [OF assms(3), of C] l assms(8)] assms(7,8)
    by (simp add: between_def)
qed

lemma fed_between:
  "valid T K \<Longrightarrow> pure C f \<Longrightarrow> between T K f p toks \<Longrightarrow> list_all (\<lambda>(x, v). 0 < x \<and> x < int (k_terms K)) xs \<Longrightarrow>
    fed n T C p xs = Some p' \<Longrightarrow> between T K f p' (toks @ xs)"
proof (induction n T C p xs arbitrary: toks rule: fed.induct)
  case (2 n T C p x v xs)
  then obtain q where q: "Parse n T C p x v = Done q" "yystack q \<noteq> []" "yyerrcnt q < 0" "fed n T C q xs = Some p'"
    by (auto split: outcome.splits if_splits)
  have b: "between T K f q (toks @ [(x, v)])"
    using Parse_token [OF 2(2,3,4) _ _ q(1-3)] 2(5) by simp
  have "\<not> (yystack q = [] \<or> 0 \<le> yyerrcnt q)" using q(2,3) by simp
  then show ?case using 2(1) [OF q(1) _ 2(2,3) b _ q(4)] 2(5) by simp
qed simp

text \<open>C13: What the parser accepts is a parse. For tables with a valid certificate, when the tokens \<open>toks\<close> have all been
  taken without a syntax error and the end of the input is parsed without one, the parser has run the
  accept code on a rule of the start symbol whose right side are parse trees with the tokens \<open>toks\<close> as
  leaves, in their order, and the action of that rule got the values of these trees, computed bottom up by the actions
  of the rules. (The peak of the stack below \<open>YYSTACKDEPTH\<close> says that it has not overflowed.)\<close>

theorem lemon_accepts_parse_trees:
  assumes "valid T K" "pure C f" "list_all (\<lambda>(x, v). 0 < x \<and> x < int (k_terms K)) toks"
    "fed n T C (ParseAlloc T C u) toks = Some p" "Parse n T C p 0 v = Done p'" "yyerrcnt p' < 0"
    "0 < YYSTACKDEPTH T" "ParseStackPeak p' < YYSTACKDEPTH T"
  shows "accepts T K C f toks p'"
proof -
  have "between T K f (ParseAlloc T C u) []"
    by (simp add: between_def ParseAlloc_def Let_def)
  then have b: "between T K f p toks" using fed_between [OF assms(1,2) _ assms(3,4)] by fastforce
  have "parse_loop n T C v True (if yystack p = [] then start_parser C p else p, 0, False) = Done p'"
    using assms(5,7) by (auto simp: Parse_def)
  then have "YYSTACKDEPTH T \<le> ParseStackPeak p' \<or> accepts T K C f toks p'"
    by (rule loop_end [OF assms(7,1,2) between_start [OF b, of C] _ assms(6)])
  then show ?thesis using assms(8) by simp
qed

section \<open>The parser returns\<close>

text \<open>
  A rank of the states for each token that bounds the reductions: replacing the right side of a rule by its left
  side makes the sum of \<open>k\<close> for each entry and the rank of the top smaller.
\<close>

definition ranked :: "lemon \<Rightarrow> lr_cert \<Rightarrow> nat \<Rightarrow> (int \<Rightarrow> int \<Rightarrow> nat) \<Rightarrow> bool" where
  "ranked T K k rank \<longleftrightarrow>
     list_all (\<lambda>x. list_all (\<lambda>s0. list_all (\<lambda>r.
       case lr_path T K s0 (k_rhs K ! r) of
         None \<Rightarrow> True
       | Some s \<Rightarrow>
           act T s x = Some (YYNSTATE T + int r) \<longrightarrow>
             (case lr_step T K s0 (lhs_of T r) of
                None \<Rightarrow> True
              | Some t \<Rightarrow> k + rank t x < rank s x + k * length (k_rhs K ! r)))
       [0..<length (yyRuleInfo T)]) (ints (nat (YYNSTATE T)))) (ints (k_terms K))"

definition work :: "nat \<Rightarrow> (int \<Rightarrow> int \<Rightarrow> nat) \<Rightarrow> ('v, 'u) yyParser \<Rightarrow> int \<Rightarrow> nat" where
  "work k rank p x = k * length (yystack p) + rank (stateno (hd (yystack p))) x"

lemma ranked_less:
  assumes "ranked T K k rank" "0 \<le> x" "x < int (k_terms K)" "0 \<le> s0" "s0 < YYNSTATE T" "r < length (yyRuleInfo T)"
    "lr_path T K s0 (k_rhs K ! r) = Some s" "act T s x = Some (YYNSTATE T + int r)" "lr_step T K s0 (lhs_of T r) = Some t"
  shows "k + rank t x < rank s x + k * length (k_rhs K ! r)"
proof -
  have "case lr_path T K s0 (k_rhs K ! r) of
         None \<Rightarrow> True
       | Some s \<Rightarrow>
           act T s x = Some (YYNSTATE T + int r) \<longrightarrow>
             (case lr_step T K s0 (lhs_of T r) of
                None \<Rightarrow> True
              | Some t \<Rightarrow> k + rank t x < rank s x + k * length (k_rhs K ! r))"
    using assms(1-6) unfolding ranked_def list_all_iff by simp
  then show ?thesis using assms(7-9) by simp
qed

lemma reduce_work:
  assumes "valid T K" "ranked T K k rank" "lr_stack T K (yystack p)" "0 \<le> x" "x < int (k_terms K)" "r < length (yyRuleInfo T)"
    "act T (stateno (hd (yystack p))) x = Some (YYNSTATE T + int r)" "yy_reduce T C (int r) p = Some p'"
  shows "yystack p' = [] \<or> work k rank p' x < work k rank p x"
proof -
  let ?n = "length (k_rhs K ! r)"
  obtain e es where es: "yystack p = e # es" using assms(3) by (cases "yystack p") auto
  have a: "act T (stateno e) x = Some (YYNSTATE T + int r)" using assms(7) es by simp
  note ok = reduce_ok [OF assms(1) assms(3) [unfolded es] assms(4,5) a assms(6)]
  have hd: "hd (drop ?n (yystack p)) = (e # es) ! ?n" using ok(1) es by (metis hd_drop_conv_nth)
  from assms(1,3-7) show ?thesis
  proof (cases rule: yy_reduce_eq [where C = C])
    case (goto t)
    have "lr_path T K (stateno ((e # es) ! ?n)) (k_rhs K ! r) = Some (stateno e)"
      using lr_stack_path [OF assms(3) [unfolded es] ok(1)] ok(2) by simp
    then have "k + rank t x < rank (stateno e) x + k * ?n"
      using ranked_less [OF assms(2,4,5) ok(4,5) assms(6) _ a] goto(1) hd by simp
    moreover have "k * (Suc (length es) - ?n) + k * ?n = k * Suc (length es)"
      using ok(1) by (simp flip: add_mult_distrib2)
    ultimately have "k * Suc (Suc (length es) - ?n) + rank t x < k * Suc (length es) + rank (stateno e) x"
      by (simp del: mult_Suc add: mult_Suc_right)
    moreover have "yystack p' = [] \<or>
        (\<exists>m v. yystack p' = \<lparr>stateno = t, major = m, minor = v\<rparr> # drop ?n (yystack p))"
    proof (cases "NDEBUG T \<and> 0 < ?n")
      case True
      then show ?thesis using goto(3) assms(8) by (auto simp: push_entry_def)
    next
      case False
      then show ?thesis using goto(3) assms(8)
          yy_shift_stack [of T C t "lhs_of T r" "fst (c_reduce C r (rev (map minor (take ?n (yystack p)))) (yyextra p))"
            "p\<lparr>yystack := drop ?n (yystack p), yyextra := snd (c_reduce C r (rev (map minor (take ?n (yystack p)))) (yyextra p))\<rparr>"]
        by auto
    qed
    ultimately show ?thesis by (auto simp: work_def es)
  next
    case accept
    then show ?thesis using assms(8) by simp
  qed
qed

text \<open>Every state between two calls, after errors too.\<close>

definition ready :: "lemon \<Rightarrow> lr_cert \<Rightarrow> (nat \<Rightarrow> 'v list \<Rightarrow> 'v) \<Rightarrow> ('v, 'u) yyParser \<Rightarrow> bool" where
  "ready T K f p \<longleftrightarrow> yystack p = [] \<or> (\<exists>toks. parsed T K f p toks)"

lemma loop_returns:
  assumes "valid T K" "pure C f" "ranked T K k rank" "0 \<le> x" "x < int (k_terms K)"
  shows "parsed T K f p toks \<Longrightarrow> work k rank p x < n \<Longrightarrow>
    \<exists>p'. parse_loop n T C v (x = 0) (p, x, h) = Done p' \<and> ready T K f p'"
proof (induction n arbitrary: p h)
  case (Suc n)
  from assms(1,2) Suc.prems(1) assms(4,5) show ?case
  proof (cases rule: round_cases [where v = v and h = h])
    case (reduce r q)
    have "lr_stack T K (yystack p)" using Suc.prems(1) by (simp add: parsed_def)
    then have w: "yystack q = [] \<or> work k rank q x < work k rank p x"
      using reduce_work [OF assms(1,3) _ assms(4,5) reduce(3,4,2)] by blast
    show ?thesis
    proof (cases "yystack q = []")
      case True
      then show ?thesis using reduce(1) by (simp add: ready_def)
    next
      case False
      then show ?thesis using reduce(1,6) w Suc.IH [of q h] Suc.prems(2) no_code [OF assms(1,5)] by simp
    qed
  qed (auto simp: ready_def)
qed simp

lemma loop_mono:
  "parse_loop n T C v e s \<noteq> Running \<Longrightarrow> n \<le> m \<Longrightarrow> parse_loop m T C v e s = parse_loop n T C v e s"
proof (induction n arbitrary: s m)
  case (Suc n)
  then obtain m' where m: "m = Suc m'" "n \<le> m'" by (cases m) auto
  then show ?case using Suc.IH [of _ m'] Suc.prems(1) by (auto split: option.splits prod.splits)
qed simp

lemma Parse_mono: "Parse n T C p x v \<noteq> Running \<Longrightarrow> n \<le> m \<Longrightarrow> Parse m T C p x v = Parse n T C p x v"
  by (auto simp: Parse_def intro!: loop_mono split: if_splits)

lemma feed_mono: "feed n T C p xs \<noteq> Running \<Longrightarrow> n \<le> m \<Longrightarrow> feed m T C p xs = feed n T C p xs"
proof (induction n T C p xs rule: feed.induct)
  case (2 n T C p x v xs)
  then have "Parse n T C p x v \<noteq> Running" by auto
  then have "Parse m T C p x v = Parse n T C p x v" using 2(3) by (rule Parse_mono)
  then show ?case using 2 by (auto split: outcome.splits)
qed simp

lemma Parse_returns:
  assumes "valid T K" "pure C f" "ranked T K k rank" "0 \<le> x" "x < int (k_terms K)" "ready T K f p"
  obtains n p' where "Parse n T C p x v = Done p'" "ready T K f p'"
proof (cases "yystack p = [] \<and> YYSTACKDEPTH T \<le> 0 \<and> yystksz p \<le> 0")
  case True
  then show thesis using that [of 0] by (simp add: Parse_def ready_def)
next
  case False
  let ?p = "if yystack p = [] then start_parser C p else p"
  have "\<exists>toks. parsed T K f ?p toks"
    using assms(6) parsed_start [of p T K f C] by (auto simp: ready_def)
  then obtain toks where "parsed T K f ?p toks" ..
  from loop_returns [OF assms(1-5) this lessI, of v False] obtain p' where
    "parse_loop (Suc (work k rank ?p x)) T C v (x = 0) (?p, x, False) = Done p'" "ready T K f p'" by blast
  then show thesis using that [of "Suc (work k rank ?p x)"] False by (simp only: Parse_def if_False)
qed

lemma feed_returns:
  assumes "valid T K" "pure C f" "ranked T K k rank"
  shows "ready T K f p \<Longrightarrow> list_all (\<lambda>(x, v). 0 \<le> x \<and> x < int (k_terms K)) xs \<Longrightarrow>
    \<exists>n p'. feed n T C p xs = Done p' \<and> ready T K f p'"
proof (induction xs arbitrary: p)
  case (Cons a xs)
  obtain x v where a: "a = (x, v)" by (cases a)
  then have x: "0 \<le> x" "x < int (k_terms K)" using Cons.prems(2) by simp_all
  obtain n q where q: "Parse n T C p x v = Done q" "ready T K f q"
    using Parse_returns [OF assms x Cons.prems(1), where v = v] .
  then obtain m p' where m: "feed m T C q xs = Done p'" "ready T K f p'"
    using Cons.IH [OF q(2)] Cons.prems(2) by auto
  have "Parse (max n m) T C p x v = Done q" using q(1) Parse_mono [of n T C p x v "max n m"] by simp
  moreover have "feed (max n m) T C q xs = Done p'" using m(1) feed_mono [of m T C q xs "max n m"] by simp
  ultimately have "feed (max n m) T C p (a # xs) = Done p'" by (simp add: a)
  then show ?case using m(2) by blast
qed auto

text \<open>C14: The parser returns. For tables with a valid certificate and a rank that bounds their reductions, \<open>Parse\<close>
  returns on every sequence of tokens, well-formed or not, and after the end of an input it can start again: no
  assertion of the engine fails, no reduction takes more entries than the stack has, and
  the loop of each call ends.\<close>

theorem lemon_returns:
  assumes "valid T K" "pure C f" "ranked T K k rank" "list_all (\<lambda>(x, v). 0 \<le> x \<and> x < int (k_terms K)) toks"
  shows "\<exists>n p'. feed n T C (ParseAlloc T C u) toks = Done p'"
proof -
  have "ready T K f (ParseAlloc T C u)" by (simp add: ready_def ParseAlloc_def Let_def)
  then show ?thesis using feed_returns [OF assms(1-3) _ assms(4)] by blast
qed

section \<open>A grammar\<close>

text \<open>
  \<open>file ::= list.\<close>, \<open>list ::= list A.\<close>, \<open>list ::= .\<close>, with a second token \<open>B\<close> that no rule has, and the tables
  Lemon's layout gives for it. The value of a list is its number of elements.
\<close>

definition list_tables :: lemon where
  "list_tables = \<lparr>YYNSTATE = 3, YYNRULE = 3, YYNOCODE = 5, yy_action = [3, 2, 7, 1], yy_lookahead = [0, 1, 3, 4],
     YY_SHIFT_MAX = 1, yy_shift_ofst = [-10, 0], YY_SHIFT_USE_DFLT = -10, YY_REDUCE_MAX = 0, yy_reduce_ofst = [-1],
     YY_REDUCE_USE_DFLT = -10, yy_default = [5, 6, 4], yyRuleInfo = [(3, 1), (4, 2), (4, 0)], yyFallback = [],
     YYWILDCARD = None, YYERRORSYMBOL = None, YYNOERRORRECOVERY = False, YYSTACKDEPTH = 100, NDEBUG = False\<rparr>"

definition list_cert :: lr_cert where
  "list_cert = \<lparr>k_rhs = [[4], [4, 1], []], k_terms = 3, k_syms = 5, k_past = [[], [4], [1, 4]]\<rparr>"

definition list_val :: "nat \<Rightarrow> nat list \<Rightarrow> nat" where
  "list_val r vs = (if r = 0 then hd vs else if r = 1 then hd vs + 1 else 0)"

definition list_code :: "(nat, nat list) code" where
  "list_code = \<lparr>c_reduce = \<lambda>r vs u. (list_val r vs, if r = 0 then vs else u), c_destroy = \<lambda>x v u. u,
     c_syntax_error = \<lambda>x v u. u, c_failed = \<lambda>u. u, c_accept = \<lambda>u. u, c_overflow = \<lambda>u. u, c_zero = 0,
     c_errsymdt = 0, c_alloc = \<lambda>n. True\<rparr>"

lemma list_pure: "pure list_code list_val"
  by (simp add: pure_def list_code_def)

lemma list_valid: "valid list_tables list_cert"
  by code_simp

lemma list_ranked: "ranked list_tables list_cert 1 (\<lambda>s x. if s = 0 then 2 else 0)"
  by code_simp

theorem lemon_returns_witness:
  "\<exists>n p'. feed n list_tables list_code (ParseAlloc list_tables list_code []) [(1, 7), (2, 7), (1, 7), (0, 7)] = Done p'"
  by (rule lemon_returns [OF list_valid list_pure list_ranked]) (simp add: list_cert_def)

lemma list_run:
  "case fed 9 list_tables list_code (ParseAlloc list_tables list_code []) [(1, 7), (1, 7)] of
     None \<Rightarrow> False
   | Some p \<Rightarrow>
       (case Parse 9 list_tables list_code p 0 7 of
          Done p' \<Rightarrow> yyerrcnt p' < 0 \<and> ParseStackPeak p' < 100 \<and> yyextra p' = [2]
        | _ \<Rightarrow> False)"
  by code_simp

theorem lemon_accepts_parse_trees_witness:
  "\<exists>p p'. fed 9 list_tables list_code (ParseAlloc list_tables list_code []) [(1, 7), (1, 7)] = Some p \<and>
     Parse 9 list_tables list_code p 0 7 = Done p' \<and> yyextra p' = [2] \<and>
     accepts list_tables list_cert list_code list_val [(1, 7), (1, 7)] p'"
proof -
  obtain p p' where p: "fed 9 list_tables list_code (ParseAlloc list_tables list_code []) [(1, 7), (1, 7)] = Some p"
    "Parse 9 list_tables list_code p 0 7 = Done p'" "yyerrcnt p' < 0" "ParseStackPeak p' < 100" "yyextra p' = [2]"
    using list_run by (auto split: option.splits outcome.splits)
  show ?thesis using lemon_accepts_parse_trees [OF list_valid list_pure _ p(1-3)] p
    by (simp add: list_cert_def list_tables_def)
qed

end
