(* ===== verification/MailIO.thy ===== *)
theory MailIO
  imports Prelude "HOL-Library.Word" "HOL-Library.Monad_Syntax"
begin

text \<open>
  The input and output of the mail cache of Pantomime (\<open>io.c\<close>): numbers in network byte order and counted strings,
  and the wrappers that repeat an interrupted system call. The descriptor is a parameter; \<open>None\<close> is \<open>abort()\<close>, an access
  outside a buffer, the use of bytes that were never set, or a loop that does not end.
\<close>

unbundle bit_operations_syntax

type_synonym byte = "8 word"

section \<open>Descriptors\<close>

text \<open>
  A call of \<open>read\<close> gives its result, the bytes it has put into the buffer and the new world; \<open>write\<close> its result.
  \<open>d_errno\<close> is \<open>errno\<close> after a call that returned -1.
\<close>

record 'w descr =
  d_read :: "'w \<Rightarrow> nat \<Rightarrow> int \<times> byte list \<times> 'w"
  d_write :: "'w \<Rightarrow> byte list \<Rightarrow> int \<times> 'w"
  d_close :: "'w \<Rightarrow> int \<times> 'w"
  d_errno :: "'w \<Rightarrow> int"

definition EINTR :: int where
  "EINTR = 4"

text \<open>\<open>got\<close> is what is in the buffer.\<close>

partial_function (option) block_loop :: "'w descr \<Rightarrow> nat \<Rightarrow> byte list \<Rightarrow> 'w \<Rightarrow> (int \<times> byte list \<times> 'w) option" where
  "block_loop D count got w =
     (if length got < count then
        (case d_read D w (count - length got) of
           (r, bs, w1) \<Rightarrow>
             if r = -1 then (if d_errno D w1 \<noteq> EINTR then Some (-1, got, w1) else block_loop D count got w1)
             else block_loop D count (got @ bs) w1)
      else Some (int (length got), got, w))"

definition read_block :: "'w descr \<Rightarrow> nat \<Rightarrow> 'w \<Rightarrow> (int \<times> byte list \<times> 'w) option" where
  "read_block D count w = block_loop D count [] w"

partial_function (option) safe_close :: "'w descr \<Rightarrow> 'w \<Rightarrow> (int \<times> 'w) option" where
  "safe_close D w =
     (case d_close D w of (r, w1) \<Rightarrow> if r = -1 \<and> d_errno D w1 = EINTR then safe_close D w1 else Some (r, w1))"

text \<open>\<open>safe_recv\<close> is the same loop around \<open>recv\<close>.\<close>

partial_function (option) safe_read :: "'w descr \<Rightarrow> nat \<Rightarrow> 'w \<Rightarrow> (int \<times> byte list \<times> 'w) option" where
  "safe_read D count w =
     (case d_read D w count of
        (r, bs, w1) \<Rightarrow> if r = -1 \<and> d_errno D w1 = EINTR then safe_read D count w1 else Some (r, bs, w1))"

section \<open>Byte order\<close>

text \<open>\<open>le\<close>: the machine is little endian.\<close>

definition short_mem :: "bool \<Rightarrow> 16 word \<Rightarrow> byte list" where
  "short_mem le v = (let bs = [ucast (drop_bit 8 v), ucast v] in if le then rev bs else bs)"

definition mem_short :: "bool \<Rightarrow> byte list \<Rightarrow> 16 word" where
  "mem_short le m =
     (let (c0, c1) = (if le then (m ! 1, m ! 0) else (m ! 0, m ! 1)) in push_bit 8 (ucast c0) OR ucast c1)"

definition ntohs :: "bool \<Rightarrow> 16 word \<Rightarrow> 16 word" where
  "ntohs le v = (if le then push_bit 8 v OR drop_bit 8 v else v)"

definition int_mem :: "bool \<Rightarrow> 32 word \<Rightarrow> byte list" where
  "int_mem le v =
     (let bs = [ucast (drop_bit 24 v), ucast (drop_bit 16 v), ucast (drop_bit 8 v), ucast v] in if le then rev bs else bs)"

definition mem_int :: "bool \<Rightarrow> byte list \<Rightarrow> 32 word" where
  "mem_int le m =
     (let bs = (if le then rev (take 4 m) else m)
      in push_bit 24 (ucast (bs ! 0)) OR push_bit 16 (ucast (bs ! 1)) OR push_bit 8 (ucast (bs ! 2)) OR ucast (bs ! 3))"

definition ntohl :: "bool \<Rightarrow> 32 word \<Rightarrow> 32 word" where
  "ntohl le v =
     (if le then push_bit 24 v OR push_bit 8 (v AND 0xFF00) OR (drop_bit 8 v AND 0xFF00) OR drop_bit 24 v else v)"

section \<open>Numbers and strings\<close>

text \<open>From memory: \<open>m\<close> is what is there to read, \<open>room\<close> the size of the buffer. The result has the terminating NUL.\<close>

definition read_string_memory :: "bool \<Rightarrow> byte list \<Rightarrow> nat \<Rightarrow> (16 word \<times> byte list) option" where
  "read_string_memory le m room =
     (if length m < 2 then None
      else
        let c0 = ucast (m ! 0); c1 = ucast (m ! 1);
            r = ntohs le (if le then push_bit 8 c1 OR c0 else push_bit 8 c0 OR c1)
        in if length m < 2 + unat r \<or> room < unat r + 1 then None
           else Some (r, take (unat r) (drop 2 m) @ [0]))"

definition read_unsigned_int_memory :: "bool \<Rightarrow> byte list \<Rightarrow> 32 word option" where
  "read_unsigned_int_memory le m =
     (if length m < 4 then None
      else
        let c0 = ucast (m ! 0); c1 = ucast (m ! 1); c2 = ucast (m ! 2); c3 = ucast (m ! 3);
            r = (if le then push_bit 24 c3 OR push_bit 16 c2 OR push_bit 8 c1 OR c0
                 else push_bit 24 c0 OR push_bit 16 c1 OR push_bit 8 c2 OR c3)
        in Some (ntohl le r))"

definition read_unsigned_short :: "bool \<Rightarrow> 'w descr \<Rightarrow> 'w \<Rightarrow> (16 word \<times> 'w) option" where
  "read_unsigned_short le D w =
     (case d_read D w 2 of (r, bs, w1) \<Rightarrow> if r \<noteq> 2 then None else Some (ntohs le (mem_short le bs), w1))"

definition write_unsigned_short :: "bool \<Rightarrow> 'w descr \<Rightarrow> 16 word \<Rightarrow> 'w \<Rightarrow> 'w option" where
  "write_unsigned_short le D v w =
     (case d_write D w (short_mem le (ntohs le v)) of (r, w1) \<Rightarrow> if r \<noteq> 2 then None else Some w1)"

text \<open>The result of the second \<open>read\<close> is not looked at; what it has put into the buffer is the third component.\<close>

definition read_string :: "bool \<Rightarrow> 'w descr \<Rightarrow> nat \<Rightarrow> 'w \<Rightarrow> (16 word \<times> byte list \<times> 'w) option" where
  "read_string le D room w = do {
     (count, w1) \<leftarrow> read_unsigned_short le D w;
     if count = 0 then Some (count, [], w1)
     else if room < unat count then None
     else case d_read D w1 (unat count) of (r, bs, w2) \<Rightarrow> Some (count, bs, w2)
   }"

text \<open>\<open>None\<close> is the NULL string.\<close>

definition write_string :: "bool \<Rightarrow> 'w descr \<Rightarrow> byte list option \<Rightarrow> 16 word \<Rightarrow> 'w \<Rightarrow> 'w option" where
  "write_string le D s len w =
     (case s of
        Some bs \<Rightarrow>
          if 0 < len then do {
            w1 \<leftarrow> write_unsigned_short le D len w;
            if length bs < unat len then None
            else case d_write D w1 (take (unat len) bs) of
                   (r, w2) \<Rightarrow> if r \<noteq> int (unat len) then None else Some w2
          }
          else write_unsigned_short le D 0 w
      | None \<Rightarrow> write_unsigned_short le D 0 w)"

text \<open>A short \<open>read\<close> only prints a message, and the value is made from bytes that were never set.\<close>

definition read_unsigned_int :: "bool \<Rightarrow> 'w descr \<Rightarrow> 'w \<Rightarrow> (32 word \<times> 'w) option" where
  "read_unsigned_int le D w =
     (case d_read D w 4 of (r, bs, w1) \<Rightarrow> if length bs < 4 then None else Some (ntohl le (mem_int le bs), w1))"

definition write_unsigned_int :: "bool \<Rightarrow> 'w descr \<Rightarrow> 32 word \<Rightarrow> 'w \<Rightarrow> 'w option" where
  "write_unsigned_int le D v w =
     (case d_write D w (int_mem le (ntohl le v)) of (r, w1) \<Rightarrow> if r \<noteq> 4 then None else Some w1)"

section \<open>Byte order: on disk the numbers are big endian\<close>

lemma short_disk: "short_mem le (ntohs le v) = [ucast (drop_bit 8 v), ucast v]"
  by (auto simp: short_mem_def ntohs_def Let_def intro!: bit_word_eqI simp: bit_simps)

lemma ff00: "(0xFF00 :: 32 word) = push_bit 8 (mask 8)"
  by (simp add: mask_eq_exp_minus_1 push_bit_eq_mult)

lemma int_disk: "int_mem le (ntohl le v) = [ucast (drop_bit 24 v), ucast (drop_bit 16 v), ucast (drop_bit 8 v), ucast v]"
  unfolding int_mem_def ntohl_def ff00
  by (auto simp: Let_def bit_simps intro!: bit_word_eqI)

lemma short_back: "ntohs le (mem_short le [ucast (drop_bit 8 v), ucast v]) = v"
  by (auto simp: mem_short_def ntohs_def bit_simps intro!: bit_word_eqI)

lemma byte_bit: "8 \<le> n \<Longrightarrow> \<not> bit (x :: byte) n"
  using bit_imp_le_length [of x n] by auto

lemma quarter_cases:
  assumes "n < (32 :: nat)"
  obtains "n < 8" | "8 \<le> n" "n < 16" | "16 \<le> n" "n < 24" | "24 \<le> n"
  using assms by linarith

lemma mem_int_swap: "ntohl le (mem_int le [a, b, c, d]) = mem_int False [a, b, c, d]"
proof (cases le)
  case True
  have "ntohl True (mem_int True [a, b, c, d]) = mem_int False [a, b, c, d]"
  proof (rule bit_word_eqI)
    fix n assume n: "n < LENGTH(32)"
    then have "n < 32" by simp
    then show "bit (ntohl True (mem_int True [a, b, c, d])) n \<longleftrightarrow> bit (mem_int False [a, b, c, d]) n"
      unfolding ntohl_def mem_int_def ff00
      by (cases n rule: quarter_cases) (use \<open>n < 32\<close> byte_bit in \<open>auto simp: bit_simps\<close>)
  qed
  then show ?thesis using True by simp
qed (simp add: ntohl_def)

lemma mem_int_bytes: "mem_int False [ucast (drop_bit 24 v), ucast (drop_bit 16 v), ucast (drop_bit 8 v), ucast v] = v"
proof (rule bit_word_eqI)
  fix n assume "n < LENGTH(32)"
  then have n: "n < 32" by simp
  then show "bit (mem_int False [ucast (drop_bit 24 v), ucast (drop_bit 16 v), ucast (drop_bit 8 v), ucast v]) n \<longleftrightarrow> bit v n"
    unfolding mem_int_def
    by (cases n rule: quarter_cases) (use n in \<open>auto simp: bit_simps\<close>)
qed

lemma int_back:
  "ntohl le (mem_int le [ucast (drop_bit 24 v), ucast (drop_bit 16 v), ucast (drop_bit 8 v), ucast v]) = v"
  by (simp only: mem_int_swap mem_int_bytes)

section \<open>The cache: numbers and strings one after the other\<close>

datatype item = Number "32 word" | Text "byte list"

fun write_item :: "bool \<Rightarrow> 'w descr \<Rightarrow> item \<Rightarrow> 'w \<Rightarrow> 'w option" where
  "write_item le D (Number v) w = write_unsigned_int le D v w"
| "write_item le D (Text s) w = write_string le D (Some s) (of_nat (length s)) w"

text \<open>The item that is given says what kind is read.\<close>

fun read_item :: "bool \<Rightarrow> 'w descr \<Rightarrow> nat \<Rightarrow> item \<Rightarrow> 'w \<Rightarrow> (item \<times> 'w) option" where
  "read_item le D room (Number _) w = map_option (\<lambda>(v, w'). (Number v, w')) (read_unsigned_int le D w)"
| "read_item le D room (Text _) w = map_option (\<lambda>(n, s, w'). (Text s, w')) (read_string le D room w)"

fun write_items :: "bool \<Rightarrow> 'w descr \<Rightarrow> item list \<Rightarrow> 'w \<Rightarrow> 'w option" where
  "write_items le D [] w = Some w"
| "write_items le D (i # is) w = Option.bind (write_item le D i w) (write_items le D is)"

fun read_items :: "bool \<Rightarrow> 'w descr \<Rightarrow> nat \<Rightarrow> item list \<Rightarrow> 'w \<Rightarrow> (item list \<times> 'w) option" where
  "read_items le D room [] w = Some ([], w)"
| "read_items le D room (i # is) w = do {
     (j, w1) \<leftarrow> read_item le D room i w;
     (js, w2) \<leftarrow> read_items le D room is w1;
     Some (j # js, w2)
   }"

text \<open>The bytes of an item.\<close>

definition short_bytes :: "16 word \<Rightarrow> byte list" where
  "short_bytes v = [ucast (drop_bit 8 v), ucast v]"

definition int_bytes :: "32 word \<Rightarrow> byte list" where
  "int_bytes v = [ucast (drop_bit 24 v), ucast (drop_bit 16 v), ucast (drop_bit 8 v), ucast v]"

fun item_bytes :: "item \<Rightarrow> byte list" where
  "item_bytes (Number v) = int_bytes v"
| "item_bytes (Text s) = short_bytes (of_nat (length s)) @ s"

fun fits :: "nat \<Rightarrow> item \<Rightarrow> bool" where
  "fits room (Number v) = True"
| "fits room (Text s) \<longleftrightarrow> length s < 2 ^ 16 \<and> length s \<le> room"

lemma lengths [simp]: "length (short_bytes s) = 2" "length (int_bytes v) = 4"
  by (simp_all add: short_bytes_def int_bytes_def)

lemma backs:
  "ntohs le (mem_short le (short_bytes v)) = v" "ntohl le (mem_int le (int_bytes n)) = n"
  by (simp_all only: short_bytes_def int_bytes_def short_back int_back)

text \<open>What the functions rely on: a write appends all of its bytes, and a read gives what is ahead.\<close>

locale byte_file =
  fixes D :: "'w descr" and written :: "'w \<Rightarrow> byte list" and ahead :: "'w \<Rightarrow> byte list"
    and writable :: "'w \<Rightarrow> bool"
  assumes writes: "writable w \<Longrightarrow> \<exists>w'. d_write D w bs = (int (length bs), w') \<and> written w' = written w @ bs \<and> writable w'"
    and reads: "ahead w = bs @ aft \<Longrightarrow> \<exists>w'. d_read D w (length bs) = (int (length bs), bs, w') \<and> ahead w' = aft"
begin

lemma write_short:
  "writable w \<Longrightarrow> \<exists>w'. write_unsigned_short le D v w = Some w' \<and> written w' = written w @ short_bytes v \<and> writable w'"
  using writes [of w "short_bytes v"]
  by (auto simp: write_unsigned_short_def short_disk short_bytes_def)

lemma write_one:
  assumes "fits room i" "writable w"
  shows "\<exists>w'. write_item le D i w = Some w' \<and> written w' = written w @ item_bytes i \<and> writable w'"
proof (cases i)
  case (Number v)
  then show ?thesis using writes [of w "int_bytes v"] assms(2)
    by (auto simp: write_unsigned_int_def int_disk int_bytes_def)
next
  case (Text s)
  let ?n = "of_nat (length s) :: 16 word"
  have n: "unat ?n = length s" using assms(1) Text by (simp add: unat_of_nat)
  obtain w1 where w1: "write_unsigned_short le D ?n w = Some w1" "written w1 = written w @ short_bytes ?n" "writable w1"
    using write_short [OF assms(2)] by blast
  show ?thesis
  proof (cases "s = []")
    case True
    then show ?thesis using w1 Text by (simp add: write_string_def)
  next
    case False
    then have "0 < ?n" using n by (auto simp: word_less_nat_alt)
    moreover obtain w2 where "d_write D w1 s = (int (length s), w2)" "written w2 = written w1 @ s" "writable w2"
      using writes [OF w1(3)] by blast
    ultimately show ?thesis using w1 Text n by (simp add: write_string_def)
  qed
qed

lemma read_short:
  assumes "ahead w = short_bytes v @ aft"
  shows "\<exists>w'. read_unsigned_short le D w = Some (v, w') \<and> ahead w' = aft"
  using reads [OF assms] by (auto simp: read_unsigned_short_def backs)

lemma read_one:
  assumes "fits room i" "ahead w = item_bytes i @ aft"
  shows "\<exists>w'. read_item le D room i w = Some (i, w') \<and> ahead w' = aft"
proof (cases i)
  case (Number v)
  then show ?thesis using reads [of w "int_bytes v" aft] assms(2)
    by (auto simp: read_unsigned_int_def backs)
next
  case (Text s)
  let ?n = "of_nat (length s) :: 16 word"
  have n: "unat ?n = length s" using assms(1) Text by (simp add: unat_of_nat)
  obtain w1 where w1: "read_unsigned_short le D w = Some (?n, w1)" "ahead w1 = s @ aft"
    using read_short [of w ?n "s @ aft"] assms(2) Text by auto
  show ?thesis
  proof (cases "s = []")
    case True
    then show ?thesis using w1 Text by (simp add: read_string_def)
  next
    case False
    then have "?n \<noteq> 0" using n by (metis length_0_conv unat_0)
    then show ?thesis using w1 Text n assms(1) reads [OF w1(2)] by (auto simp: read_string_def)
  qed
qed

lemma write_all:
  "list_all (fits room) is \<Longrightarrow> writable w \<Longrightarrow>
    \<exists>w'. write_items le D is w = Some w' \<and> written w' = written w @ concat (map item_bytes is) \<and> writable w'"
proof (induction "is" arbitrary: w)
  case (Cons i "is")
  then obtain w1 where "write_item le D i w = Some w1" "written w1 = written w @ item_bytes i" "writable w1"
    using write_one [of room i w le] by auto
  then show ?case using Cons.IH [of w1] Cons.prems(1) by auto
qed auto

lemma read_all:
  "list_all (fits room) is \<Longrightarrow> ahead w = concat (map item_bytes is) @ aft \<Longrightarrow>
    \<exists>w'. read_items le D room is w = Some (is, w') \<and> ahead w' = aft"
proof (induction "is" arbitrary: w)
  case (Cons i "is")
  then obtain w1 where "read_item le D room i w = Some (i, w1)" "ahead w1 = concat (map item_bytes is) @ aft"
    using read_one [of room i w "concat (map item_bytes is) @ aft" le] by auto
  then show ?case using Cons.IH [of w1] Cons.prems(1) by auto
qed auto

end

section \<open>A file\<close>

record cachefile =
  f_data :: "byte list"
  f_pos :: nat

definition plain_file :: "cachefile descr" where
  "plain_file =
     \<lparr>d_read = \<lambda>f n. let bs = take n (drop (f_pos f) (f_data f)) in (int (length bs), bs, f\<lparr>f_pos := f_pos f + length bs\<rparr>),
      d_write = \<lambda>f bs. (int (length bs), f\<lparr>f_data := take (f_pos f) (f_data f) @ bs @ drop (f_pos f + length bs) (f_data f),
                                       f_pos := f_pos f + length bs\<rparr>),
      d_close = \<lambda>f. (0, f), d_errno = \<lambda>f. 0\<rparr>"

lemma plain_read:
  assumes "drop (f_pos f) (f_data f) = bs @ aft"
  shows "d_read plain_file f (length bs) = (int (length bs), bs, f\<lparr>f_pos := f_pos f + length bs\<rparr>)"
    "drop (f_pos f + length bs) (f_data f) = aft"
proof -
  have "take (length bs) (drop (f_pos f) (f_data f)) = bs" by (simp only: assms append_eq_conv_conj [symmetric]) simp
  then show "d_read plain_file f (length bs) = (int (length bs), bs, f\<lparr>f_pos := f_pos f + length bs\<rparr>)"
    unfolding plain_file_def descr.select_convs Let_def by (simp only:)
  have "drop (f_pos f + length bs) (f_data f) = drop (length bs) (drop (f_pos f) (f_data f))" by (simp add: add.commute)
  then show "drop (f_pos f + length bs) (f_data f) = aft" by (simp only: assms) simp
qed

interpretation cache: byte_file plain_file f_data "\<lambda>f. drop (f_pos f) (f_data f)" "\<lambda>f. f_pos f = length (f_data f)"
proof unfold_locales
  show "f_pos f = length (f_data f) \<Longrightarrow>
      \<exists>f'. d_write plain_file f bs = (int (length bs), f') \<and> f_data f' = f_data f @ bs \<and> f_pos f' = length (f_data f')" for f bs
    by (simp add: plain_file_def)
  show "drop (f_pos f) (f_data f) = bs @ aft \<Longrightarrow>
      \<exists>f'. d_read plain_file f (length bs) = (int (length bs), bs, f') \<and> drop (f_pos f') (f_data f') = aft" for f bs aft
    using plain_read [of f bs aft] by auto
qed

text \<open>From the mapped file.\<close>

lemma read_int_memory: "read_unsigned_int_memory le (int_bytes v @ aft) = Some v"
proof -
  have "ntohl le (mem_int le (int_bytes v)) = v" by (rule backs)
  then show ?thesis
    by (cases le) (simp_all add: read_unsigned_int_memory_def mem_int_def int_bytes_def Let_def ac_simps)
qed

lemma read_text_memory:
  assumes "length s < 2 ^ 16" "length s < room"
  shows "read_string_memory le (item_bytes (Text s) @ aft) room = Some (of_nat (length s), s @ [0])"
proof -
  let ?n = "of_nat (length s) :: 16 word"
  have n: "unat ?n = length s" using assms(1) by (simp add: unat_of_nat)
  have "ntohs le (mem_short le (short_bytes ?n)) = ?n" by (rule backs)
  then show ?thesis using n assms(2)
    by (cases le) (simp_all add: read_string_memory_def mem_short_def short_bytes_def Let_def)
qed

text \<open>C15: What is written to the mail cache is read back. Numbers and strings (shorter than 64 KB) that are
  written one after the other to an empty file are read again from its start, in the same order, by a machine of either
  byte order, whichever byte order the writer had; and from memory, where the file is mapped, each of them is read back from its bytes,
  a string with a NUL behind it.\<close>

theorem mail_cache_roundtrip:
  assumes "list_all (fits room) is"
  shows "\<exists>f f'. write_items le plain_file is \<lparr>f_data = [], f_pos = 0\<rparr> = Some f \<and>
    read_items le' plain_file room is (f\<lparr>f_pos := 0\<rparr>) = Some (is, f') \<and>
    f_data f = concat (map item_bytes is) \<and>
    read_unsigned_int_memory le' (item_bytes (Number v) @ aft) = Some v \<and>
    (length s < 2 ^ 16 \<and> length s < room \<longrightarrow>
       read_string_memory le' (item_bytes (Text s) @ aft) room = Some (of_nat (length s), s @ [0]))"
proof -
  obtain f where f: "write_items le plain_file is \<lparr>f_data = [], f_pos = 0\<rparr> = Some f"
    "f_data f = concat (map item_bytes is)"
    using cache.write_all [OF assms, of "\<lparr>f_data = [], f_pos = 0\<rparr>" le] by auto
  have "\<exists>f'. read_items le' plain_file room is (f\<lparr>f_pos := 0\<rparr>) = Some (is, f') \<and> drop (f_pos f') (f_data f') = []"
    by (rule cache.read_all [OF assms]) (simp add: f(2))
  then show ?thesis using f read_int_memory read_text_memory by auto
qed

theorem mail_cache_roundtrip_witness:
  "\<exists>f f'. write_items True plain_file [Number 258, Text [72, 105], Text []] \<lparr>f_data = [], f_pos = 0\<rparr> = Some f \<and>
    read_items False plain_file 10 [Number 258, Text [72, 105], Text []] (f\<lparr>f_pos := 0\<rparr>) =
      Some ([Number 258, Text [72, 105], Text []], f') \<and>
    read_string_memory False (item_bytes (Text [72, 105]) @ [3]) 10 = Some (2, [72, 105, 0])"
  using mail_cache_roundtrip [of 10 "[Number 258, Text [72, 105], Text []]" True False 258 "[3]" "[72, 105]"] by auto

section \<open>Interrupted and short reads\<close>

text \<open>
  A descriptor that has the bytes \<open>k_bytes\<close> and then the end of the file. \<open>k_plan\<close> says what the next calls do: 0 is
  interrupted by a signal, \<open>Suc k\<close> gives at most \<open>Suc k\<close> bytes; after the plan every read gives all it can.
\<close>

record script =
  k_bytes :: "byte list"
  k_plan :: "nat list"

definition script_read :: "script \<Rightarrow> nat \<Rightarrow> int \<times> byte list \<times> script" where
  "script_read w n =
     (case k_plan w of
        0 # ps \<Rightarrow> (-1, [], w\<lparr>k_plan := ps\<rparr>)
      | Suc k # ps \<Rightarrow> (int (length (take (min n (Suc k)) (k_bytes w))), take (min n (Suc k)) (k_bytes w),
                     w\<lparr>k_bytes := drop (min n (Suc k)) (k_bytes w), k_plan := ps\<rparr>)
      | [] \<Rightarrow> (int (length (take n (k_bytes w))), take n (k_bytes w), w\<lparr>k_bytes := drop n (k_bytes w)\<rparr>))"

definition scripted :: "script descr" where
  "scripted = \<lparr>d_read = script_read, d_write = \<lambda>w bs. (0, w), d_close = \<lambda>w. (0, w), d_errno = \<lambda>w. EINTR\<rparr>"

lemma scripted_simps [simp]: "d_read scripted = script_read" "d_errno scripted w = EINTR"
  by (simp_all add: scripted_def)

lemma block_enough:
  assumes "length got \<le> count" "count \<le> length got + length (k_bytes w)"
  shows "\<exists>w'. block_loop scripted count got w = Some (int count, got @ take (count - length got) (k_bytes w), w') \<and>
    k_bytes w' = drop (count - length got) (k_bytes w)"
  using assms
proof (induction "k_plan w" arbitrary: w got)
  case Nil
  then show ?case
    by (cases "length got < count")
      (simp_all add: block_loop.simps [of scripted count got] script_read_def block_loop.simps [of scripted count "got @ _"])
next
  case (Cons p ps)
  show ?case
  proof (cases "length got < count")
    case False
    then show ?thesis using Cons.prems by (simp add: block_loop.simps [of scripted count got])
  next
    case True
    show ?thesis
    proof (cases p)
      case 0
      then show ?thesis using True Cons.hyps(1) [of "w\<lparr>k_plan := ps\<rparr>" got] Cons.hyps(2) [symmetric] Cons.prems
        by (simp add: block_loop.simps [of scripted count got] script_read_def)
    next
      case (Suc k)
      let ?n = "min (count - length got) (Suc k)"
      let ?w = "w\<lparr>k_bytes := drop ?n (k_bytes w), k_plan := ps\<rparr>" and ?got = "got @ take ?n (k_bytes w)"
      have n: "length (take ?n (k_bytes w)) = ?n" using Cons.prems by simp
      have t: "take ?n (k_bytes w) @ take (count - length got - ?n) (drop ?n (k_bytes w)) = take (count - length got) (k_bytes w)"
        by (metis le_add_diff_inverse min.cobounded1 take_add)
      have d: "drop (count - length got - ?n) (drop ?n (k_bytes w)) = drop (count - length got) (k_bytes w)"
        by (metis drop_drop le_add_diff_inverse2 min.cobounded1)
      have "\<exists>w'. block_loop scripted count ?got ?w =
          Some (int count, ?got @ take (count - length ?got) (k_bytes ?w), w') \<and>
          k_bytes w' = drop (count - length ?got) (k_bytes ?w)"
        by (rule Cons.hyps(1)) (use Cons.prems True n in simp_all)
      moreover have "count - length ?got = count - length got - ?n" using n by simp
      ultimately have "\<exists>w'. block_loop scripted count ?got ?w = Some (int count, got @ take (count - length got) (k_bytes w), w') \<and>
          k_bytes w' = drop (count - length got) (k_bytes w)"
        using t d by simp
      then show ?thesis using True Suc Cons.hyps(2) [symmetric]
        by (simp add: block_loop.simps [of scripted count got] script_read_def)
    qed
  qed
qed

lemma block_short:
  assumes "block_loop D count got w = Some r"
  shows "D = scripted \<longrightarrow> count \<le> length got + length (k_bytes w)"
proof (rule block_loop.raw_induct [OF _ assms, of "\<lambda>D count got w r. D = scripted \<longrightarrow> count \<le> length got + length (k_bytes w)"])
  fix loop and D :: "script descr" and count got w r
  assume IH: "\<And>D count got w r. loop D count got w = Some r \<Longrightarrow> D = scripted \<longrightarrow> count \<le> length got + length (k_bytes w)"
    and r: "(if length got < count then
        (case d_read D w (count - length got) of
           (r, bs, w1) \<Rightarrow>
             if r = -1 then (if d_errno D w1 \<noteq> EINTR then Some (-1, got, w1) else loop D count got w1)
             else loop D count (got @ bs) w1)
      else Some (int (length got), got, w)) = Some r"
  show "D = scripted \<longrightarrow> count \<le> length got + length (k_bytes w)"
  proof (intro impI, cases "length got < count")
    assume D: "D = scripted" and lt: "length got < count"
    consider "k_plan w = []" | ps where "k_plan w = 0 # ps" | k ps where "k_plan w = Suc k # ps"
      by (metis list.exhaust not0_implies_Suc)
    then show "count \<le> length got + length (k_bytes w)"
    proof cases
      case 1
      then have "loop D count (got @ take (count - length got) (k_bytes w)) (w\<lparr>k_bytes := drop (count - length got) (k_bytes w)\<rparr>) = Some r"
        using r lt D by (simp add: script_read_def)
      from IH [OF this] show ?thesis using D by simp
    next
      case (2 ps)
      then have "loop D count got (w\<lparr>k_plan := ps\<rparr>) = Some r" using r lt D by (simp add: script_read_def)
      from IH [OF this] show ?thesis using D by simp
    next
      case (3 k ps)
      let ?n = "min (count - length got) (Suc k)"
      have "loop D count (got @ take ?n (k_bytes w)) (w\<lparr>k_bytes := drop ?n (k_bytes w), k_plan := ps\<rparr>) = Some r"
        using r lt D 3 by (simp add: script_read_def)
      from IH [OF this] show ?thesis using D by simp
    qed
  qed simp
qed

text \<open>C39: \<open>read_block\<close> returns all or never. Over a descriptor that is interrupted and gives short reads in any
  pattern, the call returns \<open>count\<close> with the next \<open>count\<close> bytes, in order and without a gap, when there are
  that many; when the file ends before, \<open>read\<close> gives 0 for ever and the loop does not end.\<close>

theorem read_block_returns_all:
  "if count \<le> length (k_bytes w)
   then (\<exists>w'. read_block scripted count w = Some (int count, take count (k_bytes w), w') \<and>
              k_bytes w' = drop count (k_bytes w))
   else read_block scripted count w = None"
proof (cases "count \<le> length (k_bytes w)")
  case True
  then show ?thesis using block_enough [of "[]" count w] by (simp add: read_block_def)
next
  case False
  then have "read_block scripted count w \<noteq> Some r" for r using block_short [of scripted count "[]" w r] by (auto simp: read_block_def)
  then show ?thesis using False by (metis option.exhaust)
qed

end
