(* ===== verification/Boost.thy ===== *)
theory Boost
  imports Prelude
begin

text \<open>
  The helper of the window manager that changes the priority of the foreground process (\<open>boost.c\<close>). The world is the
  table of the processes with their nice values. Which changes the system permits is a parameter: the documentation of
  \<open>setpriority\<close> has it fail with \<open>EACCES\<close> or \<open>EPERM\<close> when a nice value is lowered without privilege or
  the process belongs to another user, and with \<open>ESRCH\<close> when there is no such process.
\<close>

section \<open>The system\<close>

type_synonym pid = int

type_synonym procs = "pid \<Rightarrow> int option"

text \<open>\<open>may p a b\<close>: the program is permitted to change the nice value of the process \<open>p\<close> from \<open>a\<close> to \<open>b\<close>.\<close>

type_synonym policy = "pid \<Rightarrow> int \<Rightarrow> int \<Rightarrow> bool"

definition unprivileged :: policy where
  "unprivileged p a b \<longleftrightarrow> a \<le> b"

definition BOOSTED_PRIORITY :: int where
  "BOOSTED_PRIORITY = 5"

text \<open>\<open>self\<close> is the program itself, which the system calls take for the process 0.\<close>

definition who :: "pid \<Rightarrow> pid \<Rightarrow> pid" where
  "who self p = (if p = 0 then self else p)"

text \<open>The result of the call, -1 for every error, and the table.\<close>

definition setpriority :: "policy \<Rightarrow> pid \<Rightarrow> procs \<Rightarrow> pid \<Rightarrow> int \<Rightarrow> int \<times> procs" where
  "setpriority may self m p v =
     (case m (who self p) of
        None \<Rightarrow> (-1, m)
      | Some a \<Rightarrow> if may (who self p) a v then (0, m(who self p \<mapsto> v)) else (-1, m))"

definition getpriority :: "pid \<Rightarrow> procs \<Rightarrow> pid \<Rightarrow> int" where
  "getpriority self m p = (case m (who self p) of None \<Rightarrow> -1 | Some v \<Rightarrow> v)"

section \<open>The program\<close>

text \<open>The two global variables, the table of the system, and what \<open>perror\<close> has written.\<close>

record boost =
  oldpid :: pid
  oldPriority :: int
  procs :: procs
  msgs :: "string list"

definition drop_priority :: "policy \<Rightarrow> pid \<Rightarrow> boost \<Rightarrow> boost" where
  "drop_priority may self b =
     (if 0 < oldpid b
      then let (r, m) = setpriority may self (procs b) (oldpid b) (oldPriority b)
           in b\<lparr>procs := m,
                msgs := (if r \<noteq> 0 then msgs b @ [''Error while dropping priority for last process''] else msgs b)\<rparr>
      else b)"

text \<open>What happens for one pid from the input.\<close>

definition boost_pid :: "policy \<Rightarrow> pid \<Rightarrow> boost \<Rightarrow> pid \<Rightarrow> boost" where
  "boost_pid may self b p =
     (let b1 = drop_priority may self b;
          v = getpriority self (procs b1) p
      in if v < 0
         then b1\<lparr>oldpid := -1, oldPriority := v, msgs := msgs b1 @ [''Error while retrieving priority of process'']\<rparr>
         else b1\<lparr>oldpid := p, oldPriority := v, procs := snd (setpriority may self (procs b1) p BOOSTED_PRIORITY)\<rparr>)"

fun boost_loop :: "policy \<Rightarrow> pid \<Rightarrow> boost \<Rightarrow> pid list \<Rightarrow> boost" where
  "boost_loop may self b [] = b"
| "boost_loop may self b (p # ps) = boost_loop may self (boost_pid may self b p) ps"

definition boost_start :: "procs \<Rightarrow> boost" where
  "boost_start m = \<lparr>oldpid = -1, oldPriority = 0, procs = m, msgs = []\<rparr>"

text \<open>The end of the input, and the end by a signal after some of it, are the same.\<close>

definition boost_main :: "policy \<Rightarrow> pid \<Rightarrow> procs \<Rightarrow> pid list \<Rightarrow> boost" where
  "boost_main may self m ps = drop_priority may self (boost_loop may self (boost_start m) ps)"

section \<open>What stays\<close>

text \<open>A process that can be set to the boosted value but not back is left there.\<close>

definition left_behind :: "policy \<Rightarrow> procs \<Rightarrow> pid set \<Rightarrow> procs" where
  "left_behind may m P q =
     (case m q of
        None \<Rightarrow> None
      | Some v \<Rightarrow> if q \<in> P \<and> 0 \<le> v \<and> may q v BOOSTED_PRIORITY \<and> \<not> may q BOOSTED_PRIORITY v then Some BOOSTED_PRIORITY
                  else Some v)"

text \<open>While the process \<open>oldpid\<close> is in the foreground the table is \<open>m\<close> but for that process.\<close>

definition boosted :: "policy \<Rightarrow> procs \<Rightarrow> boost \<Rightarrow> bool" where
  "boosted may m b \<longleftrightarrow>
     (if 0 < oldpid b
      then m (oldpid b) = Some (oldPriority b) \<and> 0 \<le> oldPriority b \<and>
        procs b = (if may (oldpid b) (oldPriority b) BOOSTED_PRIORITY then m(oldpid b \<mapsto> BOOSTED_PRIORITY) else m)
      else procs b = m)"

lemma boost_pid_boosted:
  assumes "procs (drop_priority may self b) = m" "0 < p"
  shows "boosted may m (boost_pid may self b p)"
    "oldpid (boost_pid may self b p) = (case m p of Some v \<Rightarrow> if 0 \<le> v then p else -1 | None \<Rightarrow> -1)"
  using assms by (auto simp: boost_pid_def boosted_def Let_def getpriority_def setpriority_def who_def split: option.splits)

lemma drop_boosted:
  assumes "boosted may m b"
  shows "procs (drop_priority may self b) = left_behind may m (if 0 < oldpid b then {oldpid b} else {})"
  using assms
  by (auto simp: boosted_def drop_priority_def setpriority_def who_def left_behind_def fun_eq_iff Let_def
      split: option.splits if_splits)

lemma left_behind_twice: "left_behind may (left_behind may m P) Q = left_behind may m (P \<union> Q)"
  by (auto simp: left_behind_def fun_eq_iff split: option.splits)

lemma left_behind_skip: "m p = None \<or> (\<exists>v. m p = Some v \<and> v < 0) \<Longrightarrow> left_behind may m {p} = m"
  by (auto simp: left_behind_def fun_eq_iff split: option.splits)

text \<open>One pid from the input, up to the next call of \<open>drop_priority\<close>.\<close>

lemma drop_after_pid:
  assumes "0 < p"
  shows "procs (drop_priority may self (boost_pid may self b p)) = left_behind may (procs (drop_priority may self b)) {p}"
proof -
  let ?m = "procs (drop_priority may self b)" and ?b = "boost_pid may self b p"
  note k = boost_pid_boosted [OF refl assms, of may self b]
  show ?thesis
  proof (cases "oldpid ?b = p")
    case True
    then show ?thesis using drop_boosted [OF k(1), of self] assms by simp
  next
    case False
    then have "left_behind may ?m {p} = ?m" "\<not> 0 < oldpid ?b"
      using k(2) left_behind_skip [of ?m p may] by (auto split: option.splits if_splits)
    then show ?thesis using drop_boosted [OF k(1), of self] by (simp add: left_behind_def fun_eq_iff split: option.splits)
  qed
qed

lemma boost_loop_drops:
  "list_all (\<lambda>p. 0 < p) ps \<Longrightarrow>
   procs (drop_priority may self (boost_loop may self b ps)) = left_behind may (procs (drop_priority may self b)) (set ps)"
proof (induction ps arbitrary: b)
  case Nil
  then show ?case by (auto simp: left_behind_def fun_eq_iff split: option.splits)
next
  case (Cons p ps)
  then show ?case by (simp add: drop_after_pid left_behind_twice)
qed

lemma boost_loop_snoc: "boost_loop may self b (ps @ [p]) = boost_pid may self (boost_loop may self b ps) p"
  by (induction ps arbitrary: b) simp_all



end
