(* ===== verification/Colors.thy ===== *)
theory Colors
  imports Prelude
begin

text \<open>
  The terminal colours of TermX (\<open>256colors.c\<close>): the table, and the layout its comments give it: 16 named colours,
  a cube of 6 x 6 x 6 colours, and a ramp of 24 greys.
\<close>

type_synonym rgb = "nat \<times> nat \<times> nat"

definition default_colors :: "rgb list" where
  "default_colors = [
     (0x00, 0x00, 0x00), (0xCC, 0x00, 0x00), (0x00, 0xCC, 0x00), (0xCC, 0xCC, 0x00), (0x44, 0x44, 0xFF), (0xCC, 0x00, 0xCC),
     (0x00, 0xCC, 0xCC), (0xDD, 0xDD, 0xDD), (0x44, 0x44, 0x44), (0xFF, 0x00, 0x00), (0x00, 0xFF, 0x00), (0xFF, 0xFF, 0x00),
     (0x88, 0x88, 0xFF), (0xFF, 0x00, 0xFF), (0x44, 0xFF, 0xFF), (0xFF, 0xFF, 0xFF), (0x00, 0x00, 0x00), (0x00, 0x00, 0x5F),
     (0x00, 0x00, 0x87), (0x00, 0x00, 0xAF), (0x00, 0x00, 0xD7), (0x00, 0x00, 0xFF), (0x00, 0x5F, 0x00), (0x00, 0x5F, 0x5F),
     (0x00, 0x5F, 0x87), (0x00, 0x5F, 0xAF), (0x00, 0x5F, 0xD7), (0x00, 0x5F, 0xFF), (0x00, 0x87, 0x00), (0x00, 0x87, 0x5F),
     (0x00, 0x87, 0x87), (0x00, 0x87, 0xAF), (0x00, 0x87, 0xD7), (0x00, 0x87, 0xFF), (0x00, 0xAF, 0x00), (0x00, 0xAF, 0x5F),
     (0x00, 0xAF, 0x87), (0x00, 0xAF, 0xAF), (0x00, 0xAF, 0xD7), (0x00, 0xAF, 0xFF), (0x00, 0xD7, 0x00), (0x00, 0xD7, 0x5F),
     (0x00, 0xD7, 0x87), (0x00, 0xD7, 0xAF), (0x00, 0xD7, 0xD7), (0x00, 0xD7, 0xFF), (0x00, 0xFF, 0x00), (0x00, 0xFF, 0x5F),
     (0x00, 0xFF, 0x87), (0x00, 0xFF, 0xAF), (0x00, 0xFF, 0xD7), (0x00, 0xFF, 0xFF), (0x5F, 0x00, 0x00), (0x5F, 0x00, 0x5F),
     (0x5F, 0x00, 0x87), (0x5F, 0x00, 0xAF), (0x5F, 0x00, 0xD7), (0x5F, 0x00, 0xFF), (0x5F, 0x5F, 0x00), (0x5F, 0x5F, 0x5F),
     (0x5F, 0x5F, 0x87), (0x5F, 0x5F, 0xAF), (0x5F, 0x5F, 0xD7), (0x5F, 0x5F, 0xFF), (0x5F, 0x87, 0x00), (0x5F, 0x87, 0x5F),
     (0x5F, 0x87, 0x87), (0x5F, 0x87, 0xAF), (0x5F, 0x87, 0xD7), (0x5F, 0x87, 0xFF), (0x5F, 0xAF, 0x00), (0x5F, 0xAF, 0x5F),
     (0x5F, 0xAF, 0x87), (0x5F, 0xAF, 0xAF), (0x5F, 0xAF, 0xD7), (0x5F, 0xAF, 0xFF), (0x5F, 0xD7, 0x00), (0x5F, 0xD7, 0x5F),
     (0x5F, 0xD7, 0x87), (0x5F, 0xD7, 0xAF), (0x5F, 0xD7, 0xD7), (0x5F, 0xD7, 0xFF), (0x5F, 0xFF, 0x00), (0x5F, 0xFF, 0x5F),
     (0x5F, 0xFF, 0x87), (0x5F, 0xFF, 0xAF), (0x5F, 0xFF, 0xD7), (0x5F, 0xFF, 0xFF), (0x87, 0x00, 0x00), (0x87, 0x00, 0x5F),
     (0x87, 0x00, 0x87), (0x87, 0x00, 0xAF), (0x87, 0x00, 0xD7), (0x87, 0x00, 0xFF), (0x87, 0x5F, 0x00), (0x87, 0x5F, 0x5F),
     (0x87, 0x5F, 0x87), (0x87, 0x5F, 0xAF), (0x87, 0x5F, 0xD7), (0x87, 0x5F, 0xFF), (0x87, 0x87, 0x00), (0x87, 0x87, 0x5F),
     (0x87, 0x87, 0x87), (0x87, 0x87, 0xAF), (0x87, 0x87, 0xD7), (0x87, 0x87, 0xFF), (0x87, 0xAF, 0x00), (0x87, 0xAF, 0x5F),
     (0x87, 0xAF, 0x87), (0x87, 0xAF, 0xAF), (0x87, 0xAF, 0xD7), (0x87, 0xAF, 0xFF), (0x87, 0xD7, 0x00), (0x87, 0xD7, 0x5F),
     (0x87, 0xD7, 0x87), (0x87, 0xD7, 0xAF), (0x87, 0xD7, 0xD7), (0x87, 0xD7, 0xFF), (0x87, 0xFF, 0x00), (0x87, 0xFF, 0x5F),
     (0x87, 0xFF, 0x87), (0x87, 0xFF, 0xAF), (0x87, 0xFF, 0xD7), (0x87, 0xFF, 0xFF), (0xAF, 0x00, 0x00), (0xAF, 0x00, 0x5F),
     (0xAF, 0x00, 0x87), (0xAF, 0x00, 0xAF), (0xAF, 0x00, 0xD7), (0xAF, 0x00, 0xFF), (0xAF, 0x5F, 0x00), (0xAF, 0x5F, 0x5F),
     (0xAF, 0x5F, 0x87), (0xAF, 0x5F, 0xAF), (0xAF, 0x5F, 0xD7), (0xAF, 0x5F, 0xFF), (0xAF, 0x87, 0x00), (0xAF, 0x87, 0x5F),
     (0xAF, 0x87, 0x87), (0xAF, 0x87, 0xAF), (0xAF, 0x87, 0xD7), (0xAF, 0x87, 0xFF), (0xAF, 0xAF, 0x00), (0xAF, 0xAF, 0x5F),
     (0xAF, 0xAF, 0x87), (0xAF, 0xAF, 0xAF), (0xAF, 0xAF, 0xD7), (0xAF, 0xAF, 0xFF), (0xAF, 0xD7, 0x00), (0xAF, 0xD7, 0x5F),
     (0xAF, 0xD7, 0x87), (0xAF, 0xD7, 0xAF), (0xAF, 0xD7, 0xD7), (0xAF, 0xD7, 0xFF), (0xAF, 0xFF, 0x00), (0xAF, 0xFF, 0x5F),
     (0xAF, 0xFF, 0x87), (0xAF, 0xFF, 0xAF), (0xAF, 0xFF, 0xD7), (0xAF, 0xFF, 0xFF), (0xD7, 0x00, 0x00), (0xD7, 0x00, 0x5F),
     (0xD7, 0x00, 0x87), (0xD7, 0x00, 0xAF), (0xD7, 0x00, 0xD7), (0xD7, 0x00, 0xFF), (0xD7, 0x5F, 0x00), (0xD7, 0x5F, 0x5F),
     (0xD7, 0x5F, 0x87), (0xD7, 0x5F, 0xAF), (0xD7, 0x5F, 0xD7), (0xD7, 0x5F, 0xFF), (0xD7, 0x87, 0x00), (0xD7, 0x87, 0x5F),
     (0xD7, 0x87, 0x87), (0xD7, 0x87, 0xAF), (0xD7, 0x87, 0xD7), (0xD7, 0x87, 0xFF), (0xD7, 0xAF, 0x00), (0xD7, 0xAF, 0x5F),
     (0xD7, 0xAF, 0x87), (0xD7, 0xAF, 0xAF), (0xD7, 0xAF, 0xD7), (0xD7, 0xAF, 0xFF), (0xD7, 0xD7, 0x00), (0xD7, 0xD7, 0x5F),
     (0xD7, 0xD7, 0x87), (0xD7, 0xD7, 0xAF), (0xD7, 0xD7, 0xD7), (0xD7, 0xD7, 0xFF), (0xD7, 0xFF, 0x00), (0xD7, 0xFF, 0x5F),
     (0xD7, 0xFF, 0x87), (0xD7, 0xFF, 0xAF), (0xD7, 0xFF, 0xD7), (0xD7, 0xFF, 0xFF), (0xFF, 0x00, 0x00), (0xFF, 0x00, 0x5F),
     (0xFF, 0x00, 0x87), (0xFF, 0x00, 0xAF), (0xFF, 0x00, 0xD7), (0xFF, 0x00, 0xFF), (0xFF, 0x5F, 0x00), (0xFF, 0x5F, 0x5F),
     (0xFF, 0x5F, 0x87), (0xFF, 0x5F, 0xAF), (0xFF, 0x5F, 0xD7), (0xFF, 0x5F, 0xFF), (0xFF, 0x87, 0x00), (0xFF, 0x87, 0x5F),
     (0xFF, 0x87, 0x87), (0xFF, 0x87, 0xAF), (0xFF, 0x87, 0xD7), (0xFF, 0x87, 0xFF), (0xFF, 0xAF, 0x00), (0xFF, 0xAF, 0x5F),
     (0xFF, 0xAF, 0x87), (0xFF, 0xAF, 0xAF), (0xFF, 0xAF, 0xD7), (0xFF, 0xAF, 0xFF), (0xFF, 0xD7, 0x00), (0xFF, 0xD7, 0x5F),
     (0xFF, 0xD7, 0x87), (0xFF, 0xD7, 0xAF), (0xFF, 0xD7, 0xD7), (0xFF, 0xD7, 0xFF), (0xFF, 0xFF, 0x00), (0xFF, 0xFF, 0x5F),
     (0xFF, 0xFF, 0x87), (0xFF, 0xFF, 0xAF), (0xFF, 0xFF, 0xD7), (0xFF, 0xFF, 0xFF), (0x08, 0x08, 0x08), (0x12, 0x12, 0x12),
     (0x1C, 0x1C, 0x1C), (0x26, 0x26, 0x26), (0x30, 0x30, 0x30), (0x3A, 0x3A, 0x3A), (0x44, 0x44, 0x44), (0x4E, 0x4E, 0x4E),
     (0x58, 0x58, 0x58), (0x62, 0x62, 0x62), (0x6C, 0x6C, 0x6C), (0x76, 0x76, 0x76), (0x80, 0x80, 0x80), (0x8A, 0x8A, 0x8A),
     (0x94, 0x94, 0x94), (0x9E, 0x9E, 0x9E), (0xA8, 0xA8, 0xA8), (0xB2, 0xB2, 0xB2), (0xBC, 0xBC, 0xBC), (0xC6, 0xC6, 0xC6),
     (0xD0, 0xD0, 0xD0), (0xDA, 0xDA, 0xDA), (0xE4, 0xE4, 0xE4), (0xEE, 0xEE, 0xEE)]"

text \<open>The six levels of the cube are 0, 0x5f and then steps of 0x28; the greys are steps of 10 from 8.\<close>

definition level :: "nat \<Rightarrow> nat" where
  "level i = (if i = 0 then 0 else 0x37 + 0x28 * i)"

definition layout :: "nat \<Rightarrow> rgb" where
  "layout n =
     (if n < 232 then (level ((n - 16) div 36), level ((n - 16) div 6 mod 6), level ((n - 16) mod 6))
      else (8 + 10 * (n - 232), 8 + 10 * (n - 232), 8 + 10 * (n - 232)))"

lemma table_layout: "length default_colors = 256 \<and> drop 16 default_colors = map layout [16..<256]"
  by code_simp

text \<open>The colour table. It has 256 entries; entry \<open>16 + 36 * r + 6 * g + b\<close> is the point \<open>(r, g, b)\<close> of the colour
  cube and entry \<open>232 + i\<close> the i-th grey, from 8 in steps of 10.\<close>

theorem color_table:
  "length default_colors = 256 \<and>
   (\<forall>r < 6. \<forall>g < 6. \<forall>b < 6. default_colors ! (16 + 36 * r + 6 * g + b) = (level r, level g, level b)) \<and>
   (\<forall>i < 24. default_colors ! (232 + i) = (8 + 10 * i, 8 + 10 * i, 8 + 10 * i))"
proof -
  have n: "default_colors ! (16 + k) = layout (16 + k)" if "k < 240" for k
  proof -
    have "default_colors ! (16 + k) = drop 16 default_colors ! k" using table_layout by (intro nth_drop [symmetric]) linarith
    also have "\<dots> = map layout [16..<256] ! k" using table_layout by metis
    also have "\<dots> = layout ([16..<256] ! k)" by (rule nth_map) (use that in \<open>simp only: length_upt\<close>)
    also have "[16..<256] ! k = 16 + k" by (rule nth_upt) (use that in linarith)
    finally show ?thesis .
  qed
  have "default_colors ! (16 + 36 * r + 6 * g + b) = (level r, level g, level b)" if "r < 6" "g < 6" "b < 6" for r g b
  proof -
    have "(36 * r + 6 * g + b) div 36 = r" by (rule div_nat_eqI) (use that in auto)
    moreover have "(36 * r + 6 * g + b) div 6 = g + r * 6" by (rule div_nat_eqI) (use that in auto)
    then have "(36 * r + 6 * g + b) div 6 mod 6 = g" using that by simp
    moreover have "36 * r + 6 * g + b = b + (6 * r + g) * 6" by simp
    then have "(36 * r + 6 * g + b) mod 6 = b" using that by (metis mod_less mod_mult_self1)
    moreover have "default_colors ! (16 + (36 * r + 6 * g + b)) = layout (16 + (36 * r + 6 * g + b))"
      using that by (intro n) simp
    ultimately show ?thesis using that by (simp add: layout_def add.assoc)
  qed
  moreover have "default_colors ! (232 + i) = (8 + 10 * i, 8 + 10 * i, 8 + 10 * i)" if "i < 24" for i
    using n [of "216 + i"] that by (simp add: layout_def)
  ultimately show ?thesis using table_layout by blast
qed

text \<open>The pure red of the cube, and the last grey.\<close>

theorem color_table_witness:
  "default_colors ! (16 + 36 * 5 + 6 * 0 + 0) = (255, 0, 0) \<and> default_colors ! (232 + 23) = (238, 238, 238)"
  using color_table [THEN conjunct2, THEN conjunct1, rule_format, of 5 0 0]
    color_table [THEN conjunct2, THEN conjunct2, rule_format, of 23]
  by (simp add: level_def)

end
