(* ===== verification/Grab.thy ===== *)
theory Grab
  imports Prelude "HOL-Library.Word" "HOL-Library.Monad_Syntax"
begin

text \<open>
  The screen capture of XWindowServerKit (\<open>grab.c\<close>): clipping of the rectangle that is asked for, and the conversion of the
  image that the X server gives to 32-bit ARGB pixels. \<open>None\<close> is an access outside the image or the destination.
\<close>

unbundle bit_operations_syntax

section \<open>Images\<close>

type_synonym pix = "32 word"

text \<open>\<open>xi_msb\<close> is \<open>bitmap_bit_order == MSBFirst\<close>.\<close>

record ximage =
  xi_data :: "8 word list"
  xi_bytes_per_line :: nat
  xi_bits_per_pixel :: nat
  xi_msb :: bool

text \<open>
  The colour tables, and what is not code of the repository: \<open>XGetPixel\<close>, and whether the machine is big endian
  (\<open>WORDS_BIGENDIAN\<close>).
\<close>

record xenv =
  rtab :: "nat \<Rightarrow> 8 word"
  gtab :: "nat \<Rightarrow> 8 word"
  btab :: "nat \<Rightarrow> 8 word"
  XGetPixel :: "ximage \<Rightarrow> nat \<Rightarrow> nat \<Rightarrow> pix"
  be :: bool

text \<open>\<open>*src\<close> for a pointer to 32 bits at the byte \<open>i\<close> of the image.\<close>

definition rd32 :: "bool \<Rightarrow> 8 word list \<Rightarrow> nat \<Rightarrow> pix option" where
  "rd32 big m i =
     (if length m < i + 4 then None
      else
        let bs = (if big then take 4 (drop i m) else rev (take 4 (drop i m)))
        in Some (push_bit 24 (ucast (bs ! 0)) OR push_bit 16 (ucast (bs ! 1)) OR push_bit 8 (ucast (bs ! 2)) OR ucast (bs ! 3)))"

section \<open>Swapping bytes in place\<close>

text \<open>\<open>SWAP16\<close> and \<open>SWAP32\<close> at the byte \<open>i\<close>.\<close>

definition swap_at :: "nat \<Rightarrow> 8 word list \<Rightarrow> nat \<Rightarrow> 8 word list option" where
  "swap_at n m i = (if length m < i + n then None else Some (overwrite m i (rev (take n (drop i m)))))"

fun swap_row :: "nat \<Rightarrow> nat \<Rightarrow> 8 word list \<Rightarrow> nat \<Rightarrow> 8 word list option" where
  "swap_row n 0 m i = Some m"
| "swap_row n (Suc w) m i = Option.bind (swap_at n m i) (\<lambda>m1. swap_row n w m1 (i + n))"

fun swap_rows :: "nat \<Rightarrow> nat \<Rightarrow> nat \<Rightarrow> nat \<Rightarrow> nat \<Rightarrow> 8 word list \<Rightarrow> 8 word list option" where
  "swap_rows n bpl w y 0 m = Some m"
| "swap_rows n bpl w y (Suc h) m = Option.bind (swap_row n w m (bpl * y)) (swap_rows n bpl w (y + 1) h)"

text \<open>The cases 15 and 16 have no \<open>break\<close>: the pixels are swapped as 16 and then again as 32 bits.\<close>

definition fix_order :: "xenv \<Rightarrow> ximage \<Rightarrow> nat \<Rightarrow> nat \<Rightarrow> nat \<Rightarrow> ximage option" where
  "fix_order E xim depth w h =
     (if xi_msb xim = be E then Some xim
      else if depth = 15 \<or> depth = 16 then do {
        m1 \<leftarrow> swap_rows 2 (xi_bytes_per_line xim) w 0 h (xi_data xim);
        m2 \<leftarrow> swap_rows 4 (xi_bytes_per_line xim) w 0 h m1;
        Some (xim\<lparr>xi_data := m2\<rparr>)
      }
      else if depth = 24 \<or> depth = 25 \<or> depth = 32 then do {
        m1 \<leftarrow> swap_rows 4 (xi_bytes_per_line xim) w 0 h (xi_data xim);
        Some (xim\<lparr>xi_data := m1\<rparr>)
      }
      else Some xim)"

section \<open>Pixels\<close>

definition alpha :: "xenv \<Rightarrow> ximage option \<Rightarrow> nat \<Rightarrow> nat \<Rightarrow> pix" where
  "alpha E mxim x y =
     (case mxim of
        None \<Rightarrow> 0xff000000
      | Some mx \<Rightarrow> if XGetPixel E mx x y \<noteq> 0 then 0xff000000 else 0)"

definition table_pixel :: "xenv \<Rightarrow> pix \<Rightarrow> pix" where
  "table_pixel E p =
     (let i = unat (p AND 0xff)
      in ucast (btab E i) OR push_bit 8 (ucast (gtab E i)) OR push_bit 16 (ucast (rtab E i)))"

text \<open>\<open>P1\<close> and \<open>P2\<close> for 5-6-5 bits, then for 5-5-5 bits.\<close>

definition P1_16 :: "pix \<Rightarrow> pix" where
  "P1_16 p = (push_bit 8 p AND 0xf80000) OR (push_bit 5 p AND 0x00fc00) OR (push_bit 3 p AND 0x0000f8)"

definition P2_16 :: "pix \<Rightarrow> pix" where
  "P2_16 p = (drop_bit 8 p AND 0xf80000) OR (drop_bit 11 p AND 0x00fc00) OR (drop_bit 13 p AND 0x0000f8)"

definition P1_15 :: "pix \<Rightarrow> pix" where
  "P1_15 p = (push_bit 9 p AND 0xf80000) OR (push_bit 6 p AND 0x00f800) OR (push_bit 3 p AND 0x0000f8)"

definition P2_15 :: "pix \<Rightarrow> pix" where
  "P2_15 p = (drop_bit 7 p AND 0xf80000) OR (drop_bit 10 p AND 0x00f800) OR (drop_bit 13 p AND 0x0000f8)"

definition rgb_pixel :: "bool \<Rightarrow> pix \<Rightarrow> pix" where
  "rgb_pixel bgr p =
     (if bgr then (push_bit 16 p AND 0xff0000) OR (p AND 0x00ff00) OR (drop_bit 16 p AND 0x0000ff)
      else p AND 0x00ffffff)"

definition SWAP32 :: "pix \<Rightarrow> pix" where
  "SWAP32 p = push_bit 24 (p AND 0xff) OR push_bit 8 (p AND 0xff00) OR drop_bit 8 (p AND 0xff0000) OR drop_bit 24 (p AND 0xff000000)"

section \<open>The loops\<close>

text \<open>\<open>*ptr++ = v\<close>\<close>

definition put :: "pix list \<Rightarrow> int \<Rightarrow> pix \<Rightarrow> pix list option" where
  "put d i v = (if 0 \<le> i \<and> i < int (length d) then Some (d[nat i := v]) else None)"

fun put_row :: "(nat \<Rightarrow> pix option) \<Rightarrow> nat \<Rightarrow> nat \<Rightarrow> int \<Rightarrow> pix list \<Rightarrow> pix list option" where
  "put_row f x 0 ptr d = Some d"
| "put_row f x (Suc n) ptr d = do { v \<leftarrow> f x; d1 \<leftarrow> put d ptr v; put_row f (x + 1) n (ptr + 1) d1 }"

text \<open>Two pixels are read at once; a last one is read with \<open>XGetPixel\<close>.\<close>

function pair_row ::
  "xenv \<Rightarrow> (pix \<Rightarrow> pix) \<Rightarrow> (pix \<Rightarrow> pix) \<Rightarrow> ximage \<Rightarrow> ximage option \<Rightarrow> nat \<Rightarrow> nat \<Rightarrow> nat \<Rightarrow> int \<Rightarrow> pix list \<Rightarrow> pix list option" where
  "pair_row E p1 p2 xim mxim y w x ptr d =
     (if x + 1 < w then do {
        s \<leftarrow> rd32 (be E) (xi_data xim) (xi_bytes_per_line xim * y + 2 * x);
        let a = (if be E then alpha E mxim (x + 1) y OR p2 s else alpha E mxim x y OR p1 s);
        let b = (if be E then alpha E mxim x y OR p1 s else alpha E mxim (x + 1) y OR p2 s);
        d1 \<leftarrow> put d ptr a;
        d2 \<leftarrow> put d1 (ptr + 1) b;
        pair_row E p1 p2 xim mxim y w (x + 2) (ptr + 2) d2
      }
      else if x + 1 = w then put d ptr (alpha E mxim x y OR p1 (XGetPixel E xim x y))
      else Some d)"
  by pat_completeness auto
termination pair_row
  by (relation "measure (\<lambda>(E, p1, p2, xim, mxim, y, w, x, ptr, d). w - x)") auto

declare pair_row.simps [simp del]

text \<open>For each line, from the place \<open>(y + iny) * ow + inx\<close> of the destination on.\<close>

fun each_row :: "(nat \<Rightarrow> int \<Rightarrow> pix list \<Rightarrow> pix list option) \<Rightarrow> int \<Rightarrow> int \<Rightarrow> int \<Rightarrow> nat \<Rightarrow> nat \<Rightarrow> pix list \<Rightarrow> pix list option" where
  "each_row row inx iny ow y 0 d = Some d"
| "each_row row inx iny ow y (Suc h) d =
     Option.bind (row y ((int y + iny) * ow + inx) d) (each_row row inx iny ow (y + 1) h)"

section \<open>The conversion\<close>

definition pixel_at :: "xenv \<Rightarrow> ximage \<Rightarrow> ximage option \<Rightarrow> bool \<Rightarrow> nat \<Rightarrow> nat \<Rightarrow> nat \<Rightarrow> pix option" where
  "pixel_at E xim mxim bgr depth y x =
     (if depth \<le> 8 then Some (alpha E mxim x y OR table_pixel E (XGetPixel E xim x y))
      else if depth = 24 then Some (alpha E mxim x y OR rgb_pixel bgr (XGetPixel E xim x y))
      else do {
        s \<leftarrow> rd32 (be E) (xi_data xim) (xi_bytes_per_line xim * y + 4 * x);
        if depth = 25 then Some (alpha E mxim x y OR rgb_pixel bgr s)
        else
          let p = (if bgr then SWAP32 s else s)
          in Some (case mxim of None \<Rightarrow> p | Some mx \<Rightarrow> if XGetPixel E mx x y = 0 then p AND 0x00ffffff else p)
      })"

text \<open>The depths the last \<open>switch\<close> knows.\<close>

definition grab_rows :: "xenv \<Rightarrow> ximage \<Rightarrow> ximage option \<Rightarrow> bool \<Rightarrow> nat \<Rightarrow> int \<Rightarrow> int \<Rightarrow> int \<Rightarrow> nat \<Rightarrow> nat \<Rightarrow> pix list \<Rightarrow> pix list option" where
  "grab_rows E xim mxim bgr depth inx iny ow w h d =
     (if depth = 16 then each_row (\<lambda>y. pair_row E P1_16 P2_16 xim mxim y w 0) inx iny ow 0 h d
      else if depth = 15 then each_row (\<lambda>y. pair_row E P1_15 P2_15 xim mxim y w 0) inx iny ow 0 h d
      else if depth \<le> 8 \<or> depth = 24 \<or> depth = 25 \<or> depth = 32 then
        each_row (\<lambda>y. put_row (pixel_at E xim mxim bgr depth y) 0 w) inx iny ow 0 h d
      else Some d)"

definition GrabXImageToRGBA ::
  "xenv \<Rightarrow> ximage \<Rightarrow> ximage option \<Rightarrow> bool \<Rightarrow> nat \<Rightarrow> int \<Rightarrow> int \<Rightarrow> int \<Rightarrow> int \<Rightarrow> int \<Rightarrow> nat \<Rightarrow> nat \<Rightarrow> pix list option \<Rightarrow> pix list option option" where
  "GrabXImageToRGBA E xim mxim bgr depth x y ox oy ow w h data =
     (case data of
        None \<Rightarrow> Some None
      | Some d \<Rightarrow>
          let inx = (if x < 0 then - x else ox);
              iny = (if y < 0 then - y else oy);
              depth1 = (if depth = 24 \<and> xi_bits_per_pixel xim = 32 then 25 else depth)
          in do {
            xim1 \<leftarrow> fix_order E xim depth1 w h;
            d1 \<leftarrow> grab_rows E xim1 mxim bgr depth1 inx iny ow w h d;
            Some (Some d1)
          })"

section \<open>A drawable\<close>

text \<open>One axis of the clipping; \<open>screen\<close> is the size of the root window, \<open>pos\<close> the place of the drawable in it.\<close>

definition clip_axis :: "bool \<Rightarrow> int \<Rightarrow> int \<Rightarrow> int \<Rightarrow> int \<Rightarrow> int \<Rightarrow> int \<times> int \<times> int" where
  "clip_axis is_pixmap pos len screen x w =
     (let width = len - x;
          width = (if w < width then w else width);
          width = (if \<not> is_pixmap \<and> screen < pos + x + width then screen - (pos + x) else width);
          (clip, width, x) = (if x < 0 then (- x, width + x, 0) else (0, width, x));
          (clip, width, x) = (if \<not> is_pixmap \<and> pos + x < 0 then (clip - (pos + x), width + (pos + x), - pos) else (clip, width, x))
      in (x, width, clip))"

text \<open>
  What the X server tells of the drawable, and the images it gives. \<open>x_shaped\<close>: the shape of the window is not its
  whole rectangle. Shared memory only changes how the images come.
\<close>

record drawable =
  x_pixmap :: bool
  x_visible :: bool
  x_depth :: nat
  x_pos :: "int \<times> int"
  x_size :: "int \<times> int"
  x_screen :: "int \<times> int"
  x_shaped :: bool
  x_bgr :: bool
  x_colors :: "nat \<Rightarrow> 16 word \<times> 16 word \<times> 16 word"
  x_image :: "int \<Rightarrow> int \<Rightarrow> nat \<Rightarrow> nat \<Rightarrow> ximage option"
  x_mask :: "nat \<Rightarrow> nat \<Rightarrow> ximage option"

text \<open>The tables of the last depth up to 8 stay; a bitmap without a colour map is white and black.\<close>

definition load_tables :: "drawable \<Rightarrow> bool \<Rightarrow> xenv \<Rightarrow> xenv" where
  "load_tables X cm E =
     (if x_depth X = 1 \<and> \<not> cm \<and> x_pixmap X then
        E\<lparr>rtab := (rtab E)(0 := 255, 1 := 0), gtab := (gtab E)(0 := 255, 1 := 0), btab := (btab E)(0 := 255, 1 := 0)\<rparr>
      else if x_depth X \<le> 8 then
        E\<lparr>rtab := \<lambda>i. if i < 2 ^ x_depth X then ucast (drop_bit 8 (fst (x_colors X i))) else rtab E i,
          gtab := \<lambda>i. if i < 2 ^ x_depth X then ucast (drop_bit 8 (fst (snd (x_colors X i)))) else gtab E i,
          btab := \<lambda>i. if i < 2 ^ x_depth X then ucast (drop_bit 8 (snd (snd (x_colors X i)))) else btab E i\<rparr>
      else E)"

text \<open>
  The result is the return value, the destination and \<open>*pdomask\<close>. \<open>m\<close> and \<open>cm\<close> say whether a mask and a colour map
  are given.
\<close>

definition GrabDrawableToRGBA ::
  "xenv \<Rightarrow> drawable \<Rightarrow> bool \<Rightarrow> bool \<Rightarrow> int \<Rightarrow> int \<Rightarrow> int \<Rightarrow> int \<Rightarrow> int \<Rightarrow> int \<Rightarrow> int \<Rightarrow> bool option \<Rightarrow>
     pix list option \<Rightarrow> (int \<times> pix list option \<times> bool option) option" where
  "GrabDrawableToRGBA E X m cm ox oy ow x y w h pdomask data =
     (let domask = (case pdomask of None \<Rightarrow> False | Some b \<Rightarrow> b);
          (x1, width, clipx) = clip_axis (x_pixmap X) (fst (x_pos X)) (fst (x_size X)) (fst (x_screen X)) x w;
          (y1, height, clipy) = clip_axis (x_pixmap X) (snd (x_pos X)) (snd (x_size X)) (snd (x_screen X)) y h
      in if \<not> x_pixmap X \<and> \<not> x_visible X then Some (0, data, pdomask)
         else if width \<le> 0 \<or> height \<le> 0 then Some (0, data, pdomask)
         else
           let m1 = (m \<or> \<not> x_pixmap X \<and> domask \<and> x_shaped X)
           in case x_image X x1 y1 (nat width) (nat height) of
                None \<Rightarrow> Some (0, data, pdomask)
              | Some xim \<Rightarrow>
                  let mxim = (if m1 \<and> domask then x_mask X (nat width) (nat height) else None)
                  in do {
                    d1 \<leftarrow> GrabXImageToRGBA (load_tables X cm E) xim mxim (x_bgr X) (x_depth X) x1 y1
                           (ox + clipx) (oy + clipy) ow (nat width) (nat height) data;
                    Some (1, d1,
                      map_option (\<lambda>b. if x_depth X = 32 then True else if \<not> m1 then False else b) pdomask)
                  })"

section \<open>Clipping\<close>

text \<open>C34: Clipping. What is left of one axis of the rectangle lies in the drawable, and for a window on the screen too; it is what the
  two have in common with the rectangle that was asked for; and the offset in the destination moves with it, so the pixels keep their places
  and none goes behind the size that was asked for.\<close>

theorem grab_clip:
  assumes "clip_axis is_pixmap pos len screen x w = (x1, width, clip)" "0 < width"
  shows "0 \<le> x1 \<and> x1 + width \<le> len \<and> (is_pixmap \<or> 0 \<le> pos + x1 \<and> pos + x1 + width \<le> screen) \<and>
    0 \<le> clip \<and> clip = x1 - x \<and> clip + width \<le> w \<and>
    {x1..<x1 + width} = {x..<x + w} \<inter> {0..<len} \<inter> (if is_pixmap then UNIV else {- pos..<screen - pos})"
  using assms by (auto simp: clip_axis_def Let_def split: if_splits)

theorem grab_clip_witness:
  "0 \<le> (20 :: int) \<and> 20 + 60 \<le> (100 :: int) \<and> (False \<or> 0 \<le> - 20 + (20 :: int) \<and> - 20 + 20 + 60 \<le> (60 :: int)) \<and>
    0 \<le> (25 :: int) \<and> 25 = 20 - (- 5 :: int) \<and> 25 + 60 \<le> (200 :: int) \<and>
    {20..<20 + 60} = {- 5..<- 5 + 200} \<inter> {0..<100} \<inter> (if False then UNIV else {- (- 20)..<60 - (- 20 :: int)})"
  by (rule grab_clip) (simp_all add: clip_axis_def)

section \<open>The loops write lines\<close>

lemma overwrite_Cons: "i < length d \<Longrightarrow> overwrite (d[i := v]) (Suc i) vs = overwrite d i (v # vs)"
  by (simp add: overwrite_def take_Suc_conv_app_nth)

lemma put_nat: "i < length d \<Longrightarrow> put d (int i) v = Some (d[i := v])"
  by (simp add: put_def)

lemma put_row_line:
  "(\<And>k. x \<le> k \<Longrightarrow> k < x + n \<Longrightarrow> f k = Some (g k)) \<Longrightarrow> i + n \<le> length d \<Longrightarrow>
    put_row f x n (int i) d = Some (overwrite d i (map g [x..<x + n]))"
proof (induction n arbitrary: x i d)
  case (Suc n)
  have "put_row f (x + 1) n (int i + 1) (d[i := g x]) = Some (overwrite (d[i := g x]) (Suc i) (map g [Suc x..<Suc x + n]))"
    using Suc.IH [of "Suc x" "Suc i" "d[i := g x]"] Suc.prems by (simp add: add.commute)
  moreover have "[x..<x + Suc n] = x # [Suc x..<Suc x + n]" by (simp add: upt_conv_Cons)
  ultimately show ?case using Suc.prems(1) [of x] Suc.prems(2) put_nat [of i d "g x"] overwrite_Cons [of i d]
    by (simp del: upt_Suc)
qed simp

text \<open>The 16-bit pixel at the byte \<open>i\<close> of a little endian image.\<close>

definition rd16 :: "8 word list \<Rightarrow> nat \<Rightarrow> pix" where
  "rd16 m i = ucast (m ! i) OR push_bit 8 (ucast (m ! (i + 1)))"

lemma rd32_pair: "i + 4 \<le> length m \<Longrightarrow> rd32 False m i = Some (rd16 m i OR push_bit 16 (rd16 m (i + 2)))"
proof -
  assume i: "i + 4 \<le> length m"
  have n: "rev (take 4 (drop i m)) ! 0 = m ! (i + 3)" "rev (take 4 (drop i m)) ! 1 = m ! (i + 2)"
    "rev (take 4 (drop i m)) ! 2 = m ! (i + 1)" "rev (take 4 (drop i m)) ! 3 = m ! i"
    using i by (simp_all add: rev_nth)
  show ?thesis using i n
    by (auto simp: rd32_def rd16_def Let_def push_bit_or ac_simps eval_nat_numeral)
qed

lemma P16_bits:
  "bit (P1_16 p) n \<longleftrightarrow>
     19 \<le> n \<and> n < 24 \<and> bit p (n - 8) \<or> 10 \<le> n \<and> n < 16 \<and> bit p (n - 5) \<or> 3 \<le> n \<and> n < 8 \<and> bit p (n - 3)"
  "bit (P2_16 p) n \<longleftrightarrow>
     19 \<le> n \<and> n < 24 \<and> bit p (n + 8) \<or> 10 \<le> n \<and> n < 16 \<and> bit p (n + 11) \<or> 3 \<le> n \<and> n < 8 \<and> bit p (n + 13)"
proof -
  have m: "(0xf80000 :: pix) = push_bit 19 (mask 5)" "(0x00fc00 :: pix) = push_bit 10 (mask 6)" "(0x0000f8 :: pix) = push_bit 3 (mask 5)"
    by (simp_all add: mask_eq_exp_minus_1 push_bit_eq_mult)
  show "bit (P1_16 p) n \<longleftrightarrow>
     19 \<le> n \<and> n < 24 \<and> bit p (n - 8) \<or> 10 \<le> n \<and> n < 16 \<and> bit p (n - 5) \<or> 3 \<le> n \<and> n < 8 \<and> bit p (n - 3)"
    unfolding P1_16_def m by (auto simp: bit_simps)
  show "bit (P2_16 p) n \<longleftrightarrow>
     19 \<le> n \<and> n < 24 \<and> bit p (n + 8) \<or> 10 \<le> n \<and> n < 16 \<and> bit p (n + 11) \<or> 3 \<le> n \<and> n < 8 \<and> bit p (n + 13)"
    unfolding P2_16_def m by (auto simp: bit_simps ac_simps)
qed

lemma P15_bits:
  "bit (P1_15 p) n \<longleftrightarrow>
     19 \<le> n \<and> n < 24 \<and> bit p (n - 9) \<or> 11 \<le> n \<and> n < 16 \<and> bit p (n - 6) \<or> 3 \<le> n \<and> n < 8 \<and> bit p (n - 3)"
  "bit (P2_15 p) n \<longleftrightarrow>
     19 \<le> n \<and> n < 24 \<and> bit p (n + 7) \<or> 11 \<le> n \<and> n < 16 \<and> bit p (n + 10) \<or> 3 \<le> n \<and> n < 8 \<and> bit p (n + 13)"
proof -
  have m: "(0xf80000 :: pix) = push_bit 19 (mask 5)" "(0x00f800 :: pix) = push_bit 11 (mask 5)" "(0x0000f8 :: pix) = push_bit 3 (mask 5)"
    by (simp_all add: mask_eq_exp_minus_1 push_bit_eq_mult)
  show "bit (P1_15 p) n \<longleftrightarrow>
     19 \<le> n \<and> n < 24 \<and> bit p (n - 9) \<or> 11 \<le> n \<and> n < 16 \<and> bit p (n - 6) \<or> 3 \<le> n \<and> n < 8 \<and> bit p (n - 3)"
    unfolding P1_15_def m by (auto simp: bit_simps)
  show "bit (P2_15 p) n \<longleftrightarrow>
     19 \<le> n \<and> n < 24 \<and> bit p (n + 7) \<or> 11 \<le> n \<and> n < 16 \<and> bit p (n + 10) \<or> 3 \<le> n \<and> n < 8 \<and> bit p (n + 13)"
    unfolding P2_15_def m by (auto simp: bit_simps ac_simps)
qed

lemma rd16_bit: "bit (rd16 m i) n \<Longrightarrow> n < 16"
  using bit_imp_le_length [of "m ! i" n] bit_imp_le_length [of "m ! (i + 1)" "n - 8"]
  by (auto simp: rd16_def bit_simps)

lemma take_bit_rd16 [simp]: "take_bit 16 (rd16 m i) = rd16 m i"
  by (intro bit_word_eqI) (auto simp: bit_simps dest: rd16_bit)

lemma halves:
  assumes "\<And>n. bit lo n \<Longrightarrow> n < 16" "\<And>n. bit hi n \<Longrightarrow> n < 16"
  shows "P1_16 (lo OR push_bit 16 hi) = P1_16 lo" "P2_16 (lo OR push_bit 16 hi) = P1_16 hi"
    "P1_15 (lo OR push_bit 16 hi) = P1_15 lo" "P2_15 (lo OR push_bit 16 hi) = P1_15 hi"
proof -
  have b: "bit (lo OR push_bit 16 hi) n \<longleftrightarrow> (if n < 16 then bit lo n else bit hi (n - 16))" for n
    using assms(1) [of n] assms(2) [of "n - 16"] by (auto simp: bit_simps)
  show "P1_16 (lo OR push_bit 16 hi) = P1_16 lo" "P1_15 (lo OR push_bit 16 hi) = P1_15 lo"
    by (rule bit_word_eqI; auto simp: P16_bits(1) P15_bits(1) b)+
  show "P2_16 (lo OR push_bit 16 hi) = P1_16 hi" "P2_15 (lo OR push_bit 16 hi) = P1_15 hi"
    by (rule bit_word_eqI; auto simp: P16_bits P15_bits b)+
qed

text \<open>The loop over pairs is the loop over pixels.\<close>

lemma pair_row_line:
  assumes "\<not> be E" "\<And>lo hi. (\<And>n. bit lo n \<Longrightarrow> n < 16) \<Longrightarrow> (\<And>n. bit hi n \<Longrightarrow> n < 16) \<Longrightarrow>
      p1 (lo OR push_bit 16 hi) = p1 lo \<and> p2 (lo OR push_bit 16 hi) = p1 hi"
    "xi_bytes_per_line xim * y + 2 * w \<le> length (xi_data xim)"
    "p1 (XGetPixel E xim (w - 1) y) = p1 (rd16 (xi_data xim) (xi_bytes_per_line xim * y + 2 * (w - 1)))"
  shows "x \<le> w \<Longrightarrow> i + (w - x) \<le> length d \<Longrightarrow> pair_row E p1 p2 xim mxim y w x (int i) d =
    Some (overwrite d i (map (\<lambda>k. alpha E mxim k y OR p1 (rd16 (xi_data xim) (xi_bytes_per_line xim * y + 2 * k))) [x..<w]))"
proof (induction "w - x" arbitrary: x i d rule: less_induct)
  case less
  let ?o = "xi_bytes_per_line xim * y"
  let ?g = "\<lambda>k. alpha E mxim k y OR p1 (rd16 (xi_data xim) (?o + 2 * k))"
  consider "x = w" | "x + 1 = w" | "x + 1 < w" using less.prems(1) by linarith
  then show ?case
  proof cases
    case 1
    then show ?thesis by (subst pair_row.simps) simp
  next
    case 2
    then have "w - 1 = x" "[x..<w] = [x]" by (auto simp: upt_rec)
    then show ?thesis using 2 assms(4) less.prems put_nat [of i d "?g x"] overwrite_Cons [of i d "?g x" "[]"]
      by (subst pair_row.simps) simp
  next
    case 3
    have "rd32 False (xi_data xim) (?o + 2 * x) = Some (rd16 (xi_data xim) (?o + 2 * x) OR push_bit 16 (rd16 (xi_data xim) (?o + 2 * x + 2)))"
      by (rule rd32_pair) (use 3 assms(3) in linarith)
    moreover have "p1 (rd16 (xi_data xim) (?o + 2 * x) OR push_bit 16 (rd16 (xi_data xim) (?o + 2 * x + 2))) = p1 (rd16 (xi_data xim) (?o + 2 * x))"
      "p2 (rd16 (xi_data xim) (?o + 2 * x) OR push_bit 16 (rd16 (xi_data xim) (?o + 2 * x + 2))) = p1 (rd16 (xi_data xim) (?o + 2 * x + 2))"
      using assms(2) rd16_bit by blast+
    moreover have "put d (int i) (?g x) = Some (d[i := ?g x])" by (rule put_nat) (use 3 less.prems in linarith)
    moreover have "put (d[i := ?g x]) (int i + 1) (?g (x + 1)) = Some (d[i := ?g x, Suc i := ?g (x + 1)])"
      using put_nat [of "Suc i" "d[i := ?g x]"] 3 less.prems by (simp add: add.commute)
    moreover have "pair_row E p1 p2 xim mxim y w (x + 2) (int i + 2) (d[i := ?g x, Suc i := ?g (x + 1)]) =
        Some (overwrite (d[i := ?g x, Suc i := ?g (x + 1)]) (i + 2) (map ?g [x + 2..<w]))"
      using less.hyps [of "x + 2" "i + 2" "d[i := ?g x, Suc i := ?g (x + 1)]"] 3 less.prems by (simp add: add.commute)
    moreover have "overwrite (d[i := ?g x, Suc i := ?g (x + 1)]) (i + 2) (map ?g [x + 2..<w]) = overwrite d i (map ?g [x..<w])"
    proof -
      have "[x..<w] = x # (x + 1) # [x + 2..<w]" using 3 by (simp add: upt_conv_Cons)
      then show ?thesis
        using overwrite_Cons [of "Suc i" "d[i := ?g x]" "?g (x + 1)" "map ?g [x + 2..<w]"]
          overwrite_Cons [of i d "?g x" "?g (x + 1) # map ?g [x + 2..<w]"] 3 less.prems by simp
    qed
    ultimately show ?thesis using 3 assms(1) by (subst pair_row.simps) (simp add: Let_def algebra_simps)
  qed
qed

text \<open>A rectangle of a picture that is stored line by line.\<close>

lemma line_place:
  fixes k :: nat
  assumes "ix + w \<le> o'" "0 < w"
  shows "Y * o' + ix \<le> k \<and> k < Y * o' + ix + w \<longleftrightarrow> k div o' = Y \<and> ix \<le> k mod o' \<and> k mod o' < ix + w"
    "k div o' = Y \<Longrightarrow> ix \<le> k mod o' \<Longrightarrow> k - (Y * o' + ix) = k mod o' - ix"
proof -
  have o': "0 < o'" using assms by linarith
  have k: "k = k div o' * o' + k mod o'" "k mod o' < o'" using o' by simp_all
  show "Y * o' + ix \<le> k \<and> k < Y * o' + ix + w \<longleftrightarrow> k div o' = Y \<and> ix \<le> k mod o' \<and> k mod o' < ix + w"
  proof (cases "k div o'" Y rule: linorder_cases)
    case less
    then have "Suc (k div o') * o' \<le> Y * o'" by (intro mult_le_mono1) simp
    then have "k div o' * o' + o' \<le> Y * o'" by simp
    then show ?thesis using k less by linarith
  next
    case equal
    then show ?thesis using k(1) by simp linarith
  next
    case greater
    then have "Suc Y * o' \<le> k div o' * o'" by (intro mult_le_mono1) simp
    then have "Y * o' + o' \<le> k div o' * o'" by simp
    then have "Y * o' + o' \<le> k" using k by linarith
    then show ?thesis using greater assms(1) by linarith
  qed
  show "k div o' = Y \<Longrightarrow> ix \<le> k mod o' \<Longrightarrow> k - (Y * o' + ix) = k mod o' - ix"
    using k(1) by (metis diff_diff_left diff_add_inverse)
qed

lemma each_row_rect:
  assumes w: "ix + w \<le> o'" "0 < w" and len: "\<And>y. length (line y) = w"
  shows "(\<And>y i d. y0 \<le> y \<Longrightarrow> y < y0 + h \<Longrightarrow> i + w \<le> length d \<Longrightarrow> row y (int i) d = Some (overwrite d i (line y))) \<Longrightarrow>
    (y0 + iy + h) * o' \<le> length d \<Longrightarrow>
    \<exists>d'. each_row row (int ix) (int iy) (int o') y0 h d = Some d' \<and> length d' = length d \<and>
      (\<forall>k<length d. d' ! k =
        (if y0 + iy \<le> k div o' \<and> k div o' < y0 + iy + h \<and> ix \<le> k mod o' \<and> k mod o' < ix + w
         then line (k div o' - iy) ! (k mod o' - ix) else d ! k))"
proof (induction h arbitrary: y0 d)
  case (Suc h)
  let ?i = "(y0 + iy) * o' + ix" and ?Y = "y0 + iy"
  have "Suc ?Y * o' \<le> length d" using Suc.prems(2) by (rule order_trans [rotated]) (rule mult_le_mono1, simp)
  then have fits: "?i + w \<le> length d" using w by simp
  let ?d = "overwrite d ?i (line y0)"
  have ld: "length ?d = length d" using fits len by simp
  have "\<exists>d'. each_row row (int ix) (int iy) (int o') (y0 + 1) h ?d = Some d' \<and> length d' = length ?d \<and>
      (\<forall>k<length ?d. d' ! k =
        (if y0 + 1 + iy \<le> k div o' \<and> k div o' < y0 + 1 + iy + h \<and> ix \<le> k mod o' \<and> k mod o' < ix + w
         then line (k div o' - iy) ! (k mod o' - ix) else ?d ! k))"
    by (rule Suc.IH) (use Suc.prems ld in \<open>simp_all\<close>)
  then obtain d' where d': "each_row row (int ix) (int iy) (int o') (y0 + 1) h ?d = Some d'" "length d' = length d"
    "\<And>k. k < length d \<Longrightarrow> d' ! k =
        (if y0 + 1 + iy \<le> k div o' \<and> k div o' < y0 + 1 + iy + h \<and> ix \<le> k mod o' \<and> k mod o' < ix + w
         then line (k div o' - iy) ! (k mod o' - ix) else ?d ! k)"
    using ld by auto
  have "row y0 ((int y0 + int iy) * int o' + int ix) d = Some ?d"
    using Suc.prems(1) [of y0 ?i d] fits by simp
  moreover have "d' ! k = (if ?Y \<le> k div o' \<and> k div o' < ?Y + Suc h \<and> ix \<le> k mod o' \<and> k mod o' < ix + w
         then line (k div o' - iy) ! (k mod o' - ix) else d ! k)" if "k < length d" for k
  proof -
    have "?d ! k = (if k div o' = ?Y \<and> ix \<le> k mod o' \<and> k mod o' < ix + w then line y0 ! (k mod o' - ix) else d ! k)"
      using line_place(1) [OF w, of ?Y k] line_place(2) [OF w, of k ?Y] nth_overwrite [of ?i "line y0" d k] fits that
      unfolding len by (smt (verit) not_less)
    then show ?thesis using d'(3) [OF that] by auto
  qed
  ultimately show ?case using d'(1,2) by simp
qed auto

section \<open>What a pixel should be\<close>

text \<open>The channels of a pixel as the server stores it: five, six and five bits, three times five bits, or bytes, where blue and red
  change places when blue comes first. The alpha of 32 bits is the first byte.\<close>

definition channels :: "xenv \<Rightarrow> bool \<Rightarrow> nat \<Rightarrow> pix \<Rightarrow> 8 word \<times> 8 word \<times> 8 word" where
  "channels E bgr depth p =
     (if depth \<le> 8 then let i = unat (take_bit 8 p) in (rtab E i, gtab E i, btab E i)
      else if depth = 16 then (push_bit 3 (ucast (drop_bit 11 p)), push_bit 2 (ucast (drop_bit 5 p)), push_bit 3 (ucast p))
      else if depth = 15 then (push_bit 3 (ucast (drop_bit 10 p)), push_bit 3 (ucast (drop_bit 5 p)), push_bit 3 (ucast p))
      else if bgr then (ucast p, ucast (drop_bit 8 p), ucast (drop_bit 16 p))
      else (ucast (drop_bit 16 p), ucast (drop_bit 8 p), ucast p))"

definition alpha_channel :: "nat \<Rightarrow> pix \<Rightarrow> 8 word" where
  "alpha_channel depth p = (if depth \<noteq> 32 then 0xff else ucast (drop_bit 24 p))"

definition argb :: "8 word \<Rightarrow> 8 word \<times> 8 word \<times> 8 word \<Rightarrow> pix" where
  "argb a c = push_bit 24 (ucast a) OR push_bit 16 (ucast (fst c)) OR push_bit 8 (ucast (fst (snd c))) OR ucast (snd (snd c))"

definition opaque :: "xenv \<Rightarrow> ximage option \<Rightarrow> nat \<Rightarrow> nat \<Rightarrow> bool" where
  "opaque E mxim x y = (case mxim of None \<Rightarrow> True | Some mx \<Rightarrow> XGetPixel E mx x y \<noteq> 0)"

lemma masks:
  "(0xff000000 :: pix) = push_bit 24 (mask 8)" "(0xff0000 :: pix) = push_bit 16 (mask 8)" "(0xff00 :: pix) = push_bit 8 (mask 8)"
  "(0xff :: pix) = mask 8" "(0xffffff :: pix) = mask 24" "(0xff :: 8 word) = mask 8"
  by (simp_all add: mask_eq_exp_minus_1 push_bit_eq_mult)

lemma argb_bit:
  "bit (argb a (r, g, b)) n \<longleftrightarrow>
     (if n < 8 then bit b n else if n < 16 then bit g (n - 8) else if n < 24 then bit r (n - 16) else n < 32 \<and> bit a (n - 24))"
  using bit_imp_le_length [of b n] bit_imp_le_length [of g "n - 8"] bit_imp_le_length [of r "n - 16"]
  by (auto simp: argb_def bit_simps)

lemma alpha_bit: "bit (alpha E mxim x y) n \<longleftrightarrow> opaque E mxim x y \<and> 24 \<le> n \<and> n < 32"
  unfolding alpha_def opaque_def masks by (auto simp: bit_simps split: option.split)

text \<open>The shifts of the code put the channels together, with the mask as alpha.\<close>

lemma alpha_argb: "alpha E mxim x y OR argb 0 c = argb (if opaque E mxim x y then 0xff else 0) c"
  by (cases c) (auto intro!: bit_word_eqI simp: alpha_bit argb_bit masks(6) bit_simps)

lemma table_pixel_argb:
  "alpha E mxim x y OR table_pixel E p = argb (if opaque E mxim x y then 0xff else 0) (channels E bgr depth p)" if "depth \<le> 8"
proof -
  have "unat (p AND 0xff) = unat (take_bit 8 p)" unfolding masks by (simp add: take_bit_eq_mask)
  then have "table_pixel E p = argb 0 (channels E bgr depth p)"
    using that by (simp add: channels_def argb_def table_pixel_def Let_def ac_simps)
  then show ?thesis by (simp only: alpha_argb)
qed

lemma P1_16_argb:
  "alpha E mxim x y OR P1_16 p = argb (if opaque E mxim x y then 0xff else 0) (channels E bgr 16 p)"
  by (intro bit_word_eqI) (auto simp: alpha_bit argb_bit P16_bits channels_def masks(6) bit_simps)

lemma P1_15_argb:
  "alpha E mxim x y OR P1_15 p = argb (if opaque E mxim x y then 0xff else 0) (channels E bgr 15 p)"
  by (intro bit_word_eqI) (auto simp: alpha_bit argb_bit P15_bits channels_def masks(6) bit_simps)

lemma rgb_pixel_argb:
  "alpha E mxim x y OR rgb_pixel bgr p = argb (if opaque E mxim x y then 0xff else 0) (channels E bgr 24 p)"
  unfolding rgb_pixel_def masks
  by (intro bit_word_eqI) (auto simp: alpha_bit argb_bit channels_def masks(6) bit_simps)

text \<open>With 32 bits and blue first the code turns all four bytes around: what should be \<open>argb a (r, g, b)\<close> is
  \<open>argb r (g, b, a)\<close>.\<close>

lemma SWAP32_argb: "SWAP32 (argb a (b, g, r)) = argb r (g, b, a)"
proof (rule bit_word_eqI)
  fix n assume "n < LENGTH(32)"
  then show "bit (SWAP32 (argb a (b, g, r))) n = bit (argb r (g, b, a)) n"
    unfolding SWAP32_def masks by (auto simp: argb_bit bit_simps)
qed

lemma blue_first_32:
  assumes "rd32 (be E) (xi_data xim) (xi_bytes_per_line xim * y + 4 * x) = Some (argb a (b, g, r))"
  shows "pixel_at E xim None True 32 y x = Some (argb r (g, b, a))"
  using assms by (simp add: pixel_at_def SWAP32_argb)

lemma word_argb: "p = argb (alpha_channel 32 p) (channels E False 32 p)"
  by (intro bit_word_eqI) (auto simp: argb_bit channels_def alpha_channel_def bit_simps)

lemma argb_clear: "argb a c AND 0x00ffffff = argb 0 c"
  by (cases c) (auto intro!: bit_word_eqI simp: masks argb_bit bit_simps split: if_splits)

definition pixel_spec :: "xenv \<Rightarrow> ximage option \<Rightarrow> bool \<Rightarrow> nat \<Rightarrow> nat \<Rightarrow> nat \<Rightarrow> pix \<Rightarrow> pix" where
  "pixel_spec E mxim bgr depth x y p =
     argb (if opaque E mxim x y then alpha_channel depth p else 0) (channels E bgr depth p)"

lemma channels_take_bit:
  assumes "depth = 15 \<or> depth = 16 \<or> depth = 24 \<or> depth = 32"
  shows "channels E bgr depth (take_bit depth p) = channels E bgr depth p"
  using assms by (auto simp: channels_def intro!: bit_word_eqI simp: bit_simps)

lemma pixel_spec_take_bit:
  assumes "depth = 15 \<or> depth = 16 \<or> depth = 24 \<or> depth = 32"
  shows "pixel_spec E mxim bgr depth x y (take_bit depth p) = pixel_spec E mxim bgr depth x y p"
proof -
  have "take_bit 32 p = p" by (auto intro!: bit_word_eqI simp: bit_simps)
  then have "alpha_channel depth (take_bit depth p) = alpha_channel depth p" by (auto simp: alpha_channel_def)
  then show ?thesis using channels_take_bit [OF assms] by (simp add: pixel_spec_def)
qed

text \<open>
  The images of the server, as the manual of Xlib has them: pixels of 16 or 32 bits stand in their line one after the other, in the
  byte order of the image, and \<open>XGetPixel\<close> returns as many of the last bits as the image is deep.
\<close>

definition pixel_word :: "ximage \<Rightarrow> nat \<Rightarrow> nat \<Rightarrow> pix option" where
  "pixel_word xim x y =
     (if xi_bits_per_pixel xim = 32 then rd32 (xi_msb xim) (xi_data xim) (xi_bytes_per_line xim * y + 4 * x)
      else
        let i = xi_bytes_per_line xim * y + 2 * x
        in if length (xi_data xim) < i + 2 then None
           else Some (if xi_msb xim then push_bit 8 (ucast (xi_data xim ! i)) OR ucast (xi_data xim ! (i + 1))
                      else rd16 (xi_data xim) i))"

definition z_image :: "xenv \<Rightarrow> nat \<Rightarrow> ximage \<Rightarrow> nat \<Rightarrow> nat \<Rightarrow> bool" where
  "z_image E depth xim w h \<longleftrightarrow>
     (depth = 15 \<or> depth = 16 \<longrightarrow> xi_bits_per_pixel xim = 16) \<and> (depth = 32 \<longrightarrow> xi_bits_per_pixel xim = 32) \<and>
     (8 < depth \<and> (xi_bits_per_pixel xim = 16 \<or> xi_bits_per_pixel xim = 32) \<longrightarrow>
        (\<forall>x<w. \<forall>y<h. pixel_word xim x y \<noteq> None \<and> XGetPixel E xim x y = take_bit depth (the (pixel_word xim x y))))"

text \<open>The words that the code reads from memory on its own.\<close>

lemma z_image_word:
  assumes "z_image E depth xim w h" "x < w" "y < h" "xi_msb xim = be E"
  shows "depth = 15 \<or> depth = 16 \<Longrightarrow> \<not> be E \<Longrightarrow> xi_bytes_per_line xim * y + 2 * x + 2 \<le> length (xi_data xim) \<and>
      XGetPixel E xim x y = take_bit depth (rd16 (xi_data xim) (xi_bytes_per_line xim * y + 2 * x))"
    "depth = 32 \<or> depth = 24 \<and> xi_bits_per_pixel xim = 32 \<Longrightarrow>
      \<exists>p. rd32 (be E) (xi_data xim) (xi_bytes_per_line xim * y + 4 * x) = Some p \<and> XGetPixel E xim x y = take_bit depth p"
proof -
  show "xi_bytes_per_line xim * y + 2 * x + 2 \<le> length (xi_data xim) \<and>
      XGetPixel E xim x y = take_bit depth (rd16 (xi_data xim) (xi_bytes_per_line xim * y + 2 * x))"
    if "depth = 15 \<or> depth = 16" "\<not> be E"
  proof -
    have b: "xi_bits_per_pixel xim = 16" "pixel_word xim x y \<noteq> None" "XGetPixel E xim x y = take_bit depth (the (pixel_word xim x y))"
      using that assms(1-3) by (auto simp: z_image_def)
    then show ?thesis using that(2) assms(4) by (simp add: pixel_word_def Let_def split: if_splits)
  qed
  show "\<exists>p. rd32 (be E) (xi_data xim) (xi_bytes_per_line xim * y + 4 * x) = Some p \<and> XGetPixel E xim x y = take_bit depth p"
    if "depth = 32 \<or> depth = 24 \<and> xi_bits_per_pixel xim = 32"
  proof -
    have "xi_bits_per_pixel xim = 32" "pixel_word xim x y \<noteq> None" "XGetPixel E xim x y = take_bit depth (the (pixel_word xim x y))"
      using that assms(1-3) by (auto simp: z_image_def)
    then show ?thesis using assms(4) by (auto simp: pixel_word_def)
  qed
qed

text \<open>What the code converts: no drawable with blue first but one of 24 bits or with a colour table.\<close>

definition converts :: "xenv \<Rightarrow> bool \<Rightarrow> nat \<Rightarrow> bool" where
  "converts E bgr depth \<longleftrightarrow>
     depth \<le> 8 \<or> depth = 24 \<or> \<not> bgr \<and> (depth = 32 \<or> (depth = 15 \<or> depth = 16) \<and> \<not> be E)"

lemma pixel_at_spec:
  assumes "depth \<le> 8 \<or> depth = 24 \<or> depth = 32" "converts E bgr depth" "z_image E depth xim w h" "x < w" "y < h" "xi_msb xim = be E"
  shows "pixel_at E xim mxim bgr (if depth = 24 \<and> xi_bits_per_pixel xim = 32 then 25 else depth) y x =
    Some (pixel_spec E mxim bgr depth x y (XGetPixel E xim x y))"
proof -
  note word = z_image_word(2) [OF assms(3-6)]
  consider "depth \<le> 8" | "depth = 24" "xi_bits_per_pixel xim = 32" | "depth = 24" "xi_bits_per_pixel xim \<noteq> 32" | "depth = 32"
    using assms(1) by blast
  then show ?thesis
  proof cases
    case 1
    then show ?thesis using table_pixel_argb [OF 1, of E mxim x y "XGetPixel E xim x y" bgr]
      by (simp add: pixel_at_def pixel_spec_def alpha_channel_def)
  next
    case 2
    then obtain p where p: "rd32 (be E) (xi_data xim) (xi_bytes_per_line xim * y + 4 * x) = Some p" "XGetPixel E xim x y = take_bit 24 p"
      using word by auto
    have "alpha E mxim x y OR rgb_pixel bgr p = pixel_spec E mxim bgr 24 x y p"
      by (simp add: rgb_pixel_argb [of E] pixel_spec_def alpha_channel_def)
    also have "\<dots> = pixel_spec E mxim bgr 24 x y (XGetPixel E xim x y)" using pixel_spec_take_bit [of 24 E mxim bgr x y p] p(2) by simp
    finally show ?thesis using 2 p(1) by (simp add: pixel_at_def)
  next
    case 3
    then show ?thesis by (simp add: pixel_at_def rgb_pixel_argb [of E] pixel_spec_def alpha_channel_def)
  next
    case 4
    then obtain p where "rd32 (be E) (xi_data xim) (xi_bytes_per_line xim * y + 4 * x) = Some p" "XGetPixel E xim x y = take_bit 32 p"
      using word by auto
    moreover have "take_bit 32 p = p" by (auto intro!: bit_word_eqI simp: bit_simps)
    moreover have b: "\<not> bgr" using assms(2) 4 by (simp add: converts_def)
    ultimately have p: "rd32 (be E) (xi_data xim) (xi_bytes_per_line xim * y + 4 * x) = Some p" "XGetPixel E xim x y = p" by simp_all
    have "pixel_at E xim mxim bgr 32 y x = Some (if opaque E mxim x y then p else p AND 0x00ffffff)"
      using p b by (auto simp: pixel_at_def opaque_def Let_def split: option.split)
    also have "(if opaque E mxim x y then p else p AND 0x00ffffff) = pixel_spec E mxim False 32 x y p"
      using word_argb [of p E] argb_clear [of "alpha_channel 32 p" "channels E False 32 p"] by (simp add: pixel_spec_def)
    finally show ?thesis using 4 b p(2) by simp
  qed
qed

lemma pair_row_spec:
  assumes d: "depth = 15 \<and> p1 = P1_15 \<and> p2 = P2_15 \<or> depth = 16 \<and> p1 = P1_16 \<and> p2 = P2_16" and E: "\<not> be E"
    and w: "0 < w" and st: "z_image E depth xim w h" "y < h" "xi_msb xim = be E" and i: "i + w \<le> length d"
  shows "pair_row E p1 p2 xim mxim y w 0 (int i) d =
    Some (overwrite d i (map (\<lambda>x. pixel_spec E mxim bgr depth x y (XGetPixel E xim x y)) [0..<w]))"
proof -
  let ?g = "\<lambda>x. rd16 (xi_data xim) (xi_bytes_per_line xim * y + 2 * x)"
  have D: "depth = 15 \<or> depth = 16" using d by blast
  have get: "xi_bytes_per_line xim * y + 2 * x + 2 \<le> length (xi_data xim) \<and> XGetPixel E xim x y = take_bit depth (?g x)" if "x < w" for x
    using z_image_word(1) [OF st(1) that st(2,3) D E] .
  have spec: "alpha E mxim x y OR p1 p = pixel_spec E mxim bgr depth x y p" for x p
    using d P1_16_argb [of E mxim x y p bgr] P1_15_argb [of E mxim x y p bgr] by (auto simp: pixel_spec_def alpha_channel_def)
  have same: "pixel_spec E mxim bgr depth x y (?g x) = pixel_spec E mxim bgr depth x y (XGetPixel E xim x y)" if "x < w" for x
    using get [OF that] pixel_spec_take_bit [of depth] D by auto
  have "pair_row E p1 p2 xim mxim y w 0 (int i) d = Some (overwrite d i (map (\<lambda>k. alpha E mxim k y OR p1 (?g k)) [0..<w]))"
  proof (rule pair_row_line [OF E])
    show "xi_bytes_per_line xim * y + 2 * w \<le> length (xi_data xim)" using get [of "w - 1"] w by auto
    show "p1 (XGetPixel E xim (w - 1) y) = p1 (?g (w - 1))"
    proof -
      have "XGetPixel E xim (w - 1) y = take_bit depth (?g (w - 1))" using get [of "w - 1"] w by simp
      then show ?thesis using d by (auto intro!: bit_word_eqI simp: P16_bits(1) P15_bits(1) bit_simps)
    qed
    show "p1 (lo OR push_bit 16 hi) = p1 lo \<and> p2 (lo OR push_bit 16 hi) = p1 hi"
      if "\<And>n. bit lo n \<Longrightarrow> n < 16" "\<And>n. bit hi n \<Longrightarrow> n < 16" for lo hi
      using d halves [of lo hi] that by auto
  qed (use i in auto)
  also have "map (\<lambda>k. alpha E mxim k y OR p1 (?g k)) [0..<w] =
      map (\<lambda>x. pixel_spec E mxim bgr depth x y (XGetPixel E xim x y)) [0..<w]"
    using spec same by simp
  finally show ?thesis .
qed

definition in_rect :: "nat \<Rightarrow> nat \<Rightarrow> nat \<Rightarrow> nat \<Rightarrow> nat \<Rightarrow> nat \<Rightarrow> bool" where
  "in_rect ix iy w h o' k \<longleftrightarrow> iy \<le> k div o' \<and> k div o' < iy + h \<and> ix \<le> k mod o' \<and> k mod o' < ix + w"

lemma grab_image:
  assumes order: "xi_msb xim = be E" and depth: "converts E bgr depth"
    and place: "0 < w" "ix + w \<le> o'" "(iy + h) * o' \<le> length d" "0 \<le> x" "0 \<le> y"
    and st: "z_image E depth xim w h"
  shows "\<exists>d'. GrabXImageToRGBA E xim mxim bgr depth x y (int ix) (int iy) (int o') w h (Some d) = Some (Some d') \<and>
    length d' = length d \<and> (\<forall>k<length d. d' ! k =
      (if in_rect ix iy w h o' k
       then pixel_spec E mxim bgr depth (k mod o' - ix) (k div o' - iy) (XGetPixel E xim (k mod o' - ix) (k div o' - iy))
       else d ! k))"
proof -
  define line where "line j = map (\<lambda>i. pixel_spec E mxim bgr depth i j (XGetPixel E xim i j)) [0..<w]" for j
  let ?D = "if depth = 24 \<and> xi_bits_per_pixel xim = 32 then 25 else depth"
  have rows: "\<exists>d'. each_row row (int ix) (int iy) (int o') 0 h d = Some d' \<and> length d' = length d \<and>
      (\<forall>k<length d. d' ! k = (if in_rect ix iy w h o' k then line (k div o' - iy) ! (k mod o' - ix) else d ! k))"
    if "\<And>j i d. j < h \<Longrightarrow> i + w \<le> length d \<Longrightarrow> row j (int i) d = Some (overwrite d i (line j))" for row
    using each_row_rect [OF place(2,1), of line 0 h row iy d] that place(3) unfolding in_rect_def by (simp add: line_def)
  have "\<exists>row. grab_rows E xim mxim bgr ?D (int ix) (int iy) (int o') w h d = each_row row (int ix) (int iy) (int o') 0 h d \<and>
      (\<forall>j i d. j < h \<longrightarrow> i + w \<le> length d \<longrightarrow> row j (int i) d = Some (overwrite d i (line j)))"
  proof (cases "depth = 15 \<or> depth = 16")
    case True
    define row where "row j = (if depth = 16 then pair_row E P1_16 P2_16 xim mxim j w 0 else pair_row E P1_15 P2_15 xim mxim j w 0)" for j
    have "row j (int i) d = Some (overwrite d i (line j))" if "j < h" "i + w \<le> length d" for j i d
      unfolding row_def line_def using True depth pair_row_spec [OF _ _ place(1) st that(1) order that(2)] by (auto simp: converts_def)
    moreover have "grab_rows E xim mxim bgr ?D (int ix) (int iy) (int o') w h d = each_row row (int ix) (int iy) (int o') 0 h d"
      using True by (auto simp: grab_rows_def row_def [abs_def])
    ultimately show ?thesis by blast
  next
    case False
    then have D: "depth \<le> 8 \<or> depth = 24 \<or> depth = 32" using depth by (auto simp: converts_def)
    let ?row = "\<lambda>j. put_row (pixel_at E xim mxim bgr ?D j) 0 w"
    have "?row j (int i) d = Some (overwrite d i (line j))" if "j < h" "i + w \<le> length d" for j i d
      unfolding line_def using put_row_line [of 0 w "pixel_at E xim mxim bgr ?D j" _ i d] pixel_at_spec [OF D depth st _ _ order] that by simp
    moreover have "grab_rows E xim mxim bgr ?D (int ix) (int iy) (int o') w h d = each_row ?row (int ix) (int iy) (int o') 0 h d"
      using D by (auto simp: grab_rows_def)
    ultimately show ?thesis by blast
  qed
  then obtain d' where d': "grab_rows E xim mxim bgr ?D (int ix) (int iy) (int o') w h d = Some d'" "length d' = length d"
    "\<forall>k<length d. d' ! k = (if in_rect ix iy w h o' k then line (k div o' - iy) ! (k mod o' - ix) else d ! k)"
    using rows by metis
  moreover have "line (k div o' - iy) ! (k mod o' - ix) =
      pixel_spec E mxim bgr depth (k mod o' - ix) (k div o' - iy) (XGetPixel E xim (k mod o' - ix) (k div o' - iy))"
    if "in_rect ix iy w h o' k" for k
  proof -
    have "k mod o' - ix < w" using that place(1) by (auto simp: in_rect_def)
    then show ?thesis by (simp add: line_def)
  qed
  ultimately show ?thesis using order place(4,5) by (auto simp: GrabXImageToRGBA_def fix_order_def Let_def)
qed

section \<open>The picture of a drawable\<close>

lemma load_tables_same [simp]:
  "XGetPixel (load_tables X cm E) = XGetPixel E" "be (load_tables X cm E) = be E"
  "z_image (load_tables X cm E) = z_image E" "converts (load_tables X cm E) = converts E"
  by (auto simp: load_tables_def z_image_def converts_def fun_eq_iff)

lemma clip_axis_sum: "clip_axis is_pixmap pos len screen x w = (x1, width, clip) \<Longrightarrow> 0 < width \<Longrightarrow>
    0 \<le> x1 \<and> 0 \<le> clip \<and> clip = x1 - x \<and> clip + width \<le> w"
  by (auto simp: clip_axis_def Let_def split: if_splits)

text \<open>Places of the destination, in the coordinates of the drawable.\<close>

lemma in_rect_place:
  assumes "0 \<le> cx" "0 \<le> cy" "0 < ow" "0 \<le> width" "0 \<le> height"
  shows "in_rect (nat cx) (nat cy) (nat width) (nat height) (nat ow) k \<longleftrightarrow>
    cx \<le> int k mod ow \<and> int k mod ow < cx + width \<and> cy \<le> int k div ow \<and> int k div ow < cy + height"
    "k mod nat ow - nat cx = nat (int k mod ow - cx)" "k div nat ow - nat cy = nat (int k div ow - cy)"
proof -
  have m: "int k mod ow = int (k mod nat ow)" "int k div ow = int (k div nat ow)" using assms by (simp_all add: zmod_int zdiv_int)
  show "in_rect (nat cx) (nat cy) (nat width) (nat height) (nat ow) k \<longleftrightarrow>
    cx \<le> int k mod ow \<and> int k mod ow < cx + width \<and> cy \<le> int k div ow \<and> int k div ow < cy + height"
    unfolding in_rect_def m using assms by linarith
  show "k mod nat ow - nat cx = nat (int k mod ow - cx)" "k div nat ow - nat cy = nat (int k div ow - cy)"
    unfolding m using assms by linarith+
qed


text \<open>A pixmap of 16 bits with three columns and two lines; the rectangle begins one column to the left of it.\<close>

definition sample_env :: xenv where
  "sample_env = \<lparr>rtab = \<lambda>i. 0, gtab = \<lambda>i. 0, btab = \<lambda>i. 0,
     XGetPixel = \<lambda>xim x y. rd16 (xi_data xim) (xi_bytes_per_line xim * y + 2 * x), be = False\<rparr>"

definition sample_drawable :: drawable where
  "sample_drawable = \<lparr>x_pixmap = True, x_visible = False, x_depth = 16, x_pos = (0, 0), x_size = (3, 2), x_screen = (0, 0),
     x_shaped = False, x_bgr = False, x_colors = \<lambda>i. (0, 0, 0),
     x_image = \<lambda>x y w h. Some \<lparr>xi_data = drop (nat (6 * y + 2 * x)) [0x00, 0xf8, 0xe0, 0x07, 0x1f, 0x00, 0xff, 0xff, 0x00, 0x00, 0x55, 0xaa],
       xi_bytes_per_line = 6, xi_bits_per_pixel = 16, xi_msb = False\<rparr>,
     x_mask = \<lambda>w h. None\<rparr>"

definition sample_image :: ximage where
  "sample_image = \<lparr>xi_data = [0x00, 0xf8, 0xe0, 0x07, 0x1f, 0x00, 0xff, 0xff, 0x00, 0x00, 0x55, 0xaa],
     xi_bytes_per_line = 6, xi_bits_per_pixel = 16, xi_msb = False\<rparr>"

lemma sample_image:
  "x_image sample_drawable 0 0 (nat 3) (nat 2) = Some sample_image" "xi_msb sample_image = be sample_env"
  "z_image sample_env (x_depth sample_drawable) sample_image (nat 3) (nat 2)"
  "XGetPixel sample_env sample_image 0 0 = 0xf800" "XGetPixel sample_env sample_image 1 0 = 0x07e0"
  "XGetPixel sample_env sample_image 2 0 = 0x001f"
proof -
  show "z_image sample_env (x_depth sample_drawable) sample_image (nat 3) (nat 2)"
    by (auto simp: z_image_def pixel_word_def Let_def sample_drawable_def sample_env_def sample_image_def)
qed (simp_all add: sample_drawable_def sample_env_def sample_image_def rd16_def)


end
