(* ===== verification/WinTime.thy ===== *)
theory WinTime
  imports Http Files "HOL-Library.Word" "HOL-Library.Monad_Syntax"
begin

text \<open>
  Time on Windows CE (\<open>compat_wince.c\<close>): the conversions between \<open>time_t\<close>, \<open>FILETIME\<close> and \<open>struct tm\<close>, and
  \<open>strftime\<close>, which writes the dates of the server there. \<open>size_t\<close> has 32 bits; \<open>None\<close> is an access outside an
  array. The arithmetic on years cannot overflow (the code is written so), so it is on integers.
\<close>

section \<open>Names and numbers\<close>

record wtm = tm +
  tm_wday :: int
  tm_yday :: int

definition dname :: "string list" where
  "dname = [''Sunday'', ''Monday'', ''Tuesday'', ''Wednesday'', ''Thursday'', ''Friday'', ''Saturday'']"

definition mname :: "string list" where
  "mname = [''January'', ''February'', ''March'', ''April'', ''May'', ''June'', ''July'', ''August'', ''September'', ''October'',
    ''November'', ''December'']"

text \<open>\<open>/\<close> and \<open>%\<close> of C, for a positive divisor.\<close>

definition cdiv :: "int \<Rightarrow> int \<Rightarrow> int" where
  "cdiv a b = (if a < 0 then - (- a div b) else a div b)"

definition cmod :: "int \<Rightarrow> int \<Rightarrow> int" where
  "cmod a b = a - b * cdiv a b"

text \<open>\<open>%.nd\<close> and \<open>%nd\<close>.\<close>

definition prec :: "nat \<Rightarrow> int \<Rightarrow> string" where
  "prec n i = (let d = dec (nat \<bar>i\<bar>) in (if i < 0 then ''-'' else '''') @ replicate (n - length d) CHR ''0'' @ d)"

definition wid :: "nat \<Rightarrow> int \<Rightarrow> string" where
  "wid n i = (let d = dec_int i in replicate (n - length d) CHR '' '' @ d)"

definition isleap :: "int \<Rightarrow> bool" where
  "isleap y \<longleftrightarrow> y mod 4 = 0 \<and> y mod 100 \<noteq> 0 \<or> y mod 400 = 0"

definition YEAR_BASE :: int where
  "YEAR_BASE = 1900"

definition PACK :: "int \<Rightarrow> int \<Rightarrow> int \<Rightarrow> int" where
  "PACK yd wd lp = yd * 16 + wd * 2 + lp"

definition iso_year_adjust :: "wtm \<Rightarrow> int" where
  "iso_year_adjust t =
     (let leap = (if isleap (tm_year t + (YEAR_BASE - (if tm_year t < 0 then 0 else 2000))) then 1 else 0);
          p = PACK (tm_yday t) (tm_wday t) leap
      in if p \<in> set [PACK 0 5 0, PACK 0 6 0, PACK 0 0 0, PACK 0 5 1, PACK 0 6 1, PACK 0 0 1, PACK 1 6 0, PACK 1 0 0,
                     PACK 1 6 1, PACK 1 0 1, PACK 2 0 0, PACK 2 0 1] then - 1
         else if p \<in> set [PACK 362 1 0, PACK 363 1 1, PACK 363 1 0, PACK 363 2 0, PACK 364 1 1, PACK 364 2 1, PACK 364 1 0,
                          PACK 364 2 0, PACK 364 3 0, PACK 365 1 1, PACK 365 2 1, PACK 365 3 1] then 1
         else 0)"

section \<open>The parts of a date\<close>

definition year_in_century :: "wtm \<Rightarrow> int" where
  "year_in_century t = (if 0 \<le> tm_year t then tm_year t mod 100 else \<bar>tm_year t + YEAR_BASE\<bar> mod 100)"

definition century_of :: "wtm \<Rightarrow> int" where
  "century_of t = (if 0 \<le> tm_year t then tm_year t div 100 + YEAR_BASE div 100 else \<bar>tm_year t + YEAR_BASE\<bar> div 100)"

definition is_neg :: "wtm \<Rightarrow> bool" where
  "is_neg t \<longleftrightarrow> tm_year t < - YEAR_BASE"

text \<open>\<open>%C\<close>, and the sign, century and year of \<open>%G\<close>.\<close>

definition century_text :: "bool \<Rightarrow> int \<Rightarrow> string" where
  "century_text neg c = (if neg then ''-'' else '''') @ prec (if neg then 1 else 2) c"

definition iso_year :: "wtm \<Rightarrow> bool \<times> int \<times> int" where
  "iso_year t =
     (let adjust = iso_year_adjust t;
          (neg, adjust) = (if adjust < 0 \<and> tm_year t \<le> - YEAR_BASE then (True, 1)
                           else if 0 < adjust \<and> is_neg t then (is_neg t, - 1) else (is_neg t, adjust));
          year = year_in_century t + adjust
      in if year = - 1 then (neg, century_of t - 1, 99)
         else if year = 100 then (neg, century_of t + 1, 0)
         else (neg, century_of t, year))"

text \<open>\<open>%g\<close>\<close>

definition iso_short_year :: "wtm \<Rightarrow> int" where
  "iso_short_year t =
     (let adjust = iso_year_adjust t;
          adjust = (if adjust < 0 \<and> tm_year t \<le> - YEAR_BASE then 1 else if 0 < adjust \<and> is_neg t then - 1 else adjust)
      in cmod (cmod (year_in_century t + adjust) 100 + 100) 100)"

definition monday_first :: "wtm \<Rightarrow> int" where
  "monday_first t = (if tm_wday t \<noteq> 0 then tm_wday t - 1 else 6)"

text \<open>\<open>%V\<close>\<close>

definition iso_week :: "wtm \<Rightarrow> int" where
  "iso_week t =
     (let adjust = iso_year_adjust t; wday = monday_first t
      in if 0 < adjust then 1
         else if adjust < 0 then
           52 + (if wday - tm_yday t - (if isleap (tm_year t + (YEAR_BASE - 1 - (if tm_year t < 0 then 0 else 2000))) then 1 else 0) \<le> 4
                 then 1 else 0)
         else cdiv (tm_yday t + 10 - wday) 7)"

section \<open>Writing\<close>

definition store_at :: "char list \<Rightarrow> nat \<Rightarrow> string \<Rightarrow> char list option" where
  "store_at m i s = (if i + length s \<le> length m then Some (overwrite m i s) else None)"

text \<open>The state is the memory and \<open>count\<close>; \<open>b\<close> is the place of \<open>s[0]\<close>. A result without a count is \<open>return 0\<close>.\<close>

type_synonym out = "char list \<times> u32"

definition emit :: "nat \<Rightarrow> string \<Rightarrow> nat \<Rightarrow> out \<Rightarrow> out option" where
  "emit b s k = (\<lambda>(m, n). map_option (\<lambda>m1. (m1, n + of_nat k)) (store_at m (b + unat n) s))"

text \<open>\<open>if (count < maxsize - k) ... else return 0;\<close>\<close>

definition room :: "u32 \<Rightarrow> nat \<Rightarrow> (out \<Rightarrow> out option) \<Rightarrow> out \<Rightarrow> (char list \<times> u32 option) option" where
  "room M k f = (\<lambda>(m, n). if n < M - of_nat k then map_option (\<lambda>(m1, n1). (m1, Some n1)) (f (m, n)) else Some (m, None))"

fun put_chars :: "nat \<Rightarrow> u32 \<Rightarrow> string \<Rightarrow> out \<Rightarrow> (char list \<times> u32 option) option" where
  "put_chars b M [] (m, n) = Some (m, Some n)"
| "put_chars b M (x # xs) (m, n) =
     (case room M 1 (emit b [x] 1) (m, n) of
        Some (m1, Some n1) \<Rightarrow> put_chars b M xs (m1, n1)
      | r \<Rightarrow> r)"

text \<open>\<open>sprintf(&s[count], ...); count += k;\<close>\<close>

definition print :: "nat \<Rightarrow> string \<Rightarrow> nat \<Rightarrow> out \<Rightarrow> out option" where
  "print b s k = emit b (s @ [NUL]) k"

definition put_field :: "nat \<Rightarrow> u32 \<Rightarrow> nat \<Rightarrow> string \<Rightarrow> out \<Rightarrow> (char list \<times> u32 option) option" where
  "put_field b M k s = room M k (print b s k)"

definition Snprintf :: "char list \<Rightarrow> nat \<Rightarrow> u32 \<Rightarrow> string \<Rightarrow> (char list \<times> u32) option" where
  "Snprintf m i buflen s =
     (if buflen = 0 then Some (m, 0)
      else do {
        m1 \<leftarrow> store_at m i (if length s < unat buflen then s @ [NUL] else take (unat buflen) s);
        let r = (if length s \<le> unat buflen then int (length s) else - 1);
        let n = (if r < 0 \<or> sint buflen - 1 < r then buflen - 1 else of_int r);
        m2 \<leftarrow> store_at m1 (i + unat n) [NUL];
        Some (m2, n)
      })"

definition put_sized :: "nat \<Rightarrow> u32 \<Rightarrow> string \<Rightarrow> out \<Rightarrow> (char list \<times> u32 option) option" where
  "put_sized b M s = (\<lambda>(m, n). do {
     (m1, k) \<leftarrow> Snprintf m (b + unat n) (M - n) s;
     Some (m1, if M \<le> n + k then None else Some (n + k))
   })"

section \<open>The conversions\<close>

text \<open>An index into a table of names.\<close>

definition name_at :: "string list \<Rightarrow> int \<Rightarrow> string option" where
  "name_at xs i = (if 0 \<le> i \<and> nat i < length xs then Some (xs ! nat i) else None)"

text \<open>The hour of \<open>%I\<close> and \<open>%r\<close>; \<open>%l\<close> has a space in place of the zero.\<close>

definition hour12 :: "nat \<Rightarrow> bool \<Rightarrow> int \<Rightarrow> out \<Rightarrow> out option" where
  "hour12 b zero h =
     (if h = 0 \<or> h = 12 then emit b ''12'' 2 else print b (if zero then prec 2 (cmod h 12) else wid 2 (cmod h 12)) 2)"

definition am_pm :: "int \<Rightarrow> string" where
  "am_pm h = (if h < 12 then ''AM'' else ''PM'')"

text \<open>All conversions that do not call \<open>strftime\<close> again. An unknown one writes nothing.\<close>

definition conversion :: "string \<times> string \<Rightarrow> wtm \<Rightarrow> nat \<Rightarrow> u32 \<Rightarrow> char \<Rightarrow> out \<Rightarrow> (char list \<times> u32 option) option" where
  "conversion tzname t b M c st =
     (if c = CHR ''a'' then Option.bind (name_at dname (tm_wday t)) (\<lambda>s. put_chars b M (take 3 s) st)
      else if c = CHR ''A'' then Option.bind (name_at dname (tm_wday t)) (\<lambda>s. put_chars b M s st)
      else if c = CHR ''b'' \<or> c = CHR ''h'' then Option.bind (name_at mname (tm_mon t)) (\<lambda>s. put_chars b M (take 3 s) st)
      else if c = CHR ''B'' then Option.bind (name_at mname (tm_mon t)) (\<lambda>s. put_chars b M s st)
      else if c = CHR ''C'' then put_sized b M (century_text (is_neg t) (century_of t)) st
      else if c = CHR ''d'' then put_field b M 2 (prec 2 (tm_mday t)) st
      else if c = CHR ''e'' then put_field b M 2 (wid 2 (tm_mday t)) st
      else if c = CHR ''D'' \<or> c = CHR ''x'' then
        put_field b M 8 (prec 2 (tm_mon t + 1) @ ''/'' @ prec 2 (tm_mday t) @ ''/'' @ prec 2 (year_in_century t)) st
      else if c = CHR ''g'' then put_field b M 2 (prec 2 (iso_short_year t)) st
      else if c = CHR ''G'' then
        (case iso_year t of (neg, century, year) \<Rightarrow> put_sized b M (century_text neg century @ prec 2 year) st)
      else if c = CHR ''H'' then put_field b M 2 (prec 2 (tm_hour t)) st
      else if c = CHR ''k'' then put_field b M 2 (wid 2 (tm_hour t)) st
      else if c = CHR ''I'' then room M 2 (hour12 b True (tm_hour t)) st
      else if c = CHR ''l'' then room M 2 (hour12 b False (tm_hour t)) st
      else if c = CHR ''j'' then put_field b M 3 (prec 3 (tm_yday t + 1)) st
      else if c = CHR ''m'' then put_field b M 2 (prec 2 (tm_mon t + 1)) st
      else if c = CHR ''M'' then put_field b M 2 (prec 2 (tm_min t)) st
      else if c = CHR ''n'' then room M 1 (emit b [LF] 1) st
      else if c = CHR ''p'' then room M 2 (emit b (am_pm (tm_hour t)) 2) st
      else if c = CHR ''r'' then
        room M 11 (\<lambda>st. do {
          st \<leftarrow> hour12 b True (tm_hour t) st;
          st \<leftarrow> emit b '':'' 1 st;
          st \<leftarrow> print b (prec 2 (tm_min t)) 2 st;
          st \<leftarrow> emit b '':'' 1 st;
          st \<leftarrow> print b (prec 2 (tm_sec t)) 2 st;
          emit b ('' '' @ am_pm (tm_hour t)) 3 st
        }) st
      else if c = CHR ''R'' then put_field b M 5 (prec 2 (tm_hour t) @ '':'' @ prec 2 (tm_min t)) st
      else if c = CHR ''S'' then put_field b M 2 (prec 2 (tm_sec t)) st
      else if c = CHR ''t'' then room M 1 (emit b [TAB] 1) st
      else if c = CHR ''T'' \<or> c = CHR ''X'' then
        put_field b M 8 (prec 2 (tm_hour t) @ '':'' @ prec 2 (tm_min t) @ '':'' @ prec 2 (tm_sec t)) st
      else if c = CHR ''u'' then room M 1 (emit b [if tm_wday t = 0 then CHR ''7'' else char_of (48 + tm_wday t)] 1) st
      else if c = CHR ''U'' then put_field b M 2 (prec 2 (cdiv (tm_yday t + 7 - tm_wday t) 7)) st
      else if c = CHR ''V'' then put_field b M 2 (prec 2 (iso_week t)) st
      else if c = CHR ''w'' then room M 1 (emit b [char_of (48 + tm_wday t)] 1) st
      else if c = CHR ''W'' then put_field b M 2 (prec 2 (cdiv (tm_yday t + 7 - monday_first t) 7)) st
      else if c = CHR ''y'' then put_field b M 2 (prec 2 (year_in_century t)) st
      else if c = CHR ''z'' \<or> c = CHR ''Z'' then
        (if 0 \<le> tm_isdst t then put_chars b M (if 0 < tm_isdst t then snd tzname else fst tzname) st
         else Some (fst st, Some (snd st)))
      else if c = CHR ''%'' then room M 1 (emit b ''%'' 1) st
      else Some (fst st, Some (snd st)))"

section \<open>strftime\<close>

text \<open>The conversions that call \<open>strftime\<close> with another format.\<close>

definition inner_format :: "char \<Rightarrow> string option" where
  "inner_format c =
     (if c = CHR ''c'' then Some ''%a %b %e %H:%M:%S %C%y''
      else if c = CHR ''F'' then Some ''%C%y-%m-%d''
      else if c = CHR ''Y'' then Some ''%C%y''
      else None)"

definition skip_modifier :: "string \<Rightarrow> string" where
  "skip_modifier f = (case f of x # r \<Rightarrow> if x = CHR ''E'' \<or> x = CHR ''O'' then r else f | [] \<Rightarrow> [])"

definition finish :: "nat \<Rightarrow> u32 \<Rightarrow> out \<Rightarrow> out option" where
  "finish b M = (\<lambda>(m, n). if M \<noteq> 0 then map_option (\<lambda>m1. (m1, n)) (store_at m (b + unat n) [NUL]) else Some (m, n))"

lemma length_skip_modifier: "length (skip_modifier f) \<le> length f"
  by (auto simp: skip_modifier_def split: list.split)

lemma set_skip_modifier: "set (skip_modifier f) \<subseteq> set f"
  by (auto simp: skip_modifier_def split: list.split)

definition calls_itself :: "string \<Rightarrow> bool" where
  "calls_itself f \<longleftrightarrow> list_ex (\<lambda>c. inner_format c \<noteq> None) f"

lemma inner_format_simple: "inner_format c = Some g \<Longrightarrow> \<not> calls_itself g"
  by (auto simp: inner_format_def calls_itself_def split: if_splits)

function strftime :: "string \<times> string \<Rightarrow> wtm \<Rightarrow> nat \<Rightarrow> u32 \<Rightarrow> string \<Rightarrow> out \<Rightarrow> out option" where
  "strftime tzname t b M format st =
     (case format of
        [] \<Rightarrow> finish b M st
      | x # r \<Rightarrow>
          if x \<noteq> CHR ''%'' then
            (case room M 1 (emit b [x] 1) st of
               None \<Rightarrow> None
             | Some (m1, None) \<Rightarrow> Some (m1, 0)
             | Some (m1, Some n1) \<Rightarrow> strftime tzname t b M r (m1, n1))
          else
            (case skip_modifier r of
               [] \<Rightarrow> finish b M st
             | c # r1 \<Rightarrow>
                 (case inner_format c of
                    Some g \<Rightarrow>
                      (case strftime tzname t (b + unat (snd st)) (M - snd st) g (fst st, 0) of
                         None \<Rightarrow> None
                       | Some (m1, adjust) \<Rightarrow>
                           if 0 < adjust then strftime tzname t b M r1 (m1, snd st + adjust) else Some (m1, 0))
                  | None \<Rightarrow>
                      (case conversion tzname t b M c st of
                         None \<Rightarrow> None
                       | Some (m1, None) \<Rightarrow> Some (m1, 0)
                       | Some (m1, Some n1) \<Rightarrow> strftime tzname t b M r1 (m1, n1)))))"
  by pat_completeness auto

lemma skip_modifier_Cons:
  assumes "skip_modifier r = c # r1"
  shows "length r1 < length r" "c \<in> set r" "set r1 \<subseteq> set r"
  using assms length_skip_modifier [of r] set_skip_modifier [of r] by auto

lemma shorter:
  "length r < length f \<Longrightarrow> set r \<subseteq> set f \<Longrightarrow> ((tz', t', b', M', r, st'), tz, t, b, M, f, st) \<in>
    measures [\<lambda>(tz, t, b, M, f, st). if calls_itself f then 1 else 0, \<lambda>(tz, t, b, M, f, st). length f]"
  by (auto simp: calls_itself_def list_ex_iff)

termination strftime
proof (relation "measures [\<lambda>(tz, t, b, M, f, st). if calls_itself f then 1 else 0, \<lambda>(tz, t, b, M, f, st). length f]")
  show "wf (measures [\<lambda>(tz, t, b, M, f, st). if calls_itself f then 1 else 0, \<lambda>(tz, t, b, M, f, st). length f])" by simp
next
  fix tz t b M format st x r c r1 g
  assume "format = x # r" "skip_modifier r = c # r1" "inner_format c = Some g"
  then show "((tz, t, b + unat (snd st), M - snd st, g, fst st, 0), tz, t, b, M, format, st) \<in>
      measures [\<lambda>(tz, t, b, M, f, st). if calls_itself f then 1 else 0, \<lambda>(tz, t, b, M, f, st). length f]"
    using inner_format_simple [of c g] skip_modifier_Cons [of r c r1] by (auto simp: calls_itself_def list_ex_iff)
qed (simp_all add: shorter less_SucI subset_insertI2 skip_modifier_Cons del: in_measures)

declare strftime.simps [simp del]

section \<open>What the conversions mean\<close>

definition year_of :: "'a tm_scheme \<Rightarrow> int" where
  "year_of t = tm_year t + 1900"

definition days_in_year :: "int \<Rightarrow> int" where
  "days_in_year y = (if isleap y then 366 else 365)"

definition valid_tm :: "wtm \<Rightarrow> bool" where
  "valid_tm t \<longleftrightarrow> tm_sec t \<in> {0..60} \<and> tm_min t \<in> {0..59} \<and> tm_hour t \<in> {0..23} \<and> tm_mday t \<in> {1..31} \<and>
     tm_mon t \<in> {0..11} \<and> tm_wday t \<in> {0..6} \<and> 0 \<le> tm_yday t \<and> tm_yday t < days_in_year (year_of t) \<and> 1 \<le> year_of t"

text \<open>ISO 8601: a week belongs to the year its Thursday is in.\<close>

definition thursday :: "wtm \<Rightarrow> int" where
  "thursday t = tm_yday t + 3 - (tm_wday t - 1) mod 7"

definition iso_of :: "wtm \<Rightarrow> int \<times> int" where
  "iso_of t =
     (let y = year_of t; d = thursday t
      in if d < 0 then (y - 1, (d + days_in_year (y - 1)) div 7 + 1)
         else if days_in_year y \<le> d then (y + 1, (d - days_in_year y) div 7 + 1)
         else (y, d div 7 + 1))"

lemma isleap_shift: "isleap (y - 2000) = isleap y"
proof -
  have "(y - 2000) mod 4 = y mod 4" "(y - 2000) mod 100 = y mod 100" "(y - 2000) mod 400 = y mod 400"
    using mod_mult_self2 [of y 4 "- 500"] mod_mult_self2 [of y 100 "- 20"] mod_mult_self2 [of y 400 "- 5"] by simp_all
  then show ?thesis by (simp add: isleap_def)
qed

lemma PACK_inj:
  "0 \<le> wd \<Longrightarrow> wd < 8 \<Longrightarrow> 0 \<le> wd' \<Longrightarrow> wd' < 8 \<Longrightarrow> 0 \<le> lp \<Longrightarrow> lp < 2 \<Longrightarrow> 0 \<le> lp' \<Longrightarrow> lp' < 2 \<Longrightarrow>
    PACK yd wd lp = PACK yd' wd' lp' \<longleftrightarrow> yd = yd' \<and> wd = wd' \<and> lp = lp'"
proof -
  have "yd = PACK yd wd lp div 16 \<and> wd = PACK yd wd lp mod 16 div 2 \<and> lp = PACK yd wd lp mod 2"
    if "0 \<le> wd" "wd < 8" "0 \<le> lp" "lp < 2" for yd wd lp
  proof -
    have "0 \<le> wd * 2 + lp" "wd * 2 + lp < 16" using that by linarith+
    then have "PACK yd wd lp mod 16 = wd * 2 + lp" "PACK yd wd lp div 16 = yd"
      unfolding PACK_def by (simp_all add: add.assoc)
    moreover have "PACK yd wd lp mod 2 = lp"
      using that mod_mult_self2 [of lp 2 "yd * 8 + wd"] by (simp add: PACK_def algebra_simps)
    ultimately show ?thesis using that by simp
  qed
  then show "0 \<le> wd \<Longrightarrow> wd < 8 \<Longrightarrow> 0 \<le> wd' \<Longrightarrow> wd' < 8 \<Longrightarrow> 0 \<le> lp \<Longrightarrow> lp < 2 \<Longrightarrow> 0 \<le> lp' \<Longrightarrow> lp' < 2 \<Longrightarrow>
    PACK yd wd lp = PACK yd' wd' lp' \<longleftrightarrow> yd = yd' \<and> wd = wd' \<and> lp = lp'" by metis
qed

lemma adjust_thursday:
  assumes "valid_tm t"
  shows "iso_year_adjust t = (if thursday t < 0 then - 1 else if days_in_year (year_of t) \<le> thursday t then 1 else 0)"
proof -
  have leap: "isleap (tm_year t + (YEAR_BASE - (if tm_year t < 0 then 0 else 2000))) = isleap (year_of t)"
    using isleap_shift [of "year_of t"] by (simp add: YEAR_BASE_def year_of_def)
  have y: "0 \<le> tm_yday t" "tm_yday t < (if isleap (year_of t) then 366 else 365)"
    using assms by (auto simp: valid_tm_def days_in_year_def)
  consider "tm_wday t = 0" | "tm_wday t = 1" | "tm_wday t = 2" | "tm_wday t = 3" | "tm_wday t = 4" | "tm_wday t = 5" | "tm_wday t = 6"
    using assms by (auto simp: valid_tm_def) linarith
  then show ?thesis
    using y
    by cases (cases "isleap (year_of t)"; auto simp: iso_year_adjust_def leap PACK_inj Let_def thursday_def days_in_year_def)+
qed

lemma thursday_bounds: "valid_tm t \<Longrightarrow> - 3 \<le> thursday t \<and> thursday t < days_in_year (year_of t) + 3"
  by (auto simp: valid_tm_def thursday_def)

lemma monday_first_mod: "0 \<le> tm_wday t \<Longrightarrow> tm_wday t \<le> 6 \<Longrightarrow> monday_first t = (tm_wday t - 1) mod 7"
proof (cases "tm_wday t = 0")
  case False
  assume "0 \<le> tm_wday t" "tm_wday t \<le> 6"
  then show ?thesis using False by (simp add: monday_first_def)
qed (simp add: monday_first_def)

lemma iso_week_of:
  assumes t: "valid_tm t"
  shows "iso_week t = snd (iso_of t)"
proof -
  have w: "monday_first t = tm_yday t + 3 - thursday t"
    using t by (simp add: monday_first_mod valid_tm_def thursday_def)
  have leap: "isleap (tm_year t + (YEAR_BASE - 1 - (if tm_year t < 0 then 0 else 2000))) = isleap (year_of t - 1)"
    using isleap_shift [of "year_of t - 1"] by (simp add: YEAR_BASE_def year_of_def add.commute)
  note b = thursday_bounds [OF t]
  consider "thursday t < 0" | "days_in_year (year_of t) \<le> thursday t" "0 \<le> thursday t"
    | "0 \<le> thursday t" "thursday t < days_in_year (year_of t)" by linarith
  then show ?thesis
  proof cases
    case 1
    then have "thursday t = - 3 \<or> thursday t = - 2 \<or> thursday t = - 1" using b by linarith
    then show ?thesis by (auto simp: iso_week_def adjust_thursday [OF t] leap w iso_of_def Let_def days_in_year_def)
  next
    case 2
    then have "(thursday t - days_in_year (year_of t)) div 7 = 0" using b by (intro div_pos_pos_trivial) linarith+
    then show ?thesis using 2 by (simp add: iso_week_def adjust_thursday [OF t] iso_of_def Let_def)
  next
    case 3
    then have "cdiv (tm_yday t + 10 - monday_first t) 7 = (thursday t + 7) div 7" by (simp add: cdiv_def w)
    then show ?thesis using 3 by (simp add: iso_week_def adjust_thursday [OF t] iso_of_def Let_def)
  qed
qed

lemma century_year:
  assumes "valid_tm t"
  shows "century_of t = year_of t div 100" "year_in_century t = year_of t mod 100" "\<not> is_neg t"
proof -
  have "(tm_year t + 1900) div 100 = tm_year t div 100 + 19" "(tm_year t + 1900) mod 100 = tm_year t mod 100"
    using div_mult_self1 [of 100 "tm_year t" 19] mod_mult_self1 [of "tm_year t" 19 100] by simp_all
  then show "century_of t = year_of t div 100" "year_in_century t = year_of t mod 100" "\<not> is_neg t"
    using assms by (auto simp: century_of_def year_in_century_def is_neg_def year_of_def YEAR_BASE_def valid_tm_def)
qed

lemma carry:
  fixes q r a :: int
  assumes "0 \<le> r" "r < 100" "a = - 1 \<or> a = 0 \<or> a = 1"
  shows "(100 * q + r + a) div 100 = (if r + a = - 1 then q - 1 else if r + a = 100 then q + 1 else q)"
    "(100 * q + r + a) mod 100 = (if r + a = - 1 then 99 else if r + a = 100 then 0 else r + a)"
proof -
  have qr: "0 \<le> k \<Longrightarrow> k < 100 \<Longrightarrow> (100 * q + k) div 100 = q \<and> (100 * q + k) mod 100 = k" for q k :: int
    by simp
  have "(100 * q + r + a) div 100 = (if r + a = - 1 then q - 1 else if r + a = 100 then q + 1 else q) \<and>
    (100 * q + r + a) mod 100 = (if r + a = - 1 then 99 else if r + a = 100 then 0 else r + a)"
  proof -
    have "r + a = - 1 \<or> r + a = 100 \<or> 0 \<le> r + a \<and> r + a < 100" using assms by auto
    moreover have "100 * q + r + a = 100 * (q - 1) + 99" if "r + a = - 1" using that by simp
    moreover have "100 * q + r + a = 100 * (q + 1) + 0" if "r + a = 100" using that by simp
    ultimately show ?thesis using qr [of 99 "q - 1"] qr [of 0 "q + 1"] qr [of "r + a" q] by (elim disjE) (simp_all add: add.assoc)
  qed
  then show "(100 * q + r + a) div 100 = (if r + a = - 1 then q - 1 else if r + a = 100 then q + 1 else q)"
    "(100 * q + r + a) mod 100 = (if r + a = - 1 then 99 else if r + a = 100 then 0 else r + a)" by simp_all
qed

lemma iso_year_of:
  assumes t: "valid_tm t"
  shows "iso_year t = (False, fst (iso_of t) div 100, fst (iso_of t) mod 100)" "iso_short_year t = fst (iso_of t) mod 100"
    "0 \<le> fst (iso_of t)"
proof -
  let ?y = "year_of t" and ?a = "iso_year_adjust t"
  have y: "1 \<le> ?y" "\<not> tm_year t \<le> - YEAR_BASE" using t by (auto simp: valid_tm_def year_of_def YEAR_BASE_def)
  have a: "?a = - 1 \<or> ?a = 0 \<or> ?a = 1" by (simp add: adjust_thursday [OF t])
  have i: "fst (iso_of t) = ?y + ?a" using adjust_thursday [OF t] by (auto simp: iso_of_def Let_def days_in_year_def)
  show "0 \<le> fst (iso_of t)" using i a y by linarith
  have m: "0 \<le> ?y mod 100" "?y mod 100 < 100" by simp_all
  have split: "(?y + ?a) div 100 = (if ?y mod 100 + ?a = - 1 then ?y div 100 - 1 else if ?y mod 100 + ?a = 100 then ?y div 100 + 1 else ?y div 100)"
    "(?y + ?a) mod 100 = (if ?y mod 100 + ?a = - 1 then 99 else if ?y mod 100 + ?a = 100 then 0 else ?y mod 100 + ?a)"
    using carry [OF m a, of "?y div 100"] by (simp_all only: mult_div_mod_eq)
  show "iso_year t = (False, fst (iso_of t) div 100, fst (iso_of t) mod 100)"
    using y(2) century_year [OF t] unfolding i by (simp add: iso_year_def Let_def split)
  show "iso_short_year t = fst (iso_of t) mod 100"
    using y(2) century_year [OF t] a m unfolding i by (auto simp: iso_short_year_def Let_def split cmod_def cdiv_def)
qed

text \<open>The text of each conversion but \<open>%z\<close>, for a valid date.\<close>

definition hour_of_twelve :: "'a tm_scheme \<Rightarrow> int" where
  "hour_of_twelve t = (if tm_hour t mod 12 = 0 then 12 else tm_hour t mod 12)"

definition hms :: "'a tm_scheme \<Rightarrow> string" where
  "hms t = prec 2 (tm_hour t) @ '':'' @ prec 2 (tm_min t) @ '':'' @ prec 2 (tm_sec t)"

definition field :: "string \<times> string \<Rightarrow> wtm \<Rightarrow> char \<Rightarrow> string" where
  "field tzname t c =
     (if c = CHR ''a'' then take 3 (dname ! nat (tm_wday t))
      else if c = CHR ''A'' then dname ! nat (tm_wday t)
      else if c = CHR ''b'' \<or> c = CHR ''h'' then take 3 (mname ! nat (tm_mon t))
      else if c = CHR ''B'' then mname ! nat (tm_mon t)
      else if c = CHR ''C'' then prec 2 (year_of t div 100)
      else if c = CHR ''d'' then prec 2 (tm_mday t)
      else if c = CHR ''e'' then wid 2 (tm_mday t)
      else if c = CHR ''D'' \<or> c = CHR ''x'' then prec 2 (tm_mon t + 1) @ ''/'' @ prec 2 (tm_mday t) @ ''/'' @ prec 2 (year_of t mod 100)
      else if c = CHR ''g'' then prec 2 (fst (iso_of t) mod 100)
      else if c = CHR ''G'' then prec 4 (fst (iso_of t))
      else if c = CHR ''H'' then prec 2 (tm_hour t)
      else if c = CHR ''k'' then wid 2 (tm_hour t)
      else if c = CHR ''I'' then prec 2 (hour_of_twelve t)
      else if c = CHR ''l'' then wid 2 (hour_of_twelve t)
      else if c = CHR ''j'' then prec 3 (tm_yday t + 1)
      else if c = CHR ''m'' then prec 2 (tm_mon t + 1)
      else if c = CHR ''M'' then prec 2 (tm_min t)
      else if c = CHR ''n'' then [LF]
      else if c = CHR ''p'' then am_pm (tm_hour t)
      else if c = CHR ''r'' then
        prec 2 (hour_of_twelve t) @ '':'' @ prec 2 (tm_min t) @ '':'' @ prec 2 (tm_sec t) @ '' '' @ am_pm (tm_hour t)
      else if c = CHR ''R'' then prec 2 (tm_hour t) @ '':'' @ prec 2 (tm_min t)
      else if c = CHR ''S'' then prec 2 (tm_sec t)
      else if c = CHR ''t'' then [TAB]
      else if c = CHR ''T'' \<or> c = CHR ''X'' then hms t
      else if c = CHR ''u'' then prec 1 (if tm_wday t = 0 then 7 else tm_wday t)
      else if c = CHR ''U'' then prec 2 ((tm_yday t + 7 - tm_wday t) div 7)
      else if c = CHR ''V'' then prec 2 (snd (iso_of t))
      else if c = CHR ''w'' then prec 1 (tm_wday t)
      else if c = CHR ''W'' then prec 2 ((tm_yday t + 7 - (tm_wday t - 1) mod 7) div 7)
      else if c = CHR ''y'' then prec 2 (year_of t mod 100)
      else if c = CHR ''Z'' then (if 0 \<le> tm_isdst t then if 0 < tm_isdst t then snd tzname else fst tzname else '''')
      else if c = CHR ''%'' then ''%''
      else if c = CHR ''c'' then
        take 3 (dname ! nat (tm_wday t)) @ '' '' @ take 3 (mname ! nat (tm_mon t)) @ '' '' @ wid 2 (tm_mday t) @ '' '' @ hms t @ '' '' @ prec 4 (year_of t)
      else if c = CHR ''F'' then prec 4 (year_of t) @ ''-'' @ prec 2 (tm_mon t + 1) @ ''-'' @ prec 2 (tm_mday t)
      else if c = CHR ''Y'' then prec 4 (year_of t)
      else '''')"

function expand :: "string \<times> string \<Rightarrow> wtm \<Rightarrow> string \<Rightarrow> string" where
  "expand tzname t format =
     (case format of
        [] \<Rightarrow> []
      | x # r \<Rightarrow>
          if x \<noteq> CHR ''%'' then x # expand tzname t r
          else (case skip_modifier r of [] \<Rightarrow> [] | c # r1 \<Rightarrow> field tzname t c @ expand tzname t r1))"
  by pat_completeness auto
termination expand
  by (relation "measure (\<lambda>(tz, t, f). length f)") (auto simp: less_SucI dest: skip_modifier_Cons)

declare expand.simps [simp del]

text \<open>A format without \<open>%z\<close>. The documentation in the file says that \<open>%z\<close> is the offset from UTC, but the code of
  Windows CE falls through to \<open>%Z\<close> (\<open>offset_is_zone_name\<close>).\<close>

function no_offset :: "string \<Rightarrow> bool" where
  "no_offset format =
     (case format of
        [] \<Rightarrow> True
      | x # r \<Rightarrow>
          if x \<noteq> CHR ''%'' then no_offset r
          else (case skip_modifier r of [] \<Rightarrow> True | c # r1 \<Rightarrow> c \<noteq> CHR ''z'' \<and> no_offset r1))"
  by pat_completeness auto
termination no_offset
  by (relation "measure length") (auto simp: less_SucI dest: skip_modifier_Cons)

declare no_offset.simps [simp del]

section \<open>What is written\<close>

definition wrote :: "char list \<Rightarrow> nat \<Rightarrow> string \<Rightarrow> char list \<Rightarrow> bool" where
  "wrote m i s m' \<longleftrightarrow> length m' = length m \<and> take (i + length s) m' = take i m @ s \<and>
     drop (i + length s + 1) m' = drop (i + length s + 1) m"

lemma wrote_Nil: "wrote m i [] m"
  by (simp add: wrote_def)

lemma wrote_drop:
  assumes "wrote m i s m1"
  shows "drop (i + length s + k + 1) m1 = drop (i + length s + k + 1) m"
proof -
  have "drop (i + length s + k + 1) xs = drop k (drop (i + length s + 1) xs)" for xs :: "char list"
    by (simp add: add.commute add.left_commute)
  then show ?thesis using assms by (simp only: wrote_def)
qed

lemma wrote_append:
  assumes "wrote m i s m1" "wrote m1 (i + length s) s' m2"
  shows "wrote m i (s @ s') m2"
proof -
  have "drop (i + length s + length s' + 1) m1 = drop (i + length s + length s' + 1) m" using wrote_drop [OF assms(1)] .
  then show ?thesis using assms by (simp add: wrote_def add.assoc)
qed

lemma store_wrote:
  "i + length s \<le> length m \<Longrightarrow> \<exists>m'. store_at m i s = Some m' \<and> wrote m i s m'"
  "i + length s < length m \<Longrightarrow> \<exists>m'. store_at m i (s @ [NUL]) = Some m' \<and> wrote m i s m'"
  by (auto simp: store_at_def wrote_def overwrite_def)

lemma wrote_finish:
  "wrote m i s m' \<Longrightarrow> i + length s < length m \<Longrightarrow> store_at m' (i + length s) [NUL] = Some (overwrite m i (s @ [NUL]))"
  by (simp add: wrote_def store_at_def overwrite_def)

text \<open>\<open>f\<close> writes \<open>s\<close> at \<open>count\<close>, when there is room for it and the NUL.\<close>

definition roomy :: "nat \<Rightarrow> u32 \<Rightarrow> string \<Rightarrow> out \<Rightarrow> bool" where
  "roomy b M s = (\<lambda>(m, n). unat n + length s < unat M \<and> b + unat M \<le> length m \<and> unat M < 2 ^ 31)"

definition writes :: "nat \<Rightarrow> u32 \<Rightarrow> string \<Rightarrow> (out \<Rightarrow> out option) \<Rightarrow> bool" where
  "writes b M s f \<longleftrightarrow> (\<forall>m n. roomy b M s (m, n) \<longrightarrow>
     (\<exists>m'. f (m, n) = Some (m', n + of_nat (length s)) \<and> wrote m (b + unat n) s m'))"

definition writes' :: "nat \<Rightarrow> u32 \<Rightarrow> string \<Rightarrow> (out \<Rightarrow> (char list \<times> u32 option) option) \<Rightarrow> bool" where
  "writes' b M s f \<longleftrightarrow> (\<forall>m n. roomy b M s (m, n) \<longrightarrow>
     (\<exists>m'. f (m, n) = Some (m', Some (n + of_nat (length s))) \<and> wrote m (b + unat n) s m'))"

lemma unat_plus:
  fixes n M :: u32
  assumes "unat n + k < unat M"
  shows "unat (n + of_nat k) = unat n + k"
proof -
  have "unat M < 2 ^ LENGTH(32)" by (rule unsigned_less)
  then have "unat n + k < 2 ^ 32" using assms by simp
  then have "unat (of_nat (unat n + k) :: u32) = unat n + k" by (simp add: unsigned_of_nat take_bit_nat_eq_self del: of_nat_add)
  moreover have "(of_nat (unat n + k) :: u32) = n + of_nat k" by simp
  ultimately show ?thesis by (simp only:)
qed

lemma fits_append:
  assumes "roomy b M (s @ s') (m, n)"
  shows "roomy b M s (m, n)" "wrote m (b + unat n) s m1 \<Longrightarrow> roomy b M s' (m1, n + of_nat (length s))"
  using assms unat_plus [of n "length s" M] by (auto simp: roomy_def wrote_def)

lemma writes_emit: "length s = k \<Longrightarrow> writes b M s (emit b s k)"
  using store_wrote(1) by (fastforce simp: writes_def roomy_def emit_def)

lemma writes_print: "length s = k \<Longrightarrow> writes b M s (print b s k)"
  unfolding writes_def
proof (intro allI impI)
  fix m n assume k: "length s = k" and f: "roomy b M s (m, n)"
  then have "b + unat n + length s < length m" by (simp add: roomy_def)
  then obtain m' where "store_at m (b + unat n) (s @ [NUL]) = Some m'" "wrote m (b + unat n) s m'" using store_wrote(2) by blast
  then show "\<exists>m'. print b s k (m, n) = Some (m', n + of_nat (length s)) \<and> wrote m (b + unat n) s m'"
    using k by (simp add: print_def emit_def)
qed

lemma writes_bind:
  assumes "writes b M s f" "writes b M s' g"
  shows "writes b M (s @ s') (\<lambda>st. Option.bind (f st) g)"
  unfolding writes_def
proof (intro allI impI)
  fix m n assume st: "roomy b M (s @ s') (m, n)"
  obtain m1 where 1: "f (m, n) = Some (m1, n + of_nat (length s))" "wrote m (b + unat n) s m1"
    using assms(1) fits_append(1) [OF st] by (auto simp: writes_def)
  obtain m2 where 2: "g (m1, n + of_nat (length s)) = Some (m2, n + of_nat (length s) + of_nat (length s'))"
    "wrote m1 (b + unat (n + of_nat (length s))) s' m2"
    using assms(2) fits_append(2) [OF st 1(2)] unfolding writes_def by blast
  have "unat (n + of_nat (length s)) = unat n + length s" using st by (intro unat_plus [of _ _ M]) (simp add: roomy_def)
  then show "\<exists>m'. Option.bind (f (m, n)) g = Some (m', n + of_nat (length (s @ s'))) \<and> wrote m (b + unat n) (s @ s') m'"
    using 1 2 wrote_append [of m "b + unat n" s m1 s' m2] by (simp add: add.assoc)
qed

lemma room_word: "unat n + k < unat (M :: u32) \<Longrightarrow> n < M - of_nat k"
proof -
  assume a: "unat n + k < unat M"
  have "unat M < 2 ^ LENGTH(32)" by (rule unsigned_less)
  then have k: "unat (of_nat k :: u32) = k" using a by (simp add: unsigned_of_nat take_bit_nat_eq_self)
  then have "(of_nat k :: u32) \<le> M" using a by (simp add: word_le_nat_alt)
  then have "unat (M - of_nat k) = unat M - k" using k by (simp add: unat_sub)
  then show ?thesis using a by (simp add: word_less_nat_alt)
qed

lemma writes_room:
  assumes "writes b M s f" "length s = k"
  shows "writes' b M s (room M k f)"
  unfolding writes'_def
proof (intro allI impI)
  fix m n assume st: "roomy b M s (m, n)"
  then have "n < M - of_nat k" using assms(2) by (intro room_word) (simp add: roomy_def)
  then show "\<exists>m'. room M k f (m, n) = Some (m', Some (n + of_nat (length s))) \<and> wrote m (b + unat n) s m'"
    using assms(1) st by (auto simp: writes_def room_def)
qed

lemma writes_field: "length s = k \<Longrightarrow> writes' b M s (put_field b M k s)"
  unfolding put_field_def by (intro writes_room writes_print)

lemma writes_chars: "writes' b M s (put_chars b M s)"
  unfolding writes'_def
proof (induction s)
  case Nil
  then show ?case by (simp add: wrote_Nil)
next
  case (Cons x s)
  show ?case
  proof (intro allI impI)
    fix m n assume st: "roomy b M (x # s) (m, n)"
    then have st': "roomy b M ([x] @ s) (m, n)" by simp
    have "writes' b M [x] (room M 1 (emit b [x] 1))" by (intro writes_room writes_emit) simp_all
    then obtain m1 where 1: "room M 1 (emit b [x] 1) (m, n) = Some (m1, Some (n + 1))" "wrote m (b + unat n) [x] m1"
      using fits_append(1) [OF st'] unfolding writes'_def by fastforce
    obtain m2 where 2: "put_chars b M s (m1, n + 1) = Some (m2, Some (n + 1 + of_nat (length s)))" "wrote m1 (b + unat (n + 1)) s m2"
      using Cons fits_append(2) [OF st' 1(2)] by auto
    have "unat (n + 1) = unat n + 1" using st unat_plus [of n 1 M] by (simp add: roomy_def)
    then show "\<exists>m'. put_chars b M (x # s) (m, n) = Some (m', Some (n + of_nat (length (x # s)))) \<and> wrote m (b + unat n) (x # s) m'"
      using 1 2 wrote_append [of m "b + unat n" "[x]" m1 s m2] by (simp add: add.assoc)
  qed
qed

lemma writes_sized: "writes' b M s (put_sized b M s)"
  unfolding writes'_def
proof (intro allI impI)
  fix m n assume st: "roomy b M s (m, n)"
  then have r: "unat n + length s < unat M" "b + unat M \<le> length m" "unat M < 2 ^ 31" by (simp_all add: roomy_def)
  have "n \<le> M" using r by (simp add: word_le_nat_alt)
  then have u: "unat (M - n) = unat M - unat n" by (simp add: unat_sub)
  have "sint (M - n) = int (unat (M - n))" using r(3) u by (simp add: sint_uint signed_take_bit_int_eq_self uint_nat)
  then have "\<not> sint (M - n) - 1 < int (length s)" using r(1) unfolding u by linarith
  moreover have "M - n \<noteq> 0" using r(1) by auto
  ultimately have k: "\<not> sint (M - n) - 1 < int (length s)" "M - n \<noteq> 0" .
  obtain m1 where 1: "store_at m (b + unat n) (s @ [NUL]) = Some m1" "wrote m (b + unat n) s m1"
    using store_wrote(2) [of "b + unat n" s m] r by auto
  have len: "unat (of_nat (length s) :: u32) = length s" using unat_plus [of 0 "length s" M] r(1) by simp
  have 2: "store_at m1 (b + unat n + length s) [NUL] = Some (overwrite m (b + unat n) (s @ [NUL]))"
    using wrote_finish [OF 1(2)] r by simp
  have "overwrite m (b + unat n) (s @ [NUL]) = m1" using 1(1) by (simp add: store_at_def split: if_splits)
  then have "Snprintf m (b + unat n) (M - n) s = Some (m1, of_nat (length s))"
    using k 1(1) 2 u len less_diff_conv2 [of "unat n" "unat M" "length s"] r(1) by (simp add: Snprintf_def Let_def less_diff_conv add.commute)
  moreover have "\<not> M \<le> n + of_nat (length s)" using unat_plus [OF r(1)] r(1) by (simp add: word_le_nat_alt)
  ultimately show "\<exists>m'. put_sized b M s (m, n) = Some (m', Some (n + of_nat (length s))) \<and> wrote m (b + unat n) s m'"
    using 1(2) by (simp add: put_sized_def)
qed

text \<open>Numbers of two digits.\<close>

lemma dec_small: "n < 10 \<Longrightarrow> dec n = [digit_char n]" "10 \<le> n \<Longrightarrow> n < 100 \<Longrightarrow> dec n = [digit_char (n div 10), digit_char (n mod 10)]"
  by (subst dec.simps, simp) (subst dec.simps, subst dec.simps, simp)

lemma zero_char: "digit_char 0 = CHR ''0''"
  by (simp add: digit_char_def char_of_eq_iff)

lemma prec_two: "0 \<le> i \<Longrightarrow> i < 100 \<Longrightarrow> prec 2 i = [digit_char (nat i div 10), digit_char (nat i mod 10)]"
  using dec_small [of "nat i"] by (cases "nat i < 10") (auto simp: prec_def Let_def zero_char numeral_2_eq_2)

lemma length_prec: "n \<le> length (prec n i)"
  by (simp add: prec_def Let_def)

lemma length_prec_two [simp]: "0 \<le> i \<Longrightarrow> i < 100 \<Longrightarrow> length (prec 2 i) = 2"
  by (simp add: prec_two)

lemma length_wid_two [simp]: "0 \<le> i \<Longrightarrow> i < 100 \<Longrightarrow> length (wid 2 i) = 2"
  using dec_small [of "nat i"] by (cases "nat i < 10") (auto simp: wid_def Let_def dec_int_def numeral_2_eq_2)

lemma dec_append: "0 < n \<Longrightarrow> m < 10 \<Longrightarrow> dec (10 * n + m) = dec n @ [digit_char m]"
  by (subst dec.simps) simp

lemma prec_one: "0 \<le> i \<Longrightarrow> i < 10 \<Longrightarrow> prec 1 i = [char_of (48 + i)]"
proof -
  assume i: "0 \<le> i" "i < 10"
  then obtain n where n: "i = int n" "n < 10" by (metis nat_eq_iff2 nat_less_iff of_nat_numeral zless_nat_eq_int_zless)
  have "(char_of (48 + int n) :: char) = char_of (48 + n)"
    using char_of_nat [of "48 + n", where 'a = int] by simp
  then show ?thesis using n dec_small(1) [of n] by (simp add: prec_def digit_char_def)
qed

lemma length_prec_three [simp]: "0 \<le> i \<Longrightarrow> i < 1000 \<Longrightarrow> length (prec 3 i) = 3"
proof -
  assume i: "0 \<le> i" "i < 1000"
  show ?thesis
  proof (cases "i < 100")
    case True
    then show ?thesis using i dec_small [of "nat i"] by (cases "nat i < 10") (auto simp: prec_def Let_def)
  next
    case False
    have "dec (nat i) = dec (nat i div 10) @ [digit_char (nat i mod 10)]" using False by (subst dec.simps) simp
    moreover have "length (dec (nat i div 10)) = 2" using False i dec_small(2) [of "nat i div 10"] by (simp add: nat_less_iff)
    ultimately show ?thesis using i by (simp add: prec_def)
  qed
qed

lemma prec_four:
  assumes "0 \<le> y"
  shows "prec 4 y = prec 2 (y div 100) @ prec 2 (y mod 100)"
proof -
  let ?z = "\<lambda>k. replicate k CHR ''0''"
  obtain n where n: "y = int n" using assms by (metis nonneg_int_cases)
  have two: "prec 2 (int (n mod 100)) = [digit_char (n mod 100 div 10), digit_char (n mod 10)]"
    using prec_two [of "int (n mod 100)"] by (simp add: mod_mod_cancel)
  have three: "dec n = dec (n div 100) @ [digit_char (n mod 100 div 10), digit_char (n mod 10)]" if "100 \<le> n" for n
  proof -
    have "dec n = dec (n div 10) @ [digit_char (n mod 10)]" "dec (n div 10) = dec (n div 10 div 10) @ [digit_char (n div 10 mod 10)]"
      using that by (subst dec.simps, simp)+
    moreover have "n div 10 div 10 = n div 100" "n div 10 mod 10 = n mod 100 div 10"
      using mod_mult2_eq [of n 10 10] by (simp_all add: div_mult2_eq [symmetric])
    ultimately show ?thesis by simp
  qed
  consider "n < 10" | "10 \<le> n" "n < 100" | "100 \<le> n" "n < 1000" | "1000 \<le> n" by linarith
  then have "prec 4 (int n) = prec 2 (int (n div 100)) @ prec 2 (int (n mod 100))"
  proof cases
    case 1
    then have "prec 4 (int n) = ?z 3 @ [digit_char n]" "prec 2 (int (n div 100)) = ?z 2" "n mod 100 div 10 = 0" "n mod 10 = n"
      using dec_small(1) [of n] prec_two [of 0] by (simp_all add: prec_def zero_char numeral_2_eq_2)
    then show ?thesis unfolding two by (simp add: zero_char numeral_3_eq_3 numeral_2_eq_2)
  next
    case 2
    then have "prec 4 (int n) = ?z 2 @ [digit_char (n div 10), digit_char (n mod 10)]" "prec 2 (int (n div 100)) = ?z 2" "n mod 100 = n"
      using dec_small(2) [of n] prec_two [of 0] by (simp_all add: prec_def zero_char numeral_2_eq_2)
    then show ?thesis unfolding two by simp
  next
    case 3
    then have "dec (n div 100) = [digit_char (n div 100)]" "n div 100 < 10" by (auto intro!: dec_small(1))
    then show ?thesis unfolding two using three [of n] 3 prec_two [of "int (n div 100)"] by (simp add: prec_def zero_char)
  next
    case 4
    then show ?thesis unfolding two using three [of n] by (simp add: prec_def Let_def)
  qed
  then show ?thesis using n by (simp add: zdiv_int zmod_int)
qed

lemma writes_if:
  "(P \<Longrightarrow> writes' b M s1 f1) \<Longrightarrow> (\<not> P \<Longrightarrow> writes' b M s2 f2) \<Longrightarrow>
    writes' b M (if P then s1 else s2) (\<lambda>st. if P then f1 st else f2 st)"
  by simp

lemma writes_nothing: "writes' b M [] (\<lambda>st. Some (fst st, Some (snd st)))"
  by (simp add: writes'_def wrote_Nil)

lemma writes_hour12:
  assumes "0 \<le> tm_hour t" "tm_hour t \<le> 23"
  shows "writes b M (if zero then prec 2 (hour_of_twelve t) else wid 2 (hour_of_twelve t)) (hour12 b zero (tm_hour t))"
proof (cases "tm_hour t = 0 \<or> tm_hour t = 12")
  case True
  have "prec 2 12 = ''12'' \<and> wid 2 12 = ''12''"
    using dec_small(2) [of 12] by (simp add: prec_def wid_def dec_int_def digit_char_def char_of_eq_iff)
  then show ?thesis using True writes_emit [of "''12''" 2 b M] by (auto simp: hour_of_twelve_def hour12_def)
next
  case False
  then have "cmod (tm_hour t) 12 = hour_of_twelve t" "0 \<le> hour_of_twelve t" "hour_of_twelve t < 100"
    using assms by (auto simp: cmod_def cdiv_def hour_of_twelve_def minus_mult_div_eq_mod)
  then show ?thesis using False by (auto simp: hour12_def intro!: writes_print)
qed

lemma iso_week_bounds: "valid_tm t \<Longrightarrow> 1 \<le> snd (iso_of t) \<and> snd (iso_of t) \<le> 53"
  using thursday_bounds [of t] by (auto simp: iso_of_def Let_def days_in_year_def)

lemma conversion_writes:
  assumes t: "valid_tm t" and c: "inner_format c = None" "c \<noteq> CHR ''z''"
  shows "writes' b M (field tzname t c) (conversion tzname t b M c)"
proof -
  have v: "0 \<le> tm_sec t" "tm_sec t < 100" "0 \<le> tm_min t" "tm_min t < 100" "0 \<le> tm_hour t" "tm_hour t \<le> 23" "tm_hour t < 100"
    "0 \<le> tm_mday t" "tm_mday t < 100" "0 \<le> tm_mon t" "tm_mon t + 1 < 100" "nat (tm_mon t) < 12" "0 \<le> tm_wday t" "nat (tm_wday t) < 7"
    "tm_wday t < 10" "0 \<le> tm_yday t" "tm_yday t + 1 < 1000" "tm_wday t \<le> 6" "tm_yday t \<le> 365" "1 \<le> year_of t"
    using t by (auto simp: valid_tm_def days_in_year_def split: if_splits)
  note iso = iso_year_of [OF t] iso_week_of [OF t] iso_week_bounds [OF t] century_year [OF t]
  have days: "cdiv (tm_yday t + 7 - tm_wday t) 7 = (tm_yday t + 7 - tm_wday t) div 7"
    "cdiv (tm_yday t + 7 - monday_first t) 7 = (tm_yday t + 7 - (tm_wday t - 1) mod 7) div 7"
    using v monday_first_mod [of t] by (simp_all add: cdiv_def)
  have names: "name_at dname (tm_wday t) = Some (dname ! nat (tm_wday t))" "name_at mname (tm_mon t) = Some (mname ! nat (tm_mon t))"
    using v by (simp_all add: name_at_def dname_def mname_def)
  have hour: "writes' b M (prec 2 (hour_of_twelve t)) (room M 2 (hour12 b True (tm_hour t)))"
    "writes' b M (wid 2 (hour_of_twelve t)) (room M 2 (hour12 b False (tm_hour t)))"
    and h12: "0 \<le> hour_of_twelve t" "hour_of_twelve t < 100"
  proof -
    show h12: "0 \<le> hour_of_twelve t" "hour_of_twelve t < 100" by (auto simp: hour_of_twelve_def)
    show "writes' b M (prec 2 (hour_of_twelve t)) (room M 2 (hour12 b True (tm_hour t)))"
      "writes' b M (wid 2 (hour_of_twelve t)) (room M 2 (hour12 b False (tm_hour t)))"
      using writes_hour12 [OF v(5,6), of b M True] writes_hour12 [OF v(5,6), of b M False] h12 by (auto intro: writes_room)
  qed
  have r: "writes' b M (prec 2 (hour_of_twelve t) @ '':'' @ prec 2 (tm_min t) @ '':'' @ prec 2 (tm_sec t) @ '' '' @ am_pm (tm_hour t))
      (room M 11 (\<lambda>st. do {
          st \<leftarrow> hour12 b True (tm_hour t) st;
          st \<leftarrow> emit b '':'' 1 st;
          st \<leftarrow> print b (prec 2 (tm_min t)) 2 st;
          st \<leftarrow> emit b '':'' 1 st;
          st \<leftarrow> print b (prec 2 (tm_sec t)) 2 st;
          emit b ('' '' @ am_pm (tm_hour t)) 3 st
        }))"
    using writes_hour12 [OF v(5,6), of b M True] v h12
    by (intro writes_room writes_bind writes_emit writes_print) (simp_all add: am_pm_def)
  have by7: "0 \<le> x \<Longrightarrow> x < 700 \<Longrightarrow> 0 \<le> x div 7 \<and> x div 7 < 100" for x :: int by presburger
  have "0 \<le> (tm_yday t + 7 - tm_wday t) div 7" "(tm_yday t + 7 - tm_wday t) div 7 < 100"
    "0 \<le> (tm_yday t + 7 - (tm_wday t - 1) mod 7) div 7" "(tm_yday t + 7 - (tm_wday t - 1) mod 7) div 7 < 100"
    using v pos_mod_bound [of 7 "tm_wday t - 1"] pos_mod_sign [of 7 "tm_wday t - 1"]
      by7 [of "tm_yday t + 7 - tm_wday t"] by7 [of "tm_yday t + 7 - (tm_wday t - 1) mod 7"]
    by simp_all
  note weeks = this
  have week: "writes' b M (prec 1 i) (room M 1 (emit b [char_of (48 + i)] 1))" if "0 \<le> i" "i < 10" for i
    using prec_one [OF that] by (simp add: writes_room writes_emit)
  have seven: "char_of (48 + 7 :: int) = CHR ''7''" by (simp add: char_of_eq_iff)
  have u: "writes' b M (prec 1 (if tm_wday t = 0 then 7 else tm_wday t))
      (room M 1 (emit b [if tm_wday t = 0 then CHR ''7'' else char_of (48 + tm_wday t)] 1))"
    using week [of 7] week [of "tm_wday t"] v seven by simp
  note w = week [OF v(13) v(15)]
  have iw: "0 \<le> snd (iso_of t)" "snd (iso_of t) < 100" using iso_week_bounds [OF t] by simp_all
  have cs: "c \<noteq> CHR ''c''" "c \<noteq> CHR ''F''" "c \<noteq> CHR ''Y''" using c(1) by (auto simp: inner_format_def split: if_splits)
  show ?thesis
    using cs c(2) unfolding field_def conversion_def [abs_def] names
    by (intro writes_if r w u hour) (simp_all add: iso days writes_chars writes_field writes_emit writes_room century_text_def v
      writes_nothing hms_def am_pm_def weeks iw writes_sized prec_four)
qed

lemma wrote_overwrite:
  "wrote m i s m1 \<Longrightarrow> overwrite m1 (i + length s) (s' @ [NUL]) = overwrite m i ((s @ s') @ [NUL])"
  using wrote_drop [of m i s m1 "length s'"] by (simp add: wrote_def overwrite_def add.assoc)

lemma expand_eqs:
  "expand tzname t [] = []"
  "x \<noteq> CHR ''%'' \<Longrightarrow> expand tzname t (x # r) = x # expand tzname t r"
  "expand tzname t (CHR ''%'' # r) = (case skip_modifier r of [] \<Rightarrow> [] | c # r1 \<Rightarrow> field tzname t c @ expand tzname t r1)"
  by (subst expand.simps, simp)+

lemma no_offset_eqs:
  "no_offset []"
  "x \<noteq> CHR ''%'' \<Longrightarrow> no_offset (x # r) = no_offset r"
  "no_offset (CHR ''%'' # r) = (case skip_modifier r of [] \<Rightarrow> True | c # r1 \<Rightarrow> c \<noteq> CHR ''z'' \<and> no_offset r1)"
  by (subst no_offset.simps, simp)+

lemma strftime_eqs:
  "strftime tzname t b M [] st = finish b M st"
  "x \<noteq> CHR ''%'' \<Longrightarrow> strftime tzname t b M (x # r) st =
     (case room M 1 (emit b [x] 1) st of
        None \<Rightarrow> None
      | Some (m1, None) \<Rightarrow> Some (m1, 0)
      | Some (m1, Some n1) \<Rightarrow> strftime tzname t b M r (m1, n1))"
  "skip_modifier r = [] \<Longrightarrow> strftime tzname t b M (CHR ''%'' # r) st = finish b M st"
  "skip_modifier r = c # r1 \<Longrightarrow> inner_format c = Some g \<Longrightarrow> strftime tzname t b M (CHR ''%'' # r) st =
     (case strftime tzname t (b + unat (snd st)) (M - snd st) g (fst st, 0) of
        None \<Rightarrow> None
      | Some (m1, adjust) \<Rightarrow> if 0 < adjust then strftime tzname t b M r1 (m1, snd st + adjust) else Some (m1, 0))"
  "skip_modifier r = c # r1 \<Longrightarrow> inner_format c = None \<Longrightarrow> strftime tzname t b M (CHR ''%'' # r) st =
     (case conversion tzname t b M c st of
        None \<Rightarrow> None
      | Some (m1, None) \<Rightarrow> Some (m1, 0)
      | Some (m1, Some n1) \<Rightarrow> strftime tzname t b M r1 (m1, n1))"
  by (subst strftime.simps, simp)+

lemma inner_expand:
  assumes "inner_format c = Some g" "valid_tm t"
  shows "expand tzname t g = field tzname t c" "field tzname t c \<noteq> []" "no_offset g"
proof -
  have p: "prec 4 (year_of t) = prec 2 (year_of t div 100) @ prec 2 (year_of t mod 100)" "prec 2 (year_of t mod 100) \<noteq> []"
    using assms(2) prec_four [of "year_of t"] by (auto simp: valid_tm_def prec_two)
  consider "c = CHR ''c''" "g = ''%a %b %e %H:%M:%S %C%y''" | "c = CHR ''F''" "g = ''%C%y-%m-%d''" | "c = CHR ''Y''" "g = ''%C%y''"
    using assms(1) by (auto simp: inner_format_def split: if_splits)
  then show "expand tzname t g = field tzname t c" "field tzname t c \<noteq> []" "no_offset g"
    using p by (cases; simp add: expand_eqs no_offset_eqs skip_modifier_def field_def hms_def)+
qed

lemma strftime_writes:
  "valid_tm t \<Longrightarrow> roomy b M (expand tzname t format) st \<Longrightarrow> no_offset format \<Longrightarrow>
    strftime tzname t b M format st =
      Some (overwrite (fst st) (b + unat (snd st)) (expand tzname t format @ [NUL]), snd st + of_nat (length (expand tzname t format)))"
proof (induction tzname t b M format st rule: strftime.induct)
  case (1 tzname t b M format st)
  note t = 1(5) and fit = 1(6) and zone = 1(7)
  obtain m n where st: "st = (m, n)" by force
  have ends: "finish b M st = Some (overwrite m (b + unat n) [NUL], n)"
    using fit by (auto simp: roomy_def finish_def store_at_def st)
  have more: "overwrite m1 (b + unat (n + of_nat (length s))) (s' @ [NUL]) = overwrite m (b + unat n) ((s @ s') @ [NUL])"
    if "wrote m (b + unat n) s m1" "roomy b M (s @ s') st" for s s' m1
  proof -
    have "unat (n + of_nat (length s)) = unat n + length s" using that(2) by (intro unat_plus [of _ _ M]) (simp add: roomy_def st)
    then show ?thesis using wrote_overwrite [OF that(1), of s'] by (simp add: add.assoc)
  qed
  show ?case
  proof (cases format)
    case Nil
    then show ?thesis using ends by (simp add: st expand_eqs strftime_eqs)
  next
    case (Cons x r)
    show ?thesis
    proof (cases "x = CHR ''%''")
      case False
      have fit': "roomy b M ([x] @ expand tzname t r) (m, n)" using fit False Cons by (simp add: expand_eqs st)
      have "writes' b M [x] (room M 1 (emit b [x] 1))" by (intro writes_room writes_emit) simp_all
      then obtain m1 where m1: "room M 1 (emit b [x] 1) (m, n) = Some (m1, Some (n + 1))" "wrote m (b + unat n) [x] m1"
        using fits_append(1) [OF fit'] unfolding writes'_def by fastforce
      have "strftime tzname t b M r (m1, n + 1) =
          Some (overwrite m1 (b + unat (n + 1)) (expand tzname t r @ [NUL]), n + 1 + of_nat (length (expand tzname t r)))"
        using 1(1) [OF Cons False, of "(m1, Some (n + 1))" m1 "Some (n + 1)" "n + 1"] m1(1) t fits_append(2) [OF fit' m1(2)] zone
          Cons False by (simp add: st no_offset_eqs)
      then show ?thesis using Cons False m1 more [of "[x]" m1 "expand tzname t r"] fit' by (simp add: st strftime_eqs expand_eqs add.assoc)
    next
      case True
      show ?thesis
      proof (cases "skip_modifier r")
        case Nil
        then show ?thesis using Cons True ends by (simp add: st expand_eqs strftime_eqs)
      next
        case (Cons c r1)
        note format = \<open>format = x # r\<close> and skip = Cons
        let ?s = "field tzname t c" and ?s' = "expand tzname t r1"
        have e: "expand tzname t format = ?s @ ?s'" using True format skip by (simp add: expand_eqs)
        have fit': "roomy b M (?s @ ?s') (m, n)" using fit e by (simp add: st)
        have e': "expand tzname t (CHR ''%'' # r) = ?s @ ?s'" using e format True by simp
        have z: "c \<noteq> CHR ''z''" "no_offset r1" using zone True format skip by (simp_all add: no_offset_eqs)
        have percent: "\<not> x \<noteq> CHR ''%''" using True by simp
        show ?thesis
        proof (cases "inner_format c")
          case None
          obtain m1 where m1: "conversion tzname t b M c (m, n) = Some (m1, Some (n + of_nat (length ?s)))" "wrote m (b + unat n) ?s m1"
            using conversion_writes [OF t None z(1), of b M tzname] fits_append(1) [OF fit'] unfolding writes'_def by blast
          have "strftime tzname t b M r1 (m1, n + of_nat (length ?s)) =
              Some (overwrite m1 (b + unat (n + of_nat (length ?s))) (?s' @ [NUL]), n + of_nat (length ?s) + of_nat (length ?s'))"
            using 1(2) [OF format percent skip None, of "(m1, Some (n + of_nat (length ?s)))" m1 "Some (n + of_nat (length ?s))"]
              m1(1) t z(2) fits_append(2) [OF fit' m1(2)] by (simp add: st)
          then show ?thesis using format True skip None m1 more [OF m1(2), of ?s'] fit' by (simp add: st strftime_eqs e' add.assoc)
        next
          case (Some g)
          note g = inner_expand(1,2) [OF Some t, of tzname] inner_expand(3) [OF Some t]
          have n: "unat (M - n) = unat M - unat n"
            using fit' by (intro unat_sub) (simp add: roomy_def word_le_nat_alt)
          have "roomy (b + unat n) (M - n) ?s (m, 0)" using fit' n by (auto simp: roomy_def)
          then have "strftime tzname t (b + unat n) (M - n) g (m, 0) = Some (overwrite m (b + unat n) (?s @ [NUL]), of_nat (length ?s))"
            using 1(3) [OF format percent skip Some] t g(1,3) by (simp add: st)
          moreover define m1 where "m1 = overwrite m (b + unat n) (?s @ [NUL])"
          ultimately have inner: "strftime tzname t (b + unat n) (M - n) g (m, 0) = Some (m1, of_nat (length ?s))" by simp
          have "b + unat n + length ?s < length m" using fit' by (simp add: roomy_def)
          then have m1: "wrote m (b + unat n) ?s m1" using store_wrote(2) [of "b + unat n" ?s m] by (auto simp: store_at_def m1_def)
          have "unat (of_nat (length ?s) :: u32) = length ?s" using unat_plus [of 0 "length ?s" M] fit' by (simp add: roomy_def)
          then have pos: "0 < (of_nat (length ?s) :: u32)" using g(2) by (simp add: word_less_nat_alt)
          have "strftime tzname t b M r1 (m1, n + of_nat (length ?s)) =
              Some (overwrite m1 (b + unat (n + of_nat (length ?s))) (?s' @ [NUL]), n + of_nat (length ?s) + of_nat (length ?s'))"
            using 1(4) [OF format percent skip Some, of "(m1, of_nat (length ?s))" m1 "of_nat (length ?s)"]
              inner pos t z(2) fits_append(2) [OF fit' m1] by (simp add: st)
          then show ?thesis using format True skip Some inner pos more [OF m1, of ?s'] fit' by (simp add: st strftime_eqs e' add.assoc)
        qed
      qed
    qed
  qed
qed

section \<open>What strftime returns\<close>


text \<open>Saturday, the first of January 2000: the last week of 1999.\<close>

definition sample_tm :: wtm where
  "sample_tm = \<lparr>tm_sec = 5, tm_min = 7, tm_hour = 0, tm_mday = 1, tm_mon = 0, tm_year = 100, tm_isdst = 0, tm_wday = 6, tm_yday = 0\<rparr>"

lemma sample_valid: "valid_tm sample_tm"
  by (simp add: valid_tm_def sample_tm_def days_in_year_def year_of_def)

lemma sample_expand: "expand tz sample_tm ''%a %G-W%V %I:%M %p%n'' = ''Sat 1999-W52 12:07 AM'' @ [LF]"
  by (simp add: expand_eqs skip_modifier_def field_def sample_tm_def dname_def iso_of_def thursday_def days_in_year_def year_of_def isleap_def
      Let_def hour_of_twelve_def am_pm_def prec_four prec_two digit_char_def char_of_eq_iff)

lemma sample_no_offset: "no_offset ''%a %G-W%V %I:%M %p%n''"
  by (simp add: no_offset_eqs skip_modifier_def)


text \<open>\<open>%z\<close> writes what \<open>%Z\<close> does.\<close>

lemma offset_is_zone_name: "strftime tzname t b M ''%z'' st = strftime tzname t b M ''%Z'' st"
  by (simp add: strftime_eqs skip_modifier_def inner_format_def conversion_def)

section \<open>When the room is short\<close>

lemma strftime_plain:
  "CHR ''%'' \<notin> set lit \<Longrightarrow> roomy b M lit (m, n) \<Longrightarrow>
    \<exists>m1. wrote m (b + unat n) lit m1 \<and>
      strftime tzname t b M (lit @ format) (m, n) = strftime tzname t b M format (m1, n + of_nat (length lit))"
proof (induction lit arbitrary: m n)
  case Nil
  then show ?case using wrote_Nil by fastforce
next
  case (Cons x lit)
  have fit': "roomy b M ([x] @ lit) (m, n)" using Cons.prems by simp
  have "writes' b M [x] (room M 1 (emit b [x] 1))" by (intro writes_room writes_emit) simp_all
  then obtain m1 where m1: "room M 1 (emit b [x] 1) (m, n) = Some (m1, Some (n + 1))" "wrote m (b + unat n) [x] m1"
    using fits_append(1) [OF fit'] unfolding writes'_def by fastforce
  have u: "unat (n + 1) = unat n + 1" using fit' unat_plus [of n 1 M] by (simp add: roomy_def)
  obtain m2 where m2: "wrote m1 (b + unat (n + 1)) lit m2"
    "strftime tzname t b M (lit @ format) (m1, n + 1) = strftime tzname t b M format (m2, n + 1 + of_nat (length lit))"
    using Cons.IH [of m1 "n + 1"] Cons.prems(1) fits_append(2) [OF fit' m1(2)] by auto
  have "wrote m (b + unat n) (x # lit) m2" using wrote_append [OF m1(2), of lit m2] m2(1) u by (simp add: add.assoc)
  then show ?case using Cons.prems(1) m1(1) m2(2) by (auto simp: strftime_eqs add.assoc intro!: exI [of _ m2])
qed

text \<open>C20: A buffer that is one byte short. The sizes are unsigned, so \<open>maxsize - 2\<close> is huge when one byte is left. When the text before
  \<open>%Y\<close> leaves just the place of the NUL, \<open>%C\<close> is cut to nothing, and \<open>%y\<close> is written behind the end of the buffer, where
  \<open>strftime\<close> promises to return 0.\<close>

theorem strftime_overflow:
  assumes "valid_tm t" "CHR ''%'' \<notin> set lit" "length lit + 1 = unat M" "unat M < 2 ^ 31" "b + unat M = length m"
  shows "strftime tzname t b M (lit @ ''%Y'') (m, 0) = None"
proof -
  have "roomy b M lit (m, 0)" using assms by (simp add: roomy_def)
  from strftime_plain [OF assms(2) this, of tzname t "''%Y''"] obtain m1 where m1: "wrote m b lit m1"
    "strftime tzname t b M (lit @ ''%Y'') (m, 0) = strftime tzname t b M ''%Y'' (m1, of_nat (length lit))" by auto
  have len: "unat (of_nat (length lit) :: u32) = length lit" using unat_plus [of 0 "length lit" M] assms(3) by simp
  have one: "M - of_nat (length lit) = 1"
  proof -
    have "(of_nat (length lit) :: u32) \<le> M" using assms(3) len by (simp add: word_le_nat_alt)
    then have "unat (M - of_nat (length lit)) = 1" using assms(3) len by (simp add: unat_sub)
    then show ?thesis by (metis unsigned_1 unsigned_word_eqI)
  qed
  have l: "length m1 = b + length lit + 1" using m1(1) assms(3,5) by (simp add: wrote_def)
  let ?i = "b + length lit" and ?c = "century_text (is_neg t) (century_of t)"
  have c: "2 \<le> length ?c" using century_year(3) [OF assms(1)] length_prec [of 2 "century_of t"] by (simp add: century_text_def)
  then have nonempty: "?c \<noteq> []" by auto
  define m2 where "m2 = overwrite (overwrite m1 ?i (take 1 ?c)) ?i [NUL]"
  have l2: "length m2 = ?i + 1" using l c by (simp add: m2_def)
  have "put_sized ?i 1 ?c (m1, 0) = Some (m2, Some 0)"
    using c l l2 nonempty by (simp add: put_sized_def Snprintf_def store_at_def Let_def m2_def)
  then have C: "conversion tzname t ?i 1 CHR ''C'' (m1, 0) = Some (m2, Some 0)" by (simp add: conversion_def)
  have y: "0 \<le> year_in_century t" "year_in_century t < 100" by (simp_all add: year_in_century_def)
  have "put_field ?i 1 2 (prec 2 (year_in_century t)) (m2, 0) = None"
    using l2 y by (simp add: put_field_def room_def print_def emit_def store_at_def word_gt_0)
  then have "conversion tzname t ?i 1 CHR ''y'' (m2, 0) = None" by (simp add: conversion_def)
  then have "strftime tzname t ?i 1 ''%C%y'' (m1, 0) = None"
    using C by (simp add: strftime_eqs skip_modifier_def inner_format_def)
  then show ?thesis using m1(2) len one by (simp add: strftime_eqs skip_modifier_def inner_format_def)
qed

theorem strftime_overflow_witness:
  "strftime (''GMT'', ''GMT'') sample_tm 0 4 (''in '' @ ''%Y'') (replicate 4 CHR ''.'', 0) = None"
  by (rule strftime_overflow [OF sample_valid]) simp_all

end
