(* ===== verification/WinDate.thy ===== *)
theory WinDate
  imports WinTime
begin

text \<open>
  The conversions of time on Windows CE (\<open>compat_wince.c\<close>): \<open>gmtime\<close>, \<open>localtime\<close> and \<open>mktime\<close> over the calls of
  Windows, and the dates of the server there and back. The bytes of a structure are its fields; \<open>time_t\<close> is an integer.
\<close>

section \<open>The calls of Windows\<close>

record FILETIME =
  dwLowDateTime :: u32
  dwHighDateTime :: u32

record SYSTEMTIME =
  wYear :: "16 word"
  wMonth :: "16 word"
  wDayOfWeek :: "16 word"
  wDay :: "16 word"
  wHour :: "16 word"
  wMinute :: "16 word"
  wSecond :: "16 word"
  wMilliseconds :: "16 word"

record windows =
  FileTimeToSystemTime :: "FILETIME \<Rightarrow> SYSTEMTIME"
  SystemTimeToFileTime :: "SYSTEMTIME \<Rightarrow> FILETIME"
  FileTimeToLocalFileTime :: "FILETIME \<Rightarrow> FILETIME"
  LocalFileTimeToFileTime :: "FILETIME \<Rightarrow> FILETIME"
  GetSystemTime :: SYSTEMTIME

section \<open>The conversions\<close>

definition FT_EPOCH :: "64 word" where
  "FT_EPOCH = 116444736000000000"

definition FT_TICKS :: int where
  "FT_TICKS = 10000000"

definition convert_FILETIME_to_time_t :: "FILETIME \<Rightarrow> int" where
  "convert_FILETIME_to_time_t f =
     (let Temp = push_bit 32 (ucast (dwHighDateTime f)) + ucast (dwLowDateTime f) :: 64 word
      in cdiv (sint (Temp - FT_EPOCH)) FT_TICKS)"

definition Convert_time_t_To_FILETIME :: "int \<Rightarrow> FILETIME" where
  "Convert_time_t_To_FILETIME x =
     (let Temp = of_int (x * FT_TICKS) + FT_EPOCH
      in \<lparr>dwLowDateTime = ucast Temp, dwHighDateTime = ucast (drop_bit 32 Temp)\<rparr>)"

definition Day_Of_Year_By_Month :: "int list" where
  "Day_Of_Year_By_Month = [0, 31, 31 + 28, 31 + 28 + 31, 31 + 28 + 31 + 30, 31 + 28 + 31 + 30 + 31, 31 + 28 + 31 + 30 + 31 + 30,
     31 + 28 + 31 + 30 + 31 + 30 + 31, 31 + 28 + 31 + 30 + 31 + 30 + 31 + 31, 31 + 28 + 31 + 30 + 31 + 30 + 31 + 31 + 30,
     31 + 28 + 31 + 30 + 31 + 30 + 31 + 31 + 30 + 31, 31 + 28 + 31 + 30 + 31 + 30 + 31 + 31 + 30 + 31 + 30]"

text \<open>\<open>None\<close>: the month is not an index of the table.\<close>

definition Convert_FILETIME_To_tm :: "windows \<Rightarrow> FILETIME \<Rightarrow> wtm option" where
  "Convert_FILETIME_To_tm W f =
     (let S = FileTimeToSystemTime W f;
          mon = uint (wMonth S) - 1;
          mday = uint (wDay S);
          year = uint (wYear S);
          leap = (if year mod 4 = 0 then if year mod 100 = 0 then year mod 400 = 0 else True else False)
      in if 0 \<le> mon \<and> mon < 12 then
           Some \<lparr>tm_sec = uint (wSecond S), tm_min = uint (wMinute S), tm_hour = uint (wHour S), tm_mday = mday, tm_mon = mon,
             tm_year = year - 1900, tm_isdst = 0, tm_wday = uint (wDayOfWeek S),
             tm_yday = Day_Of_Year_By_Month ! nat mon + mday - 1 + (if 2 \<le> mon \<and> leap then 1 else 0)\<rparr>
         else None)"

definition Convert_tm_To_FILETIME :: "windows \<Rightarrow> wtm \<Rightarrow> FILETIME" where
  "Convert_tm_To_FILETIME W t =
     SystemTimeToFileTime W \<lparr>wYear = of_int (tm_year t + 1900), wMonth = of_int (tm_mon t + 1), wDayOfWeek = of_int (tm_wday t),
       wDay = of_int (tm_mday t), wHour = of_int (tm_hour t), wMinute = of_int (tm_min t), wSecond = of_int (tm_sec t), wMilliseconds = 0\<rparr>"

definition gmtime :: "windows \<Rightarrow> int option \<Rightarrow> wtm option option" where
  "gmtime W TimeP =
     (case TimeP of None \<Rightarrow> Some None
      | Some x \<Rightarrow> map_option Some (Convert_FILETIME_To_tm W (Convert_time_t_To_FILETIME x)))"

definition localtime :: "windows \<Rightarrow> int option \<Rightarrow> wtm option option" where
  "localtime W TimeP =
     (case TimeP of None \<Rightarrow> Some None
      | Some x \<Rightarrow> map_option Some (Convert_FILETIME_To_tm W (FileTimeToLocalFileTime W (Convert_time_t_To_FILETIME x))))"

definition mktime :: "windows \<Rightarrow> wtm \<Rightarrow> int" where
  "mktime W t = convert_FILETIME_to_time_t (LocalFileTimeToFileTime W (Convert_tm_To_FILETIME W t))"

definition time_now :: "windows \<Rightarrow> int" where
  "time_now W = convert_FILETIME_to_time_t (SystemTimeToFileTime W (GetSystemTime W))"

text \<open>\<open>date_to_epoch\<close> clears the whole structure first.\<close>

definition whole_tm :: "tm \<Rightarrow> wtm" where
  "whole_tm t = \<lparr>tm_sec = tm_sec t, tm_min = tm_min t, tm_hour = tm_hour t, tm_mday = tm_mday t, tm_mon = tm_mon t, tm_year = tm_year t,
     tm_isdst = tm_isdst t, tm_wday = 0, tm_yday = 0\<rparr>"

section \<open>There and back\<close>

lemma time_t_FILETIME:
  assumes "\<bar>x\<bar> \<le> 2 ^ 39"
  shows "convert_FILETIME_to_time_t (Convert_time_t_To_FILETIME x) = x"
proof -
  define T :: "64 word" where "T = of_int (x * FT_TICKS) + FT_EPOCH"
  have "push_bit 32 (ucast (ucast (drop_bit 32 T) :: u32)) = push_bit 32 (drop_bit 32 T)" "ucast (ucast T :: u32) = take_bit 32 T"
    by (auto intro!: bit_word_eqI simp: bit_simps)
  then have "push_bit 32 (ucast (ucast (drop_bit 32 T) :: u32)) + ucast (ucast T :: u32) = T"
    using bits_ident [of 32 T] by simp
  moreover have "sint (of_int (x * FT_TICKS) :: 64 word) = x * FT_TICKS"
    using assms by (simp add: signed_of_int signed_take_bit_int_eq_self FT_TICKS_def abs_le_iff del: of_int_mult)
  moreover have "T - FT_EPOCH = of_int (x * FT_TICKS)" by (simp add: T_def)
  moreover have "cdiv (x * FT_TICKS) FT_TICKS = x" by (simp add: cdiv_def FT_TICKS_def flip: mult_minus_left)
  ultimately show ?thesis
    unfolding convert_FILETIME_to_time_t_def Convert_time_t_To_FILETIME_def Let_def T_def [symmetric]
    by (simp only: FILETIME.simps)
qed


text \<open>What Windows promises of a system time.\<close>

definition valid_SYSTEMTIME :: "SYSTEMTIME \<Rightarrow> bool" where
  "valid_SYSTEMTIME S \<longleftrightarrow> uint (wYear S) \<in> {1970..30827} \<and> uint (wMonth S) \<in> {1..12} \<and> uint (wDayOfWeek S) \<in> {0..6} \<and>
     uint (wDay S) \<in> {1..31} \<and> uint (wHour S) \<in> {0..23} \<and> uint (wMinute S) \<in> {0..59} \<and> uint (wSecond S) \<in> {0..59}"

lemma tm_of_FILETIME:
  assumes "valid_SYSTEMTIME (FileTimeToSystemTime W f)"
  shows "\<exists>t. Convert_FILETIME_To_tm W f = Some t \<and> valid_tm t \<and> 1970 \<le> year_of t \<and> year_of t \<le> 30827 \<and>
    (let S = FileTimeToSystemTime W f
     in year_of t = uint (wYear S) \<and> tm_mon t + 1 = uint (wMonth S) \<and> tm_mday t = uint (wDay S) \<and> tm_hour t = uint (wHour S) \<and>
       tm_min t = uint (wMinute S) \<and> tm_sec t = uint (wSecond S))"
proof -
  let ?S = "FileTimeToSystemTime W f"
  have v: "1970 \<le> uint (wYear ?S)" "uint (wYear ?S) \<le> 30827" "1 \<le> uint (wMonth ?S)" "uint (wMonth ?S) \<le> 12" "0 \<le> uint (wDayOfWeek ?S)"
    "uint (wDayOfWeek ?S) \<le> 6" "1 \<le> uint (wDay ?S)" "uint (wDay ?S) \<le> 31" "uint (wHour ?S) \<le> 23" "uint (wMinute ?S) \<le> 59" "uint (wSecond ?S) \<le> 59"
    using assms by (simp_all add: valid_SYSTEMTIME_def)
  define mon where "mon = uint (wMonth ?S) - 1"
  have mon: "mon \<in> {0..11}" using v by (simp add: mon_def)
  then have "mon \<in> set (map int [0..<12])" by (auto simp: image_iff intro!: bexI [of _ "nat mon"])
  then have table: "0 \<le> Day_Of_Year_By_Month ! nat mon \<and> Day_Of_Year_By_Month ! nat mon \<le> (if 2 \<le> mon then 334 else 31)"
    by (auto simp: Day_Of_Year_By_Month_def upt_rec)
  have m: "uint (wMonth ?S) = mon + 1" by (simp add: mon_def)
  have leap: "(if y mod 4 = 0 then if y mod 100 = 0 then y mod 400 = 0 else True else False) \<longleftrightarrow> isleap y" for y :: int
    using mod_mod_cancel [of 4 400 y] mod_mod_cancel [of 100 400 y] by (auto simp: isleap_def)
  define yday where "yday = Day_Of_Year_By_Month ! nat mon + uint (wDay ?S) - 1 + (if 2 \<le> mon \<and> isleap (uint (wYear ?S)) then 1 else 0)"
  have "0 \<le> yday \<and> yday < days_in_year (uint (wYear ?S))"
    using v(7,8) table by (auto simp: yday_def days_in_year_def split: if_splits)
  then show ?thesis
    using v(1,2,5-11) mon
    by (simp add: Convert_FILETIME_To_tm_def Let_def valid_tm_def year_of_def m leap yday_def [symmetric])
qed


text \<open>Reading the date that is written in a header.\<close>

lemma digits_zeros: "digits_val (replicate k CHR ''0'' @ ds) = digits_val ds"
  by (induction k) (simp_all add: digits_val_def digit_val_def)

lemma scan_num_prec:
  assumes "0 \<le> i" "\<not> isdigit (chd r)"
  shows "scan_num (prec k i @ r) = Some (False, nat i, r)"
proof -
  let ?ds = "prec k i"
  have p: "?ds = replicate (k - length (dec (nat i))) CHR ''0'' @ dec (nat i)" using assms(1) by (simp add: prec_def Let_def)
  have dig: "list_all isdigit ?ds" using dec_digits [of "nat i"] unfolding p by (auto simp: list_all_iff isdigit_def)
  have "?ds \<noteq> []" by (simp add: p)
  then obtain d ds where d: "?ds = d # ds" by (cases ?ds) auto
  have dd: "isdigit d" using dig d by simp
  have tw: "takeWhile isdigit (?ds @ r) = ?ds" using takeWhile_digits_app [OF dig assms(2)] .
  then have "dropWhile isdigit (?ds @ r) = r" by (metis same_append_eq takeWhile_dropWhile_id)
  moreover have "digits_val ?ds = nat i" unfolding p digits_zeros by simp
  ultimately show ?thesis
    using tw isdigit_not_space [OF dd] isdigit_not_sign [OF dd] dd by (simp add: d scan_num_def Let_def)
qed

lemma not_space_digit: "0 \<le> i \<Longrightarrow> dropWhile isspace (prec k i @ r) = prec k i @ r"
proof -
  assume i: "0 \<le> i"
  have p: "prec k i = replicate (k - length (dec (nat i))) CHR ''0'' @ dec (nat i)" using i by (simp add: prec_def Let_def)
  have "list_all isdigit (prec k i)" "prec k i \<noteq> []" using dec_digits [of "nat i"] unfolding p by (auto simp: list_all_iff isdigit_def)
  then obtain d ds where "prec k i = d # ds" "isdigit d" by (cases "prec k i") auto
  then show ?thesis using isdigit_not_space [of d] by simp
qed

lemma month_text:
  assumes "0 \<le> mon" "mon < 12"
  shows "montoi (take 3 (mname ! nat mon)) = mon" "scan_word 3 (take 3 (mname ! nat mon) @ '' '' @ r) = Some (take 3 (mname ! nat mon), '' '' @ r)"
    "dropWhile isspace (take 3 (mname ! nat mon) @ r) = take 3 (mname ! nat mon) @ r"
proof -
  have "mon \<in> set (map int [0..<12])" using assms by (auto simp: image_iff intro!: bexI [of _ "nat mon"])
  then show "montoi (take 3 (mname ! nat mon)) = mon" "scan_word 3 (take 3 (mname ! nat mon) @ '' '' @ r) = Some (take 3 (mname ! nat mon), '' '' @ r)"
    "dropWhile isspace (take 3 (mname ! nat mon) @ r) = take 3 (mname ! nat mon) @ r"
    by (auto simp: mname_def montoi_def month_names_def scan_word_def isspace_def Let_def upt_rec)
qed

lemma day_text:
  assumes "0 \<le> d" "d < 7"
  shows "scan_num (take 3 (dname ! nat d) @ r) = None"
    "scan_word 3 (take 3 (dname ! nat d) @ '', '' @ r) = Some (take 3 (dname ! nat d), '', '' @ r)"
proof -
  have "d \<in> set (map int [0..<7])" using assms by (auto simp: image_iff intro!: bexI [of _ "nat d"])
  then show "scan_num (take 3 (dname ! nat d) @ r) = None"
    "scan_word 3 (take 3 (dname ! nat d) @ '', '' @ r) = Some (take 3 (dname ! nat d), '', '' @ r)"
    by (auto simp: dname_def scan_num_def scan_word_def isspace_def isdigit_def chat_def Let_def upt_rec)
qed


lemma date_no_offset: "no_offset http_date_fmt"
  by (simp add: http_date_fmt_def no_offset_eqs skip_modifier_def)

lemma date_text:
  "expand tzname t http_date_fmt =
     take 3 (dname ! nat (tm_wday t)) @ '', '' @ prec 2 (tm_mday t) @ '' '' @ take 3 (mname ! nat (tm_mon t)) @ '' '' @ prec 4 (year_of t) @
       '' '' @ prec 2 (tm_hour t) @ '':'' @ prec 2 (tm_min t) @ '':'' @ prec 2 (tm_sec t) @ '' GMT''" if "1 \<le> year_of t"
  using that by (simp add: http_date_fmt_def expand_eqs skip_modifier_def field_def)

lemma date_parse:
  assumes t: "valid_tm t" and y: "1901 \<le> year_of t"
  shows "date_to_epoch mk isdst (expand tzname t http_date_fmt) =
    mk \<lparr>tm_sec = tm_sec t, tm_min = tm_min t, tm_hour = tm_hour t, tm_mday = tm_mday t, tm_mon = tm_mon t, tm_year = tm_year t, tm_isdst = isdst\<rparr>"
proof -
  have v: "0 \<le> tm_sec t" "0 \<le> tm_min t" "0 \<le> tm_hour t" "0 \<le> tm_mday t" "0 \<le> tm_mon t" "tm_mon t < 12" "0 \<le> tm_wday t" "tm_wday t < 7"
    using t by (auto simp: valid_tm_def)
  let ?s = "expand tzname t http_date_fmt"
  note d = date_text [of t tzname]
  have first: "first_match date_formats ?s =
      Some [VInt (tm_mday t), VStr (take 3 (mname ! nat (tm_mon t))), VInt (year_of t), VInt (tm_hour t), VInt (tm_min t), VInt (tm_sec t)]"
  proof -
    have "sscanf (SInt # f) ?s = []" for f using d y day_text(1) [OF v(7,8)] by simp
    then have "sscanf (date_formats ! 0) ?s = []" "sscanf (date_formats ! 1) ?s = []" by (simp_all add: date_formats_def)
    moreover have "sscanf (date_formats ! 2) ?s =
        [VInt (tm_mday t), VStr (take 3 (mname ! nat (tm_mon t))), VInt (year_of t), VInt (tm_hour t), VInt (tm_min t), VInt (tm_sec t)]"
      using v y by (simp add: date_formats_def d day_text(2) [simplified] month_text [simplified] not_space_digit scan_num_prec isspace_def isdigit_def
          chat_def year_of_def)
    ultimately show ?thesis by (simp add: date_formats_def)
  qed
  show ?thesis
    unfolding date_to_epoch_def first using month_text(1) [OF v(5,6)] v(5) y by (simp add: Let_def year_of_def)
qed

lemma date_no_NUL:
  assumes "valid_tm t"
  shows "NUL \<notin> set (expand tzname t http_date_fmt)" "length (expand tzname t http_date_fmt) \<le> 25 + length (prec 4 (year_of t))"
proof -
  have y: "1 \<le> year_of t" and v: "0 \<le> tm_sec t" "tm_sec t < 100" "0 \<le> tm_min t" "tm_min t < 100" "0 \<le> tm_hour t" "tm_hour t < 100"
    "0 \<le> tm_mday t" "tm_mday t < 100" and n: "nat (tm_wday t) < 7" "nat (tm_mon t) < 12"
    using assms by (auto simp: valid_tm_def)
  have p: "NUL \<notin> set (prec k i)" for k i
    using dec_digits [of "nat \<bar>i\<bar>"] by (auto simp: prec_def Let_def list_all_iff isdigit_def)
  have "\<forall>s\<in>set dname \<union> set mname. NUL \<notin> set s" by (auto simp: dname_def mname_def)
  moreover have "dname ! nat (tm_wday t) \<in> set dname" "mname ! nat (tm_mon t) \<in> set mname"
    using n by (intro nth_mem; simp add: dname_def mname_def)+
  ultimately have "NUL \<notin> set (take 3 (dname ! nat (tm_wday t)))" "NUL \<notin> set (take 3 (mname ! nat (tm_mon t)))"
    using set_take_subset by fastforce+
  then show "NUL \<notin> set (expand tzname t http_date_fmt)" using p by (simp add: date_text [OF y])
  show "length (expand tzname t http_date_fmt) \<le> 25 + length (prec 4 (year_of t))" using v by (simp add: date_text [OF y])
qed

lemma length_year: "0 \<le> y \<Longrightarrow> y < 100000 \<Longrightarrow> length (prec 4 y) \<le> 5"
proof -
  assume y: "0 \<le> y" "y < 100000"
  have step: "length (dec n) \<le> Suc k" if "\<And>m. m < b \<Longrightarrow> length (dec m) \<le> k" "n < 10 * b" "1 \<le> k" for n b k
    using that by (subst dec.simps) (simp add: less_mult_imp_div_less mult.commute)
  have "length (dec n) \<le> 1" if "n < 10" for n using dec_small(1) [OF that] by simp
  then have "length (dec n) \<le> 2" if "n < 100" for n using step [of 10 1 n] that by simp
  then have "length (dec n) \<le> 3" if "n < 1000" for n using step [of 100 2 n] that by simp
  then have "length (dec n) \<le> 4" if "n < 10000" for n using step [of 1000 3 n] that by simp
  then have "length (dec n) \<le> 5" if "n < 100000" for n using step [of 10000 4 n] that by simp
  then have "length (dec (nat y)) \<le> 5" using y by simp
  then show ?thesis using y(1) by (simp add: prec_def Let_def)
qed

text \<open>C18: Dates of files. On Windows CE the server writes the date of a file into a header with \<open>localtime\<close> and \<open>strftime\<close>, and a client
  sends it back in \<open>If-Modified-Since\<close>, where \<open>date_to_epoch\<close> reads it and calls \<open>mktime\<close>. If the calls of Windows undo each other for
  this time, the number of seconds comes back, so a file that did not change is found not modified.\<close>

theorem date_roundtrip:
  assumes x: "\<bar>x\<bar> \<le> 2 ^ 39"
    and S: "valid_SYSTEMTIME (FileTimeToSystemTime W (FileTimeToLocalFileTime W (Convert_time_t_To_FILETIME x)))"
      "wMilliseconds (FileTimeToSystemTime W (FileTimeToLocalFileTime W (Convert_time_t_To_FILETIME x))) = 0"
    and undo: "SystemTimeToFileTime W ((FileTimeToSystemTime W (FileTimeToLocalFileTime W (Convert_time_t_To_FILETIME x)))\<lparr>wDayOfWeek := 0\<rparr>) =
        FileTimeToLocalFileTime W (Convert_time_t_To_FILETIME x)"
      "LocalFileTimeToFileTime W (FileTimeToLocalFileTime W (Convert_time_t_To_FILETIME x)) = Convert_time_t_To_FILETIME x"
    and room: "64 \<le> length m"
  shows "\<exists>t m' n. localtime W (Some x) = Some (Some t) \<and> strftime tzname t 0 64 http_date_fmt (m, 0) = Some (m', n) \<and>
    date_to_epoch (\<lambda>t. mktime W (whole_tm t)) isdst (cstr m') = x"
proof -
  let ?L = "FileTimeToLocalFileTime W (Convert_time_t_To_FILETIME x)"
  let ?S = "FileTimeToSystemTime W ?L"
  obtain t where t: "Convert_FILETIME_To_tm W ?L = Some t" "valid_tm t" "1970 \<le> year_of t" "year_of t \<le> 30827"
    "year_of t = uint (wYear ?S)" "tm_mon t + 1 = uint (wMonth ?S)" "tm_mday t = uint (wDay ?S)" "tm_hour t = uint (wHour ?S)"
    "tm_min t = uint (wMinute ?S)" "tm_sec t = uint (wSecond ?S)"
    using tm_of_FILETIME [OF S(1)] by (auto simp: Let_def)
  let ?text = "expand tzname t http_date_fmt"
  have "length ?text < 64" using date_no_NUL(2) [OF t(2), of tzname] length_year [of "year_of t"] t(3,4) by linarith
  then have "strftime tzname t 0 64 http_date_fmt (m, 0) = Some (overwrite m 0 (?text @ [NUL]), of_nat (length ?text))"
    using strftime_writes [of t 0 64 tzname http_date_fmt "(m, 0)"] t(2) room by (simp add: roomy_def date_no_offset)
  moreover have "cstr (overwrite m 0 (?text @ [NUL])) = ?text"
    using date_no_NUL(1) [OF t(2), of tzname] by (simp add: overwrite_def)
  moreover have "Convert_tm_To_FILETIME W (whole_tm \<lparr>tm_sec = tm_sec t, tm_min = tm_min t, tm_hour = tm_hour t, tm_mday = tm_mday t,
      tm_mon = tm_mon t, tm_year = tm_year t, tm_isdst = isdst\<rparr>) = ?L"
  proof -
    have "tm_year t + 1900 = uint (wYear ?S)" using t(5) by (simp add: year_of_def)
    then have "\<lparr>wYear = of_int (tm_year t + 1900), wMonth = of_int (tm_mon t + 1), wDayOfWeek = of_int 0, wDay = of_int (tm_mday t),
        wHour = of_int (tm_hour t), wMinute = of_int (tm_min t), wSecond = of_int (tm_sec t), wMilliseconds = 0\<rparr> = ?S\<lparr>wDayOfWeek := 0\<rparr>"
      using t(6-) S(2) by (cases ?S) simp
    then show ?thesis using undo(1) by (simp add: Convert_tm_To_FILETIME_def whole_tm_def)
  qed
  ultimately show ?thesis
    using t(1,3) date_parse [OF t(2), of "\<lambda>t. mktime W (whole_tm t)" isdst tzname] undo(2) time_t_FILETIME [OF x]
    by (simp add: localtime_def mktime_def)
qed

text \<open>Calls of Windows on the first day of 1970, local time one hour east.\<close>

definition sample_windows :: windows where
  "sample_windows =
     (let sys = (\<lambda>f. let x = convert_FILETIME_to_time_t f
            in \<lparr>wYear = 1970, wMonth = 1, wDayOfWeek = 4, wDay = 1, wHour = of_int (x div 3600), wMinute = of_int (x div 60 mod 60),
                wSecond = of_int (x mod 60), wMilliseconds = 0\<rparr>);
          shift = (\<lambda>d f. Convert_time_t_To_FILETIME (convert_FILETIME_to_time_t f + d))
      in \<lparr>FileTimeToSystemTime = sys,
          SystemTimeToFileTime = \<lambda>s. Convert_time_t_To_FILETIME (uint (wHour s) * 3600 + uint (wMinute s) * 60 + uint (wSecond s)),
          FileTimeToLocalFileTime = shift 3600, LocalFileTimeToFileTime = shift (- 3600),
          GetSystemTime = sys (Convert_time_t_To_FILETIME 0)\<rparr>)"

theorem date_roundtrip_witness:
  "\<exists>t m' n. localtime sample_windows (Some 30617) = Some (Some t) \<and>
    strftime (''CET'', ''CEST'') t 0 64 http_date_fmt (replicate 64 NUL, 0) = Some (m', n) \<and>
    date_to_epoch (\<lambda>t. mktime sample_windows (whole_tm t)) 0 (cstr m') = 30617"
  by (rule date_roundtrip) (simp_all add: sample_windows_def Let_def time_t_FILETIME valid_SYSTEMTIME_def)

end
