(* ===== verification/WinErrno.thy ===== *)
theory WinErrno
  imports Prelude "HOL-Library.Monad_Syntax"
begin

text \<open>
  The emulation of \<open>errno\<close> on Windows CE (\<open>compat_wince.c\<close>): a pointer to a function that returns the place of the
  error number of the running thread, switched between one place for the main thread and thread-local storage. \<open>None\<close> is
  \<open>ExitProcess(3)\<close>, or the use of a critical section that was not initialised.
\<close>

section \<open>The state\<close>

text \<open>Threads are numbers, 0 is the main thread; a new thread brings a place of its own.\<close>

datatype place = Errno_Storage | Thread_Storage nat

datatype errno_function = Initialize_Errno_Function | Main_Thread_Function | Thread_Function

record errno_state =
  pointer_function :: errno_function
  slot :: bool
  tls :: "nat \<Rightarrow> place option"
  Number_Of_Threads :: int
  section_ready :: bool

definition errno_start :: errno_state where
  "errno_start = \<lparr>pointer_function = Initialize_Errno_Function, slot = False, tls = (\<lambda>th. None), Number_Of_Threads = 0,
     section_ready = False\<rparr>"

section \<open>The operations\<close>

text \<open>
  \<open>Initialize_Thread_Errno\<close> up to the critical section, and the critical section. \<open>alloc\<close> and \<open>tset\<close>: \<open>TlsAlloc\<close> and
  \<open>TlsSetValue\<close> succeed.
\<close>

definition set_thread_errno :: "bool \<Rightarrow> bool \<Rightarrow> nat \<Rightarrow> place \<Rightarrow> errno_state \<Rightarrow> errno_state option" where
  "set_thread_errno alloc tset th p s =
     (if \<not> slot s \<and> \<not> alloc then None
      else
        let s = s\<lparr>slot := True\<rparr>;
            s = (if Number_Of_Threads s = 0 then s\<lparr>section_ready := True\<rparr> else s)
        in if tset then Some (s\<lparr>tls := (tls s)(th := Some p)\<rparr>) else None)"

definition count_thread :: "errno_state \<Rightarrow> errno_state option" where
  "count_thread s =
     (if \<not> section_ready s then None
      else
        let s = s\<lparr>Number_Of_Threads := Number_Of_Threads s + 1\<rparr>
        in Some (if 1 < Number_Of_Threads s then s\<lparr>pointer_function := Thread_Function\<rparr> else s))"

definition Initialize_Thread_Errno :: "bool \<Rightarrow> bool \<Rightarrow> nat \<Rightarrow> place \<Rightarrow> errno_state \<Rightarrow> errno_state option" where
  "Initialize_Thread_Errno alloc tset th p s = do { s1 \<leftarrow> set_thread_errno alloc tset th p s; count_thread s1 }"

definition Initialize_Errno :: "bool \<Rightarrow> bool \<Rightarrow> nat \<Rightarrow> errno_state \<Rightarrow> (errno_state \<times> place) option" where
  "Initialize_Errno alloc tset th s = do {
     s1 \<leftarrow> Initialize_Thread_Errno alloc tset th Errno_Storage s;
     Some (s1\<lparr>pointer_function := Main_Thread_Function\<rparr>, Errno_Storage)
   }"

definition WinCE_Errno_New_Thread :: "bool \<Rightarrow> bool \<Rightarrow> nat \<Rightarrow> place \<Rightarrow> errno_state \<Rightarrow> errno_state option" where
  "WinCE_Errno_New_Thread alloc tset th p s = Initialize_Thread_Errno alloc tset th p s"

definition WinCE_Errno_Thread_Exit :: "errno_state \<Rightarrow> errno_state option" where
  "WinCE_Errno_Thread_Exit s =
     (if \<not> section_ready s then None
      else
        let s = s\<lparr>Number_Of_Threads := Number_Of_Threads s - 1\<rparr>
        in Some (if Number_Of_Threads s \<le> 1 then s\<lparr>pointer_function := Main_Thread_Function\<rparr> else s))"

text \<open>\<open>Get_Main_Thread_Errno\<close>, \<open>Get_Thread_Errno\<close>, and the macro \<open>errno\<close>: the place that is read or written, if any.\<close>

definition Get_Main_Thread_Errno :: "errno_state \<Rightarrow> place option" where
  "Get_Main_Thread_Errno s = Some Errno_Storage"

definition Get_Thread_Errno :: "nat \<Rightarrow> errno_state \<Rightarrow> place option" where
  "Get_Thread_Errno th s = tls s th"

definition errno_place :: "bool \<Rightarrow> bool \<Rightarrow> nat \<Rightarrow> errno_state \<Rightarrow> (errno_state \<times> place option) option" where
  "errno_place alloc tset th s =
     (case pointer_function s of
        Initialize_Errno_Function \<Rightarrow> map_option (\<lambda>(s1, p). (s1, Some p)) (Initialize_Errno alloc tset th s)
      | Main_Thread_Function \<Rightarrow> Some (s, Get_Main_Thread_Errno s)
      | Thread_Function \<Rightarrow> Some (s, Get_Thread_Errno th s))"

section \<open>Threads\<close>

text \<open>
  The protocol: the main thread uses \<open>errno\<close> before there are other threads, and it does not announce its end. A thread is first
  entered in the storage, then counted; other threads run in between. The state holds the threads that are counted and those that
  are being started.
\<close>

inductive errno_step :: "nat set \<times> nat set \<times> errno_state \<Rightarrow> nat set \<times> nat set \<times> errno_state \<Rightarrow> bool" where
  begin_thread: "th \<notin> live \<union> new \<Longrightarrow> set_thread_errno True True th (Thread_Storage th) s = Some s' \<Longrightarrow>
    errno_step (live, new, s) (live, insert th new, s')"
| enter_thread: "th \<in> new \<Longrightarrow> count_thread s = Some s' \<Longrightarrow> errno_step (live, new, s) (insert th live, new - {th}, s')"
| exit_thread: "th \<in> live \<Longrightarrow> th \<noteq> 0 \<Longrightarrow> WinCE_Errno_Thread_Exit s = Some s' \<Longrightarrow> errno_step (live, new, s) (live - {th}, new, s')"
| use_errno: "th \<in> live \<Longrightarrow> errno_place True True th s = Some (s', p) \<Longrightarrow> errno_step (live, new, s) (live, new, s')"

inductive errno_run :: "nat set \<times> nat set \<times> errno_state \<Rightarrow> bool" where
  first_use: "errno_place True True 0 errno_start = Some (s, p) \<Longrightarrow> errno_run ({0}, {}, s)"
| next_step: "errno_run c \<Longrightarrow> errno_step c c' \<Longrightarrow> errno_run c'"

text \<open>The place that belongs to a thread.\<close>

definition own :: "nat \<Rightarrow> place" where
  "own th = (if th = 0 then Errno_Storage else Thread_Storage th)"

lemma own_inj: "own th = own th' \<longleftrightarrow> th = th'"
  by (auto simp: own_def)

definition errno_inv :: "nat set \<times> nat set \<times> errno_state \<Rightarrow> bool" where
  "errno_inv = (\<lambda>(live, new, s). finite live \<and> finite new \<and> 0 \<in> live \<and> live \<inter> new = {} \<and> slot s \<and> section_ready s \<and>
     Number_Of_Threads s = int (card live) \<and> (\<forall>th\<in>live \<union> new. tls s th = Some (own th)) \<and>
     pointer_function s = (if card live = 1 then Main_Thread_Function else Thread_Function))"

lemma errno_inv_first: "errno_place True True 0 errno_start = Some (s, p) \<Longrightarrow> errno_inv ({0}, {}, s)"
  by (auto simp: errno_place_def errno_start_def Initialize_Errno_def Initialize_Thread_Errno_def set_thread_errno_def count_thread_def Let_def
      errno_inv_def own_def)

lemma card_live: "errno_inv (live, new, s) \<Longrightarrow> 1 \<le> card live"
  by (auto simp: errno_inv_def Suc_le_eq card_gt_0_iff)

lemma errno_inv_begin:
  "errno_inv (live, new, s) \<Longrightarrow> th \<notin> live \<union> new \<Longrightarrow> set_thread_errno True True th (Thread_Storage th) s = Some s' \<Longrightarrow>
    errno_inv (live, insert th new, s')"
  using card_live [of live new s] by (auto simp: errno_inv_def set_thread_errno_def Let_def own_def)

lemma errno_inv_enter:
  assumes "errno_inv (live, new, s)" "th \<in> new" "count_thread s = Some s'"
  shows "errno_inv (insert th live, new - {th}, s')"
proof -
  have "card (insert th live) = Suc (card live)" using assms by (auto simp: errno_inv_def intro: card_insert_disjoint)
  then show ?thesis using assms card_live [OF assms(1)] by (auto simp: errno_inv_def count_thread_def Let_def)
qed

lemma errno_inv_exit:
  assumes "errno_inv (live, new, s)" "th \<in> live" "th \<noteq> 0" "WinCE_Errno_Thread_Exit s = Some s'"
  shows "errno_inv (live - {th}, new, s')"
proof -
  have live: "finite live" "0 \<in> live - {th}" using assms by (auto simp: errno_inv_def)
  have "card live = Suc (card (live - {th}))" using live(1) assms(2) by (simp only: card_Suc_Diff1)
  moreover have "0 < card (live - {th})" using live by (auto simp: card_gt_0_iff)
  ultimately show ?thesis
    using assms live by (cases "card (live - {th}) = 1") (auto simp: errno_inv_def WinCE_Errno_Thread_Exit_def Let_def split: if_splits)
qed

lemma errno_inv_use:
  "errno_inv (live, new, s) \<Longrightarrow> errno_place True True th s = Some (s', p) \<Longrightarrow> errno_inv (live, new, s')"
  by (auto simp: errno_inv_def errno_place_def split: if_splits)

lemma errno_inv_step: "errno_step c c' \<Longrightarrow> errno_inv c \<Longrightarrow> errno_inv c'"
  by (induction rule: errno_step.induct) (auto intro: errno_inv_begin errno_inv_enter errno_inv_exit errno_inv_use)

lemma errno_run_inv: "errno_run c \<Longrightarrow> errno_inv c"
  by (induction rule: errno_run.induct) (auto intro: errno_inv_first errno_inv_step)

text \<open>C19: Every thread has an error number of its own. Whatever threads start, run and end, in any order, once the main thread has used
  \<open>errno\<close>: in a thread that runs, \<open>errno\<close> is the place that belongs to it, the macro changes nothing, and no other thread has this place. The
  one-thread function is installed exactly while the main thread is alone.\<close>

theorem errno_per_thread:
  assumes "errno_run (live, new, s)" "th \<in> live"
  shows "errno_place alloc tset th s = Some (s, Some (own th)) \<and> (\<forall>th'. th' \<noteq> th \<longrightarrow> own th' \<noteq> own th) \<and>
    (pointer_function s = Main_Thread_Function \<longleftrightarrow> live = {0})"
proof -
  note inv = errno_run_inv [OF assms(1)]
  have single: "card live = 1 \<longleftrightarrow> live = {0}" using inv by (auto simp: errno_inv_def card_1_singleton_iff)
  show ?thesis
    using inv assms(2) single
    by (auto simp: errno_inv_def errno_place_def Get_Main_Thread_Errno_def Get_Thread_Errno_def own_inj) (auto simp: own_def)
qed

theorem errno_per_thread_witness:
  "\<exists>s. errno_place True True 7 s = Some (s, Some (own 7)) \<and> (\<forall>th'. th' \<noteq> 7 \<longrightarrow> own th' \<noteq> own 7) \<and>
    (pointer_function s = Main_Thread_Function \<longleftrightarrow> {7, 0} = {0 :: nat})"
proof -
  obtain s0 where s0: "errno_run ({0}, {}, s0)" by (rule that, rule first_use)
      (simp add: errno_place_def errno_start_def Initialize_Errno_def Initialize_Thread_Errno_def set_thread_errno_def count_thread_def Let_def)
  have "\<exists>s1. errno_step ({0}, {}, s0) ({0}, {7}, s1)"
    using begin_thread [of 7 "{0}" "{}" s0] by (auto simp: set_thread_errno_def Let_def)
  then obtain s1 where s1: "errno_run ({0}, {7}, s1)" using next_step [OF s0] by blast
  have "\<exists>s2. errno_step ({0}, {7}, s1) ({7, 0}, {}, s2)"
    using enter_thread [of 7 "{7}" s1 _ "{0}"] errno_run_inv [OF s1] by (auto simp: count_thread_def Let_def errno_inv_def)
  then obtain s2 where "errno_run ({7, 0}, {}, s2)" using next_step [OF s1] by blast
  from errno_per_thread [OF this, of 7] show ?thesis by blast
qed

text \<open>Outside the protocol: a thread that is announced before the main thread used \<open>errno\<close> gets the place of the main thread, and
  so does every other.\<close>

lemma errno_shared_before_main:
  "\<exists>s1 s2. WinCE_Errno_New_Thread True True 1 (Thread_Storage 1) errno_start = Some s1 \<and>
    errno_place True True 1 s1 = Some (s2, Some Errno_Storage) \<and> errno_place True True th s2 = Some (s2, Some Errno_Storage)"
  by (simp add: WinCE_Errno_New_Thread_def errno_place_def errno_start_def Initialize_Errno_def Initialize_Thread_Errno_def set_thread_errno_def
      count_thread_def Let_def Get_Main_Thread_Errno_def)

end
