(* ===== verification/WinPath.thy ===== *)
theory WinPath
  imports Reply
begin

text \<open>
  File names on Windows (\<open>compat_win32.c\<close>): the separators of a path before it is handed to the system, and what becomes of
  the paths that the server builds from targets of requests.
\<close>

section \<open>The code\<close>

abbreviation BS :: char where
  "BS \<equiv> CHR 0x5C"

definition MAX_PATH :: nat where
  "MAX_PATH = 260"

definition is_sep :: "char \<Rightarrow> bool" where
  "is_sep c \<longleftrightarrow> c = CHR ''/'' \<or> c = BS"

text \<open>Separators that follow a separator are moved out, one at a time.\<close>

function fix_directory_separators :: "string \<Rightarrow> string" where
  "fix_directory_separators [] = []"
| "fix_directory_separators (c # s) =
     (if is_sep c then BS # fix_directory_separators (dropWhile is_sep s) else c # fix_directory_separators s)"
  by pat_completeness auto
termination
  by (relation "measure length") (auto simp: le_imp_less_Suc length_dropWhile_le)

text \<open>The name \<open>my_open\<close>, \<open>my_remove\<close>, \<open>my_mkdir\<close> and \<open>my_rename\<close> give to the system, before it is made wide.\<close>

definition win_name :: "string \<Rightarrow> string" where
  "win_name path = fix_directory_separators (cstr (my_strlcpy path MAX_PATH))"

text \<open>\<open>my_stat\<close> takes trailing separators off, but not the one of a drive or of the root.\<close>

fun strip_tail :: "string \<Rightarrow> string" where
  "strip_tail (x # y # s) = (if x = BS \<and> y \<noteq> CHR '':'' then strip_tail (y # s) else x # y # s)"
| "strip_tail s = s"

definition stat_name :: "string \<Rightarrow> string" where
  "stat_name path = rev (strip_tail (rev (win_name path)))"

section \<open>Lemmas\<close>

lemma fix_no_slash: "CHR ''/'' \<notin> set (fix_directory_separators s)"
  by (induction s rule: fix_directory_separators.induct) (auto simp: is_sep_def)

lemma fix_first: "chd (fix_directory_separators s) = (if is_sep (chd s) then BS else chd s)"
  by (cases s) (auto simp: is_sep_def)

lemma chd_dropWhile: "\<not> is_sep (chd (dropWhile is_sep s))"
  by (induction s) (simp_all, simp add: is_sep_def)

lemma strstr_two: "strstr (c # s) [a, b] \<longleftrightarrow> c = a \<and> s \<noteq> [] \<and> chd s = b \<or> strstr s [a, b]"
  by (cases s) auto

lemma fix_single: "\<not> strstr (fix_directory_separators s) [BS, BS]"
proof (induction s rule: fix_directory_separators.induct)
  case (2 c s)
  show ?case
  proof (cases "is_sep c")
    case True
    have "chd (fix_directory_separators (dropWhile is_sep s)) \<noteq> BS"
      unfolding fix_first using chd_dropWhile [of s] by (auto simp: is_sep_def)
    then show ?thesis using True 2(1) by (simp del: strstr.simps add: strstr_two)
  next
    case False
    then have "c \<noteq> BS" by (simp add: is_sep_def)
    then show ?thesis using False 2(2) by (simp del: strstr.simps add: strstr_two)
  qed
qed simp

lemma fix_append:
  "(s \<noteq> [] \<longrightarrow> \<not> is_sep (last s)) \<Longrightarrow> fix_directory_separators (s @ r) = fix_directory_separators s @ fix_directory_separators r"
proof (induction s rule: fix_directory_separators.induct)
  case (2 c s)
  show ?case
  proof (cases "is_sep c")
    case True
    then have "s \<noteq> []" "\<not> is_sep (last s)" using 2(3) by (auto split: if_splits)
    then have "dropWhile is_sep (s @ r) = dropWhile is_sep s @ r" "dropWhile is_sep s \<noteq> [] \<longrightarrow> \<not> is_sep (last (dropWhile is_sep s))"
      using dropWhile_append1 [of "last s" s is_sep r] dropWhile_last [of "last s" s is_sep] by auto
    then show ?thesis using True 2(1) by simp
  next
    case False
    then show ?thesis using 2 by (auto split: if_splits)
  qed
qed simp

text \<open>In a cleaned URI without backslashes only the slashes change.\<close>

lemma fix_clean: "clean s \<Longrightarrow> BS \<notin> set s \<Longrightarrow> fix_directory_separators s = map (\<lambda>c. if c = CHR ''/'' then BS else c) s"
proof (induction s)
  case (Cons c s)
  then have s: "clean s" "c = CHR ''/'' \<Longrightarrow> chd s \<noteq> CHR ''/''" "BS \<notin> set s" by (auto simp: clean_Cons)
  have "dropWhile is_sep s = s" if "c = CHR ''/''" using s that by (cases s) (auto simp: is_sep_def)
  then show ?case using Cons s by (auto simp: is_sep_def)
qed simp

lemma clean_map: "clean s \<Longrightarrow> BS \<notin> set s \<Longrightarrow> \<not> strstr (map (\<lambda>c. if c = CHR ''/'' then BS else c) s) [BS, CHR ''.'']"
proof (induction s)
  case (Cons c s)
  then show ?case by (cases s) (auto simp: clean_Cons)
qed simp

section \<open>Paths of requests\<close>

lemma win_name_file_path:
  assumes "NUL \<notin> set uri" "is_alias (ctx_aliases ctx) uri = None"
    and "length uri + length (str_of (document_root ctx)) < MAX_PATH" "NUL \<notin> set (str_of (document_root ctx))"
    and "str_of (document_root ctx) = root" "root \<noteq> []" "\<not> is_sep (last root)"
  shows "win_name (file_path ctx uri) = fix_directory_separators root @ fix_directory_separators uri"
proof -
  let ?p = "root @ uri"
  have "my_snprintf URI_MAX ?p = (length ?p, ?p @ [NUL])"
    by (rule my_snprintf_fits) (use assms(3,5) in \<open>simp add: MAX_PATH_def URI_MAX_def\<close>)
  then have "file_path ctx uri = ?p"
    using assms(1,2,4,5) cstr_append_NUL [of ?p "[]"] by (simp add: file_path_def del: cstr_append_NUL)
  moreover have "my_strlcpy ?p MAX_PATH = ?p @ [NUL]"
    using my_strlcpy_take [of ?p MAX_PATH] assms(1,3,4,5) by simp
  ultimately show ?thesis
    using assms(1,4-7) fix_append [of root uri] cstr_append_NUL [of ?p "[]"] by (simp add: win_name_def del: cstr_append_NUL)
qed



text \<open>A backslash in the target is a separator only for Windows: the name leaves the document root.\<close>

lemma windows_escape:
  "map_option fst (clean_uri [NUL, NUL] (''/'' @ BS # ''..'' @ BS # ''secret'')) = Some (''/'' @ BS # ''..'' @ BS # ''secret'')"
  "win_name (file_path demo_ctx (''/'' @ BS # ''..'' @ BS # ''secret'')) = BS # ''w'' @ BS # ''..'' @ BS # ''secret''"
proof -
  show "map_option fst (clean_uri [NUL, NUL] (''/'' @ BS # ''..'' @ BS # ''secret'')) = Some (''/'' @ BS # ''..'' @ BS # ''secret'')"
    by code_simp
  have a: "is_alias (ctx_aliases demo_ctx) (''/'' @ BS # ''..'' @ BS # ''secret'') = None" by code_simp
  show "win_name (file_path demo_ctx (''/'' @ BS # ''..'' @ BS # ''secret'')) = BS # ''w'' @ BS # ''..'' @ BS # ''secret''"
    by (subst win_name_file_path [OF _ a, of "''/w''"]) (simp_all add: demo_ctx_def str_of_Some MAX_PATH_def is_sep_def)
qed

end
